(* ===== verification/Gambit_Prelude.thy ===== *)
theory Gambit_Prelude
  imports Main "HOL-Library.Word" "HOL-Library.Multiset"
begin

text \<open>
  Shared vocabulary of the development: the machine integers of the C++ sources, byte vectors,
  C++ exceptions as values of a sum type, the conversions between \<open>std::string\<close> and byte vectors,
  big-endian numbers, and the interface of an encoder with its decoder.
  The named collections \<open>byte_simps\<close>, \<open>result_simps\<close> and \<open>be_simps\<close> carry the component proofs.
\<close>

named_theorems byte_simps "conversions between bytes, characters and numbers"
named_theorems result_simps "the exception sum"
named_theorems be_simps "big-endian numbers"

section \<open>Machine types\<close>

type_synonym byte = "8 word"
type_synonym u16 = "16 word"
type_synonym u32 = "32 word"
type_synonym u64 = "64 word"
type_synonym bytes = "byte list"

section \<open>Exceptions\<close>

text \<open>
  \<open>Runtime_error\<close> carries the message of a \<open>std::runtime_error\<close>; \<open>Invalid_argument\<close> and
  \<open>Out_of_range\<close> are what the standard library's number parsers throw; \<open>Undefined\<close> marks an
  execution the C++ standard leaves undefined.
\<close>

datatype exn = Runtime_error string | Invalid_argument | Out_of_range | Undefined

type_synonym 'a result = "exn + 'a"

text \<open>A call that may end the whole program through \<open>std::terminate\<close>.\<close>

datatype 'a surviving = Terminated | Alive 'a

text \<open>\<open>e.what()\<close>; the number parsers report the name of the C function, which no result depends on.\<close>

fun exn_what :: "exn \<Rightarrow> string" where
  "exn_what (Runtime_error s) = s"
| "exn_what e = []"

definition bindR :: "'a result \<Rightarrow> ('a \<Rightarrow> 'b result) \<Rightarrow> 'b result" where
  "bindR m f = (case m of Inl e \<Rightarrow> Inl e | Inr x \<Rightarrow> f x)"

fun mapR :: "('a \<Rightarrow> 'b result) \<Rightarrow> 'a list \<Rightarrow> 'b list result" where
  "mapR f [] = Inr []"
| "mapR f (x # xs) = bindR (f x) (\<lambda>y. bindR (mapR f xs) (\<lambda>ys. Inr (y # ys)))"

lemma bindR_simps [simp, result_simps]:
  "bindR (Inl e) f = Inl e"
  "bindR (Inr x) f = f x"
  by (simp_all add: bindR_def)

lemma bindR_Inr_iff [result_simps]:
  "bindR m f = Inr y \<longleftrightarrow> (\<exists>x. m = Inr x \<and> f x = Inr y)"
  by (cases m) auto

lemma bindR_cong [fundef_cong]:
  "m = m' \<Longrightarrow> (\<And>x. m' = Inr x \<Longrightarrow> f x = g x) \<Longrightarrow> bindR m f = bindR m' g"
  by (cases m') auto

lemma mapR_map_Inr:
  "(\<And>x. x \<in> set xs \<Longrightarrow> f (g x) = Inr (h x)) \<Longrightarrow> mapR f (map g xs) = Inr (map h xs)"
  by (induction xs) auto

section \<open>Strings and byte vectors\<close>

definition byte_of_char :: "char \<Rightarrow> byte" where
  "byte_of_char c = word_of_nat (of_char c)"

definition char_of_byte :: "byte \<Rightarrow> char" where
  "char_of_byte b = char_of (unat b)"

definition bytes_of_string :: "string \<Rightarrow> bytes" where
  "bytes_of_string s = map byte_of_char s"

definition string_of_bytes :: "bytes \<Rightarrow> string" where
  "string_of_bytes b = map char_of_byte b"

lemma of_char_less_256 [simp]: "of_char c < (256 :: nat)"
  using of_char_mod_256 [of c, where 'a = nat] by (metis mod_less_divisor zero_less_numeral)

lemma char_of_byte_of_char [simp, byte_simps]: "char_of_byte (byte_of_char c) = c"
  by (simp add: char_of_byte_def byte_of_char_def unat_of_nat)

lemma unat_byte_less_256 [simp]: "unat (b :: byte) < 256"
  using unsigned_less [of b, where ?'a = nat] by simp

lemma unat_inject [simp, byte_simps]: "unat (a :: 'a::len word) = unat b \<longleftrightarrow> a = b"
  by (rule word_unat_eq_iff [symmetric])

lemma unat_ucast_byte [simp, byte_simps]: "unat (ucast (b :: byte) :: u64) = unat b"
proof -
  have "unat b < 2 ^ 64" using unat_byte_less_256 [of b] by (rule less_trans) simp
  then show ?thesis by (simp add: unsigned_ucast_eq take_bit_nat_eq_self)
qed

lemma byte_of_char_of_byte [simp, byte_simps]: "byte_of_char (char_of_byte b) = b"
  by (simp add: char_of_byte_def byte_of_char_def)

lemma string_of_bytes_of_string [simp, byte_simps]: "string_of_bytes (bytes_of_string s) = s"
  by (simp add: string_of_bytes_def bytes_of_string_def o_def)

lemma bytes_of_string_of_bytes [simp, byte_simps]: "bytes_of_string (string_of_bytes b) = b"
  by (simp add: string_of_bytes_def bytes_of_string_def o_def)

lemma length_bytes_of_string [simp, byte_simps]: "length (bytes_of_string s) = length s"
  by (simp add: bytes_of_string_def)

lemma bytes_of_string_eq_iff [simp, byte_simps]:
  "bytes_of_string s = bytes_of_string t \<longleftrightarrow> s = t"
  by (metis string_of_bytes_of_string)

section \<open>Big-endian numbers\<close>

text \<open>
  \<open>be_bytes n acc\<close> is the loop \<open>while (n > 0) { acc.insert(begin, n & 0xFF); n >>= 8; }\<close> that
  the RLP encoder runs twice; \<open>be_value\<close> is the mathematical value of a byte string.
\<close>

fun be_bytes :: "nat \<Rightarrow> bytes \<Rightarrow> bytes" where
  "be_bytes n acc = (if n > 0 then be_bytes (n div 256) (word_of_nat (n mod 256) # acc) else acc)"

declare be_bytes.simps [simp del]

definition be_value :: "bytes \<Rightarrow> nat" where
  "be_value bs = foldl (\<lambda>v b. v * 256 + unat b) 0 bs"

text \<open>The loop \<open>for (c : b) v = (v << 8) | c\<close> on a 64-bit accumulator, wrap-around included.\<close>

definition be_u64 :: "bytes \<Rightarrow> u64" where
  "be_u64 bs = foldl (\<lambda>v b. or (push_bit 8 v) (ucast b)) 0 bs"

lemma be_value_Nil [simp, be_simps]: "be_value [] = 0"
  by (simp add: be_value_def)

lemma be_value_snoc [simp, be_simps]: "be_value (bs @ [b]) = be_value bs * 256 + unat b"
  by (simp add: be_value_def)

lemma be_value_append: "be_value (as @ bs) = be_value as * 256 ^ length bs + be_value bs"
proof (induction bs rule: rev_induct)
  case (snoc b bs)
  then have "be_value ((as @ bs) @ [b]) = (be_value as * 256 ^ length bs + be_value bs) * 256 + unat b"
    by (simp only: be_value_snoc)
  then show ?case by (simp add: algebra_simps)
qed simp

lemma be_value_Cons: "be_value (b # bs) = unat b * 256 ^ length bs + be_value bs"
  using be_value_append [of "[b]" bs] by (simp add: be_value_def)

lemma be_value_bound: "be_value bs < 256 ^ length bs"
proof (induction bs rule: rev_induct)
  case (snoc b bs)
  have "be_value bs * 256 + unat b < be_value bs * 256 + 256" by simp
  also have "\<dots> = (be_value bs + 1) * 256" by simp
  also have "\<dots> \<le> 256 ^ length bs * 256" using snoc by (intro mult_le_mono) auto
  finally show ?case by simp
qed simp

lemma be_bytes_append: "be_bytes n acc = be_bytes n [] @ acc"
proof (induction n arbitrary: acc rule: less_induct)
  case (less n)
  show ?case
  proof (cases "n > 0")
    case True
    then have lt: "n div 256 < n" by simp
    show ?thesis
      using True less.IH [OF lt, of "word_of_nat (n mod 256) # acc"]
        less.IH [OF lt, of "[word_of_nat (n mod 256)]"]
      by (simp add: be_bytes.simps [of n])
  qed (simp add: be_bytes.simps)
qed

lemma be_bytes_rec: "n > 0 \<Longrightarrow> be_bytes n [] = be_bytes (n div 256) [] @ [word_of_nat (n mod 256)]"
  by (subst be_bytes.simps) (simp add: be_bytes_append [of _ "[_]"])

lemma be_bytes_0 [simp, be_simps]: "be_bytes 0 [] = []"
  by (simp add: be_bytes.simps)

lemma unat_byte_of_nat_mod [simp]: "unat (word_of_nat (n mod 256) :: byte) = n mod 256"
  by (simp add: unat_of_nat)

lemma be_value_be_bytes [simp, be_simps]: "be_value (be_bytes n []) = n"
proof (induction n rule: less_induct)
  case (less n)
  show ?case
  proof (cases "n > 0")
    case True
    then show ?thesis using less.IH [of "n div 256"] by (simp add: be_bytes_rec)
  qed simp
qed

lemma be_bytes_Nil_iff [simp, be_simps]: "be_bytes n [] = [] \<longleftrightarrow> n = 0"
  by (metis be_bytes_0 be_value_be_bytes be_value_Nil)

lemma length_be_bytes_le: "n < 256 ^ k \<Longrightarrow> length (be_bytes n []) \<le> k"
proof (induction k arbitrary: n)
  case (Suc k)
  show ?case
  proof (cases "n > 0")
    case True
    from Suc.prems have "n div 256 < 256 ^ k"
      by (simp add: less_mult_imp_div_less mult.commute)
    then show ?thesis using Suc.IH True by (simp add: be_bytes_rec)
  qed simp
qed simp

lemma hd_be_bytes: "n > 0 \<Longrightarrow> hd (be_bytes n []) \<noteq> 0"
proof (induction n rule: less_induct)
  case (less n)
  show ?case
  proof (cases "n div 256 > 0")
    case True
    then have "be_bytes (n div 256) [] \<noteq> []" by simp
    moreover have "hd (be_bytes (n div 256) []) \<noteq> 0" using less.IH [of "n div 256"] True less.prems by simp
    ultimately show ?thesis using less.prems by (simp add: be_bytes_rec [of n])
  next
    case False
    then have small: "n < 256" by (simp add: div_eq_0_iff)
    moreover from small less.prems have "unat (word_of_nat n :: byte) \<noteq> 0" by (simp add: unat_of_nat)
    ultimately show ?thesis using less.prems by (auto simp: be_bytes_rec simp flip: unat_eq_zero)
  qed
qed

lemma or_push_bit_8_byte: "or (push_bit 8 (v :: u64)) (ucast (b :: byte)) = push_bit 8 v + ucast b"
proof (rule disjunctive_add [symmetric])
  fix n
  show "\<not> bit (push_bit 8 v) n \<or> \<not> bit (ucast b :: u64) n"
    by (cases "n < 8") (auto simp: bit_push_bit_iff bit_ucast_iff dest: bit_imp_le_length)
qed

lemma be_u64_eq: "be_u64 bs = word_of_nat (be_value bs)"
proof (induction bs rule: rev_induct)
  case (snoc b bs)
  have "be_u64 (bs @ [b]) = push_bit 8 (be_u64 bs) + ucast b"
    by (simp add: be_u64_def or_push_bit_8_byte)
  also have "\<dots> = word_of_nat (be_value bs) * 256 + ucast b"
    by (simp add: snoc push_bit_eq_mult mult.commute)
  also have "\<dots> = word_of_nat (be_value (bs @ [b]))"
    by simp
  finally show ?case .
qed (simp add: be_u64_def)

lemma be_u64_be_bytes [simp, be_simps]: "be_u64 (be_bytes (unat v) []) = v"
  by (simp add: be_u64_eq)

lemma unat_be_u64: "length bs \<le> 8 \<Longrightarrow> unat (be_u64 bs) = be_value bs"
proof -
  assume "length bs \<le> 8"
  then have "(256::nat) ^ length bs \<le> 256 ^ 8" by (intro power_increasing) auto
  with be_value_bound [of bs] have "be_value bs < 2 ^ 64" by simp
  then show ?thesis by (simp add: be_u64_eq unat_of_nat)
qed

lemma length_be_bytes_u64: "length (be_bytes (unat (v :: u64)) []) \<le> 8"
  using unsigned_less [of v, where ?'a = nat] by (intro length_be_bytes_le) simp

section \<open>Overflow tests\<close>

lemma add_no_overflow: "\<not> (a :: u64) + b < a \<longleftrightarrow> unat a + unat b < 2 ^ 64"
proof -
  have a: "unat a < 2 ^ 64" and b: "unat b < 2 ^ 64"
    using unsigned_less [of a, where ?'a = nat] unsigned_less [of b, where ?'a = nat] by simp_all
  show ?thesis
  proof (cases "unat a + unat b < 2 ^ 64")
    case False
    then have "(unat a + unat b) mod 2 ^ 64 = unat a + unat b - 2 ^ 64" using a b by (simp add: mod_if)
    then show ?thesis using False b by (simp add: word_less_nat_alt unat_word_ariths)
  qed (simp add: word_less_nat_alt unat_word_ariths)
qed

lemma mult_div_no_overflow: "\<not> ((p :: u64) \<noteq> 0 \<and> p * l div p \<noteq> l) \<longleftrightarrow> unat p * unat l < 2 ^ 64"
proof (cases "p = 0")
  case False
  then have pos: "unat p > 0" by (simp add: unat_gt_0)
  have "p * l div p = l \<longleftrightarrow> (unat p * unat l) mod 2 ^ 64 div unat p = unat l"
    by (simp add: word_unat_eq_iff [of "p * l div p"] unat_div unat_word_ariths del: unat_inject)
  also have "\<dots> \<longleftrightarrow> unat p * unat l < 2 ^ 64"
  proof
    assume "(unat p * unat l) mod 2 ^ 64 div unat p = unat l"
    then have "unat p * unat l \<le> (unat p * unat l) mod 2 ^ 64" by (metis times_div_less_eq_dividend)
    then show "unat p * unat l < 2 ^ 64" by (rule le_less_trans) simp
  qed (use pos in simp)
  finally show ?thesis using False by simp
qed simp

section \<open>Decimal numbers and separators\<close>

text \<open>\<open>std::to_string\<close> on an unsigned 64-bit value, and its inverse on numbers.\<close>

definition dec_digit :: "nat \<Rightarrow> char" where
  "dec_digit n = char_of (48 + n)"

fun dec_nat :: "nat \<Rightarrow> string" where
  "dec_nat n = (if n < 10 then [dec_digit n] else dec_nat (n div 10) @ [dec_digit (n mod 10)])"

declare dec_nat.simps [simp del]

definition to_string :: "u64 \<Rightarrow> string" where
  "to_string v = dec_nat (unat v)"

definition dec_value :: "string \<Rightarrow> nat" where
  "dec_value s = foldl (\<lambda>v c. v * 10 + (of_char c - 48)) 0 s"

lemma of_dec_digit: "n < 10 \<Longrightarrow> of_char (dec_digit n) = 48 + n"
  by (simp add: dec_digit_def)

lemma dec_value_dec_nat [simp]: "dec_value (dec_nat n) = n"
proof (induction n rule: dec_nat.induct)
  case (1 n)
  show ?case
  proof (cases "n < 10")
    case False
    then show ?thesis using 1 by (subst dec_nat.simps) (simp add: dec_value_def of_dec_digit)
  qed (simp add: dec_nat.simps dec_value_def of_dec_digit)
qed

lemma to_string_eq_iff [simp]: "to_string v = to_string w \<longleftrightarrow> v = w"
  unfolding to_string_def by (metis dec_value_dec_nat unat_inject)

lemma dec_nat_digits: "c \<in> set (dec_nat n) \<Longrightarrow> \<exists>d < 10. c = dec_digit d"
proof (induction n rule: dec_nat.induct)
  case (1 n)
  show ?case
  proof (cases "n < 10")
    case False
    then consider "c \<in> set (dec_nat (n div 10))" | "c = dec_digit (n mod 10)"
      using "1.prems" by (auto simp: dec_nat.simps [of n])
    then show ?thesis
    proof cases
      case 2
      then show ?thesis by (intro exI [of _ "n mod 10"]) simp
    qed (use 1 False in blast)
  qed (use "1.prems" in \<open>auto simp: dec_nat.simps [of n]\<close>)
qed

lemma bar_not_digit [simp]: "CHR ''|'' \<notin> set (to_string v)"
  by (auto simp: to_string_def dest!: dec_nat_digits dest: arg_cong [of _ _ "of_char :: char \<Rightarrow> nat"] simp: of_dec_digit)

lemma separator_cancel:
  "c \<notin> set a \<Longrightarrow> c \<notin> set a' \<Longrightarrow> a @ c # b = a' @ c # b' \<longleftrightarrow> a = a' \<and> b = b'"
proof (induction a arbitrary: a')
  case Nil
  then show ?case by (cases a') auto
next
  case (Cons x a)
  then show ?case by (cases a') auto
qed

section \<open>The interface of an encoder and its decoder\<close>

text \<open>
  Hex strings, addresses, RLP items and network messages come as an encoder and a decoder that may
  throw. What the clients rely on is the round trip on the values that occur; from it follows that
  the encoder is injective there and that a decoded encoding is never an error.
\<close>

locale codec =
  fixes valid :: "'a \<Rightarrow> bool"
    and enc :: "'a \<Rightarrow> 'b"
    and dec :: "'b \<Rightarrow> 'a result"
  assumes dec_enc: "valid x \<Longrightarrow> dec (enc x) = Inr x"
begin

lemma enc_eq_iff: "valid x \<Longrightarrow> valid y \<Longrightarrow> enc x = enc y \<longleftrightarrow> x = y"
  by (metis dec_enc sum.inject(2))

lemma inj_on_enc: "inj_on enc (Collect valid)"
  by (auto simp: inj_on_def enc_eq_iff)

lemma mapR_dec_enc: "(\<And>x. x \<in> set xs \<Longrightarrow> valid x) \<Longrightarrow> mapR dec (map enc xs) = Inr xs"
  by (induction xs) (auto simp: dec_enc)

lemma map_enc_eq_iff:
  "(\<And>x. x \<in> set xs \<union> set ys \<Longrightarrow> valid x) \<Longrightarrow> map enc xs = map enc ys \<longleftrightarrow> xs = ys"
  using inj_on_map_eq_map [of enc xs ys] inj_on_subset [OF inj_on_enc, of "set xs \<union> set ys"] by blast

end

section \<open>The interface of a key-value store\<close>

text \<open>
  A store with insertion and lookup, as the trie offers it to the state root and the receipts root.
  \<open>canonical_store\<close> adds that insertions at different keys commute and that a later insertion at the same
  key overwrites an earlier one, so that a store built from a list of insertions depends only on the
  map they describe.
\<close>

fun latest :: "('k \<times> 'v) list \<Rightarrow> ('k \<times> 'v) list" where
  "latest [] = []"
| "latest ((k, v) # kvs) = (if k \<in> fst ` set kvs then latest kvs else (k, v) # latest kvs)"

lemma set_latest: "set (latest kvs) \<subseteq> set kvs"
  by (induction kvs rule: latest.induct) auto

lemma distinct_latest: "distinct (map fst (latest kvs))"
  by (induction kvs rule: latest.induct) (auto dest: set_latest [THEN subsetD] intro: rev_image_eqI)

lemma map_of_latest: "map_of (latest kvs) = map_of (rev kvs)"
proof (induction kvs rule: latest.induct)
  case (2 k v kvs)
  have "map_of (rev kvs) k = None \<longleftrightarrow> k \<notin> fst ` set kvs" by (simp add: map_of_eq_None_iff)
  then show ?case using 2 by (auto simp: map_add_def fun_eq_iff split: option.splits)
qed simp

locale kv_store =
  fixes emp :: "'s"
    and ins :: "'s \<Rightarrow> 'k \<Rightarrow> 'v \<Rightarrow> 's"
    and look :: "'s \<Rightarrow> 'k \<Rightarrow> 'v option"
    and invar :: "'s \<Rightarrow> bool"
  assumes invar_emp: "invar emp"
    and invar_ins: "invar s \<Longrightarrow> invar (ins s k v)"
    and look_emp: "look emp k = None"
    and look_ins: "invar s \<Longrightarrow> look (ins s k v) k' = (if k' = k then Some v else look s k')"
begin

lemma invar_build: "invar s \<Longrightarrow> invar (fold (\<lambda>(k, v) s. ins s k v) kvs s)"
  by (induction kvs arbitrary: s) (auto simp: invar_ins)

lemma look_build: "look (fold (\<lambda>(k, v) s. ins s k v) kvs emp) = map_of (rev kvs)"
proof (induction kvs rule: rev_induct)
  case (snoc kv kvs)
  obtain k v where "kv = (k, v)" by force
  with snoc show ?case by (auto simp: look_ins invar_build invar_emp)
qed (simp add: look_emp)

end

locale canonical_store = kv_store +
  assumes ins_commute: "invar s \<Longrightarrow> k \<noteq> k' \<Longrightarrow> ins (ins s k v) k' v' = ins (ins s k' v') k v"
    and ins_overwrite: "invar s \<Longrightarrow> ins (ins s k v) k w = ins s k w"
begin

lemma build_absorb:
  "invar s \<Longrightarrow> k \<in> fst ` set kvs \<Longrightarrow>
   fold (\<lambda>(k, v) s. ins s k v) kvs (ins s k v) = fold (\<lambda>(k, v) s. ins s k v) kvs s"
proof (induction kvs arbitrary: s)
  case (Cons kv kvs)
  obtain k' v' where kv: "kv = (k', v')" by force
  show ?case
  proof (cases "k' = k")
    case True
    then show ?thesis using Cons.prems by (simp add: kv ins_overwrite)
  next
    case False
    then have "fold (\<lambda>(k, v) s. ins s k v) kvs (ins (ins s k' v') k v) =
        fold (\<lambda>(k, v) s. ins s k v) kvs (ins s k' v')"
      using Cons.prems by (intro Cons.IH) (auto simp: kv invar_ins)
    then show ?thesis using False Cons.prems by (simp add: kv ins_commute)
  qed
qed simp

lemma build_latest:
  "invar s \<Longrightarrow> fold (\<lambda>(k, v) s. ins s k v) (latest kvs) s = fold (\<lambda>(k, v) s. ins s k v) kvs s"
  by (induction kvs arbitrary: s rule: latest.induct) (auto simp: invar_ins build_absorb)

lemma build_permuted:
  assumes "mset kvs = mset kvs'" "distinct (map fst kvs)"
  shows "fold (\<lambda>(k, v) s. ins s k v) kvs emp = fold (\<lambda>(k, v) s. ins s k v) kvs' emp"
proof (rule fold_permuted_eq [where P = invar])
  fix x y s
  assume "x \<in> set kvs" "y \<in> set kvs" "invar s"
  moreover obtain k v k' v' where "x = (k, v)" "y = (k', v')" by force
  ultimately show "(\<lambda>(k, v) s. ins s k v) x ((\<lambda>(k, v) s. ins s k v) y s) =
      (\<lambda>(k, v) s. ins s k v) y ((\<lambda>(k, v) s. ins s k v) x s)"
    using assms(2) by (cases "k = k'") (auto simp: ins_commute dest: eq_key_imp_eq_value)
qed (use assms invar_emp invar_ins in auto)

lemma build_map_of:
  assumes "map_of kvs = map_of kvs'" "distinct (map fst kvs)" "distinct (map fst kvs')"
  shows "fold (\<lambda>(k, v) s. ins s k v) kvs emp = fold (\<lambda>(k, v) s. ins s k v) kvs' emp"
proof (rule build_permuted)
  have "set kvs = set kvs'" using assms by (metis map_of_inject_set)
  then show "mset kvs = mset kvs'"
    using assms(2,3) by (simp add: set_eq_iff_mset_eq_distinct [symmetric] distinct_map)
qed (rule assms(2))

lemma build_canonical:
  assumes "map_of (rev kvs) = map_of (rev kvs')"
  shows "fold (\<lambda>(k, v) s. ins s k v) kvs emp = fold (\<lambda>(k, v) s. ins s k v) kvs' emp"
  using build_map_of [of "latest kvs" "latest kvs'"] assms
  by (simp add: map_of_latest distinct_latest build_latest invar_emp)

end

end
