(* ===== verification/Keccak_Spec.thy ===== *)
theory Keccak_Spec
  imports Keccak
begin

unbundle bit_operations_syntax

text \<open>
  Keccak the way FIPS 202 states it, and the proof that \<open>keccak.cpp\<close> computes it. Lane \<open>(x, y)\<close> of the
  specification is element \<open>5 * y + x\<close> of a list; each step map builds the new array at once, where the
  code updates its array in place, and the \<open>rho\<close>/\<open>pi\<close> tables of the code are checked against the walk
  that defines them.
\<close>

section \<open>The step maps of the standard\<close>

definition lane :: "u64 list \<Rightarrow> nat \<Rightarrow> nat \<Rightarrow> u64" where
  "lane A x y = A ! (5 * (y mod 5) + x mod 5)"

definition lanes :: "(nat \<Rightarrow> nat \<Rightarrow> u64) \<Rightarrow> u64 list" where
  "lanes f = map (\<lambda>i. f (i mod 5) (i div 5)) [0..<25]"

definition theta_C :: "u64 list \<Rightarrow> nat \<Rightarrow> u64" where
  "theta_C A x = lane A x 0 XOR lane A x 1 XOR lane A x 2 XOR lane A x 3 XOR lane A x 4"

definition spec_theta :: "u64 list \<Rightarrow> u64 list" where
  "spec_theta A = lanes (\<lambda>x y. lane A x y XOR (theta_C A (x + 4) XOR word_rotl 1 (theta_C A (x + 1))))"

fun rho_walk :: "nat \<Rightarrow> nat \<times> nat" where
  "rho_walk 0 = (1, 0)"
| "rho_walk (Suc t) = (let (x, y) = rho_walk t in (y, (2 * x + 3 * y) mod 5))"

definition rho_offset :: "nat \<Rightarrow> nat \<Rightarrow> nat" where
  "rho_offset x y = (case find (\<lambda>t. rho_walk t = (x, y)) [0..<24] of
     None \<Rightarrow> 0 | Some t \<Rightarrow> ((t + 1) * (t + 2) div 2) mod 64)"

definition spec_rho :: "u64 list \<Rightarrow> u64 list" where
  "spec_rho A = lanes (\<lambda>x y. word_rotl (rho_offset x y) (lane A x y))"

definition spec_pi :: "u64 list \<Rightarrow> u64 list" where
  "spec_pi A = lanes (\<lambda>x y. lane A (x + 3 * y) x)"

definition spec_chi :: "u64 list \<Rightarrow> u64 list" where
  "spec_chi A = lanes (\<lambda>x y. lane A x y XOR (NOT (lane A (x + 1) y) AND lane A (x + 2) y))"

definition spec_iota :: "nat \<Rightarrow> u64 list \<Rightarrow> u64 list" where
  "spec_iota r A = lanes (\<lambda>x y. if x = 0 \<and> y = 0 then lane A x y XOR keccakf_rndc ! r else lane A x y)"

definition spec_keccak_f :: "u64 list \<Rightarrow> u64 list" where
  "spec_keccak_f A = fold (\<lambda>r A. spec_iota r (spec_chi (spec_pi (spec_rho (spec_theta A))))) [0..<24] A"

section \<open>The code's loops compute the step maps\<close>

lemma upt_numerals [simp]:
  "[0..<5] = [0, 1, 2, 3, 4::nat]"
  "[0..<24] = [0, 1, 2, 3, 4, 5, 6, 7, 8, 9, 10, 11, 12, 13, 14, 15, 16, 17, 18, 19, 20, 21, 22, 23::nat]"
  "[0..<25] = [0, 1, 2, 3, 4, 5, 6, 7, 8, 9, 10, 11, 12, 13, 14, 15, 16, 17, 18, 19, 20, 21, 22, 23, 24::nat]"
  by (simp_all add: upt_rec)

lemma length_25E:
  assumes "length A = 25"
  obtains a0 a1 a2 a3 a4 a5 a6 a7 a8 a9 a10 a11 a12 a13 a14 a15 a16 a17 a18 a19 a20 a21 a22 a23 a24
  where "A = [a0, a1, a2, a3, a4, a5, a6, a7, a8, a9, a10, a11, a12, a13, a14, a15, a16, a17, a18, a19,
    a20, a21, a22, a23, a24]"
  using assms by (auto simp: length_Suc_conv numeral_eq_Suc)

lemma ROTL64_rotl: "0 < y \<Longrightarrow> y < 64 \<Longrightarrow> ROTL64 x y = word_rotl y x"
proof (rule bit_word_eqI)
  fix n
  assume y: "0 < y" "y < 64" and n: "n < LENGTH(64)"
  have "(n + (64 - y)) mod 64 = (if n < y then 64 + n - y else n - y)"
    using y n by (auto simp: mod_if)
  then have "bit (word_rotl y x) n = bit x (if n < y then 64 + n - y else n - y)"
    using y n by (simp only: bit_word_rotl_iff) simp
  moreover have "bit (ROTL64 x y) n = bit x (if n < y then 64 + n - y else n - y)"
    using y n by (auto simp: ROTL64_def bit_simps dest: bit_imp_le_length)
  ultimately show "bit (ROTL64 x y) n = bit (word_rotl y x) n" by simp
qed

lemma word_rotl_0 [simp]: "word_rotl 0 x = (x :: u64)"
  by (rule bit_word_eqI) (simp add: bit_word_rotl_iff)

lemma length_lanes [simp]: "length (lanes f) = 25"
  by (simp add: lanes_def)

lemma spec_theta_eq: "length A = 25 \<Longrightarrow> keccak_theta A = spec_theta A"
  by (erule length_25E)
    (simp add: keccak_theta_def spec_theta_def lanes_def lane_def theta_C_def ROTL64_rotl Let_def)

lemma spec_chi_eq: "length A = 25 \<Longrightarrow> keccak_chi A = spec_chi A"
  by (erule length_25E) (simp add: keccak_chi_def spec_chi_def lanes_def lane_def Let_def)

lemma spec_iota_eq: "length A = 25 \<Longrightarrow> keccak_iota r A = spec_iota r A"
  by (erule length_25E) (simp add: keccak_iota_def spec_iota_def lanes_def lane_def)

lemma rho_offset_table:
  "map (\<lambda>i. rho_offset (i mod 5) (i div 5)) [0..<25] =
     [0, 1, 62, 28, 27, 36, 44, 6, 55, 20, 3, 10, 43, 25, 39, 41, 45, 15, 21, 8, 18, 2, 61, 56, 14]"
  by code_simp

lemmas rho_offsets = rho_offset_table [simplified]

lemma spec_rho_pi_eq: "length A = 25 \<Longrightarrow> keccak_rho_pi A = spec_pi (spec_rho A)"
  by (erule length_25E)
    (simp add: keccak_rho_pi_def spec_pi_def spec_rho_def lanes_def lane_def rho_offsets ROTL64_rotl
      keccakf_piln_def keccakf_rotc_def Let_def)

lemma length_spec_round [simp]:
  "length (spec_theta A) = 25" "length (spec_rho A) = 25" "length (spec_pi A) = 25"
  "length (spec_chi A) = 25" "length (spec_iota r A) = 25"
  by (simp_all add: spec_theta_def spec_rho_def spec_pi_def spec_chi_def spec_iota_def)

lemma length_fold_step: "(\<And>r A. length (f r A) = 25) \<Longrightarrow> length A = 25 \<Longrightarrow> length (fold f rs A) = 25"
  by (induction rs arbitrary: A) auto

lemma length_spec_keccak_f [simp]: "length A = 25 \<Longrightarrow> length (spec_keccak_f A) = 25"
  unfolding spec_keccak_f_def by (rule length_fold_step) simp_all

lemma keccakf_spec: "length A = 25 \<Longrightarrow> keccakf A = spec_keccak_f A"
proof -
  have "fold (\<lambda>r st. keccak_iota r (keccak_chi (keccak_rho_pi (keccak_theta st)))) rs A =
      fold (\<lambda>r A. spec_iota r (spec_chi (spec_pi (spec_rho (spec_theta A))))) rs A" if "length A = 25" for rs A
    using that
    by (induction rs arbitrary: A) (simp_all add: spec_theta_eq spec_rho_pi_eq spec_chi_eq spec_iota_eq)
  then show "length A = 25 \<Longrightarrow> keccakf A = spec_keccak_f A"
    unfolding keccakf_def spec_keccak_f_def by blast
qed

section \<open>The sponge of the standard\<close>

definition pad101 :: "bytes \<Rightarrow> bytes" where
  "pad101 m = m @ (let q = 136 - length m mod 136
     in if q = 1 then [0x81] else 0x01 # replicate (q - 2) 0 @ [0x80])"

function blocks136 :: "bytes \<Rightarrow> bytes list" where
  "blocks136 xs = (if length xs < 136 then [] else take 136 xs # blocks136 (drop 136 xs))"
  by pat_completeness auto
termination
  by (relation "measure length") auto

declare blocks136.simps [simp del]

definition spec_xor_block :: "bytes \<Rightarrow> u64 list \<Rightarrow> u64 list" where
  "spec_xor_block b A = map2 (XOR) A (map (load_lane b) [0..<17] @ replicate 8 0)"

definition spec_keccak_256 :: "bytes \<Rightarrow> bytes" where
  "spec_keccak_256 m =
     squeeze (fold (\<lambda>b A. spec_keccak_f (spec_xor_block b A)) (blocks136 (pad101 m)) (replicate 25 0))"

lemma load_lane_take: "i < 17 \<Longrightarrow> load_lane (take 136 b) i = load_lane b i"
  unfolding load_lane_def by (rule fold_cong) auto

lemma replicate_8: "replicate 8 x = [x, x, x, x, x, x, x, x]"
  by (simp add: numeral_eq_Suc)

lemma xor_block_spec: "length A = 25 \<Longrightarrow> xor_block b A = spec_xor_block (take 136 b) A"
  by (erule length_25E) (simp add: xor_block_def spec_xor_block_def load_lane_take upt_rec replicate_8)

lemma length_spec_xor_block [simp]: "length A = 25 \<Longrightarrow> length (spec_xor_block b A) = 25"
  by (simp add: spec_xor_block_def)

lemma pad101_drop: "length m \<ge> 136 \<Longrightarrow> pad101 m = take 136 m @ pad101 (drop 136 m)"
proof -
  assume m: "length m \<ge> 136"
  then have "length m mod 136 = (length m - 136) mod 136" by (simp add: mod_if)
  then show ?thesis unfolding pad101_def by simp
qed

lemma last_block_pad:
  assumes m: "length m < 136"
  shows "take 136 (last_block m) = pad101 m"
proof (cases "length m = 135")
  case True
  have "replicate 9 0 = (0 :: byte) # replicate 8 0" by (simp add: numeral_eq_Suc)
  then show ?thesis using True by (simp add: last_block_def pad101_def Let_def list_update_append nth_append)
next
  case False
  define k where "k = 134 - length m"
  have k: "144 - length m = Suc (k + Suc 8)" "135 = length m + Suc k" "136 - length m mod 136 = Suc (Suc k)"
    "136 - length m = Suc (Suc k)"
    using m False by (auto simp: k_def)
  have "replicate (144 - length m) 0 = (0 :: byte) # replicate k 0 @ 0 # replicate 8 0"
    unfolding k(1) by (simp only: replicate_Suc replicate_add append_Cons)
  then show ?thesis
    unfolding last_block_def pad101_def Let_def k(3)
    using m k(4) by (simp add: k(2) list_update_append nth_append)
qed

lemma length_pad101: "length m < 136 \<Longrightarrow> length (pad101 m) = 136"
  by (auto simp: pad101_def Let_def)

lemma blocks136_single: "length b = 136 \<Longrightarrow> blocks136 b = [b]"
  by (simp add: blocks136.simps [of b]) (simp add: blocks136.simps)

lemma sponge_spec:
  "length A = 25 \<Longrightarrow>
   (let (st, rest) = absorb A m in squeeze (keccakf (xor_block (last_block rest) st))) =
   squeeze (fold (\<lambda>b A. spec_keccak_f (spec_xor_block b A)) (blocks136 (pad101 m)) A)"
proof (induction A m rule: absorb.induct)
  case (1 A m)
  show ?case
  proof (cases "length m \<ge> 136")
    case True
    let ?A = "spec_keccak_f (spec_xor_block (take 136 m) A)"
    have A: "keccakf (xor_block m A) = ?A" using "1.prems" by (simp add: xor_block_spec keccakf_spec)
    have "blocks136 (pad101 m) = take 136 m # blocks136 (pad101 (drop 136 m))"
      using True by (subst pad101_drop) (simp_all add: blocks136.simps [of "take 136 m @ _"])
    then show ?thesis
      using "1.IH" [OF True] "1.prems" True by (simp add: A absorb.simps [of A m])
  next
    case False
    then have "blocks136 (pad101 m) = [pad101 m]" by (simp add: blocks136_single length_pad101)
    with False "1.prems" show ?thesis
      by (simp add: absorb.simps [of A m] xor_block_spec keccakf_spec last_block_pad)
  qed
qed




end
