(* ===== verification/Rlp.thy ===== *)
theory Rlp
  imports Gambit_Prelude
begin

unbundle bit_operations_syntax

text \<open>
  Recursive length prefix encoding, \<open>src/src/rlp.cpp\<close>. Vector sizes are natural numbers; where the
  decoder adds two \<open>size_t\<close> values of which one comes from the input, the sum is taken modulo
  \<open>2 ^ 64\<close> as the code does. Exceptions are values of \<open>'a result\<close>; an \<open>offset\<close> passed by reference is
  part of the result. The decoder recurses through the items of a list, so its termination rests on
  the fact that a successful call moves the offset forward.
\<close>

section \<open>Encoder\<close>

definition encodeLength :: "nat \<Rightarrow> byte \<Rightarrow> bytes" where
  "encodeLength len offset =
     (if len < 56 then [offset + word_of_nat len]
      else let lenBytes = be_bytes len []
           in (offset + 55 + word_of_nat (length lenBytes)) # lenBytes)"

definition encodeBytes :: "bytes \<Rightarrow> bytes" where
  "encodeBytes input =
     (if length input = 1 \<and> input ! 0 < 0x80 then input
      else encodeLength (length input) 0x80 @ input)"

definition encodeString :: "string \<Rightarrow> bytes" where
  "encodeString input = encodeBytes (bytes_of_string input)"

definition encodeUint :: "u64 \<Rightarrow> bytes" where
  "encodeUint val = (if val = 0 then [0x80] else encodeBytes (be_bytes (unat val) []))"

definition encodeList :: "bytes list \<Rightarrow> bytes" where
  "encodeList items = (let payload = concat items
     in encodeLength (length payload) 0xC0 @ payload)"

definition concatBytes :: "bytes list \<Rightarrow> bytes" where
  "concatBytes parts = concat parts"

section \<open>Decoder\<close>

datatype Decoded = Decoded (isList: bool) (d_bytes: bytes) (d_list: "Decoded list")

definition readLen :: "bytes \<Rightarrow> nat \<Rightarrow> nat \<Rightarrow> nat \<Rightarrow> (nat \<times> nat) result" where
  "readLen inp offset prefix base =
     (let len = prefix - base; offset = offset + 1 in
      if len \<le> 55 then Inr (len, offset)
      else let numBytes = len - 55 in
           if offset + numBytes > length inp then Inl (Runtime_error ''RLP long length overflow'')
           else Inr (unat (be_u64 (take numBytes (drop offset inp))), offset + numBytes))"

function decode :: "bytes \<Rightarrow> nat \<Rightarrow> (Decoded \<times> nat) result"
  and decodeItems :: "bytes \<Rightarrow> nat \<Rightarrow> nat \<Rightarrow> (Decoded list \<times> nat) result" where
  "decode inp offset =
     (if offset \<ge> length inp then Inl (Runtime_error ''RLP decode overflow'')
      else let prefix = inp ! offset in
      if prefix < 0x80 then Inr (Decoded False [prefix] [], offset + 1)
      else if prefix < 0xC0 then
        (case readLen inp offset (unat prefix) 0x80 of
           Inl e \<Rightarrow> Inl e
         | Inr (len, offset) \<Rightarrow>
             if (offset + len) mod 2 ^ 64 > length inp then Inl (Runtime_error ''RLP string overflow'')
             else if offset + len \<ge> 2 ^ 64 then Inl Undefined
             else Inr (Decoded False (take len (drop offset inp)) [], offset + len))
      else
        (case readLen inp offset (unat prefix) 0xC0 of
           Inl e \<Rightarrow> Inl e
         | Inr (len, offset) \<Rightarrow>
             let endp = (offset + len) mod 2 ^ 64 in
             if endp > length inp then Inl (Runtime_error ''RLP list overflow'')
             else (case decodeItems inp offset endp of
                     Inl e \<Rightarrow> Inl e
                   | Inr (items, offset) \<Rightarrow> Inr (Decoded True [] items, offset))))"
| "decodeItems inp offset endp =
     (if offset < endp then
        (case decode inp offset of
           Inl e \<Rightarrow> Inl e
         | Inr (item, offset) \<Rightarrow>
             (case decodeItems inp offset endp of
                Inl e \<Rightarrow> Inl e
              | Inr (items, offset) \<Rightarrow> Inr (item # items, offset)))
      else Inr ([], offset))"
  by pat_completeness auto

lemma readLen_forward: "readLen inp offset prefix base = Inr (len, off) \<Longrightarrow> offset < off"
  by (auto simp: readLen_def Let_def split: if_splits)

lemma decode_forward_partial:
  "decode_decodeItems_dom (Inl (inp, offset)) \<Longrightarrow>
     (\<And>d off. decode inp offset = Inr (d, off) \<Longrightarrow> offset < off \<and> offset < length inp)"
  "decode_decodeItems_dom (Inr (inp, offset, endp)) \<Longrightarrow>
     (\<And>ds off. decodeItems inp offset endp = Inr (ds, off) \<Longrightarrow> offset \<le> off)"
proof (induction inp offset and inp offset endp rule: decode_decodeItems.pinduct)
  case (1 inp offset)
  have items: "offset < off" if "readLen inp offset (unat (inp ! offset)) 0xC0 = Inr (len, pos)"
    and "decodeItems inp pos ((pos + len) mod 2 ^ 64) = Inr (ds, off)"
    and "\<not> offset \<ge> length inp" "\<not> inp ! offset < 0x80" "\<not> inp ! offset < 0xC0"
      "\<not> (pos + len) mod 2 ^ 64 > length inp" for len pos ds off
    using that "1.IH" [OF that(3) refl that(4,5,1) refl refl that(6,2)] readLen_forward [OF that(1)]
    by simp
  from "1.hyps" "1.prems" show ?case
    by (auto simp: decode.psimps Let_def dest: items [simplified] readLen_forward
        split: if_splits sum.splits prod.splits)
next
  case (2 inp offset endp)
  have rest: "offset \<le> off" if "decode inp offset = Inr (d, pos)"
    and "decodeItems inp pos endp = Inr (ds, off)" and "offset < endp" for d pos ds off
    using "2.IH"(1) [OF that(3,1)] "2.IH"(2) [OF that(3,1) refl that(2)] by simp
  from "2.hyps" "2.prems" show ?case
    by (auto simp: decodeItems.psimps dest: rest split: if_splits sum.splits prod.splits)
qed

termination decode
  by (relation "measures [\<lambda>x. case x of Inl (inp, offset) \<Rightarrow> length inp - offset
        | Inr (inp, offset, endp) \<Rightarrow> length inp - offset, \<lambda>x. case x of Inl _ \<Rightarrow> 0 | Inr _ \<Rightarrow> 1]")
    (auto dest: readLen_forward decode_forward_partial(1))

declare decode.simps [simp del] decodeItems.simps [simp del]

definition decodeBuf :: "bytes \<Rightarrow> Decoded result" where
  "decodeBuf inp = bindR (decode inp 0) (\<lambda>(d, off). Inr d)"

section \<open>RLP items\<close>

text \<open>The abstract value an encoding stands for: a byte string or a list of items.\<close>

datatype rlp_item = RStr bytes | RList "rlp_item list"

fun enc_item :: "rlp_item \<Rightarrow> bytes" where
  "enc_item (RStr b) = encodeBytes b"
| "enc_item (RList is) = encodeList (map enc_item is)"

fun to_decoded :: "rlp_item \<Rightarrow> Decoded" where
  "to_decoded (RStr b) = Decoded False b []"
| "to_decoded (RList is) = Decoded True [] (map to_decoded is)"

section \<open>Prefixes\<close>

lemma length_be_bytes_size: "n < 2 ^ 64 \<Longrightarrow> length (be_bytes n []) \<le> 8"
  by (rule length_be_bytes_le) simp

lemma encodeLength_Cons:
  "encodeLength len offset =
     (offset + word_of_nat (if len < 56 then len else 55 + length (be_bytes len []))) #
     (if len < 56 then [] else be_bytes len [])"
  by (simp add: encodeLength_def Let_def)

lemma encodeLength_prefix:
  assumes "len < 2 ^ 64" "unat base \<le> 0xC0"
  shows "unat (encodeLength len base ! 0) =
    unat base + (if len < 56 then len else 55 + length (be_bytes len []))"
proof -
  let ?n = "if len < 56 then len else 55 + length (be_bytes len [])"
  have n: "?n \<le> 63" using length_be_bytes_size [OF assms(1)] by auto
  then have "unat (word_of_nat ?n :: byte) = ?n" by (simp add: unat_of_nat)
  with n assms(2) have "unat (base + word_of_nat ?n) = unat base + ?n"
    by (simp add: unat_word_ariths)
  then show ?thesis by (simp add: encodeLength_Cons)
qed

lemma be_bytes_pos_length: "n > 0 \<Longrightarrow> length (be_bytes n []) > 0"
  by simp

lemma readLen_encodeLength:
  assumes "len < 2 ^ 64" "unat base \<le> 0xC0" "inp = pre @ encodeLength len base @ rest"
  shows "readLen inp (length pre) (unat (inp ! length pre)) (unat base) =
    Inr (len, length pre + length (encodeLength len base))"
proof -
  have hd: "inp ! length pre = encodeLength len base ! 0"
    by (simp add: assms(3) nth_append encodeLength_Cons)
  show ?thesis
  proof (cases "len < 56")
    case True
    then show ?thesis
      unfolding hd encodeLength_prefix [OF assms(1,2)] by (simp add: readLen_def encodeLength_Cons)
  next
    case False
    let ?l = "be_bytes len []"
    have l: "length ?l > 0" "length ?l \<le> 8"
      using False length_be_bytes_size [OF assms(1)] by (auto intro: be_bytes_pos_length)
    have "take (length ?l) (drop (Suc (length pre)) inp) = ?l"
      using False by (simp add: assms(3) encodeLength_Cons)
    moreover have "unat (be_u64 ?l) = len" using l by (simp add: unat_be_u64)
    ultimately show ?thesis
      unfolding hd encodeLength_prefix [OF assms(1,2)] using False l
      by (simp add: readLen_def encodeLength_Cons assms(3))
  qed
qed

lemma encodeLength_prefix_range:
  assumes "len < 2 ^ 64"
  shows "0x80 \<le> unat (encodeLength len 0x80 ! 0)" "unat (encodeLength len 0x80 ! 0) < 0xC0"
    "0xC0 \<le> unat (encodeLength len 0xC0 ! 0)"
  using encodeLength_prefix [of len "0x80"] encodeLength_prefix [of len "0xC0"] assms
    length_be_bytes_size [OF assms] by auto

section \<open>Decoding an encoding\<close>

lemma decode_encodeBytes:
  assumes inp: "inp = pre @ encodeBytes b @ rest" and small: "length inp < 2 ^ 64"
  shows "decode inp (length pre) = Inr (Decoded False b [], length pre + length (encodeBytes b))"
proof (cases "length b = 1 \<and> b ! 0 < 0x80")
  case True
  then obtain x where "b = [x]" "x < 0x80" by (cases b) auto
  then show ?thesis by (simp add: inp encodeBytes_def decode.simps Let_def nth_append)
next
  case False
  let ?e = "encodeLength (length b) 0x80"
  have eb: "encodeBytes b = ?e @ b" unfolding encodeBytes_def using False by argo
  have lb: "length b < 2 ^ 64" using small by (simp add: inp eb)
  have hd: "inp ! length pre = ?e ! 0" by (simp add: inp eb nth_append encodeLength_Cons)
  have "\<not> ?e ! 0 < 0x80" "?e ! 0 < 0xC0"
    using encodeLength_prefix_range [OF lb] by (simp_all add: word_less_nat_alt)
  moreover have "readLen inp (length pre) (unat (?e ! 0)) 0x80 = Inr (length b, length pre + length ?e)"
    using readLen_encodeLength [of "length b" "0x80" inp pre "b @ rest"] lb by (simp add: inp eb nth_append encodeLength_Cons)
  moreover have "\<not> length pre \<ge> length inp" by (simp add: inp eb encodeLength_Cons)
  moreover have "length pre + length ?e + length b < 2 ^ 64" "length pre + length ?e + length b \<le> length inp"
    using small by (simp_all add: inp eb)
  ultimately show ?thesis by (simp add: decode.simps [of inp] Let_def hd eb) (simp add: inp eb)
qed

lemma decode_encodeList:
  assumes inp: "inp = pre @ encodeList es @ rest" and small: "length inp < 2 ^ 64"
    and items: "\<And>pre' rest'. inp = pre' @ concat es @ rest' \<Longrightarrow>
      decodeItems inp (length pre') (length pre' + length (concat es)) =
      Inr (ds, length pre' + length (concat es))"
  shows "decode inp (length pre) = Inr (Decoded True [] ds, length pre + length (encodeList es))"
proof -
  let ?p = "concat es"
  let ?e = "encodeLength (length ?p) 0xC0"
  have el: "encodeList es = ?e @ ?p" by (simp add: encodeList_def Let_def)
  have lp: "length ?p < 2 ^ 64" using small by (simp add: inp el)
  have hd: "inp ! length pre = ?e ! 0" by (simp add: inp el nth_append encodeLength_Cons)
  have "\<not> ?e ! 0 < 0x80" "\<not> ?e ! 0 < 0xC0"
    using encodeLength_prefix_range [OF lp] by (simp_all add: word_less_nat_alt)
  moreover have "readLen inp (length pre) (unat (?e ! 0)) 0xC0 = Inr (length ?p, length pre + length ?e)"
    using readLen_encodeLength [of "length ?p" "0xC0" inp pre "?p @ rest"] lp
    by (simp add: inp el nth_append encodeLength_Cons)
  moreover have "\<not> length pre \<ge> length inp" by (simp add: inp el encodeLength_Cons)
  moreover have "(length pre + length ?e + length ?p) mod 2 ^ 64 = length pre + length ?e + length ?p"
    using small by (simp add: inp el)
  moreover have "\<not> length pre + length ?e + length ?p > length inp" by (simp add: inp el)
  moreover have "decodeItems inp (length pre + length ?e) (length pre + length ?e + length ?p) =
      Inr (ds, length pre + length ?e + length ?p)"
    using items [of "pre @ ?e" rest] by (simp add: inp el)
  ultimately show ?thesis by (simp add: decode.simps [of inp] Let_def hd el)
qed

lemma encodeBytes_not_Nil [simp]: "encodeBytes b \<noteq> []"
  by (auto simp: encodeBytes_def encodeLength_Cons)

lemma encodeList_not_Nil [simp]: "encodeList es \<noteq> []"
  by (simp add: encodeList_def Let_def encodeLength_Cons)

lemma enc_item_not_Nil [simp]: "enc_item it \<noteq> []"
  by (cases it) simp_all

lemma decodeItems_step:
  assumes "e \<noteq> []" "decode inp off = Inr (d, off + length e)"
    and "decodeItems inp (off + length e) (off + length e + n) = Inr (ds, off + length e + n)"
  shows "decodeItems inp off (off + (length e + n)) = Inr (d # ds, off + (length e + n))"
  using assms by (subst decodeItems.simps) (simp add: add.assoc)

lemma decodeItems_map_enc:
  assumes "\<And>it pre rest. it \<in> set is \<Longrightarrow> inp = pre @ enc_item it @ rest \<Longrightarrow>
      decode inp (length pre) = Inr (to_decoded it, length pre + length (enc_item it))"
    and "inp = pre @ concat (map enc_item is) @ rest"
  shows "decodeItems inp (length pre) (length pre + length (concat (map enc_item is))) =
    Inr (map to_decoded is, length pre + length (concat (map enc_item is)))"
  using assms
proof (induction "is" arbitrary: pre)
  case Nil
  then show ?case by (simp add: decodeItems.simps)
next
  case (Cons it its)
  have inp: "inp = (pre @ enc_item it) @ concat (map enc_item its) @ rest"
    using Cons.prems(2) by simp
  have "decode inp (length pre) = Inr (to_decoded it, length pre + length (enc_item it))"
    by (rule Cons.prems(1) [of it]) (use inp in auto)
  moreover have "decodeItems inp (length (pre @ enc_item it)) (length (pre @ enc_item it) + length (concat (map enc_item its)))
      = Inr (map to_decoded its, length (pre @ enc_item it) + length (concat (map enc_item its)))"
    by (rule Cons.IH [OF _ inp]) (use Cons.prems(1) in simp)
  ultimately show ?case
    using decodeItems_step [of "enc_item it" inp "length pre" "to_decoded it"] by simp
qed

lemma decode_enc_item:
  "inp = pre @ enc_item it @ rest \<Longrightarrow> length inp < 2 ^ 64 \<Longrightarrow>
   decode inp (length pre) = Inr (to_decoded it, length pre + length (enc_item it))"
proof (induction it arbitrary: pre rest rule: enc_item.induct)
  case (1 b)
  then show ?case using decode_encodeBytes [of inp pre b rest] by simp
next
  case (2 "is")
  have "decodeItems inp (length pre') (length pre' + length (concat (map enc_item is))) =
      Inr (map to_decoded is, length pre' + length (concat (map enc_item is)))"
    if "inp = pre' @ concat (map enc_item is) @ rest'" for pre' rest'
    by (rule decodeItems_map_enc [OF _ that]) (use 2 in blast)
  then show ?case using decode_encodeList [OF _ "2.prems"(2)] "2.prems"(1) by simp
qed

section \<open>Properties\<close>

text \<open>
  C8. RLP round trip (src/rlp.cpp): for every nesting of strings and lists, decoding its encoding at any
  position of a buffer (with fewer than \<open>2 ^ 64\<close> bytes, as every C++ vector has) returns exactly that
  structure and leaves the offset at the first byte after it.
\<close>

theorem rlp_roundtrip:
  "length (pre @ enc_item it @ rest) < 2 ^ 64 \<Longrightarrow>
   decode (pre @ enc_item it @ rest) (length pre) =
     Inr (to_decoded it, length pre + length (enc_item it))"
  using decode_enc_item by blast

theorem rlp_roundtrip_witness:
  "decode ([0] @ enc_item (RList [RStr [1, 2], RList [], RStr []]) @ [7]) 1 =
     Inr (Decoded True [] [Decoded False [1, 2] [], Decoded True [] [], Decoded False [] []], 7)"
  using rlp_roundtrip [of "[0]" "RList [RStr [1, 2], RList [], RStr []]" "[7]"]
  by (simp add: encodeList_def encodeBytes_def encodeLength_def)

lemma readLen_bounds:
  "readLen inp offset prefix base = Inr (len, off) \<Longrightarrow> offset < length inp \<Longrightarrow> off \<le> length inp"
  by (auto simp: readLen_def Let_def split: if_splits)

text \<open>The ways a call succeeds: a single byte, a string or a list; none or one more item.\<close>

lemma decode_InrE:
  assumes "decode inp offset = Inr (d, off)"
  obtains (single) "offset < length inp" "inp ! offset < 0x80" "d = Decoded False [inp ! offset] []" "off = offset + 1"
  | (string) len pos where "offset < length inp" "\<not> inp ! offset < 0x80" "inp ! offset < 0xC0"
      "readLen inp offset (unat (inp ! offset)) 0x80 = Inr (len, pos)" "pos + len < 2 ^ 64"
      "pos + len \<le> length inp" "d = Decoded False (take len (drop pos inp)) []" "off = pos + len"
  | (items) len pos ds where "offset < length inp" "\<not> inp ! offset < 0xC0"
      "readLen inp offset (unat (inp ! offset)) 0xC0 = Inr (len, pos)" "(pos + len) mod 2 ^ 64 \<le> length inp"
      "decodeItems inp pos ((pos + len) mod 2 ^ 64) = Inr (ds, off)" "d = Decoded True [] ds"
proof -
  have len: "offset < length inp" using assms by (subst (asm) decode.simps) (simp split: if_splits)
  consider "inp ! offset < 0x80" | "\<not> inp ! offset < 0x80" "inp ! offset < 0xC0" | "\<not> inp ! offset < 0x80" "\<not> inp ! offset < 0xC0"
    by blast
  then show thesis
  proof cases
    case 1
    then show thesis using assms len by (intro single) (simp_all add: decode.simps [of inp] Let_def)
  next
    case 2
    then obtain len pos where r: "readLen inp offset (unat (inp ! offset)) 0x80 = Inr (len, pos)"
      using assms len by (simp add: decode.simps [of inp] Let_def split: sum.splits prod.splits)
    show thesis
      by (rule string [OF len 2 r]; use assms len 2 r in \<open>simp add: decode.simps [of inp] Let_def split: if_splits\<close>)
  next
    case 3
    then obtain len pos where r: "readLen inp offset (unat (inp ! offset)) 0xC0 = Inr (len, pos)"
      using assms len by (simp add: decode.simps [of inp] Let_def split: sum.splits prod.splits)
    show thesis
      using assms len 3 r
      by (auto intro!: items [OF len 3(2) r] simp: decode.simps [of inp] Let_def split: if_splits sum.splits)
  qed
qed

lemma decodeItems_InrE:
  assumes "decodeItems inp offset endp = Inr (ds, off)"
  obtains (stop) "\<not> offset < endp" "ds = []" "off = offset"
  | (more) d pos ds' where "offset < endp" "decode inp offset = Inr (d, pos)"
      "decodeItems inp pos endp = Inr (ds', off)" "ds = d # ds'"
  using assms by (subst (asm) decodeItems.simps) (auto split: if_splits sum.splits prod.splits)

lemma decode_bounds_aux:
  "\<And>d off. decode inp offset = Inr (d, off) \<Longrightarrow> offset < off \<and> off \<le> length inp"
  "\<And>ds off. decodeItems inp pos endp = Inr (ds, off) \<Longrightarrow> pos \<le> length inp \<Longrightarrow> pos \<le> off \<and> off \<le> length inp"
proof (induction inp offset and inp pos endp rule: decode_decodeItems.induct)
  case (1 inp offset)
  from "1.prems" show ?case
  proof (cases rule: decode_InrE)
    case (items len pos ds)
    have "\<not> inp ! offset < 0x80" using items(2) by (auto dest: less_trans [of _ "0x80" "0xC0"])
    then show ?thesis
      using "1.IH" [OF _ refl _ items(2,3) refl refl _ items(5)] items readLen_forward [OF items(3)]
        readLen_bounds [OF items(3)] by auto
  qed (auto dest: readLen_forward)
next
  case (2 inp offset endp)
  from "2.prems"(1) show ?case
  proof (cases rule: decodeItems_InrE)
    case (more d pos ds')
    then show ?thesis using "2.IH"(1) [OF more(1,2)] "2.IH"(2) [OF more(1,2) refl more(3)] by auto
  qed (use "2.prems" in auto)
qed


text \<open>
  The length check of a list in \<open>rlp::decode\<close> is \<open>end = offset + len; if (end > in.size()) throw\<close>
  on 64-bit unsigned values. A header \<open>0xFF\<close> whose eight length bytes make that sum wrap around passes
  the check and is accepted as an empty list, although the declared payload is about \<open>2 ^ 64\<close> bytes long.
  The same length in a string header (\<open>0xBF\<close>) passes the check too and builds a vector from an inverted
  iterator range.
\<close>

theorem decode_length_wraps:
  assumes "length lb = 8" and "9 + be_value lb \<ge> 2 ^ 64"
  shows "decode (0xFF # lb @ rest) 0 = Inr (Decoded True [] [], 9) \<and>
    decode (0xBF # lb @ rest) 0 = Inl Undefined"
proof -
  have v: "unat (be_u64 lb) = be_value lb" using assms(1) by (intro unat_be_u64) simp
  have bound: "be_value lb < 2 ^ 64" using be_value_bound [of lb] assms(1) by simp
  have wrap: "(9 + be_value lb) mod 2 ^ 64 = 9 + be_value lb - 2 ^ 64"
    using assms(2) bound by (simp add: mod_if)
  have rd: "readLen (p # lb @ rest) 0 (base + 63) base = Inr (be_value lb, 9)" for p base
    using assms(1) v by (simp add: readLen_def Let_def)
  have le: "(9 + be_value lb) mod 2 ^ 64 \<le> 8" using wrap bound by simp
  have items: "decodeItems (0xFF # lb @ rest) 9 ((9 + be_value lb) mod 2 ^ 64) = Inr ([], 9)"
    using le by (subst decodeItems.simps) simp
  have "decode (0xFF # lb @ rest) 0 = Inr (Decoded True [] [], 9)"
    using rd [of "0xFF" "0xC0"] items le assms(1) by (subst decode.simps) (simp add: Let_def)
  moreover have "decode (0xBF # lb @ rest) 0 = Inl Undefined"
    using rd [of "0xBF" "0x80"] le assms by (subst decode.simps) (simp add: Let_def)
  ultimately show ?thesis by blast
qed

theorem decode_length_wraps_witness:
  "decode [0xFF, 0xFF, 0xFF, 0xFF, 0xFF, 0xFF, 0xFF, 0xFF, 0xFF] 0 = Inr (Decoded True [] [], 9) \<and>
   decode [0xBF, 0xFF, 0xFF, 0xFF, 0xFF, 0xFF, 0xFF, 0xFF, 0xFF] 0 = Inl Undefined"
  using decode_length_wraps [of "[0xFF, 0xFF, 0xFF, 0xFF, 0xFF, 0xFF, 0xFF, 0xFF]" "[]"]
  by (simp add: be_value_def)

section \<open>Uniqueness of encodings\<close>

fun of_decoded :: "Decoded \<Rightarrow> rlp_item" where
  "of_decoded (Decoded l b ds) = (if l then RList (map of_decoded ds) else RStr b)"

lemma of_decoded_to_decoded [simp]: "of_decoded (to_decoded it) = it"
  by (induction it rule: to_decoded.induct) (auto intro: map_idI)

lemma decodeBuf_enc_item: "length (enc_item it) < 2 ^ 64 \<Longrightarrow> decodeBuf (enc_item it) = Inr (to_decoded it)"
  using decode_enc_item [of "enc_item it" "[]" it "[]"] by (simp add: decodeBuf_def)

interpretation rlp: codec "\<lambda>it. length (enc_item it) < 2 ^ 64" enc_item
  "\<lambda>bs. bindR (decodeBuf bs) (\<lambda>d. Inr (of_decoded d))"
  by unfold_locales (simp add: decodeBuf_enc_item)

lemma enc_item_eq_iff: "length (enc_item a) < 2 ^ 64 \<Longrightarrow> enc_item a = enc_item b \<longleftrightarrow> a = b"
  using rlp.enc_eq_iff [of a b] by auto

lemma encodeUint_item: "encodeUint v = enc_item (RStr (be_bytes (unat v) []))"
  by (simp add: encodeUint_def encodeBytes_def encodeLength_def)

lemma encodeString_item: "encodeString s = enc_item (RStr (bytes_of_string s))"
  by (simp add: encodeString_def)

lemma encodeBytes_inj:
  "length (encodeBytes a) < 2 ^ 64 \<Longrightarrow> encodeBytes a = encodeBytes b \<longleftrightarrow> a = b"
  using rlp.enc_eq_iff [of "RStr a" "RStr b"] by auto


section \<open>Sizes\<close>

lemma length_encodeLength_le: "n < 2 ^ 64 \<Longrightarrow> length (encodeLength n off) \<le> 9"
  using length_be_bytes_size [of n] by (simp add: encodeLength_def Let_def)

lemma length_encodeBytes_le: "length b < 2 ^ 64 \<Longrightarrow> length (encodeBytes b) \<le> length b + 9"
  using length_encodeLength_le [of "length b" "0x80"] by (simp add: encodeBytes_def)

lemma length_encodeUint_le: "length (encodeUint v) \<le> 17"
  using length_encodeBytes_le [of "be_bytes (unat v) []"] length_be_bytes_u64 [of v]
  by (simp add: encodeUint_def)

lemma length_encodeList_le: "length (concat es) < 2 ^ 64 \<Longrightarrow> length (encodeList es) \<le> length (concat es) + 9"
  using length_encodeLength_le [of "length (concat es)" "0xC0"] by (simp add: encodeList_def Let_def)

end
