(* ===== verification/Hex.thy ===== *)
theory Hex
  imports Gambit_Prelude
begin

unbundle bit_operations_syntax

text \<open>
  The hex helpers of \<open>src/src/hash.cpp\<close>: \<open>toHex\<close>, \<open>hexCharToNibble\<close> and \<open>fromHex\<close>.
  A formatted byte (\<open>std::hex\<close>, \<open>setw(2)\<close>, fill \<open>'0'\<close>) is two lower-case digits. The parser strips one
  \<open>0x\<close>/\<open>0X\<close> prefix, insists on an even length and throws on the first character that is no hex digit.
\<close>

section \<open>Definitions\<close>

definition hexdigit :: "nat \<Rightarrow> char" where
  "hexdigit n = ''0123456789abcdef'' ! n"

definition hex_byte :: "byte \<Rightarrow> string" where
  "hex_byte b = [hexdigit (unat b div 16), hexdigit (unat b mod 16)]"

definition toHex :: "bytes \<Rightarrow> string" where
  "toHex data = concat (map hex_byte data)"

definition hexCharToNibble :: "char \<Rightarrow> byte result" where
  "hexCharToNibble c = (let n = (of_char c :: nat) in
     if of_char (CHR ''0'') \<le> n \<and> n \<le> of_char (CHR ''9'')
     then Inr (word_of_nat (n - of_char (CHR ''0'')))
     else if of_char (CHR ''a'') \<le> n \<and> n \<le> of_char (CHR ''f'')
     then Inr (word_of_nat (10 + (n - of_char (CHR ''a''))))
     else if of_char (CHR ''A'') \<le> n \<and> n \<le> of_char (CHR ''F'')
     then Inr (word_of_nat (10 + (n - of_char (CHR ''A''))))
     else Inl (Runtime_error ''Invalid hex char''))"

definition has_0x :: "string \<Rightarrow> bool" where
  "has_0x s \<longleftrightarrow> take 2 s = ''0x'' \<or> take 2 s = ''0X''"

definition strip0x :: "string \<Rightarrow> string" where
  "strip0x s = (if has_0x s then drop 2 s else s)"

fun hexPairs :: "string \<Rightarrow> bytes result" where
  "hexPairs (h # l # s) =
     bindR (hexCharToNibble h) (\<lambda>hi.
     bindR (hexCharToNibble l) (\<lambda>lo.
     bindR (hexPairs s) (\<lambda>out. Inr ((push_bit 4 hi OR lo) # out))))"
| "hexPairs s = Inr []"

definition fromHex :: "string \<Rightarrow> bytes result" where
  "fromHex hex = (let s = strip0x hex in
     if length s mod 2 \<noteq> 0 then Inl (Runtime_error ''Hex string length must be even'')
     else hexPairs s)"

text \<open>Which characters the parser takes, and their lower-case form.\<close>

definition is_hex_char :: "char \<Rightarrow> bool" where
  "is_hex_char c \<longleftrightarrow> c \<in> set ''0123456789abcdefABCDEF''"

definition tolower :: "char \<Rightarrow> char" where
  "tolower c = (let n = (of_char c :: nat) in
     if of_char (CHR ''A'') \<le> n \<and> n \<le> of_char (CHR ''Z'') then char_of (n + 32) else c)"

section \<open>Characters\<close>

text \<open>The character facts are decided by evaluation over all 256 characters and all 16 digits.\<close>

definition nibble_spec :: "char \<Rightarrow> bool" where
  "nibble_spec c \<longleftrightarrow> (case hexCharToNibble c of
     Inl e \<Rightarrow> \<not> is_hex_char c \<and> e = Runtime_error ''Invalid hex char''
   | Inr b \<Rightarrow> is_hex_char c \<and> unat b < 16 \<and> hexdigit (unat b) = tolower c)"

definition digit_spec :: "nat \<Rightarrow> bool" where
  "digit_spec n \<longleftrightarrow> hexCharToNibble (hexdigit n) = Inr (word_of_nat n) \<and> is_hex_char (hexdigit n) \<and>
     hexdigit n \<noteq> CHR ''x'' \<and> hexdigit n \<noteq> CHR ''X'' \<and> tolower (hexdigit n) = hexdigit n"

lemma nibble_spec_all: "nibble_spec c"
proof -
  have "\<forall>c. nibble_spec c" by code_simp
  then show ?thesis by blast
qed

lemma digit_spec_all: "n < 16 \<Longrightarrow> digit_spec n"
proof -
  have "list_all digit_spec [0..<16]" by code_simp
  then show "n < 16 \<Longrightarrow> digit_spec n" by (simp only: list_all_iff atLeast_upt [symmetric] lessThan_atLeast0 lessThan_iff) auto
qed

lemmas hexdigit_simps [simp] = digit_spec_all [unfolded digit_spec_def]

lemma hexCharToNibble_cases:
  obtains (digit) b where "hexCharToNibble c = Inr b" "is_hex_char c" "unat b < 16" "hexdigit (unat b) = tolower c"
  | (invalid) "hexCharToNibble c = Inl (Runtime_error ''Invalid hex char'')" "\<not> is_hex_char c"
  using nibble_spec_all [of c] by (cases "hexCharToNibble c") (auto simp: nibble_spec_def)

lemma unat_nibbles:
  assumes "unat (hi :: byte) < 16" "unat (lo :: byte) < 16"
  shows "unat (push_bit 4 hi OR lo) = unat hi * 16 + unat lo"
proof -
  have "push_bit 4 hi OR lo = push_bit 4 hi + lo"
  proof (rule disjunctive_add [symmetric])
    fix n
    have "take_bit 4 (unat lo) = unat lo" using assms(2) by (simp add: take_bit_nat_eq_self)
    then have "bit (unat lo) n \<Longrightarrow> n < 4" by (metis bit_take_bit_iff)
    moreover have "bit lo n \<Longrightarrow> bit (unat lo) n" by (simp add: bit_unsigned_iff)
    ultimately show "\<not> bit (push_bit 4 hi) n \<or> \<not> bit lo n" by (auto simp: bit_push_bit_iff)
  qed
  moreover have "unat (push_bit 4 hi) = unat hi * 16"
    using assms(1) by (simp add: push_bit_eq_mult unat_word_ariths mult.commute)
  ultimately show ?thesis using assms by (simp add: unat_word_ariths)
qed

lemma nibbles_of_byte:
  "push_bit 4 (word_of_nat (unat b div 16)) OR word_of_nat (unat b mod 16) = (b :: byte)"
proof -
  have "unat b div 16 < 16" using unat_byte_less_256 [of b] by (simp add: less_mult_imp_div_less)
  moreover have "unat b mod 16 < 16" by simp
  ultimately have "unat (push_bit 4 (word_of_nat (unat b div 16)) OR word_of_nat (unat b mod 16) :: byte) = unat b"
    by (subst unat_nibbles) (simp_all add: unat_of_nat)
  then show ?thesis by (simp only: unsigned_word_eqI)
qed

section \<open>Lengths and prefixes\<close>

lemma toHex_simps [simp]: "toHex [] = []" "toHex (b # bs) = hex_byte b @ toHex bs"
  by (simp_all add: toHex_def)

lemma length_hex_byte [simp]: "length (hex_byte b) = 2"
  by (simp add: hex_byte_def)

lemma toHex_append [simp]: "toHex (as @ bs) = toHex as @ toHex bs"
  by (simp add: toHex_def)

lemma length_toHex [simp]: "length (toHex bs) = 2 * length bs"
  by (induction bs) auto

lemma div_16_less [simp]: "unat (b :: byte) div 16 < 16"
  using unat_byte_less_256 [of b] by (simp add: less_mult_imp_div_less)

lemma has_0x_toHex [simp]: "\<not> has_0x (toHex bs)"
  by (cases bs) (simp_all add: has_0x_def hex_byte_def)

lemma strip0x_simps [simp]: "strip0x (toHex bs) = toHex bs" "strip0x (CHR ''0'' # CHR ''x'' # s) = s"
  by (simp_all add: strip0x_def) (simp add: has_0x_def)

lemma set_toHex: "c \<in> set (toHex bs) \<Longrightarrow> \<exists>n < 16. c = hexdigit n"
proof (induction bs)
  case (Cons b bs)
  consider "c = hexdigit (unat b div 16)" | "c = hexdigit (unat b mod 16)" | "c \<in> set (toHex bs)"
    using Cons.prems by (auto simp: hex_byte_def)
  then show ?case
    by cases (rule exI [of _ "unat b div 16"] exI [of _ "unat b mod 16"] Cons.IH; simp)+
qed simp

section \<open>Round trips\<close>

lemma hexPairs_hex_byte: "hexPairs (hex_byte b @ s) = bindR (hexPairs s) (\<lambda>out. Inr (b # out))"
  by (simp add: hex_byte_def nibbles_of_byte)

lemma hexPairs_toHex [simp]: "hexPairs (toHex bs) = Inr bs"
  by (induction bs) (simp_all add: hexPairs_hex_byte)

lemma fromHex_toHex [simp]: "fromHex (toHex bs) = Inr bs"
  by (simp add: fromHex_def)

lemma fromHex_0x_toHex [simp]: "fromHex (''0x'' @ toHex bs) = Inr bs"
  by (simp add: fromHex_def)

interpretation hex: codec "\<lambda>_. True" toHex fromHex
  by unfold_locales simp

lemma toHex_eq_iff [simp]: "toHex as = toHex bs \<longleftrightarrow> as = bs"
  by (simp add: hex.enc_eq_iff)

lemma hexPairs_spec:
  "even (length s) \<Longrightarrow> (case hexPairs s of
     Inr bs \<Rightarrow> list_all is_hex_char s \<and> toHex bs = map tolower s
   | Inl e \<Rightarrow> \<not> list_all is_hex_char s \<and> e = Runtime_error ''Invalid hex char'')"
proof (induction s rule: hexPairs.induct)
  case (1 h l s)
  show ?case
  proof (cases h rule: hexCharToNibble_cases)
    case h: (digit hi)
    show ?thesis
    proof (cases l rule: hexCharToNibble_cases)
      case l: (digit lo)
      have "hex_byte (push_bit 4 hi OR lo) = [tolower h, tolower l]"
        using h l by (simp add: hex_byte_def unat_nibbles)
      with "1.IH" [OF h(1) l(1)] "1.prems" h l show ?thesis by (auto split: sum.splits)
    qed (use h in auto)
  qed auto
qed auto

lemma fromHex_cases:
  "case fromHex s of
     Inr bs \<Rightarrow> even (length (strip0x s)) \<and> list_all is_hex_char (strip0x s) \<and>
       toHex bs = map tolower (strip0x s)
   | Inl e \<Rightarrow>
       (if odd (length (strip0x s)) then e = Runtime_error ''Hex string length must be even''
        else \<not> list_all is_hex_char (strip0x s) \<and> e = Runtime_error ''Invalid hex char'')"
proof (cases "even (length (strip0x s))")
  case True
  then show ?thesis using hexPairs_spec [OF True]
    by (auto simp: fromHex_def Let_def even_iff_mod_2_eq_zero split: sum.splits)
next
  case False
  then show ?thesis by (simp add: fromHex_def Let_def odd_iff_mod_2_eq_one)
qed

lemma fromHex_lower:
  assumes "list_all is_hex_char (strip0x s)" "map tolower (strip0x s) = toHex bs"
  shows "fromHex s = Inr bs"
proof -
  have "length (strip0x s) = 2 * length bs" using arg_cong [OF assms(2), of length] by simp
  then show ?thesis using fromHex_cases [of s] assms by (auto split: sum.splits)
qed

text \<open>
  \<open>fromHex\<close> (src/hash.cpp): on the string left after one \<open>0x\<close>/\<open>0X\<close> prefix is removed, an odd length and
  a character that is no hex digit are the only two errors, the odd length first, and every other string
  is accepted and decodes to the bytes whose lower-case hex form it is.
\<close>

theorem fromHex_spec:
  "case fromHex s of
     Inr bs \<Rightarrow> even (length (strip0x s)) \<and> list_all is_hex_char (strip0x s) \<and>
       toHex bs = map tolower (strip0x s)
   | Inl e \<Rightarrow>
       (if odd (length (strip0x s)) then e = Runtime_error ''Hex string length must be even''
        else \<not> list_all is_hex_char (strip0x s) \<and> e = Runtime_error ''Invalid hex char'')"
  by (rule fromHex_cases)

end
