(* ===== verification/Address.thy ===== *)
theory Address
  imports Hex Keccak
begin

text \<open>
  \<open>src/src/address.cpp\<close>: a 20-byte account address, its hex forms (plain and with the EIP-55 checksum)
  and its derivation from a public key. The fixed size of the C++ array is the predicate \<open>is_address\<close>.
\<close>

section \<open>Definitions\<close>

type_synonym address = bytes

definition kSize :: nat where
  "kSize = 20"

definition is_address :: "address \<Rightarrow> bool" where
  "is_address a \<longleftrightarrow> length a = kSize"

definition zeroAddress :: address where
  "zeroAddress = replicate kSize 0"

definition addrFromBytes :: "bytes \<Rightarrow> address result" where
  "addrFromBytes b =
     (if length b \<noteq> kSize then Inl (Runtime_error ''Address::fromBytes: must be 20 bytes'') else Inr b)"

definition addrFromHex :: "string \<Rightarrow> address result" where
  "addrFromHex hex = bindR (fromHex hex) addrFromBytes"

definition addrFromPublicKey :: "bytes \<Rightarrow> address result" where
  "addrFromPublicKey pubKey =
     (let key = (if length pubKey = 65 \<and> pubKey ! 0 = 0x04 then drop 1 pubKey else pubKey) in
      if length key \<noteq> 64
      then Inl (Runtime_error ''Address::fromPublicKey: expected 64-byte uncompressed key'')
      else let hash = keccak256 key in
           if length hash < kSize then Inl (Runtime_error ''Address::fromPublicKey: hash too short'')
           else Inr (drop (length hash - kSize) hash))"

definition is_digit :: "char \<Rightarrow> bool" where
  "is_digit c \<longleftrightarrow> of_char (CHR ''0'') \<le> (of_char c :: nat) \<and> (of_char c :: nat) \<le> of_char (CHR ''9'')"

definition toupper :: "char \<Rightarrow> char" where
  "toupper c = (let n = (of_char c :: nat) in
     if of_char (CHR ''a'') \<le> n \<and> n \<le> of_char (CHR ''z'') then char_of (n - 32) else c)"

definition checksumChar :: "char \<Rightarrow> char \<Rightarrow> char" where
  "checksumChar c h =
     (if is_digit c then c
      else let nibble = (if is_digit h then (of_char h :: int) - of_char (CHR ''0'')
                         else 10 + ((of_char h :: int) - of_char (CHR ''a'')))
           in if nibble \<ge> 8 then toupper c else c)"

definition toChecksumHex :: "address \<Rightarrow> string" where
  "toChecksumHex raw =
     (let hex = concat (map hex_byte raw);
          hashHex = toHex (keccak256_str hex)
      in ''0x'' @ map2 checksumChar hex hashHex)"

definition addrToHex :: "bool \<Rightarrow> address \<Rightarrow> string" where
  "addrToHex checksum a = (if \<not> checksum then ''0x'' @ toHex a else toChecksumHex a)"

definition isZero :: "address \<Rightarrow> bool" where
  "isZero a = list_all (\<lambda>b. b = 0) a"

section \<open>Facts\<close>

lemma is_address_length: "is_address a \<longleftrightarrow> length a = 20"
  by (simp add: is_address_def kSize_def)

lemma isZero_iff: "is_address a \<Longrightarrow> isZero a \<longleftrightarrow> a = zeroAddress"
  by (auto simp: isZero_def zeroAddress_def is_address_def list_all_length intro!: nth_equalityI)

lemma is_address_zero [simp]: "is_address zeroAddress"
  by (simp add: is_address_def zeroAddress_def)

lemma addrFromBytes_ok [simp]: "addrFromBytes b = Inr a \<longleftrightarrow> a = b \<and> is_address b"
  by (auto simp: addrFromBytes_def is_address_def)

lemma addrFromPublicKey_address: "addrFromPublicKey k = Inr a \<Longrightarrow> is_address a"
  by (auto simp: addrFromPublicKey_def Let_def is_address_def kSize_def split: if_splits)

definition upper_spec :: "nat \<Rightarrow> bool" where
  "upper_spec n \<longleftrightarrow> is_hex_char (toupper (hexdigit n)) \<and> tolower (toupper (hexdigit n)) = hexdigit n"

lemma upper_spec_all: "n < 16 \<Longrightarrow> upper_spec n"
proof -
  have "list_all upper_spec [0..<16]" by code_simp
  then show "n < 16 \<Longrightarrow> upper_spec n" by (auto simp: list_all_iff)
qed

lemma checksumChar_hexdigit:
  "n < 16 \<Longrightarrow> is_hex_char (checksumChar (hexdigit n) h) \<and> tolower (checksumChar (hexdigit n) h) = hexdigit n"
  using upper_spec_all [of n] by (auto simp: checksumChar_def upper_spec_def Let_def)

lemma checksum_lower:
  assumes "length hs \<ge> length s" "\<And>c. c \<in> set s \<Longrightarrow> \<exists>n < 16. c = hexdigit n"
  shows "map tolower (map2 checksumChar s hs) = s" "list_all is_hex_char (map2 checksumChar s hs)"
  using assms
proof (induction s arbitrary: hs)
  case (Cons c s)
  {
    case 1
    then show ?case using Cons.IH(1) [of "tl hs"] checksumChar_hexdigit by (cases hs) auto
  next
    case 2
    then show ?case using Cons.IH(2) [of "tl hs"] checksumChar_hexdigit by (cases hs) auto
  }
qed auto

lemma fromHex_toChecksumHex:
  assumes "is_address a"
  shows "fromHex (toChecksumHex a) = Inr a"
proof (rule fromHex_lower)
  let ?h = "map2 checksumChar (toHex a) (toHex (keccak256_str (toHex a)))"
  have s: "strip0x (toChecksumHex a) = ?h"
    by (simp add: toChecksumHex_def Let_def flip: toHex_def)
  have "length (toHex (keccak256_str (toHex a))) \<ge> length (toHex a)"
    using assms by (simp add: is_address_length)
  from checksum_lower [OF this set_toHex [of _ a]]
  show "list_all is_hex_char (strip0x (toChecksumHex a))"
      "map tolower (strip0x (toChecksumHex a)) = toHex a"
    by (simp_all add: s)
qed

lemma addrFromHex_addrToHex: "is_address a \<Longrightarrow> addrFromHex (addrToHex checksum a) = Inr a"
  using fromHex_0x_toHex [of a]
  by (simp add: addrFromHex_def addrToHex_def fromHex_toChecksumHex is_address_def addrFromBytes_def)

interpretation addr_hex: codec is_address "addrToHex checksum" addrFromHex for checksum
  by unfold_locales (rule addrFromHex_addrToHex)

section \<open>Properties\<close>

text \<open>
  Address text forms (src/address.cpp): parsing what \<open>toHex\<close> prints gives the address back, for the plain
  lower-case form and for the EIP-55 form whatever the digest's nibbles say; both forms differ only in
  letter case, so the plain form is a faithful key of the account table.
\<close>

theorem address_hex_roundtrip:
  assumes "is_address a" and "is_address b"
  shows "addrFromHex (addrToHex checksum a) = Inr a \<and>
    map tolower (addrToHex True a) = addrToHex False a \<and>
    (addrToHex False a = addrToHex False b \<longleftrightarrow> a = b)"
proof -
  have "length (toHex (keccak256_str (toHex a))) \<ge> length (toHex a)"
    using assms by (simp add: is_address_length)
  then have "map tolower (map2 checksumChar (toHex a) (toHex (keccak256_str (toHex a)))) = toHex a"
    by (rule checksum_lower(1)) (rule set_toHex)
  then have "map tolower (addrToHex True a) = addrToHex False a"
    by (simp add: addrToHex_def toChecksumHex_def tolower_def [of "CHR ''0''"] tolower_def [of "CHR ''x''"] Let_def
        flip: toHex_def)
  then show ?thesis
    using assms by (simp add: addr_hex.dec_enc addr_hex.enc_eq_iff)
qed

theorem address_hex_roundtrip_witness:
  "addrFromHex (addrToHex True (replicate 20 0xAB)) = Inr (replicate 20 0xAB)"
  using address_hex_roundtrip [of "replicate 20 0xAB" zeroAddress True]
  by (simp add: is_address_def kSize_def zeroAddress_def)

end
