(* ===== verification/Keys.thy ===== *)
theory Keys
  imports Address
begin

unbundle bit_operations_syntax

text \<open>
  \<open>src/src/keys.cpp\<close>: key pairs, signing, verification and the recovery of a sender's address.
  The elliptic-curve library secp256k1 is a parameter: the record \<open>secp256k1\<close> has one function for each
  library call the code makes, on the library's own opaque byte structures; a call that can fail returns an
  option. The pseudo-random generator of \<open>KeyPair::random\<close> is a parameter too: the sequence of its outputs.
\<close>

section \<open>The library interface\<close>

record secp256k1 =
  ec_seckey_verify :: "bytes \<Rightarrow> bool"
  ec_pubkey_create :: "bytes \<Rightarrow> bytes option"
  ec_pubkey_serialize :: "bytes \<Rightarrow> bytes"
  ec_pubkey_parse :: "bytes \<Rightarrow> bytes option"
  ecdsa_sign_recoverable :: "bytes \<Rightarrow> bytes \<Rightarrow> bytes option"
  recoverable_serialize_compact :: "bytes \<Rightarrow> bytes \<times> nat"
  recoverable_parse_compact :: "bytes \<Rightarrow> nat \<Rightarrow> bytes option"
  ecdsa_recover :: "bytes \<Rightarrow> bytes \<Rightarrow> bytes option"
  ecdsa_signature_parse_compact :: "bytes \<Rightarrow> bytes option"
  ecdsa_signature_normalize :: "bytes \<Rightarrow> bytes"
  ecdsa_verify :: "bytes \<Rightarrow> bytes \<Rightarrow> bytes \<Rightarrow> bool"

section \<open>Data\<close>

record Signature =
  sig_r :: bytes
  sig_s :: bytes
  sig_v :: byte

definition emptySignature :: Signature where
  "emptySignature = \<lparr> sig_r = [], sig_s = [], sig_v = 0 \<rparr>"

record KeyPair =
  kp_priv :: bytes
  kp_pub :: bytes

section \<open>Operations\<close>

definition derivePublic :: "secp256k1 \<Rightarrow> bytes \<Rightarrow> KeyPair result" where
  "derivePublic S priv =
     (case ec_pubkey_create S priv of
        None \<Rightarrow> Inl (Runtime_error ''Failed to create secp256k1 public key'')
      | Some pubkey \<Rightarrow>
          let out = ec_pubkey_serialize S pubkey
          in Inr \<lparr> kp_priv = priv, kp_pub = take 64 (drop 1 out) \<rparr>)"

partial_function (option) randomPriv :: "secp256k1 \<Rightarrow> (nat \<Rightarrow> u64) \<Rightarrow> nat \<Rightarrow> bytes option" where
  "randomPriv S gen i =
     (let priv = map (\<lambda>j. ucast (gen (i + j) AND 0xFF) :: byte) [0..<32]
      in if ec_seckey_verify S priv then Some priv else randomPriv S gen (i + 32))"

definition keyRandom :: "secp256k1 \<Rightarrow> (nat \<Rightarrow> u64) \<Rightarrow> KeyPair result option" where
  "keyRandom S gen =
     (case randomPriv S gen 0 of None \<Rightarrow> None | Some priv \<Rightarrow> Some (derivePublic S priv))"

definition fromPrivateKey32 :: "secp256k1 \<Rightarrow> bytes \<Rightarrow> KeyPair result" where
  "fromPrivateKey32 S privKey =
     (if \<not> ec_seckey_verify S privKey then Inl (Runtime_error ''Invalid private key'')
      else derivePublic S privKey)"

definition fromPrivateKey :: "secp256k1 \<Rightarrow> bytes \<Rightarrow> KeyPair result" where
  "fromPrivateKey S privKey =
     (if length privKey \<noteq> 32 then Inl (Runtime_error ''Private key must be 32 bytes'')
      else fromPrivateKey32 S privKey)"

definition keyAddress :: "KeyPair \<Rightarrow> address result" where
  "keyAddress key = addrFromPublicKey (kp_pub key)"

definition sign :: "secp256k1 \<Rightarrow> KeyPair \<Rightarrow> bytes \<Rightarrow> u64 \<Rightarrow> Signature result" where
  "sign S key msgHash chainId =
     (case ecdsa_sign_recoverable S msgHash (kp_priv key) of
        None \<Rightarrow> Inl (Runtime_error ''Failed to sign message'')
      | Some recsig \<Rightarrow>
          let (compact, recid) = recoverable_serialize_compact S recsig
          in Inr \<lparr> sig_r = take 32 compact, sig_s = take 32 (drop 32 compact), sig_v = word_of_nat recid \<rparr>)"

text \<open>
  \<open>verify\<close> copies 32 bytes out of \<open>r\<close> and \<open>s\<close> without looking at their sizes: a shorter vector is read
  past its end.
\<close>

definition verify :: "secp256k1 \<Rightarrow> bytes \<Rightarrow> Signature \<Rightarrow> bytes \<Rightarrow> bool result" where
  "verify S msgHash sig pubKey =
     (if length pubKey \<noteq> 64 then Inl (Runtime_error ''verify: pubKey must be 64 bytes'')
      else case ec_pubkey_parse S (0x04 # pubKey) of
        None \<Rightarrow> Inr False
      | Some pk \<Rightarrow>
          if length (sig_r sig) < 32 \<or> length (sig_s sig) < 32 then Inl Undefined
          else (case ecdsa_signature_parse_compact S (take 32 (sig_r sig) @ take 32 (sig_s sig)) of
             None \<Rightarrow> Inr False
           | Some normsig \<Rightarrow> Inr (ecdsa_verify S (ecdsa_signature_normalize S normsig) msgHash pk)))"

definition recoveryId :: "byte \<Rightarrow> u64 \<Rightarrow> nat result" where
  "recoveryId v chainId =
     (if v = 0 \<or> v = 1 then Inr (unat v)
      else let vFull = (ucast v :: u64) in
      if vFull < 35 then Inl (Runtime_error ''recoverAddress: unsupported v'')
      else let cid = (vFull - 35) div 2 in
      if cid \<noteq> chainId then Inl (Runtime_error ''recoverAddress: chainId mismatch'')
      else Inr (unat (vFull - (35 + 2 * chainId))))"

definition recoverAddress :: "secp256k1 \<Rightarrow> bytes \<Rightarrow> Signature \<Rightarrow> u64 \<Rightarrow> address result" where
  "recoverAddress S msgHash sig chainId =
     bindR (recoveryId (sig_v sig) chainId) (\<lambda>recId.
     if length (sig_r sig) \<noteq> 32 \<or> length (sig_s sig) \<noteq> 32
     then Inl (Runtime_error ''recoverAddress: invalid r/s size'')
     else case recoverable_parse_compact S (sig_r sig @ sig_s sig) recId of
       None \<Rightarrow> Inl (Runtime_error ''recoverAddress: parse_compact failed'')
     | Some recSig \<Rightarrow>
         (case ecdsa_recover S recSig msgHash of
            None \<Rightarrow> Inl (Runtime_error ''recoverAddress: recover failed'')
          | Some pubkey \<Rightarrow>
              let pub = ec_pubkey_serialize S pubkey;
                  hash = keccak256 (drop 1 pub)
              in addrFromBytes (drop (length hash - 20) hash)))"

section \<open>What the library documents\<close>

text \<open>
  Uncompressed serialisation writes 65 bytes; a verified secret key has a public key; a recoverable
  signature made with a key serialises to 64 bytes and a recovery id below 4, parses back, recovers the
  signer's public key, and the plain signature in its 64 bytes verifies under that key after normalisation.
\<close>

definition serialize_65 :: "secp256k1 \<Rightarrow> bool" where
  "serialize_65 S \<longleftrightarrow> (\<forall>pk. length (ec_pubkey_serialize S pk) = 65)"

definition pubkey_exists :: "secp256k1 \<Rightarrow> bool" where
  "pubkey_exists S \<longleftrightarrow> (\<forall>k. ec_seckey_verify S k \<longrightarrow> ec_pubkey_create S k \<noteq> None)"

definition compact_format :: "secp256k1 \<Rightarrow> bool" where
  "compact_format S \<longleftrightarrow> (\<forall>h k rs c recid. ecdsa_sign_recoverable S h k = Some rs \<longrightarrow>
     recoverable_serialize_compact S rs = (c, recid) \<longrightarrow>
     length c = 64 \<and> recid < 4 \<and> recoverable_parse_compact S c recid = Some rs)"

definition recover_signed :: "secp256k1 \<Rightarrow> bool" where
  "recover_signed S \<longleftrightarrow> (\<forall>h k pk rs. ec_pubkey_create S k = Some pk \<longrightarrow>
     ecdsa_sign_recoverable S h k = Some rs \<longrightarrow> ecdsa_recover S rs h = Some pk)"

definition pubkey_reparse :: "secp256k1 \<Rightarrow> bool" where
  "pubkey_reparse S \<longleftrightarrow> (\<forall>k pk. ec_pubkey_create S k = Some pk \<longrightarrow> hd (ec_pubkey_serialize S pk) = 0x04 \<and>
     ec_pubkey_parse S (ec_pubkey_serialize S pk) = Some pk)"

definition verify_signed :: "secp256k1 \<Rightarrow> bool" where
  "verify_signed S \<longleftrightarrow> (\<forall>h k pk rs. ec_pubkey_create S k = Some pk \<longrightarrow>
     ecdsa_sign_recoverable S h k = Some rs \<longrightarrow>
     (case ecdsa_signature_parse_compact S (fst (recoverable_serialize_compact S rs)) of
        None \<Rightarrow> False
      | Some sg \<Rightarrow> ecdsa_verify S (ecdsa_signature_normalize S sg) h pk))"

text \<open>A concrete instance on which all of them hold (no cryptography: keys are their own public keys).\<close>

definition plain_secp :: secp256k1 where
  "plain_secp = \<lparr>
     ec_seckey_verify = (\<lambda>k. length k = 32 \<and> k \<noteq> replicate 32 0),
     ec_pubkey_create = (\<lambda>k. if length k = 32 then Some (k @ k) else None),
     ec_pubkey_serialize = (\<lambda>pk. 0x04 # take 64 (pk @ replicate 64 0)),
     ec_pubkey_parse = (\<lambda>b. Some (drop 1 b)),
     ecdsa_sign_recoverable = (\<lambda>h k. if length h = 32 \<and> length k = 32 then Some (k @ h) else None),
     recoverable_serialize_compact = (\<lambda>rs. (take 64 (rs @ replicate 64 0), 0)),
     recoverable_parse_compact = (\<lambda>c recid. Some c),
     ecdsa_recover = (\<lambda>rs h. Some (take 32 rs @ take 32 rs)),
     ecdsa_signature_parse_compact = Some,
     ecdsa_signature_normalize = id,
     ecdsa_verify = (\<lambda>sg h pk. take 32 sg = take 32 pk \<and> drop 32 sg = h) \<rparr>"


lemma plain_secp_ok:
  "serialize_65 plain_secp" "pubkey_exists plain_secp" "compact_format plain_secp" "recover_signed plain_secp"
  "pubkey_reparse plain_secp" "verify_signed plain_secp"
  by (auto simp: plain_secp_def serialize_65_def pubkey_exists_def compact_format_def recover_signed_def
      pubkey_reparse_def verify_signed_def split: if_splits)

section \<open>Facts\<close>

lemma derivePublic_ok:
  "derivePublic S k = Inr kp \<longleftrightarrow>
   (\<exists>pk. ec_pubkey_create S k = Some pk \<and> kp = \<lparr> kp_priv = k, kp_pub = take 64 (drop 1 (ec_pubkey_serialize S pk)) \<rparr>)"
  by (auto simp: derivePublic_def Let_def split: option.splits)

text \<open>A key pair as the two constructors make it.\<close>

definition valid_key :: "secp256k1 \<Rightarrow> KeyPair \<Rightarrow> bool" where
  "valid_key S key \<longleftrightarrow> ec_seckey_verify S (kp_priv key) \<and> derivePublic S (kp_priv key) = Inr key"

lemma fromPrivateKey_valid: "fromPrivateKey S k = Inr key \<Longrightarrow> valid_key S key \<and> kp_priv key = k"
  by (auto simp: fromPrivateKey_def fromPrivateKey32_def valid_key_def derivePublic_ok split: if_splits)

lemma valid_keyE:
  assumes "valid_key S key" "serialize_65 S"
  obtains pk where "ec_pubkey_create S (kp_priv key) = Some pk"
    "kp_pub key = drop 1 (ec_pubkey_serialize S pk)" "length (kp_pub key) = 64"
  using assms by (cases key) (auto simp: valid_key_def serialize_65_def derivePublic_ok)

lemma addrFromPublicKey_64:
  "length key = 64 \<Longrightarrow> addrFromPublicKey key = Inr (drop 12 (keccak256 key))"
  by (simp add: addrFromPublicKey_def Let_def kSize_def)

lemma is_address_drop_keccak [simp]: "is_address (drop 12 (keccak256 key))"
  by (simp add: is_address_length)

lemma keyAddress_valid:
  "valid_key S key \<Longrightarrow> serialize_65 S \<Longrightarrow> keyAddress key = Inr (drop 12 (keccak256 (kp_pub key)))"
  by (auto simp: keyAddress_def addrFromPublicKey_64 elim: valid_keyE)

lemma recoverAddress_address: "recoverAddress S h sig cid = Inr a \<Longrightarrow> is_address a"
  by (auto simp: recoverAddress_def bindR_Inr_iff Let_def split: if_splits option.splits)

lemma sign_InrE:
  assumes "sign S key h cid = Inr sig" "compact_format S"
  obtains rs c recid where "ecdsa_sign_recoverable S h (kp_priv key) = Some rs"
    "recoverable_serialize_compact S rs = (c, recid)" "length c = 64" "recid < 4"
    "recoverable_parse_compact S c recid = Some rs"
    "sig = \<lparr> sig_r = take 32 c, sig_s = drop 32 c, sig_v = word_of_nat recid \<rparr>"
  using assms by (auto simp: sign_def compact_format_def split: option.splits prod.splits)

lemma sign_sizes:
  assumes "sign S key h cid = Inr sig" "compact_format S"
  shows "length (sig_r sig) = 32" "length (sig_s sig) = 32" "unat (sig_v sig) < 4"
  by (rule sign_InrE [OF assms], simp add: unat_of_nat)+

lemma recoveryId_plain: "unat v < 2 \<Longrightarrow> recoveryId v cid = Inr (unat v)"
  by (auto simp: recoveryId_def word_unat_eq_iff)

lemma recoveryId_high: "2 \<le> unat v \<Longrightarrow> unat v < 35 \<Longrightarrow>
  recoveryId v cid = Inl (Runtime_error ''recoverAddress: unsupported v'')"
  by (auto simp: recoveryId_def Let_def word_less_nat_alt)

lemma recoveryId_eip155:
  assumes "35 \<le> unat v"
  shows "recoveryId v cid =
    (if (unat v - 35) div 2 = unat cid then Inr (unat v - (35 + 2 * unat cid))
     else Inl (Runtime_error ''recoverAddress: chainId mismatch''))"
proof -
  let ?w = "ucast v :: u64"
  have w: "unat ?w = unat v" by simp
  have sub: "unat (?w - 35) = unat v - 35" using assms w by (subst unat_sub) (auto simp: word_le_nat_alt)
  have cid: "(?w - 35) div 2 = cid \<longleftrightarrow> (unat v - 35) div 2 = unat cid"
    by (simp add: word_unat_eq_iff [of "(?w - 35) div 2"] unat_div sub del: unat_inject)
  have "unat (?w - (35 + 2 * cid)) = unat v - (35 + 2 * unat cid)" if "(unat v - 35) div 2 = unat cid"
  proof -
    have le: "35 + 2 * unat cid \<le> unat v" using that assms by linarith
    also have "unat v < 2 ^ 64" by (rule less_trans [OF unat_byte_less_256]) simp
    finally have "35 + 2 * unat cid < 2 ^ 64" .
    then have "unat (35 + 2 * cid) = 35 + 2 * unat cid" by (simp add: unat_word_ariths)
    then show ?thesis using le w by (subst unat_sub) (auto simp: word_le_nat_alt)
  qed
  moreover have "v \<noteq> 0" "v \<noteq> 1" using assms by auto
  ultimately show ?thesis
    using assms by (simp add: recoveryId_def Let_def cid word_less_nat_alt w)
qed

text \<open>
  What recovery returns depends on the recovery id alone: with the signer's id, parsed from a plain or
  an EIP-155 value of \<open>v\<close>, it is the signer's address.
\<close>

lemma recoverAddress_sign:
  assumes key: "valid_key S key" and lib: "serialize_65 S" "compact_format S" "recover_signed S"
    and sig: "sign S key h cid = Inr sig" and v: "recoveryId v cid' = Inr (unat (sig_v sig))"
  shows "recoverAddress S h (sig\<lparr> sig_v := v \<rparr>) cid' = keyAddress key"
proof -
  obtain pk where pk: "ec_pubkey_create S (kp_priv key) = Some pk"
    "kp_pub key = drop 1 (ec_pubkey_serialize S pk)" "length (kp_pub key) = 64"
    using key lib(1) by (rule valid_keyE)
  from sig lib(2) show ?thesis
  proof (rule sign_InrE)
    fix rs c recid
    assume rs: "ecdsa_sign_recoverable S h (kp_priv key) = Some rs" "length c = 64" "recid < 4"
      "recoverable_parse_compact S c recid = Some rs"
      "sig = \<lparr> sig_r = take 32 c, sig_s = drop 32 c, sig_v = word_of_nat recid \<rparr>"
    then have "ecdsa_recover S rs h = Some pk" using lib(3) pk(1) by (auto simp: recover_signed_def)
    then show ?thesis
      using v rs pk(2) keyAddress_valid [OF key lib(1)]
      by (simp add: recoverAddress_def Let_def unat_of_nat)
  qed
qed

lemma verify_sign:
  assumes key: "valid_key S key"
    and lib: "serialize_65 S" "compact_format S" "pubkey_reparse S" "verify_signed S"
    and sig: "sign S key h cid = Inr sig"
  shows "verify S h sig (kp_pub key) = Inr True"
proof -
  obtain pk where pk: "ec_pubkey_create S (kp_priv key) = Some pk"
    "kp_pub key = drop 1 (ec_pubkey_serialize S pk)" "length (kp_pub key) = 64"
    using key lib(1) by (rule valid_keyE)
  have "0x04 # kp_pub key = ec_pubkey_serialize S pk"
    using lib(1,3) pk unfolding pubkey_reparse_def serialize_65_def
    by (cases "ec_pubkey_serialize S pk") (simp, metis list.sel(1) drop_Suc_Cons drop0 One_nat_def)
  then have "ec_pubkey_parse S (0x04 # kp_pub key) = Some pk" using lib(3) pk by (auto simp: pubkey_reparse_def)
  moreover from sig lib(2) obtain rs c recid where rs: "ecdsa_sign_recoverable S h (kp_priv key) = Some rs"
      "recoverable_serialize_compact S rs = (c, recid)" "length c = 64"
      "sig = \<lparr> sig_r = take 32 c, sig_s = drop 32 c, sig_v = word_of_nat recid \<rparr>"
    by (rule sign_InrE)
  moreover have "case ecdsa_signature_parse_compact S c of None \<Rightarrow> False
      | Some sg \<Rightarrow> ecdsa_verify S (ecdsa_signature_normalize S sg) h pk"
    using lib(4) [unfolded verify_signed_def, rule_format, OF pk(1) rs(1)] rs(2) by simp
  ultimately show ?thesis using pk(3) by (auto simp: verify_def split: option.splits)
qed

definition candidate :: "(nat \<Rightarrow> u64) \<Rightarrow> nat \<Rightarrow> bytes" where
  "candidate gen n = map (\<lambda>j. ucast (gen (32 * n + j) AND 0xFF)) [0..<32]"

lemma randomPriv_candidate:
  "randomPriv S gen (32 * n) =
   (if ec_seckey_verify S (candidate gen n) then Some (candidate gen n) else randomPriv S gen (32 * Suc n))"
  by (subst randomPriv.simps) (simp add: candidate_def Let_def add.commute del: upt_Suc)

lemma randomPriv_first:
  assumes "ec_seckey_verify S (candidate gen n)" "\<And>m. m < n \<Longrightarrow> \<not> ec_seckey_verify S (candidate gen m)"
  shows "randomPriv S gen 0 = Some (candidate gen n)"
proof -
  have "k \<le> n \<Longrightarrow> randomPriv S gen (32 * (n - k)) = Some (candidate gen n)" for k
  proof (induction k)
    case 0
    then show ?case using randomPriv_candidate [of S gen n] assms(1) by simp
  next
    case (Suc k)
    then have "Suc (n - Suc k) = n - k" "\<not> ec_seckey_verify S (candidate gen (n - Suc k))"
      using assms(2) [of "n - Suc k"] by auto
    then show ?case using randomPriv_candidate [of S gen "n - Suc k"] Suc by simp
  qed
  from this [of n] show ?thesis by simp
qed

lemma recoverAddress_signed:
  assumes "valid_key S key" "serialize_65 S" "compact_format S" "recover_signed S" "sign S key h cid = Inr sig"
  shows "recoverAddress S h sig cid' =
    (if unat (sig_v sig) < 2 then keyAddress key else Inl (Runtime_error ''recoverAddress: unsupported v''))"
proof (cases "unat (sig_v sig) < 2")
  case True
  have "recoverAddress S h (sig\<lparr> sig_v := sig_v sig \<rparr>) cid' = keyAddress key"
    using assms recoveryId_plain [OF True] by (rule recoverAddress_sign)
  with True show ?thesis by simp
next
  case False
  moreover have "unat (sig_v sig) < 4" using assms(5,3) by (rule sign_sizes)
  ultimately show ?thesis using recoveryId_high [of "sig_v sig" cid'] by (simp add: recoverAddress_def)
qed

section \<open>Properties\<close>

text \<open>
  C17. Sender recovery (src/keys.cpp, \<open>Keys::recoverAddress\<close>): for a signature made with a valid key pair, the
  recovered address is the key's own address, given the bare recovery id as \<open>sign\<close> leaves it or the EIP-155
  value \<open>35 + 2 * chainId + recid\<close> when that fits in the byte. A recovery id of 2 or 3, which the curve library may
  return, is refused.
\<close>

theorem recover_after_sign:
  assumes "valid_key S key" and "serialize_65 S" and "compact_format S" and "recover_signed S"
    and "sign S key h cid = Inr sig"
  shows "recoverAddress S h sig cid' =
      (if unat (sig_v sig) < 2 then keyAddress key
       else Inl (Runtime_error ''recoverAddress: unsupported v'')) \<and>
    (unat (sig_v sig) < 2 \<longrightarrow> 35 + 2 * unat cid + unat (sig_v sig) < 256 \<longrightarrow>
      recoverAddress S h (sig\<lparr> sig_v := word_of_nat (35 + 2 * unat cid + unat (sig_v sig)) \<rparr>) cid = keyAddress key)"
proof -
  have "recoverAddress S h (sig\<lparr> sig_v := v \<rparr>) cid = keyAddress key"
    if "unat v = 35 + 2 * unat cid + unat (sig_v sig)" "unat (sig_v sig) < 2" for v
    using assms by (rule recoverAddress_sign) (use that in \<open>simp add: recoveryId_eip155\<close>)
  moreover have "unat (word_of_nat k :: byte) = k" if "k < 256" for k using that by (simp add: unat_of_nat)
  ultimately show ?thesis using recoverAddress_signed [OF assms] by (auto simp del: of_nat_add)
qed

lemma plain_key: "valid_key plain_secp \<lparr> kp_priv = replicate 32 1, kp_pub = replicate 64 1 \<rparr>"
  by (simp add: valid_key_def derivePublic_def plain_secp_def numeral_eq_Suc)

lemma plain_sign:
  "sign plain_secp \<lparr> kp_priv = replicate 32 1, kp_pub = replicate 64 1 \<rparr> (replicate 32 9) cid =
    Inr \<lparr> sig_r = replicate 32 1, sig_s = replicate 32 9, sig_v = 0 \<rparr>"
  by (simp add: sign_def plain_secp_def)

theorem recover_after_sign_witness:
  "recoverAddress plain_secp (replicate 32 9)
     \<lparr> sig_r = replicate 32 1, sig_s = replicate 32 9, sig_v = 37 \<rparr> 1 =
   keyAddress \<lparr> kp_priv = replicate 32 1, kp_pub = replicate 64 1 \<rparr>"
  using recover_after_sign [OF plain_key plain_secp_ok(1,3,4) plain_sign [of 1]] by simp

text \<open>
  Signing and verification (src/keys.cpp): a signature made with a valid key pair always has 32-byte \<open>r\<close>
  and \<open>s\<close>, so \<open>KeyPair::verify\<close> reads no byte beyond them, and it verifies under the pair's public key.
\<close>

theorem verify_after_sign:
  assumes "valid_key S key" and "serialize_65 S" and "compact_format S" and "pubkey_reparse S"
    and "verify_signed S" and "sign S key h cid = Inr sig"
  shows "length (sig_r sig) = 32 \<and> length (sig_s sig) = 32 \<and> verify S h sig (kp_pub key) = Inr True"
  using verify_sign [OF assms] sign_sizes [OF assms(6,3)] by simp

theorem verify_after_sign_witness:
  "verify plain_secp (replicate 32 9) \<lparr> sig_r = replicate 32 1, sig_s = replicate 32 9, sig_v = 0 \<rparr>
     (replicate 64 1) = Inr True"
  using verify_after_sign [OF plain_key plain_secp_ok(1,3,5,6) plain_sign [of 1]] by simp

text \<open>
  The rejection loop of \<open>KeyPair::random\<close> (src/keys.cpp): if any 32-byte window of the generator's output
  is a valid secret key, the loop ends, the key pair is the one of the first such window, it is valid, and
  its address is defined.
\<close>

theorem random_key_returns:
  assumes "ec_seckey_verify S (candidate gen n)" and "\<forall>m < n. \<not> ec_seckey_verify S (candidate gen m)"
    and "pubkey_exists S" and "serialize_65 S"
  shows "\<exists>key a. keyRandom S gen = Some (Inr key) \<and> kp_priv key = candidate gen n \<and> valid_key S key \<and>
    keyAddress key = Inr a \<and> is_address a"
proof -
  obtain pk where pk: "ec_pubkey_create S (candidate gen n) = Some pk"
    using assms(1,3) by (auto simp: pubkey_exists_def)
  let ?key = "\<lparr> kp_priv = candidate gen n, kp_pub = take 64 (drop 1 (ec_pubkey_serialize S pk)) \<rparr>"
  have d: "derivePublic S (candidate gen n) = Inr ?key" using pk by (simp add: derivePublic_ok)
  then have "keyRandom S gen = Some (Inr ?key)"
    using randomPriv_first [of S gen n] assms(1,2) by (simp add: keyRandom_def)
  moreover have "valid_key S ?key" using assms(1) d by (simp add: valid_key_def)
  moreover from keyAddress_valid [OF this assms(4)]
  have "\<exists>a. keyAddress ?key = Inr a \<and> is_address a" by simp
  ultimately show ?thesis by (metis KeyPair.select_convs(1))
qed

theorem random_key_returns_witness:
  "\<exists>key a. keyRandom plain_secp (\<lambda>i. if i < 32 then 0 else 1) = Some (Inr key) \<and>
     kp_priv key = candidate (\<lambda>i. if i < 32 then 0 else 1) 1 \<and> valid_key plain_secp key \<and>
     keyAddress key = Inr a \<and> is_address a"
proof (rule random_key_returns)
  have "candidate (\<lambda>i. if i < 32 then 0 else 1) 1 ! 0 = 1" "candidate (\<lambda>i. if i < 32 then 0 else 1) 0 = replicate 32 0"
    by (auto simp: candidate_def intro!: nth_equalityI)
  then show "ec_seckey_verify plain_secp (candidate (\<lambda>i. if i < 32 then 0 else 1) 1)"
    "\<forall>m < 1. \<not> ec_seckey_verify plain_secp (candidate (\<lambda>i. if i < 32 then 0 else 1) m)"
    by (auto simp: plain_secp_def candidate_def dest: arg_cong [of _ _ "\<lambda>xs. xs ! 0"])
qed (rule plain_secp_ok)+

end
