(* ===== verification/Transaction.thy ===== *)
theory Transaction
  imports Rlp Keys
begin

text \<open>
  \<open>src/src/transaction.cpp\<close>: the transaction record, its RLP forms for signing (EIP-155) and for broadcast, its
  hash, signing, signature check and the parser of the broadcast form. The recovery library is the
  parameter \<open>S\<close> of theory \<open>Keys\<close>.
\<close>

section \<open>Definitions\<close>

record Transaction =
  tx_nonce :: u64
  tx_gasPrice :: u64
  tx_gasLimit :: u64
  tx_to :: address
  tx_value :: u64
  tx_data :: bytes
  tx_chainId :: u64
  tx_from :: address
  tx_sig :: Signature
  tx_hash :: string

definition emptyTransaction :: Transaction where
  "emptyTransaction = \<lparr> tx_nonce = 0, tx_gasPrice = 0, tx_gasLimit = 0, tx_to = zeroAddress, tx_value = 0,
     tx_data = [], tx_chainId = 1, tx_from = zeroAddress, tx_sig = emptySignature, tx_hash = [] \<rparr>"

definition toField :: "address \<Rightarrow> bytes" where
  "toField a = (if a = replicate 20 0 then encodeBytes [] else encodeBytes a)"

definition rlpEncodeForSigning :: "Transaction \<Rightarrow> bytes" where
  "rlpEncodeForSigning tx = encodeList
     [encodeUint (tx_nonce tx), encodeUint (tx_gasPrice tx), encodeUint (tx_gasLimit tx), toField (tx_to tx),
      encodeUint (tx_value tx), encodeBytes (tx_data tx),
      encodeUint (tx_chainId tx), encodeUint 0, encodeUint 0]"

definition rlpEncodeSigned :: "Transaction \<Rightarrow> bytes" where
  "rlpEncodeSigned tx =
     (let v = (ucast (sig_v (tx_sig tx)) :: u64) + 35 + 2 * tx_chainId tx in encodeList
     [encodeUint (tx_nonce tx), encodeUint (tx_gasPrice tx), encodeUint (tx_gasLimit tx), toField (tx_to tx),
      encodeUint (tx_value tx), encodeBytes (tx_data tx),
      encodeUint v, encodeBytes (sig_r (tx_sig tx)), encodeBytes (sig_s (tx_sig tx))])"

definition signingHash :: "Transaction \<Rightarrow> bytes" where
  "signingHash tx = keccak256_32 (rlpEncodeForSigning tx)"

definition verifySignature :: "secp256k1 \<Rightarrow> Transaction \<Rightarrow> bool" where
  "verifySignature S tx =
     (case recoverAddress S (signingHash tx) (tx_sig tx) (tx_chainId tx) of
        Inl e \<Rightarrow> False
      | Inr recovered \<Rightarrow> \<not> (\<not> isZero (tx_from tx) \<and> recovered \<noteq> tx_from tx))"

definition txToHex :: "Transaction \<Rightarrow> string" where
  "txToHex tx = ''0x'' @ toHex (rlpEncodeSigned tx)"

definition computeHash :: "Transaction \<Rightarrow> string" where
  "computeHash tx = ''0x'' @ toHex (keccak256 (rlpEncodeSigned tx))"

text \<open>The lambda \<open>toUint\<close> of the parser is \<open>be_u64\<close>: bytes beyond the eighth shift the leading ones out.\<close>

definition parseTo :: "bytes \<Rightarrow> address result" where
  "parseTo b = (if b = [] then Inr zeroAddress else addrFromBytes b)"

definition txOfFields :: "secp256k1 \<Rightarrow> Decoded list \<Rightarrow> Transaction result" where
  "txOfFields S L =
     bindR (parseTo (d_bytes (L ! 3))) (\<lambda>to.
     let vFull = be_u64 (d_bytes (L ! 6));
         r = d_bytes (L ! 7);
         s = d_bytes (L ! 8) in
     if length r \<noteq> 32 \<or> length s \<noteq> 32 then Inl (Runtime_error ''Transaction::fromHex: invalid r/s size'')
     else
       let chainId = (if vFull \<ge> 35 then (vFull - 35) div 2 else 0);
           tx = emptyTransaction \<lparr>
             tx_nonce := be_u64 (d_bytes (L ! 0)),
             tx_gasPrice := be_u64 (d_bytes (L ! 1)),
             tx_gasLimit := be_u64 (d_bytes (L ! 2)),
             tx_to := to,
             tx_value := be_u64 (d_bytes (L ! 4)),
             tx_data := d_bytes (L ! 5),
             tx_sig := \<lparr> sig_r = r, sig_s = s, sig_v = ucast vFull \<rparr>,
             tx_chainId := chainId \<rparr>;
           tx = tx \<lparr> tx_hash := computeHash tx \<rparr>
       in bindR (recoverAddress S (signingHash tx) (tx_sig tx) (tx_chainId tx)) (\<lambda>sender.
          Inr (tx \<lparr> tx_from := sender \<rparr>)))"

definition txFromHex :: "secp256k1 \<Rightarrow> string \<Rightarrow> Transaction result" where
  "txFromHex S hex =
     bindR (fromHex (strip0x hex)) (\<lambda>raw.
     bindR (decodeBuf raw) (\<lambda>root.
     if \<not> isList root \<or> length (d_list root) < 9
     then Inl (Runtime_error ''Transaction::fromHex: invalid RLP tx'')
     else txOfFields S (d_list root)))"

definition signWith :: "secp256k1 \<Rightarrow> KeyPair \<Rightarrow> Transaction \<Rightarrow> Transaction result" where
  "signWith S key tx =
     bindR (sign S key (signingHash tx) (tx_chainId tx)) (\<lambda>sig.
     bindR (keyAddress key) (\<lambda>a.
     let tx = tx \<lparr> tx_sig := sig, tx_from := a \<rparr>
     in Inr (tx \<lparr> tx_hash := computeHash tx \<rparr>)))"

section \<open>Facts\<close>

definition to_bytes :: "address \<Rightarrow> bytes" where
  "to_bytes a = (if a = zeroAddress then [] else a)"

lemma to_bytes_eq_iff: "is_address a \<Longrightarrow> is_address b \<Longrightarrow> to_bytes a = to_bytes b \<longleftrightarrow> a = b"
  by (auto simp: to_bytes_def is_address_length)

lemma parseTo_to_bytes: "is_address a \<Longrightarrow> parseTo (to_bytes a) = Inr a"
  by (auto simp: to_bytes_def parseTo_def is_address_length)

lemma toField_item: "toField a = enc_item (RStr (to_bytes a))"
  by (simp add: toField_def to_bytes_def zeroAddress_def kSize_def)

definition body_items :: "Transaction \<Rightarrow> rlp_item list" where
  "body_items tx =
     [RStr (be_bytes (unat (tx_nonce tx)) []), RStr (be_bytes (unat (tx_gasPrice tx)) []),
      RStr (be_bytes (unat (tx_gasLimit tx)) []), RStr (to_bytes (tx_to tx)),
      RStr (be_bytes (unat (tx_value tx)) []), RStr (tx_data tx)]"

definition full_v :: "Transaction \<Rightarrow> u64" where
  "full_v tx = ucast (sig_v (tx_sig tx)) + 35 + 2 * tx_chainId tx"

lemma signing_item:
  "rlpEncodeForSigning tx =
   enc_item (RList (body_items tx @ [RStr (be_bytes (unat (tx_chainId tx)) []), RStr [], RStr []]))"
  by (simp add: rlpEncodeForSigning_def body_items_def encodeUint_item toField_item)

lemma signed_item:
  "rlpEncodeSigned tx =
   enc_item (RList (body_items tx @ [RStr (be_bytes (unat (full_v tx)) []), RStr (sig_r (tx_sig tx)), RStr (sig_s (tx_sig tx))]))"
  by (simp add: rlpEncodeSigned_def body_items_def encodeUint_item toField_item Let_def full_v_def)

lemma be_bytes_eq_iff [simp]: "be_bytes m [] = be_bytes n [] \<longleftrightarrow> m = n"
  by (metis be_value_be_bytes)

definition same_body :: "Transaction \<Rightarrow> Transaction \<Rightarrow> bool" where
  "same_body t u \<longleftrightarrow> tx_nonce t = tx_nonce u \<and> tx_gasPrice t = tx_gasPrice u \<and> tx_gasLimit t = tx_gasLimit u \<and>
     tx_to t = tx_to u \<and> tx_value t = tx_value u \<and> tx_data t = tx_data u"

lemma body_items_eq_iff:
  "is_address (tx_to t) \<Longrightarrow> is_address (tx_to u) \<Longrightarrow> body_items t = body_items u \<longleftrightarrow> same_body t u"
  by (simp add: body_items_def same_body_def to_bytes_eq_iff)

lemma length_body_items [simp]: "length (body_items tx) = 6"
  by (simp add: body_items_def)

lemma signing_eq_iff:
  assumes "is_address (tx_to t)" "is_address (tx_to u)" "length (rlpEncodeForSigning t) < 2 ^ 64"
  shows "rlpEncodeForSigning t = rlpEncodeForSigning u \<longleftrightarrow> same_body t u \<and> tx_chainId t = tx_chainId u"
  using assms(3) unfolding signing_item
  by (simp only: enc_item_eq_iff) (simp add: body_items_eq_iff assms(1,2))

lemma signed_eq_iff:
  assumes "is_address (tx_to t)" "is_address (tx_to u)" "length (rlpEncodeSigned t) < 2 ^ 64"
  shows "rlpEncodeSigned t = rlpEncodeSigned u \<longleftrightarrow>
    same_body t u \<and> full_v t = full_v u \<and> sig_r (tx_sig t) = sig_r (tx_sig u) \<and> sig_s (tx_sig t) = sig_s (tx_sig u)"
  using assms(3) unfolding signed_item
  by (simp only: enc_item_eq_iff) (simp add: body_items_eq_iff assms(1,2))

text \<open>What the parser makes of a broadcast transaction before it recovers the sender.\<close>

definition parsed :: "Transaction \<Rightarrow> Transaction" where
  "parsed tx = (let
      v = full_v tx;
      tx' = emptyTransaction \<lparr> tx_nonce := tx_nonce tx, tx_gasPrice := tx_gasPrice tx, tx_gasLimit := tx_gasLimit tx,
         tx_to := tx_to tx, tx_value := tx_value tx, tx_data := tx_data tx,
         tx_sig := \<lparr> sig_r = sig_r (tx_sig tx), sig_s = sig_s (tx_sig tx), sig_v = ucast v \<rparr>,
         tx_chainId := if v \<ge> 35 then (v - 35) div 2 else 0 \<rparr>
    in tx' \<lparr> tx_hash := computeHash tx' \<rparr>)"

lemma txFromHex_txToHex:
  assumes "is_address (tx_to tx)" "length (sig_r (tx_sig tx)) = 32" "length (sig_s (tx_sig tx)) = 32"
    "length (rlpEncodeSigned tx) < 2 ^ 64"
  shows "txFromHex S (txToHex tx) =
    bindR (recoverAddress S (signingHash (parsed tx)) (tx_sig (parsed tx)) (tx_chainId (parsed tx)))
      (\<lambda>sender. Inr (parsed tx \<lparr> tx_from := sender \<rparr>))"
proof -
  let ?its = "body_items tx @ [RStr (be_bytes (unat (full_v tx)) []), RStr (sig_r (tx_sig tx)), RStr (sig_s (tx_sig tx))]"
  have "decodeBuf (rlpEncodeSigned tx) = Inr (Decoded True [] (map to_decoded ?its))"
    using decodeBuf_enc_item [of "RList ?its"] assms(4) by (simp only: signed_item to_decoded.simps)
  then have "txFromHex S (txToHex tx) = txOfFields S (map to_decoded ?its)"
    by (simp add: txFromHex_def txToHex_def)
  also have "\<dots> = bindR (recoverAddress S (signingHash (parsed tx)) (tx_sig (parsed tx)) (tx_chainId (parsed tx)))
      (\<lambda>sender. Inr (parsed tx \<lparr> tx_from := sender \<rparr>))"
    using assms(2,3) by (simp add: txOfFields_def body_items_def parseTo_to_bytes [OF assms(1)] parsed_def Let_def)
  finally show ?thesis .
qed


lemma unat_full_v:
  assumes "unat (sig_v (tx_sig tx)) + 35 + 2 * unat (tx_chainId tx) < 2 ^ 64"
  shows "unat (full_v tx) = unat (sig_v (tx_sig tx)) + 35 + 2 * unat (tx_chainId tx)"
  using assms by (simp add: full_v_def unat_word_ariths)

lemma parsed_simps [simp]:
  "tx_sig (parsed tx) = \<lparr> sig_r = sig_r (tx_sig tx), sig_s = sig_s (tx_sig tx), sig_v = ucast (full_v tx) \<rparr>"
  "same_body (parsed tx) tx"
  by (simp_all add: parsed_def Let_def same_body_def)

lemma parsed_chainId:
  assumes "unat (sig_v (tx_sig tx)) < 2" "36 + 2 * unat (tx_chainId tx) < 2 ^ 64"
  shows "tx_chainId (parsed tx) = tx_chainId tx"
proof -
  have v: "unat (full_v tx) = unat (sig_v (tx_sig tx)) + 35 + 2 * unat (tx_chainId tx)"
    using assms by (intro unat_full_v) linarith
  then have le: "35 \<le> full_v tx" by (simp add: word_le_nat_alt)
  then have "unat ((full_v tx - 35) div 2) = unat (tx_chainId tx)"
    using v assms(1) by (simp add: unat_div unat_sub)
  with le show ?thesis by (simp add: parsed_def Let_def)
qed

lemma signingHash_cong:
  "same_body t u \<Longrightarrow> tx_chainId t = tx_chainId u \<Longrightarrow> signingHash t = signingHash u"
  by (simp add: signingHash_def signing_item body_items_def same_body_def)

lemma signWith_InrE:
  assumes "signWith S key tx = Inr tx'"
  obtains sig a where "sign S key (signingHash tx) (tx_chainId tx) = Inr sig" "keyAddress key = Inr a"
    "tx' = tx \<lparr> tx_sig := sig, tx_from := a, tx_hash := computeHash (tx \<lparr> tx_sig := sig, tx_from := a \<rparr>) \<rparr>"
  using assms by (auto simp: signWith_def bindR_Inr_iff Let_def)

lemma signingHash_signWith [simp]:
  "signingHash (tx \<lparr> tx_sig := sig, tx_from := a, tx_hash := h \<rparr>) = signingHash tx"
  by (rule signingHash_cong) (simp_all add: same_body_def)

lemma unat_ucast_full_v: "unat (ucast (v :: u64) :: byte) = unat v mod 256"
  by (simp add: unsigned_ucast_eq take_bit_eq_mod)

lemma parsed_small:
  assumes "unat (sig_v (tx_sig tx)) < 2" "35 + 2 * unat (tx_chainId tx) + unat (sig_v (tx_sig tx)) < 256"
  shows "tx_chainId (parsed tx) = tx_chainId tx"
    "unat (sig_v (tx_sig (parsed tx))) = 35 + 2 * unat (tx_chainId tx) + unat (sig_v (tx_sig tx))"
proof -
  have "unat (full_v tx) = unat (sig_v (tx_sig tx)) + 35 + 2 * unat (tx_chainId tx)"
    using assms by (intro unat_full_v) simp
  then show "unat (sig_v (tx_sig (parsed tx))) = 35 + 2 * unat (tx_chainId tx) + unat (sig_v (tx_sig tx))"
    using assms by (simp add: unat_ucast_full_v)
qed (use assms in \<open>simp add: parsed_chainId\<close>)

lemma parsed_reencodes:
  assumes "is_address (tx_to tx)" "length (rlpEncodeSigned tx) < 2 ^ 64"
    and small: "unat (sig_v (tx_sig tx)) < 2" "35 + 2 * unat (tx_chainId tx) + unat (sig_v (tx_sig tx)) < 256"
  shows "rlpEncodeSigned tx \<noteq> rlpEncodeSigned (parsed tx \<lparr> tx_from := a \<rparr>)"
proof
  let ?t = "parsed tx \<lparr> tx_from := a \<rparr>"
  assume "rlpEncodeSigned tx = rlpEncodeSigned ?t"
  then have "full_v tx = full_v ?t"
    using signed_eq_iff [of tx ?t] assms(1,2) parsed_simps(2) [of tx] by (simp add: same_body_def)
  moreover have "unat (full_v tx) = unat (sig_v (tx_sig tx)) + 35 + 2 * unat (tx_chainId tx)"
    using small by (intro unat_full_v) simp
  moreover have "unat (full_v ?t) = unat (sig_v (tx_sig (parsed tx))) + 35 + 2 * unat (tx_chainId (parsed tx))"
    using small parsed_small [OF small] by (subst unat_full_v) (simp_all del: parsed_simps)
  ultimately show False using parsed_small [OF small] by simp
qed

lemma length_toField_le: "is_address a \<Longrightarrow> length (toField a) \<le> 29"
  using length_encodeBytes_le [of a] by (simp add: toField_def is_address_length encodeBytes_def [of "[]"] encodeLength_def)

lemma length_rlpEncodeSigned_le:
  assumes "is_address (tx_to tx)" "length (sig_r (tx_sig tx)) = 32" "length (sig_s (tx_sig tx)) = 32"
    "length (tx_data tx) < 2 ^ 63"
  shows "length (rlpEncodeSigned tx) \<le> length (tx_data tx) + 214" "length (rlpEncodeSigned tx) < 2 ^ 64"
proof -
  define v where "v = (ucast (sig_v (tx_sig tx)) :: u64) + 35 + 2 * tx_chainId tx"
  define es where "es = [encodeUint (tx_nonce tx), encodeUint (tx_gasPrice tx), encodeUint (tx_gasLimit tx), toField (tx_to tx),
      encodeUint (tx_value tx), encodeBytes (tx_data tx),
      encodeUint v, encodeBytes (sig_r (tx_sig tx)), encodeBytes (sig_s (tx_sig tx))]"
  have "length (concat es) \<le> length (tx_data tx) + 205"
    using length_encodeUint_le [of "tx_nonce tx"] length_encodeUint_le [of "tx_gasPrice tx"]
      length_encodeUint_le [of "tx_gasLimit tx"] length_encodeUint_le [of "tx_value tx"] length_encodeUint_le [of v]
      length_toField_le [OF assms(1)] length_encodeBytes_le [of "tx_data tx"]
      length_encodeBytes_le [of "sig_r (tx_sig tx)"] length_encodeBytes_le [of "sig_s (tx_sig tx)"] assms(2-4)
    by (simp add: es_def)
  then have "length (encodeList es) \<le> length (tx_data tx) + 214"
    using length_encodeList_le [of es] assms(4) by simp
  then show "length (rlpEncodeSigned tx) \<le> length (tx_data tx) + 214"
    by (simp add: rlpEncodeSigned_def Let_def es_def v_def)
  then show "length (rlpEncodeSigned tx) < 2 ^ 64" using assms(4) by simp
qed

lemma signWith_small:
  assumes "signWith S key tx = Inr tx'" "compact_format S" "is_address (tx_to tx)" "length (tx_data tx) < 2 ^ 63"
  shows "length (rlpEncodeSigned tx') \<le> length (tx_data tx) + 214" "length (rlpEncodeSigned tx') < 2 ^ 64"
proof -
  from assms(1) obtain sig a h where s: "sign S key (signingHash tx) (tx_chainId tx) = Inr sig"
    and tx': "tx' = tx \<lparr> tx_sig := sig, tx_from := a, tx_hash := h \<rparr>"
    by (auto elim!: signWith_InrE)
  from length_rlpEncodeSigned_le [of tx'] sign_sizes [OF s assms(2)] assms(3,4)
  show "length (rlpEncodeSigned tx') \<le> length (tx_data tx) + 214" "length (rlpEncodeSigned tx') < 2 ^ 64"
    by (simp_all add: tx')
qed

text \<open>A signed transaction on a small chain id, as its receiver parses it.\<close>

lemma signed_broadcast:
  assumes "valid_key S key" "serialize_65 S" "compact_format S" "recover_signed S"
    and "signWith S key tx = Inr tx'" "is_address (tx_to tx)" "length (tx_data tx) < 2 ^ 63"
    and "unat (sig_v (tx_sig tx')) < 2" "35 + 2 * unat (tx_chainId tx) + unat (sig_v (tx_sig tx')) < 256"
  obtains t where "txFromHex S (txToHex tx') = Inr t" "t = parsed tx' \<lparr> tx_from := tx_from tx' \<rparr>" "same_body t tx"
    "tx_chainId t = tx_chainId tx" "recoverAddress S (signingHash t) (tx_sig t) (tx_chainId t) = Inr (tx_from tx')"
    "keyAddress key = Inr (tx_from tx')" "tx_to tx' = tx_to tx" "tx_chainId tx' = tx_chainId tx"
proof -
  from assms(5) obtain sig a where s: "sign S key (signingHash tx) (tx_chainId tx) = Inr sig"
    and a: "keyAddress key = Inr a"
    and tx': "tx' = tx \<lparr> tx_sig := sig, tx_from := a, tx_hash := computeHash (tx \<lparr> tx_sig := sig, tx_from := a \<rparr>) \<rparr>"
    by (rule signWith_InrE)
  let ?t = "parsed tx' \<lparr> tx_from := a \<rparr>"
  have small: "unat (sig_v (tx_sig tx')) < 2" "35 + 2 * unat (tx_chainId tx') + unat (sig_v (tx_sig tx')) < 256"
    using assms(8,9) by (simp_all add: tx')
  have body: "same_body (parsed tx') tx" "tx_chainId (parsed tx') = tx_chainId tx"
    using parsed_simps(2) [of tx'] parsed_small(1) [OF small] by (simp_all add: same_body_def tx')
  have "tx_sig (parsed tx') = sig \<lparr> sig_v := sig_v (tx_sig (parsed tx')) \<rparr>" by (simp add: tx')
  moreover have "recoverAddress S (signingHash tx) (sig \<lparr> sig_v := sig_v (tx_sig (parsed tx')) \<rparr>) (tx_chainId tx) = keyAddress key"
    using assms(1-4) s
    by (rule recoverAddress_sign) (use parsed_small(2) [OF small] assms(8) in \<open>simp add: recoveryId_eip155 tx'\<close>)
  ultimately have rec: "recoverAddress S (signingHash (parsed tx')) (tx_sig (parsed tx')) (tx_chainId (parsed tx')) = Inr a"
    using signingHash_cong [OF body] body(2) a by (simp del: parsed_simps)
  then have "txFromHex S (txToHex tx') = Inr ?t"
    using txFromHex_txToHex [of tx' S] signWith_small(2) [OF assms(5,3,6,7)] assms(6) sign_sizes [OF s assms(3)]
    by (simp add: tx' del: parsed_simps)
  moreover have "same_body ?t tx" "signingHash ?t = signingHash (parsed tx')"
    using body by (auto simp: same_body_def intro!: signingHash_cong)
  ultimately show thesis using body rec a by (intro that [of ?t]) (simp_all add: tx')
qed

section \<open>Properties\<close>

text \<open>
  C29. The payload a sender signs (src/transaction.cpp, \<open>rlpEncodeForSigning\<close>) commits to every field: two
  transactions have the same payload exactly if nonce, gas price, gas limit, recipient, value, data and
  chain id agree. In particular a signature cannot be replayed on another chain id without a hash collision.
\<close>

theorem signing_payload_binds:
  assumes "is_address (tx_to t)" and "is_address (tx_to u)" and "length (rlpEncodeForSigning t) < 2 ^ 64"
  shows "rlpEncodeForSigning t = rlpEncodeForSigning u \<longleftrightarrow>
    tx_nonce t = tx_nonce u \<and> tx_gasPrice t = tx_gasPrice u \<and> tx_gasLimit t = tx_gasLimit u \<and>
    tx_to t = tx_to u \<and> tx_value t = tx_value u \<and> tx_data t = tx_data u \<and> tx_chainId t = tx_chainId u"
  using signing_eq_iff [OF assms] by (auto simp: same_body_def)

lemma length_empty_payload: "length (rlpEncodeForSigning emptyTransaction) = 10"
  by (simp add: rlpEncodeForSigning_def emptyTransaction_def toField_def zeroAddress_def kSize_def encodeUint_def
      encodeBytes_def encodeList_def encodeLength_def be_bytes.simps)

theorem signing_payload_binds_witness:
  "rlpEncodeForSigning emptyTransaction \<noteq> rlpEncodeForSigning (emptyTransaction \<lparr> tx_chainId := 2 \<rparr>)"
  using signing_payload_binds [of emptyTransaction "emptyTransaction \<lparr> tx_chainId := 2 \<rparr>"] length_empty_payload
  by (simp add: emptyTransaction_def)

text \<open>
  C28. Sign, then check (src/transaction.cpp): what \<open>signWith\<close> produces with a valid key passes
  \<open>verifySignature\<close> exactly if the recovery id is 0 or 1; its body and chain id are those of the unsigned
  transaction, its sender is the key's address and its hash that of its own encoding.
\<close>

theorem signWith_verifies:
  assumes "valid_key S key" and "serialize_65 S" and "compact_format S" and "recover_signed S"
    and "signWith S key tx = Inr tx'"
  shows "(verifySignature S tx' \<longleftrightarrow> unat (sig_v (tx_sig tx')) < 2) \<and> same_body tx' tx \<and>
    tx_chainId tx' = tx_chainId tx \<and> keyAddress key = Inr (tx_from tx') \<and> tx_hash tx' = computeHash tx'"
proof -
  from assms(5) show ?thesis
  proof (rule signWith_InrE)
    fix sig a
    assume s: "sign S key (signingHash tx) (tx_chainId tx) = Inr sig" and a: "keyAddress key = Inr a"
      and tx': "tx' = tx \<lparr> tx_sig := sig, tx_from := a, tx_hash := computeHash (tx \<lparr> tx_sig := sig, tx_from := a \<rparr>) \<rparr>"
    have "recoverAddress S (signingHash tx) sig (tx_chainId tx) = (if unat (sig_v sig) < 2 then keyAddress key
       else Inl (Runtime_error ''recoverAddress: unsupported v''))"
      by (rule recoverAddress_signed [OF assms(1-4) s])
    moreover have "rlpEncodeSigned tx' = rlpEncodeSigned (tx \<lparr> tx_sig := sig, tx_from := a \<rparr>)"
      by (simp add: tx' rlpEncodeSigned_def)
    ultimately show ?thesis
      using a by (auto simp: tx' verifySignature_def same_body_def computeHash_def split: sum.splits)
  qed
qed

lemma plain_signWith:
  "\<exists>tx'. signWith plain_secp \<lparr> kp_priv = replicate 32 1, kp_pub = replicate 64 1 \<rparr> tx = Inr tx' \<and>
    sig_v (tx_sig tx') = 0"
  using keyAddress_valid [OF plain_key plain_secp_ok(1)]
  by (simp add: signWith_def sign_def plain_secp_def signingHash_def Let_def)

theorem signWith_verifies_witness:
  "\<exists>tx'. signWith plain_secp \<lparr> kp_priv = replicate 32 1, kp_pub = replicate 64 1 \<rparr> emptyTransaction = Inr tx' \<and>
     verifySignature plain_secp tx'"
proof -
  obtain tx' where "signWith plain_secp \<lparr> kp_priv = replicate 32 1, kp_pub = replicate 64 1 \<rparr> emptyTransaction = Inr tx'"
    "sig_v (tx_sig tx') = 0"
    using plain_signWith [of emptyTransaction] by auto
  with signWith_verifies [OF plain_key plain_secp_ok(1,3,4)] show ?thesis by fastforce
qed



text \<open>
  Chain ids from 110 on (src/transaction.cpp:154): \<open>fromHex\<close> cuts the EIP-155 value of \<open>v\<close> down to a byte before
  it recovers the sender. Once the value is 256 or more, parsing a correctly broadcast transaction fails
  with \<open>unsupported v\<close> or \<open>chainId mismatch\<close> unless the low byte happens to be 0 or 1, and then the opposite recovery
  id is used. Chain id 1337, the one the node uses by default, is such a value.
\<close>

theorem broadcast_large_chainId:
  assumes "is_address (tx_to tx)" and "length (sig_r (tx_sig tx)) = 32" and "length (sig_s (tx_sig tx)) = 32"
    and "length (tx_data tx) < 2 ^ 63" and "unat (sig_v (tx_sig tx)) < 2"
    and "35 + 2 * unat (tx_chainId tx) + unat (sig_v (tx_sig tx)) \<ge> 256" and "36 + 2 * unat (tx_chainId tx) < 2 ^ 64"
  shows "let w = (35 + 2 * unat (tx_chainId tx) + unat (sig_v (tx_sig tx))) mod 256 in
    (if w < 2 then recoveryId (sig_v (tx_sig (parsed tx))) (tx_chainId tx) = Inr (1 - unat (sig_v (tx_sig tx)))
     else if w < 35 then txFromHex S (txToHex tx) = Inl (Runtime_error ''recoverAddress: unsupported v'')
     else txFromHex S (txToHex tx) = Inl (Runtime_error ''recoverAddress: chainId mismatch''))"
proof -
  define T where "T = 35 + 2 * unat (tx_chainId tx) + unat (sig_v (tx_sig tx))"
  let ?v = "sig_v (tx_sig (parsed tx))"
  have w: "unat ?v = T mod 256"
    using unat_full_v [of tx] assms(5,7) by (simp add: unat_ucast_full_v T_def add.commute add.left_commute)
  have cid: "tx_chainId (parsed tx) = tx_chainId tx" using assms(5,7) by (rule parsed_chainId)
  have hex: "txFromHex S (txToHex tx) = Inl e" if "recoveryId ?v (tx_chainId tx) = Inl e" for e
    using txFromHex_txToHex [of tx S] length_rlpEncodeSigned_le(2) [of tx] assms(1-4) cid that
    by (simp add: recoverAddress_def)
  have parity: "T mod 256 mod 2 = 1 - unat (sig_v (tx_sig tx))"
    using assms(5) by (simp add: mod_mod_cancel T_def) presburger
  consider "T mod 256 < 2" | "2 \<le> T mod 256" "T mod 256 < 35" | "35 \<le> T mod 256" by linarith
  then show ?thesis
  proof cases
    case 1
    then show ?thesis using recoveryId_plain [of ?v] w parity by (simp add: T_def [symmetric] Let_def)
  next
    case 2
    then show ?thesis using hex recoveryId_high [of ?v] w by (simp add: T_def [symmetric] Let_def)
  next
    case 3
    have "T mod 256 \<le> T - 256"
      using assms(6) le_mod_geq [of 256 T] mod_less_eq_dividend [of "T - 256" 256] by (simp add: T_def [symmetric])
    then have "(T mod 256 - 35) div 2 < unat (tx_chainId tx)" using assms(5,6) 3 by (simp add: T_def)
    then show ?thesis using hex recoveryId_eip155 [of ?v] w 3 by (simp add: T_def [symmetric] Let_def)
  qed
qed

theorem broadcast_large_chainId_witness:
  "txFromHex plain_secp (txToHex (emptyTransaction \<lparr> tx_chainId := 1337,
     tx_sig := \<lparr> sig_r = replicate 32 1, sig_s = replicate 32 1, sig_v = 0 \<rparr> \<rparr>)) =
   Inl (Runtime_error ''recoverAddress: chainId mismatch'')"
  using broadcast_large_chainId [of "emptyTransaction \<lparr> tx_chainId := 1337,
     tx_sig := \<lparr> sig_r = replicate 32 1, sig_s = replicate 32 1, sig_v = 0 \<rparr> \<rparr>" plain_secp]
  by (simp add: emptyTransaction_def)

end
