(* ===== verification/Mpt.thy ===== *)
theory Mpt
  imports Rlp Hex Keccak
begin

unbundle bit_operations_syntax

text \<open>
  The 16-way trie of \<open>src/src/mpt.cpp\<close>. A \<open>Node\<close> has 16 children (null or a node) and an optional value;
  \<open>put\<close> and \<open>get\<close> walk the nibbles of the key from the root. The nodes of one trie are never shared, so the
  in-place update through shared pointers is a functional update of the tree.
\<close>

section \<open>Definitions\<close>

datatype Node = Node (children: "Node option list") (nvalue: "bytes option")

definition emptyNode :: Node where
  "emptyNode = Node (replicate 16 None) None"

definition toNibbles :: "bytes \<Rightarrow> byte list" where
  "toNibbles key = concat (map (\<lambda>b. [drop_bit 4 b AND 0x0F, b AND 0x0F]) key)"

fun putAt :: "byte list \<Rightarrow> bytes \<Rightarrow> Node \<Rightarrow> Node" where
  "putAt [] val (Node cs v) = Node cs (Some val)"
| "putAt (nib # nibs) val (Node cs v) =
     Node (cs[unat nib := Some (putAt nibs val
       (case cs ! unat nib of None \<Rightarrow> emptyNode | Some child \<Rightarrow> child))]) v"

definition put :: "Node \<Rightarrow> bytes \<Rightarrow> bytes \<Rightarrow> Node" where
  "put root key val = putAt (toNibbles key) val root"

fun getAt :: "byte list \<Rightarrow> Node \<Rightarrow> bytes option" where
  "getAt [] (Node cs v) = v"
| "getAt (nib # nibs) (Node cs v) =
     (case cs ! unat nib of None \<Rightarrow> None | Some child \<Rightarrow> getAt nibs child)"

definition mptGet :: "Node \<Rightarrow> bytes \<Rightarrow> bytes option" where
  "mptGet root key = getAt (toNibbles key) root"

definition encodeNodeValue :: "bytes option \<Rightarrow> bytes" where
  "encodeNodeValue v = (case v of None \<Rightarrow> encodeBytes [] | Some b \<Rightarrow> encodeBytes b)"

primrec encodeNode :: "Node \<Rightarrow> bytes" where
  "encodeNode (Node cs v) =
     encodeList (map (\<lambda>child. case child of None \<Rightarrow> encodeBytes [] | Some enc \<Rightarrow> encodeBytes enc)
       (map (map_option encodeNode) cs) @ [encodeNodeValue v])"

definition rootHash :: "Node \<Rightarrow> string" where
  "rootHash root = ''0x'' @ toHex (keccak256 (encodeNode root))"

text \<open>Every node has sixteen child slots; the nibbles of a key index them.\<close>

inductive wf_node :: "Node \<Rightarrow> bool" where
  wf_node: "length cs = 16 \<Longrightarrow> (\<And>n. Some n \<in> set cs \<Longrightarrow> wf_node n) \<Longrightarrow> wf_node (Node cs v)"

inductive_simps wf_node_Node [simp]: "wf_node (Node cs v)"

section \<open>Nibbles\<close>

lemma toNibbles_simps [simp]:
  "toNibbles [] = []" "toNibbles (b # bs) = (drop_bit 4 b AND 0x0F) # (b AND 0x0F) # toNibbles bs"
  by (simp_all add: toNibbles_def)

lemma unat_and_15 [simp]: "unat (b AND 0x0F :: byte) < 16"
proof -
  have "unat (b AND 0x0F) \<le> unat (0x0F :: byte)" by (intro word_le_nat_alt [THEN iffD1] word_and_le1)
  then show ?thesis by simp
qed

lemma toNibbles_small: "nib \<in> set (toNibbles key) \<Longrightarrow> unat nib < 16"
  by (induction key) auto

lemma nibbles_determine_byte:
  assumes "drop_bit 4 a AND 0x0F = drop_bit 4 b AND 0x0F" "a AND 0x0F = b AND (0x0F :: byte)"
  shows "a = b"
proof (rule bit_word_eqI)
  fix n assume n: "n < LENGTH(8)"
  have m: "(0x0F :: byte) = mask 4" by (simp add: mask_eq_exp_minus_1)
  have "bit a k = bit b k" if "k < 4" for k
    using arg_cong [OF assms(2), where f = "\<lambda>w. bit w k"] that unfolding m by (simp add: bit_simps)
  moreover have "bit a (4 + k) = bit b (4 + k)" if "k < 4" for k
    using arg_cong [OF assms(1), where f = "\<lambda>w. bit w k"] that unfolding m by (simp add: bit_simps)
  moreover have "n < 4 \<or> (\<exists>k < 4. n = 4 + k)" using n by simp presburger
  ultimately show "bit a n = bit b n" by auto
qed

lemma toNibbles_eq_iff [simp]: "toNibbles a = toNibbles b \<longleftrightarrow> a = b"
proof (induction a arbitrary: b)
  case (Cons x xs)
  then show ?case by (cases b) (auto dest: nibbles_determine_byte)
next
  case Nil
  then show ?case by (cases b) auto
qed

section \<open>Lookup after insertion\<close>

lemma wf_emptyNode [simp]: "wf_node emptyNode"
  by (simp add: emptyNode_def)

lemma getAt_emptyNode [simp]: "(\<And>n. n \<in> set ns \<Longrightarrow> unat n < 16) \<Longrightarrow> getAt ns emptyNode = None"
  by (cases ns) (simp_all add: emptyNode_def)

lemma wf_child:
  assumes "wf_node (Node cs v)" "i < 16"
  shows "wf_node (case cs ! i of None \<Rightarrow> emptyNode | Some child \<Rightarrow> child)"
  using assms by (auto split: option.split) (metis nth_mem)

lemma wf_putAt: "wf_node t \<Longrightarrow> (\<And>n. n \<in> set ns \<Longrightarrow> unat n < 16) \<Longrightarrow> wf_node (putAt ns val t)"
proof (induction ns val t rule: putAt.induct)
  case (2 nib nibs val cs v)
  have "wf_node (putAt nibs val (case cs ! unat nib of None \<Rightarrow> emptyNode | Some child \<Rightarrow> child))"
    using 2 wf_child by simp
  then show ?case using "2.prems" by (auto dest!: set_update_subset_insert [THEN subsetD])
qed auto

lemma getAt_putAt:
  "wf_node t \<Longrightarrow> (\<And>n. n \<in> set ns \<union> set ms \<Longrightarrow> unat n < 16) \<Longrightarrow>
   getAt ms (putAt ns val t) = (if ms = ns then Some val else getAt ms t)"
proof (induction ns val t arbitrary: ms rule: putAt.induct)
  case (1 val cs v)
  then show ?case by (cases ms) auto
next
  case (2 nib nibs val cs v)
  show ?case
  proof (cases ms)
    case Nil
    then show ?thesis by simp
  next
    case (Cons m ms')
    have len: "length cs = 16" "unat nib < 16" "unat m < 16" using "2.prems" Cons by auto
    have IH: "getAt ms' (putAt nibs val (case cs ! unat nib of None \<Rightarrow> emptyNode | Some child \<Rightarrow> child)) =
       (if ms' = nibs then Some val
        else getAt ms' (case cs ! unat nib of None \<Rightarrow> emptyNode | Some child \<Rightarrow> child))"
      using "2.prems" Cons by (intro "2.IH" wf_child) auto
    have "getAt ms' emptyNode = None" using "2.prems" Cons by (intro getAt_emptyNode) auto
    then show ?thesis using IH len Cons by (cases "m = nib") (auto split: option.splits)
  qed
qed

section \<open>Insertions commute\<close>

lemma putAt_putAt_same:
  "wf_node t \<Longrightarrow> (\<And>n. n \<in> set ns \<Longrightarrow> unat n < 16) \<Longrightarrow> putAt ns w (putAt ns v t) = putAt ns w t"
proof (induction ns v t rule: putAt.induct)
  case (2 nib nibs v cs x)
  then have "putAt nibs w (putAt nibs v (case cs ! unat nib of None \<Rightarrow> emptyNode | Some child \<Rightarrow> child)) =
      putAt nibs w (case cs ! unat nib of None \<Rightarrow> emptyNode | Some child \<Rightarrow> child)"
    by (intro "2.IH" wf_child) auto
  then show ?case using "2.prems" by simp
qed auto

lemma putAt_commute:
  "wf_node t \<Longrightarrow> (\<And>n. n \<in> set ns \<union> set ms \<Longrightarrow> unat n < 16) \<Longrightarrow> ms \<noteq> ns \<Longrightarrow>
   putAt ms w (putAt ns v t) = putAt ns v (putAt ms w t)"
proof (induction ns v t arbitrary: ms rule: putAt.induct)
  case (1 v cs x)
  then show ?case by (cases ms) auto
next
  case (2 nib nibs v cs x)
  show ?case
  proof (cases ms)
    case Nil
    then show ?thesis by simp
  next
    case (Cons m ms')
    have len: "length cs = 16" "unat nib < 16" "unat m < 16" using "2.prems" Cons by auto
    show ?thesis
    proof (cases "m = nib")
      case True
      have "putAt ms' w (putAt nibs v (case cs ! unat nib of None \<Rightarrow> emptyNode | Some child \<Rightarrow> child)) =
          putAt nibs v (putAt ms' w (case cs ! unat nib of None \<Rightarrow> emptyNode | Some child \<Rightarrow> child))"
        using "2.prems" Cons True by (intro "2.IH" wf_child) auto
      then show ?thesis using Cons True len by simp
    next
      case False
      then show ?thesis using Cons by (simp add: list_update_swap)
    qed
  qed
qed

section \<open>The trie is a canonical store\<close>

lemma toNibbles_bounds [intro]: "n \<in> set (toNibbles a) \<union> set (toNibbles b) \<Longrightarrow> unat n < 16"
  using toNibbles_small by blast

interpretation trie: canonical_store emptyNode put mptGet wf_node
proof
  show "wf_node emptyNode" by simp
  show "wf_node s \<Longrightarrow> wf_node (put s k v)" for s k v
    unfolding put_def by (rule wf_putAt) (auto intro: toNibbles_small)
  show "mptGet emptyNode k = None" for k
    unfolding mptGet_def by (rule getAt_emptyNode) (rule toNibbles_small)
  show "mptGet (put s k v) k' = (if k' = k then Some v else mptGet s k')" if "wf_node s" for s k k' v
    using getAt_putAt [OF that toNibbles_bounds, where ns = "toNibbles k" and ms = "toNibbles k'"]
    by (simp add: mptGet_def put_def)
  show "put (put s k v) k' v' = put (put s k' v') k v" if "wf_node s" "k \<noteq> k'" for s k k' v v'
    unfolding put_def using that by (intro putAt_commute) (auto intro: toNibbles_small)
  show "put (put s k v) k w = put s k w" if "wf_node s" for s k v w
    unfolding put_def using that by (intro putAt_putAt_same) (auto intro: toNibbles_small)
qed

section \<open>The encoding determines the trie\<close>

inductive vals_ok :: "Node \<Rightarrow> bool" where
  vals_ok: "v \<noteq> Some [] \<Longrightarrow> (\<And>n. Some n \<in> set cs \<Longrightarrow> vals_ok n) \<Longrightarrow> vals_ok (Node cs v)"

inductive_simps vals_ok_Node [simp]: "vals_ok (Node cs v)"

definition node_fields :: "Node \<Rightarrow> bytes list" where
  "node_fields t = map (case_option [] encodeNode) (children t) @ [case_option [] id (nvalue t)]"

lemma encodeNode_item: "encodeNode t = enc_item (RList (map RStr (node_fields t)))"
proof (cases t)
  case (Node cs v)
  have "map (\<lambda>child. case child of None \<Rightarrow> encodeBytes [] | Some enc \<Rightarrow> encodeBytes enc)
      (map (map_option encodeNode) cs) = map enc_item (map RStr (map (case_option [] encodeNode) cs))"
    by (auto simp: o_def split: option.split)
  moreover have "encodeNodeValue v = enc_item (RStr (case_option [] id v))"
    by (cases v) (simp_all add: encodeNodeValue_def)
  ultimately show ?thesis
    by (simp only: Node encodeNode.simps node_fields_def Node.sel enc_item.simps map_append list.map)
qed

lemma encodeNode_not_Nil [simp]: "encodeNode t \<noteq> []" "[] \<noteq> encodeNode t"
  by (simp_all add: encodeNode_item) (metis encodeList_not_Nil)

lemma length_encodeBytes_ge: "length b \<le> length (encodeBytes b)"
  by (simp add: encodeBytes_def)

lemma length_encodeList_ge: "e \<in> set es \<Longrightarrow> length e \<le> length (encodeList es)"
  by (auto simp: encodeList_def Let_def length_concat intro!: trans_le_add2 member_le_sum_list)

lemma length_field_le: "b \<in> set (node_fields t) \<Longrightarrow> length b \<le> length (encodeNode t)"
  using length_encodeBytes_ge [of b] length_encodeList_ge [of "encodeBytes b" "map enc_item (map RStr (node_fields t))"]
  by (auto simp: encodeNode_item)

lemma encodeNode_fields:
  assumes "encodeNode t = encodeNode t'" "length (encodeNode t) < 2 ^ 64"
  shows "node_fields t = node_fields t'"
proof -
  have "RList (map RStr (node_fields t)) = RList (map RStr (node_fields t'))"
    using rlp.enc_eq_iff [of "RList (map RStr (node_fields t))" "RList (map RStr (node_fields t'))"] assms
    unfolding encodeNode_item by argo
  moreover have "inj RStr" by (simp add: inj_def)
  ultimately show ?thesis by (simp add: inj_map_eq_map)
qed

lemma encodeNode_inj:
  "encodeNode t = encodeNode t' \<Longrightarrow> length (encodeNode t) < 2 ^ 64 \<Longrightarrow> vals_ok t \<Longrightarrow> vals_ok t' \<Longrightarrow> t = t'"
proof (induction t arbitrary: t')
  case (Node cs v)
  obtain cs' v' where t': "t' = Node cs' v'" by (cases t')
  have f: "map (case_option [] encodeNode) cs = map (case_option [] encodeNode) cs'"
      "case_option [] id v = case_option [] id v'"
    using encodeNode_fields [OF Node.prems(1,2)] by (simp_all add: node_fields_def t')
  have "v = v'" using f(2) Node.prems(3,4) by (cases v; cases v') (auto simp: t')
  moreover have "cs = cs'"
  proof (rule nth_equalityI)
    show len: "length cs = length cs'" using f(1) by (rule map_eq_imp_length_eq)
    fix i assume i: "i < length cs"
    have eq: "case_option [] encodeNode (cs ! i) = case_option [] encodeNode (cs' ! i)"
      using arg_cong [OF f(1), where f = "\<lambda>xs. xs ! i"] i len by simp
    show "cs ! i = cs' ! i"
    proof (cases "cs ! i")
      case None
      then show ?thesis using eq by (cases "cs' ! i") simp_all
    next
      case (Some n)
      then obtain n' where n': "cs' ! i = Some n'" "encodeNode n = encodeNode n'"
        using eq by (cases "cs' ! i") simp_all
      have mem: "Some n \<in> set cs" "Some n' \<in> set cs'" using i len Some n'(1) by (metis nth_mem)+
      then have "encodeNode n \<in> set (node_fields (Node cs v))"
        by (force simp: node_fields_def)
      then have "length (encodeNode n) < 2 ^ 64"
        using length_field_le Node.prems(2) le_less_trans by blast
      then have "n = n'" using Node.IH [OF mem(1), of n n'] n'(2) mem Node.prems(3,4) by (simp add: t')
      then show ?thesis using Some n'(1) by simp
    qed
  qed
  ultimately show ?case by (simp add: t')
qed

lemma vals_ok_emptyNode [simp]: "vals_ok emptyNode"
  by (simp add: emptyNode_def)

lemma vals_ok_putAt: "vals_ok t \<Longrightarrow> val \<noteq> [] \<Longrightarrow> vals_ok (putAt ns val t)"
proof (induction ns val t rule: putAt.induct)
  case (2 nib nibs val cs v)
  show ?case
  proof (cases "unat nib < length cs")
    case True
    then have "vals_ok (case cs ! unat nib of None \<Rightarrow> emptyNode | Some child \<Rightarrow> child)"
      using "2.prems"(1) by (auto split: option.split) (metis nth_mem)
    with 2 show ?thesis by (auto dest!: set_update_subset_insert [THEN subsetD])
  qed (use 2 in \<open>auto simp: list_update_beyond\<close>)
qed auto

definition mptBuild :: "(bytes \<times> bytes) list \<Rightarrow> Node" where
  "mptBuild kvs = fold (\<lambda>(key, val) root. put root key val) kvs emptyNode"

lemma wf_mptBuild [simp]: "wf_node (mptBuild kvs)"
  unfolding mptBuild_def by (rule trie.invar_build) (rule trie.invar_emp)

lemma mptGet_mptBuild [simp]: "mptGet (mptBuild kvs) = map_of (rev kvs)"
  unfolding mptBuild_def by (rule trie.look_build)

lemma mptBuild_canonical: "map_of (rev kvs) = map_of (rev kvs') \<Longrightarrow> mptBuild kvs = mptBuild kvs'"
  unfolding mptBuild_def by (rule trie.build_canonical)

lemma vals_ok_mptBuild: "\<forall>(k, v) \<in> set kvs. v \<noteq> [] \<Longrightarrow> vals_ok (mptBuild kvs)"
proof -
  have "vals_ok t \<Longrightarrow> \<forall>(k, v) \<in> set kvs. v \<noteq> [] \<Longrightarrow>
      vals_ok (fold (\<lambda>(key, val) root. put root key val) kvs t)" for t
    by (induction kvs arbitrary: t) (auto simp: put_def vals_ok_putAt)
  then show "\<forall>(k, v) \<in> set kvs. v \<noteq> [] \<Longrightarrow> vals_ok (mptBuild kvs)" by (simp add: mptBuild_def)
qed

section \<open>Properties\<close>

lemma encodeNode_mptBuild_iff:
  assumes "\<forall>(k, v) \<in> set kvs \<union> set kvs'. v \<noteq> []" and "length (encodeNode (mptBuild kvs)) < 2 ^ 64"
  shows "encodeNode (mptBuild kvs) = encodeNode (mptBuild kvs') \<longleftrightarrow> map_of (rev kvs) = map_of (rev kvs')"
proof
  assume "encodeNode (mptBuild kvs) = encodeNode (mptBuild kvs')"
  then have "mptBuild kvs = mptBuild kvs'"
    using assms by (intro encodeNode_inj vals_ok_mptBuild) auto
  then show "map_of (rev kvs) = map_of (rev kvs')" by (metis mptGet_mptBuild)
qed (metis mptBuild_canonical)

text \<open>
  C11. \<open>MptTrie\<close> (src/mpt.cpp) is a map: after any sequence of \<open>put\<close> calls on a fresh trie, whatever
  prefixes the keys share and whatever keys repeat, \<open>get\<close> returns for every key the value put last, and
  nothing for a key never put; every node keeps its sixteen child slots.
\<close>

theorem mpt_is_map:
  "mptGet (fold (\<lambda>(key, val) root. put root key val) kvs emptyNode) key = map_of (rev kvs) key \<and>
   wf_node (fold (\<lambda>(key, val) root. put root key val) kvs emptyNode)"
  using mptGet_mptBuild wf_mptBuild by (simp add: mptBuild_def)

text \<open>
  C12. The encoding under the root hash (src/mpt.cpp, \<open>encodeNode\<close>) is a faithful picture of the contents:
  two tries built by \<open>put\<close> calls with non-empty values have the same encoding exactly if they hold the same
  map, so their root hashes can only agree by a Keccak collision otherwise. (The sizes stay below \<open>2 ^ 64\<close>,
  as every C++ vector does.)
\<close>

theorem mpt_encoding_determines_map:
  assumes "\<forall>(k, v) \<in> set kvs \<union> set kvs'. v \<noteq> []" and "length (encodeNode (mptBuild kvs)) < 2 ^ 64"
  shows "encodeNode (mptBuild kvs) = encodeNode (mptBuild kvs') \<longleftrightarrow> map_of (rev kvs) = map_of (rev kvs')"
  using assms by (rule encodeNode_mptBuild_iff)

lemma mptBuild_single: "mptBuild [([], [5])] = Node (replicate 16 None) (Some [5])"
  by (simp add: mptBuild_def put_def emptyNode_def)

theorem mpt_encoding_determines_map_witness:
  "encodeNode (mptBuild [([], [5])]) = encodeNode (mptBuild [([], [6]), ([], [5])])"
proof -
  have "length (encodeNode (mptBuild [([], [5])])) < 2 ^ 64"
    by (simp add: mptBuild_single encodeNodeValue_def encodeList_def encodeBytes_def encodeLength_def
        length_concat o_def sum_list_triv)
  then show ?thesis using mpt_encoding_determines_map [of "[([], [5])]" "[([], [6]), ([], [5])]"] by simp
qed

end
