(* ===== verification/Ledger.thy ===== *)
theory Ledger
  imports Transaction Mpt
begin

text \<open>
  \<open>src/src/state.cpp\<close>, \<open>account.hpp\<close>, \<open>genesis.hpp\<close>: the account table. The \<open>unordered_map\<close> from lower-case hex
  addresses to accounts is an association list whose order stands for the iteration order; nothing of the
  C++ standard fixes that order, and theorem \<open>state_root_order_irrelevant\<close> shows that the root does not depend on it.
  \<open>applyTransaction\<close> returns the table it leaves behind beside its outcome, because an exception does
  not undo the accounts it created. The references \<open>fromAcc\<close> and \<open>toAcc\<close> are keys into the table, so a
  transaction to oneself updates one entry twice, as in the code.
\<close>

section \<open>Definitions\<close>

record Account =
  acc_balance :: u64
  acc_nonce :: u64

definition emptyAccount :: Account where
  "emptyAccount = \<lparr> acc_balance = 0, acc_nonce = 0 \<rparr>"

type_synonym State = "(string \<times> Account) list"

record GenesisAccount =
  ga_address :: address
  ga_balance :: u64

record GenesisConfig =
  premine :: "GenesisAccount list"
  gen_chainId :: u64

text \<open>\<open>accounts_[key] = a\<close> and the account a reference denotes.\<close>

fun setAt :: "string \<Rightarrow> Account \<Rightarrow> State \<Rightarrow> State" where
  "setAt key a [] = [(key, a)]"
| "setAt key a ((k, b) # st) = (if k = key then (k, a) # st else (k, b) # setAt key a st)"

definition accAt :: "State \<Rightarrow> string \<Rightarrow> Account" where
  "accAt st key = (case map_of st key of None \<Rightarrow> emptyAccount | Some a \<Rightarrow> a)"

definition genesisState :: "GenesisConfig \<Rightarrow> State" where
  "genesisState genesis =
     foldl (\<lambda>st ga. setAt (addrToHex False (ga_address ga)) \<lparr> acc_balance = ga_balance ga, acc_nonce = 0 \<rparr> st)
       [] (premine genesis)"

definition getOrCreate :: "address \<Rightarrow> State \<Rightarrow> string \<times> State" where
  "getOrCreate addr st =
     (let key = addrToHex False addr
      in (key, if map_of st key = None then setAt key emptyAccount st else st))"

definition stateGet :: "State \<Rightarrow> address \<Rightarrow> Account option" where
  "stateGet st addr = map_of st (addrToHex False addr)"

definition applyTransaction :: "address \<Rightarrow> Transaction \<Rightarrow> State \<Rightarrow> unit result \<times> State" where
  "applyTransaction sender tx st =
     (let (fromAcc, st) = getOrCreate sender st;
          (toAcc, st) = getOrCreate (tx_to tx) st in
      if acc_balance (accAt st fromAcc) < tx_value tx then (Inl (Runtime_error ''Insufficient balance''), st)
      else
        let a = accAt st fromAcc;
            st = setAt fromAcc (a \<lparr> acc_balance := acc_balance a - tx_value tx \<rparr>) st;
            a = accAt st fromAcc;
            st = setAt fromAcc (a \<lparr> acc_nonce := acc_nonce a + 1 \<rparr>) st;
            b = accAt st toAcc;
            st = setAt toAcc (b \<lparr> acc_balance := acc_balance b + tx_value tx \<rparr>) st
        in (Inr (), st))"

definition encodeAccount :: "Account \<Rightarrow> bytes" where
  "encodeAccount acc = encodeList [encodeUint (acc_balance acc), encodeUint (acc_nonce acc)]"

fun putAccounts :: "State \<Rightarrow> Node \<Rightarrow> Node result" where
  "putAccounts [] trie = Inr trie"
| "putAccounts ((addrHex, acc) # st) trie =
     bindR (fromHex addrHex) (\<lambda>key. putAccounts st (put trie key (encodeAccount acc)))"

definition stateRoot :: "State \<Rightarrow> string result" where
  "stateRoot st = bindR (putAccounts st emptyNode) (\<lambda>trie. Inr (rootHash trie))"

section \<open>The table as a map\<close>

lemma map_of_setAt [simp]: "map_of (setAt key a st) = (map_of st)(key \<mapsto> a)"
  by (induction st rule: setAt.induct) auto

lemma keys_setAt:
  "map fst (setAt key a st) = (if key \<in> set (map fst st) then map fst st else map fst st @ [key])"
  by (induction st rule: setAt.induct) auto

lemma accAt_setAt [simp]: "accAt (setAt key a st) k = (if k = key then a else accAt st k)"
  by (simp add: accAt_def)

text \<open>The keys the code uses are the plain hex forms of addresses, each at most once.\<close>

definition is_key :: "string \<Rightarrow> bool" where
  "is_key k \<longleftrightarrow> (case addrFromHex k of Inl e \<Rightarrow> False | Inr a \<Rightarrow> k = addrToHex False a)"

definition wf_state :: "State \<Rightarrow> bool" where
  "wf_state st \<longleftrightarrow> distinct (map fst st) \<and> list_all is_key (map fst st)"

lemma is_key_addrToHex [simp]: "is_address a \<Longrightarrow> is_key (addrToHex False a)"
  by (simp add: is_key_def addr_hex.dec_enc)

lemma is_keyE:
  assumes "is_key k"
  obtains a where "is_address a" "k = addrToHex False a" "fromHex k = Inr a"
proof -
  from assms obtain a where a: "addrFromHex k = Inr a" "k = addrToHex False a"
    by (auto simp: is_key_def split: sum.splits)
  then have "fromHex k = Inr a" "is_address a"
    by (auto simp: addrFromHex_def bindR_Inr_iff)
  with a that show thesis by blast
qed

lemma wf_setAt: "wf_state st \<Longrightarrow> is_key k \<Longrightarrow> wf_state (setAt k a st)"
  by (auto simp: wf_state_def keys_setAt simp del: set_map)

lemma wf_empty [simp]: "wf_state []"
  by (simp add: wf_state_def)

lemma getOrCreate_simps [simp]:
  "fst (getOrCreate addr st) = addrToHex False addr"
  "accAt (snd (getOrCreate addr st)) k = accAt st k"
  by (auto simp: getOrCreate_def Let_def accAt_def)

lemma wf_getOrCreate: "wf_state st \<Longrightarrow> is_address a \<Longrightarrow> wf_state (snd (getOrCreate a st))"
  by (auto simp: getOrCreate_def Let_def intro: wf_setAt)


lemma wf_genesisState:
  assumes "list_all (\<lambda>ga. is_address (ga_address ga)) (premine genesis)"
  shows "wf_state (genesisState genesis)"
proof -
  have "wf_state st \<Longrightarrow> list_all (\<lambda>ga. is_address (ga_address ga)) gas \<Longrightarrow>
    wf_state (foldl (\<lambda>st ga. setAt (addrToHex False (ga_address ga)) \<lparr> acc_balance = ga_balance ga, acc_nonce = 0 \<rparr> st) st gas)"
    for st gas by (induction gas arbitrary: st) (simp_all add: wf_setAt)
  from this [OF wf_empty assms] show ?thesis by (simp add: genesisState_def)
qed

section \<open>Applying a transaction\<close>

text \<open>
  The specification: on the view of the table as a total function from addresses to accounts (a missing
  account reads as the empty one), a transaction is a transfer with a nonce increment.
\<close>

definition view :: "State \<Rightarrow> address \<Rightarrow> Account" where
  "view st a = accAt st (addrToHex False a)"

lemma account_field:
  "(case stateGet st a of Some acc \<Rightarrow> acc_balance acc | None \<Rightarrow> 0) = acc_balance (view st a)"
  "(case stateGet st a of Some acc \<Rightarrow> acc_nonce acc | None \<Rightarrow> 0) = acc_nonce (view st a)"
  by (simp_all add: stateGet_def view_def accAt_def emptyAccount_def split: option.splits)

definition spec_transfer :: "address \<Rightarrow> address \<Rightarrow> u64 \<Rightarrow> (address \<Rightarrow> Account) \<Rightarrow> (address \<Rightarrow> Account) option" where
  "spec_transfer f t v w =
     (if acc_balance (w f) < v then None
      else if f = t then Some (w(f := (w f) \<lparr> acc_nonce := acc_nonce (w f) + 1 \<rparr>))
      else Some (w(f := \<lparr> acc_balance = acc_balance (w f) - v, acc_nonce = acc_nonce (w f) + 1 \<rparr>,
                   t := (w t) \<lparr> acc_balance := acc_balance (w t) + v \<rparr>)))"

lemma hex_keys_eq_iff [simp]:
  "is_address a \<Longrightarrow> is_address b \<Longrightarrow> addrToHex False a = addrToHex False b \<longleftrightarrow> a = b"
  by (rule addr_hex.enc_eq_iff)

lemma applyTransaction_cases:
  obtains (poor) "acc_balance (view st f) < tx_value tx"
      "applyTransaction f tx st = (Inl (Runtime_error ''Insufficient balance''),
         snd (getOrCreate (tx_to tx) (snd (getOrCreate f st))))"
  | (ok) k t st' a b where "\<not> acc_balance (view st f) < tx_value tx" "k = addrToHex False f" "t = addrToHex False (tx_to tx)"
      "st' = snd (getOrCreate (tx_to tx) (snd (getOrCreate f st)))"
      "a = (view st f) \<lparr> acc_balance := acc_balance (view st f) - tx_value tx, acc_nonce := acc_nonce (view st f) + 1 \<rparr>"
      "b = (if t = k then a else view st (tx_to tx))"
      "applyTransaction f tx st =
         (Inr (), setAt t (b \<lparr> acc_balance := acc_balance b + tx_value tx \<rparr>) (setAt k a (setAt k
           ((view st f) \<lparr> acc_balance := acc_balance (view st f) - tx_value tx \<rparr>) st')))"
proof (cases "acc_balance (view st f) < tx_value tx")
  case True
  then show thesis by (intro poor) (simp_all add: applyTransaction_def case_prod_unfold Let_def view_def)
next
  case False
  then show thesis by (rule ok) (use False in \<open>auto simp: applyTransaction_def case_prod_unfold Let_def view_def\<close>)
qed

lemma applyTransaction_view:
  assumes "is_address f" "is_address (tx_to tx)"
  shows "case spec_transfer f (tx_to tx) (tx_value tx) (view st) of
      None \<Rightarrow> fst (applyTransaction f tx st) = Inl (Runtime_error ''Insufficient balance'') \<and>
        view (snd (applyTransaction f tx st)) = view st
    | Some w \<Rightarrow> fst (applyTransaction f tx st) = Inr () \<and>
        (\<forall>a. is_address a \<longrightarrow> view (snd (applyTransaction f tx st)) a = w a)"
proof (cases rule: applyTransaction_cases [of st f tx])
  case poor
  then show ?thesis by (simp add: spec_transfer_def view_def fun_eq_iff)
next
  case (ok k t st' a b)
  then show ?thesis using assms by (auto simp: spec_transfer_def view_def)
qed

lemma wf_applyTransaction:
  assumes "wf_state st" "is_address f" "is_address (tx_to tx)"
  shows "wf_state (snd (applyTransaction f tx st))"
  by (cases rule: applyTransaction_cases [of st f tx]) (auto simp: assms intro!: wf_setAt wf_getOrCreate)

section \<open>Supply\<close>

definition coins :: "State \<Rightarrow> nat" where
  "coins st = (\<Sum>(k, a) \<leftarrow> st. unat (acc_balance a))"

lemma coins_simps [simp]: "coins [] = 0" "coins ((k, a) # st) = unat (acc_balance a) + coins st"
  by (simp_all add: coins_def)

lemma coins_setAt:
  "coins (setAt key a st) + unat (acc_balance (accAt st key)) = coins st + unat (acc_balance a)"
  by (induction st rule: setAt.induct) (auto simp: accAt_def emptyAccount_def)

lemma coins_getOrCreate [simp]: "coins (snd (getOrCreate addr st)) = coins st"
  using coins_setAt [of "addrToHex False addr" emptyAccount st]
  by (auto simp: getOrCreate_def Let_def accAt_def emptyAccount_def)

lemma balance_le_coins: "unat (acc_balance (accAt st k)) \<le> coins st"
  by (induction st) (auto simp: accAt_def emptyAccount_def)

lemma two_balances_le_coins:
  "k \<noteq> k' \<Longrightarrow> unat (acc_balance (accAt st k)) + unat (acc_balance (accAt st k')) \<le> coins st"
proof (induction st)
  case (Cons kv st)
  obtain j a where "kv = (j, a)" by force
  then show ?case using Cons balance_le_coins [of st] by (auto simp: accAt_def split: option.splits)
qed (simp add: accAt_def emptyAccount_def)


lemma coins_genesisState: "coins (genesisState genesis) \<le> (\<Sum>ga \<leftarrow> premine genesis. unat (ga_balance ga))"
proof -
  have "coins (foldl (\<lambda>st ga. setAt (addrToHex False (ga_address ga)) \<lparr> acc_balance = ga_balance ga, acc_nonce = 0 \<rparr> st) st gas)
      \<le> coins st + (\<Sum>ga \<leftarrow> gas. unat (ga_balance ga))" for st gas
  proof (induction gas arbitrary: st)
    case (Cons ga gas)
    show ?case
      using Cons [of "setAt (addrToHex False (ga_address ga)) \<lparr> acc_balance = ga_balance ga, acc_nonce = 0 \<rparr> st"]
        coins_setAt [of "addrToHex False (ga_address ga)" "\<lparr> acc_balance = ga_balance ga, acc_nonce = 0 \<rparr>" st] by simp
  qed simp
  from this [of "[]" "premine genesis"] show ?thesis by (simp add: genesisState_def)
qed

lemma coins_applyTransaction:
  assumes "coins st < 2 ^ 64"
  shows "coins (snd (applyTransaction f tx st)) = coins st"
proof (cases rule: applyTransaction_cases [of st f tx])
  case (ok k t st' a b)
  let ?A = "view st f" and ?B = "view st (tx_to tx)" and ?v = "tx_value tx"
  let ?s1 = "setAt k (?A \<lparr> acc_balance := acc_balance ?A - ?v \<rparr>) st'"
  have st': "coins st' = coins st" "accAt st' = accAt st" using ok(4) by (auto simp: fun_eq_iff)
  have sub: "unat (acc_balance ?A - ?v) = unat (acc_balance ?A) - unat ?v" "unat ?v \<le> unat (acc_balance ?A)"
    using ok(1) by (auto simp: unat_sub word_le_nat_alt word_less_nat_alt)
  have add: "unat (acc_balance b + ?v) = unat (acc_balance b) + unat ?v"
  proof (cases "t = k")
    case True
    then show ?thesis using ok(5,6) by simp (metis diff_add_cancel sub le_add_diff_inverse2)
  next
    case False
    then have "unat (acc_balance ?A) + unat (acc_balance ?B) < 2 ^ 64"
      using two_balances_le_coins [of t k st] ok(2,3) assms by (simp add: view_def)
    then have "unat (acc_balance b) + unat ?v < 2 ^ 64" using sub(2) False ok(6) by simp
    then show ?thesis by (simp add: unat_word_ariths)
  qed
  have "coins ?s1 + unat (acc_balance ?A) = coins st + unat (acc_balance ?A - ?v)"
    using coins_setAt [of k "?A \<lparr> acc_balance := acc_balance ?A - ?v \<rparr>" st'] st' ok(2) by (simp add: view_def)
  moreover have "coins (setAt k a ?s1) = coins ?s1"
    using coins_setAt [of k a ?s1] ok(5) by simp
  moreover have "coins (snd (applyTransaction f tx st)) + unat (acc_balance b) =
      coins (setAt k a ?s1) + unat (acc_balance b + ?v)"
    using coins_setAt [of t "b \<lparr> acc_balance := acc_balance b + ?v \<rparr>" "setAt k a ?s1"] ok(3,5,6,7) st'(2)
    by (simp add: view_def split: if_splits)
  ultimately show ?thesis using sub add by linarith
qed simp

section \<open>The state root\<close>

definition key_addr :: "string \<Rightarrow> address" where
  "key_addr k = (case fromHex k of Inl e \<Rightarrow> [] | Inr a \<Rightarrow> a)"

lemma key_addr_addrToHex [simp]: "key_addr (addrToHex False a) = a"
  using fromHex_0x_toHex [of a] by (simp add: key_addr_def addrToHex_def)

definition entries :: "State \<Rightarrow> (bytes \<times> bytes) list" where
  "entries st = map (\<lambda>(k, acc). (key_addr k, encodeAccount acc)) st"

lemma putAccounts_wf:
  "list_all is_key (map fst st) \<Longrightarrow>
   putAccounts st t = Inr (fold (\<lambda>(k, v) s. put s k v) (entries st) t)"
proof (induction st arbitrary: t)
  case (Cons kv st)
  obtain k acc where kv: "kv = (k, acc)" by force
  then obtain a where "fromHex k = Inr a" using Cons.prems by (auto elim: is_keyE)
  then show ?case using Cons by (simp add: kv entries_def key_addr_def)
qed (simp add: entries_def)

lemma putAccounts_mptBuild: "wf_state st \<Longrightarrow> putAccounts st emptyNode = Inr (mptBuild (entries st))"
  by (simp add: wf_state_def putAccounts_wf mptBuild_def)

lemma stateRoot_wf: "wf_state st \<Longrightarrow> stateRoot st = Inr (rootHash (mptBuild (entries st)))"
  by (simp add: stateRoot_def putAccounts_mptBuild)

lemma map_of_entries:
  assumes "wf_state st" "is_address a"
  shows "map_of (entries st) a = map_option encodeAccount (stateGet st a)"
proof -
  have "list_all is_key (map fst st) \<Longrightarrow> map_of (entries st) a = map_option encodeAccount (map_of st (addrToHex False a))"
  proof (induction st)
    case (Cons kv st)
    obtain k acc where kv: "kv = (k, acc)" by force
    with Cons.prems obtain b where "is_address b" "k = addrToHex False b" by (auto elim: is_keyE)
    then show ?case using Cons assms(2) by (auto simp: kv entries_def)
  qed (simp add: entries_def)
  with assms(1) show ?thesis by (simp add: wf_state_def stateGet_def)
qed

lemma map_of_entries_other: "wf_state st \<Longrightarrow> \<not> is_address a \<Longrightarrow> map_of (entries st) a = None"
  by (auto simp: map_of_eq_None_iff entries_def wf_state_def list_all_iff elim!: is_keyE)

lemma distinct_entries: "wf_state st \<Longrightarrow> distinct (map fst (entries st))"
proof -
  assume wf: "wf_state st"
  have "map fst (entries st) = map key_addr (map fst st)" by (simp add: entries_def case_prod_unfold)
  moreover have "inj_on key_addr (set (map fst st))"
    using wf key_addr_addrToHex unfolding wf_state_def list_all_iff by (metis inj_onI is_keyE)
  ultimately show ?thesis using wf by (simp only: wf_state_def distinct_map)
qed

lemma map_of_rev_entries: "wf_state st \<Longrightarrow> map_of (rev (entries st)) = map_of (entries st)"
  by (intro map_of_inject_set [THEN iffD2]) (auto simp: distinct_entries rev_map [symmetric] simp del: rev_map)

lemma encodeAccount_item:
  "encodeAccount acc = enc_item (RList [RStr (be_bytes (unat (acc_balance acc)) []), RStr (be_bytes (unat (acc_nonce acc)) [])])"
  by (simp add: encodeAccount_def encodeUint_item)

lemma encodeAccount_inj [simp]: "encodeAccount a = encodeAccount b \<longleftrightarrow> a = b"
proof -
  have "length (encodeAccount a) < 2 ^ 64"
    using length_encodeList_le [of "[encodeUint (acc_balance a), encodeUint (acc_nonce a)]"]
      length_encodeUint_le [of "acc_balance a"] length_encodeUint_le [of "acc_nonce a"] by (simp add: encodeAccount_def)
  then show ?thesis unfolding encodeAccount_item by (simp only: enc_item_eq_iff) auto
qed

lemma encodeAccount_not_Nil [simp]: "encodeAccount a \<noteq> []" "[] \<noteq> encodeAccount a"
  by (simp_all add: encodeAccount_def encodeList_not_Nil [symmetric])

lemma entries_eq_iff:
  assumes "wf_state s" "wf_state t"
  shows "map_of (entries s) = map_of (entries t) \<longleftrightarrow> (\<forall>a. is_address a \<longrightarrow> stateGet s a = stateGet t a)"
proof
  assume "map_of (entries s) = map_of (entries t)"
  then show "\<forall>a. is_address a \<longrightarrow> stateGet s a = stateGet t a"
    using assms map_of_entries by (metis encodeAccount_inj inj_def option.inj_map_strong)
next
  assume "\<forall>a. is_address a \<longrightarrow> stateGet s a = stateGet t a"
  then show "map_of (entries s) = map_of (entries t)"
    using assms map_of_entries map_of_entries_other by (metis ext)
qed


section \<open>Properties\<close>

text \<open>
  C4. \<open>State::applyTransaction\<close> (src/state.cpp) implements a transfer on the view of the table: with enough
  balance it moves the value, also when sender and recipient are the same account, and increments the
  sender's nonce; otherwise it throws \<open>Insufficient balance\<close> and every account reads as before. The table
  stays well formed either way.
\<close>

theorem applyTransaction_refines:
  assumes "wf_state st" and "is_address f" and "is_address (tx_to tx)"
  shows "wf_state (snd (applyTransaction f tx st)) \<and>
    (case spec_transfer f (tx_to tx) (tx_value tx) (view st) of
      None \<Rightarrow> fst (applyTransaction f tx st) = Inl (Runtime_error ''Insufficient balance'') \<and>
        view (snd (applyTransaction f tx st)) = view st
    | Some w \<Rightarrow> fst (applyTransaction f tx st) = Inr () \<and>
        (\<forall>a. is_address a \<longrightarrow> view (snd (applyTransaction f tx st)) a = w a))"
  using wf_applyTransaction [OF assms] applyTransaction_view [OF assms(2,3)] by blast

theorem applyTransaction_refines_witness:
  "fst (applyTransaction zeroAddress (emptyTransaction \<lparr> tx_value := 5 \<rparr>) []) = Inl (Runtime_error ''Insufficient balance'') \<and>
   wf_state (snd (applyTransaction zeroAddress (emptyTransaction \<lparr> tx_value := 5 \<rparr>) []))"
  using applyTransaction_refines [of "[]" zeroAddress "emptyTransaction \<lparr> tx_value := 5 \<rparr>"]
  by (simp add: emptyTransaction_def spec_transfer_def view_def accAt_def emptyAccount_def)

text \<open>
  C5. No money is made or lost: if the balances sum to less than \<open>2 ^ 64\<close> the sum is the same after any
  \<open>applyTransaction\<close>, whoever pays whom and whether it succeeds or throws; so the 64-bit additions never wrap.
  A genesis table holds at most the sum of its premine.
\<close>

theorem supply_conserved:
  assumes "(\<Sum>ga \<leftarrow> premine genesis. unat (ga_balance ga)) < 2 ^ 64"
  shows "coins (foldl (\<lambda>st (f, tx). snd (applyTransaction f tx st)) (genesisState genesis) txs) = coins (genesisState genesis) \<and>
    coins (genesisState genesis) < 2 ^ 64"
proof -
  have small: "coins (genesisState genesis) < 2 ^ 64" using coins_genesisState assms by (rule le_less_trans)
  have "coins st < 2 ^ 64 \<Longrightarrow> coins (foldl (\<lambda>st (f, tx). snd (applyTransaction f tx st)) st txs) = coins st" for st
    by (induction txs arbitrary: st) (auto simp: coins_applyTransaction)
  with small show ?thesis by blast
qed

theorem supply_conserved_witness:
  "coins (foldl (\<lambda>st (f, tx). snd (applyTransaction f tx st))
     (genesisState \<lparr> premine = [\<lparr> ga_address = zeroAddress, ga_balance = 7 \<rparr>], gen_chainId = 1 \<rparr>)
     [(zeroAddress, emptyTransaction \<lparr> tx_to := replicate 20 1, tx_value := 5 \<rparr>)]) = 7"
  using supply_conserved [of "\<lparr> premine = [\<lparr> ga_address = zeroAddress, ga_balance = 7 \<rparr>], gen_chainId = 1 \<rparr>"
      "[(zeroAddress, emptyTransaction \<lparr> tx_to := replicate 20 1, tx_value := 5 \<rparr>)]"]
  by (simp add: genesisState_def)

text \<open>
  \<open>State::root\<close> (src/state.cpp) does not depend on the iteration order of the \<open>unordered_map\<close>: two well-formed
  tables in which every address reads the same entry have the same root, and the root is always computed
  without an exception. Two nodes with the same accounts therefore agree on the root.
\<close>

theorem state_root_order_irrelevant:
  assumes "wf_state s" and "wf_state t" and "\<forall>a. is_address a \<longrightarrow> stateGet s a = stateGet t a"
  shows "stateRoot s = stateRoot t \<and> (\<exists>h. stateRoot s = Inr h)"
proof -
  have "map_of (entries s) = map_of (entries t)" using entries_eq_iff [OF assms(1,2)] assms(3) by blast
  then have "mptBuild (entries s) = mptBuild (entries t)"
    by (intro mptBuild_canonical) (simp add: map_of_rev_entries assms(1,2))
  then show ?thesis by (simp add: stateRoot_wf assms(1,2))
qed

lemma wf_pair:
  "wf_state [(addrToHex False zeroAddress, a), (addrToHex False (replicate 20 1), b)]"
  "wf_state [(addrToHex False (replicate 20 1), b), (addrToHex False zeroAddress, a)]"
  by (simp_all add: wf_state_def is_address_length zeroAddress_def kSize_def)

theorem state_root_order_irrelevant_witness:
  "stateRoot [(addrToHex False zeroAddress, emptyAccount), (addrToHex False (replicate 20 1), emptyAccount)] =
   stateRoot [(addrToHex False (replicate 20 1), emptyAccount), (addrToHex False zeroAddress, emptyAccount)]"
  using state_root_order_irrelevant [OF wf_pair [of emptyAccount emptyAccount]] by (simp add: stateGet_def)

text \<open>
  The state root binds the accounts (src/state.cpp, src/mpt.cpp): if two well-formed tables have tries with the same
  node encoding, the bytes under the root's hash, then every address has the same balance and nonce in both,
  and an account that exists in one exists in the other. (The encoding is shorter than \<open>2 ^ 64\<close> bytes.)
\<close>

theorem state_root_binds:
  assumes "wf_state s" and "wf_state t" and "putAccounts s emptyNode = Inr ns" and "putAccounts t emptyNode = Inr nt"
    and "length (encodeNode ns) < 2 ^ 64"
  shows "encodeNode ns = encodeNode nt \<longleftrightarrow> (\<forall>a. is_address a \<longrightarrow> stateGet s a = stateGet t a)"
proof -
  have n: "ns = mptBuild (entries s)" "nt = mptBuild (entries t)" using assms by (simp_all add: putAccounts_mptBuild)
  have "\<forall>(k, v) \<in> set (entries s) \<union> set (entries t). v \<noteq> []" by (auto simp: entries_def)
  then have "encodeNode ns = encodeNode nt \<longleftrightarrow> map_of (entries s) = map_of (entries t)"
    using encodeNode_mptBuild_iff [of "entries s" "entries t"] assms(1,2,5) by (simp add: n map_of_rev_entries)
  then show ?thesis using entries_eq_iff [OF assms(1,2)] by simp
qed

theorem state_root_binds_witness:
  "\<exists>nt. putAccounts [(addrToHex False zeroAddress, emptyAccount)] emptyNode = Inr nt \<and> encodeNode emptyNode \<noteq> encodeNode nt"
proof -
  let ?t = "[(addrToHex False zeroAddress, emptyAccount)]"
  have wf: "wf_state ?t" by (simp add: wf_state_def)
  have "length (encodeNode emptyNode) < 2 ^ 64"
    by (simp add: emptyNode_def encodeNodeValue_def encodeList_def encodeBytes_def encodeLength_def length_concat sum_list_triv)
  then have "encodeNode emptyNode \<noteq> encodeNode (mptBuild (entries ?t))"
    using state_root_binds [OF wf_empty wf putAccounts.simps(1) putAccounts_mptBuild [OF wf]]
    by (auto simp: stateGet_def intro!: exI [of _ zeroAddress])
  then show ?thesis using putAccounts_mptBuild [OF wf] by blast
qed

end
