(* ===== verification/Receipt.thy ===== *)
theory Receipt
  imports Rlp Address
begin

text \<open>
  \<open>src/src/receipt.cpp\<close>, \<open>log.hpp\<close>: transaction receipts and their RLP form. Topics are hex strings that the
  encoder parses, so encoding a receipt may throw.
\<close>

section \<open>Definitions\<close>

record Log =
  log_address :: address
  log_topics :: "string list"
  log_data :: bytes

record Receipt =
  rc_status :: bool
  rc_cumulativeGasUsed :: u64
  rc_logs :: "Log list"

definition logEncode :: "Log \<Rightarrow> bytes result" where
  "logEncode l =
     bindR (mapR (\<lambda>t. bindR (fromHex t) (\<lambda>b. Inr (encodeBytes b))) (log_topics l)) (\<lambda>topicBytes.
     Inr (encodeList [encodeBytes (log_address l), encodeList topicBytes, encodeBytes (log_data l)]))"

definition receiptEncode :: "Receipt \<Rightarrow> bytes result" where
  "receiptEncode r =
     bindR (mapR logEncode (rc_logs r)) (\<lambda>logItems.
     Inr (encodeList [encodeUint (if rc_status r then 1 else 0), encodeUint (rc_cumulativeGasUsed r), encodeList logItems]))"

section \<open>Receipts as RLP items\<close>

lemma mapR_Inr_iff: "mapR f xs = Inr ys \<longleftrightarrow> list_all2 (\<lambda>x y. f x = Inr y) xs ys"
proof (induction xs arbitrary: ys)
  case Nil
  then show ?case by auto
next
  case (Cons x xs)
  then show ?case by (cases ys) (auto simp: bindR_Inr_iff)
qed

lemma mapR_enc:
  assumes "mapR f xs = Inr bs" "\<And>x b. x \<in> set xs \<Longrightarrow> f x = Inr b \<Longrightarrow> b = enc (g x)"
  shows "bs = map enc (map g xs)"
  using assms by (induction xs arbitrary: bs) (auto simp: bindR_Inr_iff)

definition topic_item :: "string \<Rightarrow> rlp_item" where
  "topic_item t = (case fromHex t of Inl e \<Rightarrow> RStr [] | Inr b \<Rightarrow> RStr b)"

definition log_item :: "Log \<Rightarrow> rlp_item" where
  "log_item l = RList [RStr (log_address l), RList (map topic_item (log_topics l)), RStr (log_data l)]"

definition receipt_item :: "Receipt \<Rightarrow> rlp_item" where
  "receipt_item r = RList
     [RStr (be_bytes (if rc_status r then 1 else 0) []), RStr (be_bytes (unat (rc_cumulativeGasUsed r)) []),
      RList (map log_item (rc_logs r))]"

lemma logEncode_item: "logEncode l = Inr b \<Longrightarrow> b = enc_item (log_item l)"
proof -
  assume "logEncode l = Inr b"
  then obtain ts where ts: "mapR (\<lambda>t. bindR (fromHex t) (\<lambda>b. Inr (encodeBytes b))) (log_topics l) = Inr ts"
    and b: "b = encodeList [encodeBytes (log_address l), encodeList ts, encodeBytes (log_data l)]"
    by (auto simp: logEncode_def bindR_Inr_iff)
  have "ts = map enc_item (map topic_item (log_topics l))"
    using ts by (rule mapR_enc) (auto simp: bindR_Inr_iff topic_item_def)
  then show ?thesis by (simp add: b log_item_def)
qed

lemma receiptEncode_item: "receiptEncode r = Inr b \<Longrightarrow> b = enc_item (receipt_item r)"
proof -
  assume "receiptEncode r = Inr b"
  then obtain ls where ls: "mapR logEncode (rc_logs r) = Inr ls"
    and b: "b = encodeList [encodeUint (if rc_status r then 1 else 0), encodeUint (rc_cumulativeGasUsed r), encodeList ls]"
    by (auto simp: receiptEncode_def bindR_Inr_iff)
  have "ls = map enc_item (map log_item (rc_logs r))"
    using ls by (rule mapR_enc) (rule logEncode_item)
  then show ?thesis by (auto simp: b receipt_item_def encodeUint_item)
qed

lemma receiptEncode_no_logs: "rc_logs r = [] \<Longrightarrow> receiptEncode r = Inr (enc_item (receipt_item r))"
  by (auto simp: receiptEncode_def receipt_item_def encodeUint_item)

lemma receipt_item_eq_iff:
  "receipt_item r = receipt_item q \<longleftrightarrow> rc_status r = rc_status q \<and>
   rc_cumulativeGasUsed r = rc_cumulativeGasUsed q \<and> map log_item (rc_logs r) = map log_item (rc_logs q)"
proof -
  have "be_bytes (if a then 1 else 0) [] = be_bytes (if b then 1 else 0) [] \<longleftrightarrow> a = b" for a b
    by (metis be_value_be_bytes zero_neq_one)
  moreover have "be_bytes m [] = be_bytes n [] \<longleftrightarrow> m = n" for m n by (metis be_value_be_bytes)
  ultimately show ?thesis by (simp add: receipt_item_def)
qed

section \<open>Properties\<close>

text \<open>
  Receipt encoding (src/receipt.cpp): when two receipts encode to the same bytes, they agree in status and
  cumulative gas and list logs with the same address, topics (as bytes) and data in the same order.
\<close>

theorem receipt_encoding_binds:
  assumes "receiptEncode r = Inr a" and "receiptEncode q = Inr b" and "length a < 2 ^ 64"
  shows "a = b \<longleftrightarrow> rc_status r = rc_status q \<and> rc_cumulativeGasUsed r = rc_cumulativeGasUsed q \<and>
    map (\<lambda>l. (log_address l, map topic_item (log_topics l), log_data l)) (rc_logs r) =
    map (\<lambda>l. (log_address l, map topic_item (log_topics l), log_data l)) (rc_logs q)"
proof -
  have "a = b \<longleftrightarrow> receipt_item r = receipt_item q"
    using assms receiptEncode_item [OF assms(1)] receiptEncode_item [OF assms(2)] by (simp add: enc_item_eq_iff)
  moreover have "map log_item ls = map log_item ks \<longleftrightarrow>
      map (\<lambda>l. (log_address l, map topic_item (log_topics l), log_data l)) ls =
      map (\<lambda>l. (log_address l, map topic_item (log_topics l), log_data l)) ks" for ls ks
    by (induction ls arbitrary: ks) (auto simp: log_item_def Cons_eq_map_conv map_eq_Cons_conv)
  ultimately show ?thesis by (simp add: receipt_item_eq_iff)
qed

theorem receipt_encoding_binds_witness:
  "receiptEncode \<lparr> rc_status = True, rc_cumulativeGasUsed = 0, rc_logs = [] \<rparr> \<noteq>
   receiptEncode \<lparr> rc_status = False, rc_cumulativeGasUsed = 0, rc_logs = [] \<rparr>"
  using receipt_encoding_binds [of "\<lparr> rc_status = True, rc_cumulativeGasUsed = 0, rc_logs = [] \<rparr>" _
      "\<lparr> rc_status = False, rc_cumulativeGasUsed = 0, rc_logs = [] \<rparr>"]
  by (simp add: receiptEncode_def encodeUint_def encodeList_def encodeBytes_def encodeLength_def be_bytes.simps)

end
