(* ===== verification/Bloom.thy ===== *)
theory Bloom
  imports Hex Keccak
begin

unbundle bit_operations_syntax

text \<open>
  \<open>src/src/bloom.cpp\<close>: the 2048-bit filter over log entries. Each item sets the three bits that the first
  three byte pairs of its Keccak digest select.
\<close>

section \<open>Definitions\<close>

type_synonym Bloom = bytes

definition kBytes :: nat where
  "kBytes = 256"

definition emptyBloom :: Bloom where
  "emptyBloom = replicate kBytes 0"

definition bloomIndex :: "bytes \<Rightarrow> nat \<Rightarrow> u16" where
  "bloomIndex h i = (push_bit 8 (ucast (h ! (2 * i))) OR ucast (h ! (2 * i + 1))) AND 2047"

definition bloomSet :: "bytes \<Rightarrow> nat \<Rightarrow> Bloom \<Rightarrow> Bloom" where
  "bloomSet h i bits =
     (let v = bloomIndex h i;
          byteIndex = unat (drop_bit 3 v);
          bit = push_bit (unat (v AND 7)) (1 :: byte)
      in bits[byteIndex := (bits ! byteIndex) OR bit])"

definition bloomAdd :: "bytes \<Rightarrow> Bloom \<Rightarrow> Bloom" where
  "bloomAdd data bits = (let h = keccak256 data in foldl (\<lambda>bits i. bloomSet h i bits) bits [0..<3])"

definition bloomAddHex :: "string \<Rightarrow> Bloom \<Rightarrow> Bloom result" where
  "bloomAddHex hex bits = bindR (fromHex hex) (\<lambda>d. Inr (bloomAdd d bits))"

definition bloomToHex :: "Bloom \<Rightarrow> string" where
  "bloomToHex bits = ''0x'' @ toHex bits"

section \<open>The filter as a set of bit positions\<close>

definition bloom_bit :: "Bloom \<Rightarrow> nat \<Rightarrow> bool" where
  "bloom_bit bits n = bit (bits ! (n div 8)) (n mod 8)"

definition positions :: "bytes \<Rightarrow> nat list" where
  "positions data = map (\<lambda>i. unat (bloomIndex (keccak256 data) i)) [0..<3]"

lemma bloomIndex_less: "unat (bloomIndex h i) < 2048"
proof -
  have "bloomIndex h i = bloomIndex h i AND mask 11"
    by (simp add: bloomIndex_def mask_eq_exp_minus_1 and.assoc)
  then have "bloomIndex h i = take_bit 11 (bloomIndex h i)" by (simp add: take_bit_eq_mask)
  then have "unat (bloomIndex h i) = take_bit 11 (unat (bloomIndex h i))" by (metis unsigned_take_bit_eq)
  moreover have "take_bit 11 (unat (bloomIndex h i)) < 2 ^ 11" by (rule take_bit_nat_less_exp)
  ultimately show ?thesis by simp
qed

lemma unat_drop_bit_3: "unat (drop_bit 3 (v :: u16)) = unat v div 8"
  by (simp add: drop_bit_eq_div unat_div)

lemma unat_and_7: "unat (v AND 7 :: u16) = unat v mod 8"
proof -
  have "v AND 7 = take_bit 3 v" by (simp add: take_bit_eq_mask mask_eq_exp_minus_1)
  then show ?thesis by (simp add: take_bit_eq_mod unat_mod)
qed

lemma length_bloomSet [simp]: "length (bloomSet h i bits) = length bits"
  by (simp add: bloomSet_def Let_def)

lemma bloom_bit_bloomSet:
  assumes "length bits = kBytes" "n < 2048"
  shows "bloom_bit (bloomSet h i bits) n \<longleftrightarrow> bloom_bit bits n \<or> n = unat (bloomIndex h i)"
proof -
  define v where "v = unat (bloomIndex h i)"
  have v: "v div 8 < kBytes" using bloomIndex_less [of h i] by (simp add: v_def kBytes_def)
  have "bloomSet h i bits = bits[v div 8 := (bits ! (v div 8)) OR push_bit (v mod 8) 1]"
    by (simp add: bloomSet_def Let_def unat_drop_bit_3 unat_and_7 v_def)
  moreover have "bit ((x :: byte) OR push_bit (v mod 8) 1) (n mod 8) \<longleftrightarrow> bit x (n mod 8) \<or> n mod 8 = v mod 8" for x
    by (auto simp: bit_or_iff bit_exp_iff)
  moreover have "n = v \<longleftrightarrow> n div 8 = v div 8 \<and> n mod 8 = v mod 8" by (metis div_mult_mod_eq)
  ultimately show ?thesis using assms(1) v by (auto simp: bloom_bit_def nth_list_update v_def [symmetric])
qed

lemma length_bloomAdd [simp]: "length (bloomAdd data bits) = length bits"
  by (simp add: bloomAdd_def Let_def upt_rec)

lemma bloom_bit_bloomAdd:
  assumes "length bits = kBytes" "n < 2048"
  shows "bloom_bit (bloomAdd data bits) n \<longleftrightarrow> bloom_bit bits n \<or> n \<in> set (positions data)"
  using assms by (auto simp: bloomAdd_def positions_def Let_def upt_rec bloom_bit_bloomSet)

lemma bloom_bit_empty [simp]: "n < 2048 \<Longrightarrow> \<not> bloom_bit emptyBloom n"
  by (simp add: bloom_bit_def emptyBloom_def kBytes_def)

lemma length_emptyBloom [simp]: "length emptyBloom = kBytes"
  by (simp add: emptyBloom_def)

lemma bloom_bit_fold:
  assumes "length bits = kBytes" "n < 2048"
  shows "bloom_bit (fold bloomAdd items bits) n \<longleftrightarrow> bloom_bit bits n \<or> (\<exists>d \<in> set items. n \<in> set (positions d))"
  using assms by (induction items arbitrary: bits) (auto simp: bloom_bit_bloomAdd)

lemma length_bloom_fold [simp]: "length (fold bloomAdd items bits) = length bits"
  by (induction items arbitrary: bits) auto

lemma bloom_eqI:
  assumes "length a = kBytes" "length b = kBytes" "\<And>n. n < 2048 \<Longrightarrow> bloom_bit a n = bloom_bit b n"
  shows "a = b"
proof (rule nth_equalityI)
  fix i
  assume "i < length a"
  then have i: "i < 256" using assms(1) by (simp add: kBytes_def)
  show "a ! i = b ! i"
  proof (rule bit_word_eqI)
    fix m
    assume m: "m < LENGTH(8)"
    then have "8 * i + m < 2048" using i by simp
    from assms(3) [OF this] m show "bit (a ! i) m = bit (b ! i) m" by (simp add: bloom_bit_def)
  qed
qed (use assms in simp)

lemma positions_less: "n \<in> set (positions d) \<Longrightarrow> n < 2048"
  using bloomIndex_less by (auto simp: positions_def)

section \<open>Properties\<close>

text \<open>
  The logs filter (src/bloom.cpp): after any sequence of \<open>add\<close> calls on an empty filter, a bit is set exactly if
  some added item selects it. So an added item is never missed, the order and repetition of the items do
  not matter, and all writes stay inside the 256 bytes.
\<close>

theorem bloom_exact:
  "length (fold bloomAdd items emptyBloom) = 256 \<and>
   {n. n < 2048 \<and> bloom_bit (fold bloomAdd items emptyBloom) n} = (\<Union>d \<in> set items. set (positions d)) \<and>
   (set items = set items' \<longrightarrow> fold bloomAdd items emptyBloom = fold bloomAdd items' emptyBloom)"
proof (intro conjI impI)
  show len: "length (fold bloomAdd items emptyBloom) = 256" by (simp add: kBytes_def)
  show "{n. n < 2048 \<and> bloom_bit (fold bloomAdd items emptyBloom) n} = (\<Union>d \<in> set items. set (positions d))"
    using bloom_bit_fold [OF length_emptyBloom, of _ items] positions_less by auto
  assume "set items = set items'"
  then show "fold bloomAdd items emptyBloom = fold bloomAdd items' emptyBloom"
    using bloom_bit_fold [OF length_emptyBloom] by (intro bloom_eqI) simp_all
qed

theorem bloom_exact_witness:
  "fold bloomAdd [[1], [2]] emptyBloom = fold bloomAdd [[2], [1], [1]] emptyBloom"
  using bloom_exact [of "[[1], [2]]" "[[2], [1], [1]]"] by (simp add: insert_commute)

end
