(* ===== verification/Zk.thy ===== *)
theory Zk
  imports Hex Keccak
begin

text \<open>
  \<open>src/src/zk.cpp\<close>: the mock proof of a block. The prover hashes the two state roots and the transaction root
  into a proof string and commits to all four; the verifier recomputes the commitment.
\<close>

section \<open>Definitions\<close>

record ZkProof =
  zk_proof :: string
  zk_stateBefore :: string
  zk_stateAfter :: string
  zk_txRoot :: string
  zk_commitment :: string

definition emptyZkProof :: ZkProof where
  "emptyZkProof = \<lparr> zk_proof = [], zk_stateBefore = [], zk_stateAfter = [], zk_txRoot = [], zk_commitment = [] \<rparr>"

definition zkGenerate :: "string \<Rightarrow> string \<Rightarrow> string \<Rightarrow> ZkProof" where
  "zkGenerate before after root =
     (let p = toHex (keccak256_str (before @ ''|'' @ after @ ''|'' @ root));
          c = p @ ''|'' @ before @ ''|'' @ after @ ''|'' @ root
      in \<lparr> zk_proof = p, zk_stateBefore = before, zk_stateAfter = after, zk_txRoot = root,
           zk_commitment = toHex (keccak256_str c) \<rparr>)"

definition zkVerify :: "ZkProof \<Rightarrow> bool" where
  "zkVerify p =
     (let c = zk_proof p @ ''|'' @ zk_stateBefore p @ ''|'' @ zk_stateAfter p @ ''|'' @ zk_txRoot p;
          expected = toHex (keccak256_str c)
      in expected = zk_commitment p)"

section \<open>Facts\<close>

lemma zkVerify_zkGenerate [simp]: "zkVerify (zkGenerate before after root)"
  by (simp add: zkVerify_def zkGenerate_def Let_def)

text \<open>The committed string, and the condition under which its separators are unambiguous.\<close>

definition zk_preimage :: "ZkProof \<Rightarrow> string" where
  "zk_preimage p = zk_proof p @ ''|'' @ zk_stateBefore p @ ''|'' @ zk_stateAfter p @ ''|'' @ zk_txRoot p"

definition bar_free :: "string \<Rightarrow> bool" where
  "bar_free s \<longleftrightarrow> CHR ''|'' \<notin> set s"

lemma zkVerify_iff: "zkVerify p \<longleftrightarrow> zk_commitment p = toHex (keccak256_str (zk_preimage p))"
  by (auto simp: zkVerify_def zk_preimage_def)

lemma bar_free_hexdigit: "n < 16 \<Longrightarrow> hexdigit n \<noteq> CHR ''|''"
  using hexdigit_simps [of n] by (auto simp: is_hex_char_def)

lemma bar_free_toHex [simp]: "bar_free (toHex bs)"
  using bar_free_hexdigit by (force simp: bar_free_def dest: set_toHex)

section \<open>Properties\<close>

text \<open>
  The block proof (src/zk.cpp): every generated proof verifies, and two verifying proofs with the same commitment
  and unambiguous fields (no \<open>|\<close> inside, as in hex roots) have the same proof string, the same state roots and
  the same transaction root, unless two different strings with the same Keccak digest are at hand.
\<close>

theorem zk_commitment_binds:
  assumes "zkVerify p" and "zkVerify q" and "zk_commitment p = zk_commitment q"
    and "bar_free (zk_proof p)" and "bar_free (zk_proof q)" and "bar_free (zk_stateBefore p)" and "bar_free (zk_stateBefore q)"
    and "bar_free (zk_stateAfter p)" and "bar_free (zk_stateAfter q)"
  shows "zkVerify (zkGenerate before after root) \<and>
    (p = q \<or> zk_preimage p \<noteq> zk_preimage q \<and> keccak256_str (zk_preimage p) = keccak256_str (zk_preimage q))"
proof -
  have "keccak256_str (zk_preimage p) = keccak256_str (zk_preimage q)"
    using assms(1-3) by (simp add: zkVerify_iff)
  moreover have "p = q" if "zk_preimage p = zk_preimage q"
    using that assms by (cases p; cases q) (simp add: zk_preimage_def separator_cancel bar_free_def)
  ultimately show ?thesis by auto
qed

theorem zk_commitment_binds_witness:
  "zkVerify (zkGenerate ''0xaa'' ''0xbb'' ''0x00'')"
  using zk_commitment_binds [of "zkGenerate ''0xaa'' ''0xbb'' ''0x00''" "zkGenerate ''0xaa'' ''0xbb'' ''0x00''"]
  by (simp add: Let_def bar_free_def)

end
