(* ===== verification/Block.thy ===== *)
theory Block
  imports Transaction Receipt Bloom Zk
begin

text \<open>
  \<open>src/src/block.cpp\<close>: the block record, its constructor (the clock reading is the argument \<open>now\<close>), its hash and
  its RLP and hex forms. \<open>rlpDecode\<close> and \<open>fromHex\<close> read the same fields and differ in their error messages.
\<close>

section \<open>Definitions\<close>

record Block =
  blk_index :: u64
  blk_prevHash :: string
  blk_stateBefore :: string
  blk_stateAfter :: string
  blk_txRoot :: string
  blk_receiptsRoot :: string
  blk_proof :: ZkProof
  blk_timestamp :: u64
  blk_hash :: string
  blk_nonce :: u64
  blk_transactions :: "Transaction list"
  blk_receipts :: "Receipt list"
  blk_logsBloom :: Bloom

definition emptyBlock :: Block where
  "emptyBlock = \<lparr> blk_index = 0, blk_prevHash = [], blk_stateBefore = [], blk_stateAfter = [], blk_txRoot = [],
     blk_receiptsRoot = [], blk_proof = emptyZkProof, blk_timestamp = 0, blk_hash = [], blk_nonce = 0,
     blk_transactions = [], blk_receipts = [], blk_logsBloom = emptyBloom \<rparr>"

definition blockComputeHash :: "Block \<Rightarrow> string" where
  "blockComputeHash b = toHex (keccak256_str
     (to_string (blk_index b) @ ''|'' @ blk_prevHash b @ ''|'' @ blk_stateBefore b @ ''|'' @ blk_stateAfter b @ ''|'' @
      blk_txRoot b @ ''|'' @ blk_receiptsRoot b @ ''|'' @ zk_commitment (blk_proof b) @ ''|'' @ to_string (blk_timestamp b)))"

definition newBlock :: "u64 \<Rightarrow> u64 \<Rightarrow> string \<Rightarrow> string \<Rightarrow> string \<Rightarrow> string \<Rightarrow> ZkProof \<Rightarrow> Block" where
  "newBlock now idx prev before after root proof =
     (let b = emptyBlock \<lparr> blk_index := idx, blk_prevHash := prev, blk_stateBefore := before, blk_stateAfter := after,
                blk_txRoot := root, blk_proof := proof, blk_timestamp := now \<rparr>
      in b \<lparr> blk_hash := blockComputeHash b \<rparr>)"

definition blockEncode :: "Block \<Rightarrow> bytes result" where
  "blockEncode b =
     bindR (mapR receiptEncode (blk_receipts b)) (\<lambda>rcItems.
     Inr (encodeList
       [encodeUint (blk_index b), encodeString (blk_prevHash b), encodeString (blk_stateBefore b),
        encodeString (blk_stateAfter b), encodeString (blk_txRoot b), encodeString (zk_proof (blk_proof b)),
        encodeString (zk_commitment (blk_proof b)), encodeUint (blk_timestamp b), encodeString (blk_hash b),
        encodeList (map rlpEncodeSigned (blk_transactions b)), encodeBytes (blk_logsBloom b), encodeList rcItems]))"

definition blockToHex :: "Block \<Rightarrow> string result" where
  "blockToHex b = bindR (blockEncode b) (\<lambda>enc. Inr (''0x'' @ toHex enc))"

text \<open>The header fields both parsers read, and the loop over the transaction list.\<close>

definition blockOfFields :: "Decoded list \<Rightarrow> Block" where
  "blockOfFields L = emptyBlock \<lparr>
     blk_index := be_u64 (d_bytes (L ! 0)),
     blk_prevHash := string_of_bytes (d_bytes (L ! 1)),
     blk_stateBefore := string_of_bytes (d_bytes (L ! 2)),
     blk_stateAfter := string_of_bytes (d_bytes (L ! 3)),
     blk_txRoot := string_of_bytes (d_bytes (L ! 4)),
     blk_proof := emptyZkProof \<lparr> zk_proof := string_of_bytes (d_bytes (L ! 5)),
                                 zk_commitment := string_of_bytes (d_bytes (L ! 6)) \<rparr>,
     blk_timestamp := be_u64 (d_bytes (L ! 7)),
     blk_hash := string_of_bytes (d_bytes (L ! 8)) \<rparr>"

definition blockTxs :: "secp256k1 \<Rightarrow> Decoded list \<Rightarrow> Transaction list result" where
  "blockTxs S items = mapR (\<lambda>item. txFromHex S (''0x'' @ toHex (d_bytes item))) items"

definition blockDecode :: "secp256k1 \<Rightarrow> bytes \<Rightarrow> Block result" where
  "blockDecode S raw =
     bindR (decodeBuf raw) (\<lambda>root.
     if \<not> isList root \<or> length (d_list root) < 10 then Inl (Runtime_error ''Invalid RLP block'')
     else let L = d_list root in
       if \<not> isList (L ! 9) then Inl (Runtime_error ''Block txs must be list'')
       else bindR (blockTxs S (d_list (L ! 9))) (\<lambda>txs.
         Inr (blockOfFields L \<lparr> blk_transactions := txs \<rparr>)))"

definition blockFromHex :: "secp256k1 \<Rightarrow> string \<Rightarrow> Block result" where
  "blockFromHex S hex =
     bindR (fromHex (strip0x hex)) (\<lambda>raw.
     bindR (decodeBuf raw) (\<lambda>root.
     if \<not> isList root \<or> length (d_list root) < 10 then Inl (Runtime_error ''Block::fromHex: invalid RLP block'')
     else let L = d_list root in
       if \<not> isList (L ! 9) then Inl (Runtime_error ''Block::fromHex: tx list not a list'')
       else bindR (blockTxs S (d_list (L ! 9))) (\<lambda>txs.
         Inr (blockOfFields L \<lparr> blk_transactions := txs \<rparr>))))"

section \<open>Blocks as RLP items\<close>

definition tx_item :: "Transaction \<Rightarrow> rlp_item" where
  "tx_item tx = RList (body_items tx @
     [RStr (be_bytes (unat (full_v tx)) []), RStr (sig_r (tx_sig tx)), RStr (sig_s (tx_sig tx))])"

definition block_items :: "Block \<Rightarrow> rlp_item list" where
  "block_items b =
     [RStr (be_bytes (unat (blk_index b)) []), RStr (bytes_of_string (blk_prevHash b)),
      RStr (bytes_of_string (blk_stateBefore b)), RStr (bytes_of_string (blk_stateAfter b)),
      RStr (bytes_of_string (blk_txRoot b)), RStr (bytes_of_string (zk_proof (blk_proof b))),
      RStr (bytes_of_string (zk_commitment (blk_proof b))), RStr (be_bytes (unat (blk_timestamp b)) []),
      RStr (bytes_of_string (blk_hash b)), RList (map tx_item (blk_transactions b)), RStr (blk_logsBloom b),
      RList (map receipt_item (blk_receipts b))]"

lemma rlpEncodeSigned_item: "rlpEncodeSigned tx = enc_item (tx_item tx)"
  by (simp add: signed_item tx_item_def)

lemma blockEncode_item: "blockEncode b = Inr enc \<Longrightarrow> enc = enc_item (RList (block_items b))"
proof -
  assume "blockEncode b = Inr enc"
  then obtain rcs where rcs: "mapR receiptEncode (blk_receipts b) = Inr rcs"
    and enc: "enc = encodeList
       [encodeUint (blk_index b), encodeString (blk_prevHash b), encodeString (blk_stateBefore b),
        encodeString (blk_stateAfter b), encodeString (blk_txRoot b), encodeString (zk_proof (blk_proof b)),
        encodeString (zk_commitment (blk_proof b)), encodeUint (blk_timestamp b), encodeString (blk_hash b),
        encodeList (map rlpEncodeSigned (blk_transactions b)), encodeBytes (blk_logsBloom b), encodeList rcs]"
    by (auto simp: blockEncode_def bindR_Inr_iff)
  have "rcs = map enc_item (map receipt_item (blk_receipts b))"
    using rcs by (rule mapR_enc) (rule receiptEncode_item)
  moreover have "map rlpEncodeSigned (blk_transactions b) = map enc_item (map tx_item (blk_transactions b))"
    by (simp add: rlpEncodeSigned_item)
  ultimately show ?thesis
    unfolding enc block_items_def by (simp add: encodeUint_item encodeString_item del: map_map)
qed

text \<open>What survives the wire: the header, without receipts root, nonce, receipts, filter and the proof's own roots.\<close>

definition wire_view :: "Block \<Rightarrow> Block" where
  "wire_view b = emptyBlock \<lparr>
     blk_index := blk_index b, blk_prevHash := blk_prevHash b, blk_stateBefore := blk_stateBefore b,
     blk_stateAfter := blk_stateAfter b, blk_txRoot := blk_txRoot b,
     blk_proof := emptyZkProof \<lparr> zk_proof := zk_proof (blk_proof b), zk_commitment := zk_commitment (blk_proof b) \<rparr>,
     blk_timestamp := blk_timestamp b, blk_hash := blk_hash b \<rparr>"

lemma blockOfFields_items: "blockOfFields (map to_decoded (block_items b)) = wire_view b"
  by (simp add: blockOfFields_def block_items_def wire_view_def)

lemma txFromHex_empty: "txFromHex S ''0x'' = Inl (Runtime_error ''RLP decode overflow'')"
  by (simp add: txFromHex_def fromHex_def strip0x_def has_0x_def decodeBuf_def decode.simps)

lemma blockTxs_items:
  "blockTxs S (map to_decoded (map tx_item txs)) =
   (if txs = [] then Inr [] else Inl (Runtime_error ''RLP decode overflow''))"
  using txFromHex_empty [of S] by (cases txs) (simp_all add: blockTxs_def tx_item_def)

definition wire_result :: "Block \<Rightarrow> Block result" where
  "wire_result b = (if blk_transactions b = [] then Inr (wire_view b) else Inl (Runtime_error ''RLP decode overflow''))"

lemma decode_block_item:
  assumes "blockEncode b = Inr enc" "length enc < 2 ^ 64"
  shows "blockDecode S enc = wire_result b" "blockFromHex S (''0x'' @ toHex enc) = wire_result b"
proof -
  have "decodeBuf enc = Inr (Decoded True [] (map to_decoded (block_items b)))"
    using decodeBuf_enc_item [of "RList (block_items b)"] assms(2)
    by (simp only: blockEncode_item [OF assms(1)] to_decoded.simps)
  moreover have "map to_decoded (block_items b) ! 9 = Decoded True [] (map to_decoded (map tx_item (blk_transactions b)))"
    by (simp add: block_items_def)
  moreover have "length (block_items b) = 12" by (simp add: block_items_def)
  moreover have "wire_view b \<lparr> blk_transactions := [] \<rparr> = wire_view b"
    by (simp add: wire_view_def emptyBlock_def)
  ultimately show "blockDecode S enc = wire_result b" "blockFromHex S (''0x'' @ toHex enc) = wire_result b"
    by (simp_all add: blockDecode_def blockFromHex_def blockTxs_items blockOfFields_items wire_result_def Let_def del: map_map)
qed


section \<open>The hash preimage\<close>

definition block_preimage :: "Block \<Rightarrow> string" where
  "block_preimage b =
     to_string (blk_index b) @ ''|'' @ blk_prevHash b @ ''|'' @ blk_stateBefore b @ ''|'' @ blk_stateAfter b @ ''|'' @
      blk_txRoot b @ ''|'' @ blk_receiptsRoot b @ ''|'' @ zk_commitment (blk_proof b) @ ''|'' @ to_string (blk_timestamp b)"

lemma blockComputeHash_preimage: "blockComputeHash b = toHex (keccak256_str (block_preimage b))"
  by (simp add: blockComputeHash_def block_preimage_def)

definition bar_free_block :: "Block \<Rightarrow> bool" where
  "bar_free_block b \<longleftrightarrow> list_all bar_free [blk_prevHash b, blk_stateBefore b, blk_stateAfter b, blk_txRoot b,
     blk_receiptsRoot b, zk_commitment (blk_proof b)]"

lemma block_preimage_eq_iff:
  assumes "bar_free_block b" "bar_free_block c"
  shows "block_preimage b = block_preimage c \<longleftrightarrow>
    blk_index b = blk_index c \<and> blk_prevHash b = blk_prevHash c \<and> blk_stateBefore b = blk_stateBefore c \<and>
    blk_stateAfter b = blk_stateAfter c \<and> blk_txRoot b = blk_txRoot c \<and> blk_receiptsRoot b = blk_receiptsRoot c \<and>
    zk_commitment (blk_proof b) = zk_commitment (blk_proof c) \<and> blk_timestamp b = blk_timestamp c"
  using assms by (simp add: block_preimage_def separator_cancel bar_free_block_def bar_free_def)

lemma small_block_encodes:
  assumes "list_all (\<lambda>s. length s < 1000) [blk_prevHash b, blk_stateBefore b, blk_stateAfter b, blk_txRoot b,
      zk_proof (blk_proof b), zk_commitment (blk_proof b), blk_hash b]"
    and "blk_transactions b = []" "blk_receipts b = []" "length (blk_logsBloom b) = 256"
  shows "\<exists>enc. blockEncode b = Inr enc \<and> length enc < 9000"
proof -
  let ?es = "[encodeUint (blk_index b), encodeString (blk_prevHash b), encodeString (blk_stateBefore b),
        encodeString (blk_stateAfter b), encodeString (blk_txRoot b), encodeString (zk_proof (blk_proof b)),
        encodeString (zk_commitment (blk_proof b)), encodeUint (blk_timestamp b), encodeString (blk_hash b),
        encodeList [], encodeBytes (blk_logsBloom b), encodeList []]"
  have str: "length (encodeString s) < 1010" if "length s < 1000" for s
    using length_encodeBytes_le [of "bytes_of_string s"] that by (simp add: encodeString_def)
  have "length (encodeList []) = 1" by (simp add: encodeList_def encodeLength_def)
  then have "length (concat ?es) < 8000"
    using assms(1) str [of "blk_prevHash b"] str [of "blk_stateBefore b"] str [of "blk_stateAfter b"] str [of "blk_txRoot b"]
      str [of "zk_proof (blk_proof b)"] str [of "zk_commitment (blk_proof b)"] str [of "blk_hash b"]
      length_encodeUint_le [of "blk_index b"] length_encodeUint_le [of "blk_timestamp b"]
      length_encodeBytes_le [of "blk_logsBloom b"] assms(4)
    by simp
  then have "length (encodeList ?es) < 9000" using length_encodeList_le [of ?es] by simp
  then show ?thesis using assms(2,3) by (simp add: blockEncode_def)
qed

lemma wire_proof_collides:
  assumes "zkVerify (blk_proof b)" "zk_stateBefore (blk_proof b) \<noteq> []"
  shows "(zkVerify (blk_proof (wire_view b)) \<longleftrightarrow>
      keccak256_str (zk_proof (blk_proof b) @ ''|||'') = keccak256_str (zk_preimage (blk_proof b))) \<and>
    zk_proof (blk_proof b) @ ''|||'' \<noteq> zk_preimage (blk_proof b)"
proof -
  have pre: "zk_preimage (blk_proof (wire_view b)) = zk_proof (blk_proof b) @ ''|||''"
    by (simp add: wire_view_def zk_preimage_def emptyZkProof_def)
  have "zkVerify (blk_proof (wire_view b)) \<longleftrightarrow>
      keccak256_str (zk_proof (blk_proof b) @ ''|||'') = keccak256_str (zk_preimage (blk_proof b))"
    using assms(1) unfolding zkVerify_iff pre by (auto simp: wire_view_def)
  moreover have "length (zk_proof (blk_proof b) @ ''|||'') < length (zk_preimage (blk_proof b))"
    using assms(2) by (simp add: zk_preimage_def)
  then have "zk_proof (blk_proof b) @ ''|||'' \<noteq> zk_preimage (blk_proof b)" by (metis less_irrefl)
  ultimately show ?thesis by blast
qed

section \<open>Properties\<close>

text \<open>
  C32. A block on the wire (src/block.cpp, \<open>rlpEncode\<close> with \<open>rlpDecode\<close> and \<open>toHex\<close> with \<open>fromHex\<close>): a block without
  transactions comes back with its header, hash and proof strings, but without receipts root, nonce,
  receipts, filter and the roots inside the proof. A block with at least one transaction cannot be decoded:
  the parsers take the \<open>bytes\<close> of each list item, which are empty because a signed transaction is itself
  an RLP list.
\<close>

theorem block_wire_roundtrip:
  assumes "blockEncode b = Inr enc" and "length enc < 2 ^ 64"
  shows "blockToHex b = Inr (''0x'' @ toHex enc) \<and>
    blockFromHex S (''0x'' @ toHex enc) = blockDecode S enc \<and>
    blockDecode S enc =
      (if blk_transactions b = [] then Inr (emptyBlock \<lparr>
         blk_index := blk_index b, blk_prevHash := blk_prevHash b, blk_stateBefore := blk_stateBefore b,
         blk_stateAfter := blk_stateAfter b, blk_txRoot := blk_txRoot b,
         blk_proof := emptyZkProof \<lparr> zk_proof := zk_proof (blk_proof b), zk_commitment := zk_commitment (blk_proof b) \<rparr>,
         blk_timestamp := blk_timestamp b, blk_hash := blk_hash b \<rparr>)
       else Inl (Runtime_error ''RLP decode overflow''))"
  using decode_block_item [OF assms, of S] assms(1) by (simp add: blockToHex_def wire_result_def wire_view_def)

lemma blockEncode_emptyBlock:
  "\<exists>enc. blockEncode emptyBlock = Inr enc \<and> length enc < 9000"
  by (rule small_block_encodes) (simp_all add: emptyBlock_def emptyZkProof_def emptyBloom_def kBytes_def)

theorem block_wire_roundtrip_witness:
  "\<exists>enc. blockEncode emptyBlock = Inr enc \<and> blockDecode plain_secp enc = Inr emptyBlock"
proof -
  obtain enc where enc: "blockEncode emptyBlock = Inr enc" "length enc < 2 ^ 64"
    using blockEncode_emptyBlock by fastforce
  then have "blockDecode plain_secp enc = Inr emptyBlock"
    using block_wire_roundtrip [OF enc, of plain_secp] by (simp add: emptyBlock_def emptyZkProof_def)
  with enc(1) show ?thesis by blast
qed

text \<open>
  A received block never passes the proof check (src/block.cpp, src/zk.cpp): the decoder leaves the roots inside the
  proof empty, so when an honest block with a verifying proof and a non-empty \<open>stateBefore\<close> comes back from the
  wire, \<open>ZkVerifier::verify\<close> accepts it only if two different strings have the same Keccak digest.
\<close>

theorem received_block_fails_proof:
  assumes "blockEncode b = Inr enc" and "length enc < 2 ^ 64" and "zkVerify (blk_proof b)"
    and "zk_stateBefore (blk_proof b) \<noteq> []" and "blockDecode S enc = Inr c"
  shows "(zkVerify (blk_proof c) \<longleftrightarrow>
      keccak256_str (zk_proof (blk_proof b) @ ''|||'') = keccak256_str (zk_preimage (blk_proof b))) \<and>
    zk_proof (blk_proof b) @ ''|||'' \<noteq> zk_preimage (blk_proof b)"
proof -
  have "c = wire_view b" using decode_block_item [OF assms(1,2), of S] assms(5) by (auto simp: wire_result_def split: if_splits)
  then show ?thesis using wire_proof_collides [OF assms(3,4)] by simp
qed

lemma demo_block_encodes:
  "\<exists>enc. blockEncode (newBlock 1 1 ''0x00'' ''0xaa'' ''0xbb'' ''0x00'' (zkGenerate ''0xaa'' ''0xbb'' ''0x00'')) = Inr enc \<and>
     length enc < 9000"
  by (rule small_block_encodes)
    (simp_all add: newBlock_def emptyBlock_def Let_def zkGenerate_def blockComputeHash_def emptyBloom_def kBytes_def)

theorem received_block_fails_proof_witness:
  "\<exists>enc c. blockEncode (newBlock 1 1 ''0x00'' ''0xaa'' ''0xbb'' ''0x00'' (zkGenerate ''0xaa'' ''0xbb'' ''0x00'')) = Inr enc \<and>
     blockDecode plain_secp enc = Inr c \<and>
     (zkVerify (blk_proof c) \<longrightarrow> (\<exists>x y. x \<noteq> y \<and> keccak256_str x = keccak256_str y))"
proof -
  let ?p = "zkGenerate ''0xaa'' ''0xbb'' ''0x00''"
  let ?b = "newBlock 1 1 ''0x00'' ''0xaa'' ''0xbb'' ''0x00'' ?p"
  obtain enc where enc: "blockEncode ?b = Inr enc" "length enc < 2 ^ 64" using demo_block_encodes by fastforce
  have p: "blk_proof ?b = ?p" "blk_transactions ?b = []" by (simp_all add: newBlock_def Let_def emptyBlock_def)
  then have "blockDecode plain_secp enc = Inr (wire_view ?b)"
    using decode_block_item(1) [OF enc] by (simp add: wire_result_def)
  moreover have "zkVerify (blk_proof ?b)" "zk_stateBefore (blk_proof ?b) \<noteq> []"
    by (simp_all only: p zkVerify_zkGenerate) (simp add: zkGenerate_def Let_def)
  ultimately show ?thesis using received_block_fails_proof [OF enc, of plain_secp] enc(1) by blast
qed

text \<open>
  The block hash (src/block.cpp, \<open>computeHash\<close>) commits to index, previous hash, both state roots, transaction
  root, receipts root, proof commitment and timestamp: with no \<open>|\<close> inside the strings, two blocks have the same
  hash exactly if all of these agree, or their preimages are a Keccak collision.
\<close>

theorem block_hash_binds:
  assumes "bar_free_block b" and "bar_free_block c"
  shows "blockComputeHash b = blockComputeHash c \<longleftrightarrow>
    (blk_index b = blk_index c \<and> blk_prevHash b = blk_prevHash c \<and> blk_stateBefore b = blk_stateBefore c \<and>
     blk_stateAfter b = blk_stateAfter c \<and> blk_txRoot b = blk_txRoot c \<and> blk_receiptsRoot b = blk_receiptsRoot c \<and>
     zk_commitment (blk_proof b) = zk_commitment (blk_proof c) \<and> blk_timestamp b = blk_timestamp c) \<or>
    (block_preimage b \<noteq> block_preimage c \<and> keccak256_str (block_preimage b) = keccak256_str (block_preimage c))"
  unfolding block_preimage_eq_iff [OF assms, symmetric] by (auto simp: blockComputeHash_preimage)

theorem block_hash_binds_witness:
  "blockComputeHash (emptyBlock \<lparr> blk_index := 12 \<rparr>) = blockComputeHash (emptyBlock \<lparr> blk_index := 3 \<rparr>) \<longleftrightarrow>
   block_preimage (emptyBlock \<lparr> blk_index := 12 \<rparr>) \<noteq> block_preimage (emptyBlock \<lparr> blk_index := 3 \<rparr>) \<and>
   keccak256_str (block_preimage (emptyBlock \<lparr> blk_index := 12 \<rparr>)) = keccak256_str (block_preimage (emptyBlock \<lparr> blk_index := 3 \<rparr>))"
  using block_hash_binds [of "emptyBlock \<lparr> blk_index := 12 \<rparr>" "emptyBlock \<lparr> blk_index := 3 \<rparr>"]
  by (simp add: bar_free_block_def bar_free_def emptyBlock_def emptyZkProof_def)

end
