(* ===== verification/Blockchain.thy ===== *)
theory Blockchain
  imports Ledger Block
begin

text \<open>
  \<open>src/src/blockchain.cpp\<close>: the chain of blocks, the account table and the mempool, with genesis, transaction
  validation, mining and the acceptance of received blocks. Every public operation holds the class mutex
  for its whole body, so the operations are atomic steps. An operation that may throw returns its outcome together with
  the object it leaves behind; the clock reading of a new block is an argument.
\<close>

section \<open>Definitions\<close>

record Blockchain =
  bc_chain :: "Block list"
  bc_state :: State
  bc_mempool :: "Transaction list"
  bc_chainId :: u64

definition newBlockchain :: "u64 \<Rightarrow> GenesisConfig \<Rightarrow> Blockchain result" where
  "newBlockchain now genesis =
     (let st = genesisState genesis in
      bindR (stateRoot st) (\<lambda>root.
      Inr \<lparr> bc_chain = [newBlock now 0 ''0x00'' root root ''0x00'' (zkGenerate root root ''0x00'')],
            bc_state = st, bc_mempool = [], bc_chainId = gen_chainId genesis \<rparr>))"

text \<open>\<open>validateTransaction\<close> returns the value of \<open>err\<close> when it returns false.\<close>

definition validateTransaction :: "secp256k1 \<Rightarrow> Blockchain \<Rightarrow> Transaction \<Rightarrow> string option" where
  "validateTransaction S bc tx =
     (if tx_chainId tx \<noteq> bc_chainId bc then Some ''Invalid chainId''
      else if \<not> verifySignature S tx then Some ''Invalid signature''
      else let acc = stateGet (bc_state bc) (tx_from tx);
               expectedNonce = (case acc of Some a \<Rightarrow> acc_nonce a | None \<Rightarrow> 0) in
      if tx_nonce tx \<noteq> expectedNonce then Some ''Invalid nonce''
      else let gasCost = tx_gasPrice tx * tx_gasLimit tx in
      if tx_gasPrice tx \<noteq> 0 \<and> gasCost div tx_gasPrice tx \<noteq> tx_gasLimit tx then Some ''Gas cost overflow''
      else let needed = gasCost + tx_value tx in
      if needed < gasCost then Some ''Total cost overflow''
      else let bal = (case acc of Some a \<Rightarrow> acc_balance a | None \<Rightarrow> 0) in
      if bal < needed then Some ''Insufficient funds''
      else None)"

definition addTransaction :: "Transaction \<Rightarrow> Blockchain \<Rightarrow> Blockchain" where
  "addTransaction tx bc = bc \<lparr> bc_mempool := bc_mempool bc @ [tx] \<rparr>"

definition computeTxRoot :: "Transaction list \<Rightarrow> string" where
  "computeTxRoot txs =
     (if txs = [] then ''0x00''
      else toHex (keccak256_str (concat (map (\<lambda>tx. txToHex tx @ ''|'') txs))))"

fun applyAll :: "Transaction list \<Rightarrow> State \<Rightarrow> unit result \<times> State" where
  "applyAll [] st = (Inr (), st)"
| "applyAll (tx # txs) st =
     (case applyTransaction (tx_from tx) tx st of
        (Inl e, st') \<Rightarrow> (Inl e, st')
      | (Inr _, st') \<Rightarrow> applyAll txs st')"

fun makeReceipts :: "u64 \<Rightarrow> Transaction list \<Rightarrow> Receipt list" where
  "makeReceipts cumulativeGas [] = []"
| "makeReceipts cumulativeGas (tx # txs) =
     (let cumulativeGas = cumulativeGas + tx_gasLimit tx
      in \<lparr> rc_status = True, rc_cumulativeGasUsed = cumulativeGas, rc_logs = [] \<rparr> # makeReceipts cumulativeGas txs)"

fun putReceipts :: "nat \<Rightarrow> Receipt list \<Rightarrow> Node \<Rightarrow> Node result" where
  "putReceipts i [] trie = Inr trie"
| "putReceipts i (r # rs) trie =
     bindR (receiptEncode r) (\<lambda>enc. putReceipts (i + 1) rs (put trie [word_of_nat i] enc))"

definition mineBlock :: "u64 \<Rightarrow> Blockchain \<Rightarrow> Block result \<times> Blockchain" where
  "mineBlock now bc =
     (case stateRoot (bc_state bc) of Inl e \<Rightarrow> (Inl e, bc) | Inr before \<Rightarrow>
      (case applyAll (bc_mempool bc) (bc_state bc) of
        (Inl e, st) \<Rightarrow> (Inl e, bc \<lparr> bc_state := st \<rparr>)
      | (Inr _, st) \<Rightarrow>
          let bc = bc \<lparr> bc_state := st \<rparr> in
          (case stateRoot st of Inl e \<Rightarrow> (Inl e, bc) | Inr after \<Rightarrow>
          let txRoot = computeTxRoot (bc_mempool bc);
              receipts = makeReceipts 0 (bc_mempool bc) in
          (case putReceipts 0 receipts emptyNode of Inl e \<Rightarrow> (Inl e, bc) | Inr receiptsTrie \<Rightarrow>
          let receiptsRoot = rootHash receiptsTrie;
              proof = zkGenerate before after txRoot in
          if bc_chain bc = [] then (Inl Undefined, bc)
          else
            let block = newBlock now (word_of_nat (length (bc_chain bc))) (blk_hash (last (bc_chain bc)))
                          before after txRoot proof;
                block = block \<lparr> blk_transactions := bc_mempool bc, blk_receipts := receipts,
                                blk_receiptsRoot := receiptsRoot \<rparr>
            in (Inr block, bc \<lparr> bc_chain := bc_chain bc @ [block], bc_mempool := [] \<rparr>)))))"

definition addBlock :: "Block \<Rightarrow> Blockchain \<Rightarrow> bool result \<times> Blockchain" where
  "addBlock block bc =
     (if blk_index block \<noteq> word_of_nat (length (bc_chain bc)) then (Inr False, bc)
      else if bc_chain bc = [] then (Inl Undefined, bc)
      else if blk_prevHash block \<noteq> blk_hash (last (bc_chain bc)) then (Inr False, bc)
      else if \<not> zkVerify (blk_proof block) then (Inr False, bc)
      else (Inr True, bc \<lparr> bc_chain := bc_chain bc @ [block] \<rparr>))"

section \<open>Transactions in a block\<close>

definition tx_addresses :: "Transaction \<Rightarrow> bool" where
  "tx_addresses tx \<longleftrightarrow> is_address (tx_from tx) \<and> is_address (tx_to tx)"

lemma tx_addresses_txFromHex: "txFromHex S hex = Inr tx \<Longrightarrow> tx_addresses tx"
  by (auto simp: txFromHex_def txOfFields_def bindR_Inr_iff parseTo_def Let_def tx_addresses_def
      dest!: recoverAddress_address split: if_splits)

lemma applyAll_Cons:
  "applyAll (tx # txs) st =
   (if acc_balance (view st (tx_from tx)) < tx_value tx
    then (Inl (Runtime_error ''Insufficient balance''), snd (applyTransaction (tx_from tx) tx st))
    else applyAll txs (snd (applyTransaction (tx_from tx) tx st)))"
  by (cases rule: applyTransaction_cases [of st "tx_from tx" tx]) auto

lemma wf_applyAll: "wf_state st \<Longrightarrow> list_all tx_addresses txs \<Longrightarrow> wf_state (snd (applyAll txs st))"
  by (induction txs arbitrary: st)
    (auto simp: applyAll_Cons wf_applyTransaction tx_addresses_def simp del: applyAll.simps(2))

lemma coins_applyAll: "coins st < 2 ^ 64 \<Longrightarrow> coins (snd (applyAll txs st)) = coins st"
  by (induction txs arbitrary: st) (auto simp: applyAll_Cons coins_applyTransaction simp del: applyAll.simps(2))

lemma applyAll_error: "fst (applyAll txs st) = Inr () \<or> fst (applyAll txs st) = Inl (Runtime_error ''Insufficient balance'')"
  by (induction txs arbitrary: st) (auto simp: applyAll_Cons simp del: applyAll.simps(2))

lemma makeReceipts_logs: "r \<in> set (makeReceipts g txs) \<Longrightarrow> rc_logs r = []"
  by (induction txs arbitrary: g) (auto simp: Let_def)

lemma length_makeReceipts [simp]: "length (makeReceipts g txs) = length txs"
  by (induction txs arbitrary: g) (auto simp: Let_def)

lemma makeReceipts_nth:
  "i < length txs \<Longrightarrow> makeReceipts g txs ! i =
   \<lparr> rc_status = True, rc_cumulativeGasUsed = g + (\<Sum>tx \<leftarrow> take (Suc i) txs. tx_gasLimit tx), rc_logs = [] \<rparr>"
proof (induction txs arbitrary: g i)
  case (Cons tx txs)
  then show ?case by (cases i) (auto simp: Let_def add.assoc)
qed simp

definition receipt_entries :: "nat \<Rightarrow> Receipt list \<Rightarrow> (bytes \<times> bytes) list" where
  "receipt_entries i rs = map (\<lambda>(j, r). ([word_of_nat j], enc_item (receipt_item r))) (zip [i..<i + length rs] rs)"

lemma putReceipts_no_logs:
  "(\<And>r. r \<in> set rs \<Longrightarrow> rc_logs r = []) \<Longrightarrow>
   putReceipts i rs t = Inr (fold (\<lambda>(k, v) s. put s k v) (receipt_entries i rs) t)"
proof (induction rs arbitrary: i t)
  case (Cons r rs)
  have "receipt_entries i (r # rs) = ([word_of_nat i], enc_item (receipt_item r)) # receipt_entries (Suc i) rs"
    by (simp add: receipt_entries_def upt_rec)
  then show ?case using Cons by (simp add: receiptEncode_no_logs)
qed (simp add: receipt_entries_def)

lemma putReceipts_makeReceipts:
  "putReceipts 0 (makeReceipts 0 txs) emptyNode = Inr (mptBuild (receipt_entries 0 (makeReceipts 0 txs)))"
  by (simp add: putReceipts_no_logs makeReceipts_logs mptBuild_def)

text \<open>The block a successful \<open>mineBlock\<close> appends.\<close>

definition mined_block :: "u64 \<Rightarrow> Blockchain \<Rightarrow> string \<Rightarrow> string \<Rightarrow> Block" where
  "mined_block now bc before after =
     (newBlock now (word_of_nat (length (bc_chain bc))) (blk_hash (last (bc_chain bc))) before after
        (computeTxRoot (bc_mempool bc)) (zkGenerate before after (computeTxRoot (bc_mempool bc))))
     \<lparr> blk_transactions := bc_mempool bc, blk_receipts := makeReceipts 0 (bc_mempool bc),
       blk_receiptsRoot := rootHash (mptBuild (receipt_entries 0 (makeReceipts 0 (bc_mempool bc)))) \<rparr>"

lemma mineBlock_cases:
  assumes "wf_state (bc_state bc)" "list_all tx_addresses (bc_mempool bc)" "bc_chain bc \<noteq> []"
  obtains (poor) "fst (applyAll (bc_mempool bc) (bc_state bc)) = Inl (Runtime_error ''Insufficient balance'')"
      "mineBlock now bc = (Inl (Runtime_error ''Insufficient balance''),
         bc \<lparr> bc_state := snd (applyAll (bc_mempool bc) (bc_state bc)) \<rparr>)"
  | (ok) before after where "fst (applyAll (bc_mempool bc) (bc_state bc)) = Inr ()"
      "stateRoot (bc_state bc) = Inr before" "stateRoot (snd (applyAll (bc_mempool bc) (bc_state bc))) = Inr after"
      "mineBlock now bc = (Inr (mined_block now bc before after),
         bc \<lparr> bc_state := snd (applyAll (bc_mempool bc) (bc_state bc)),
              bc_chain := bc_chain bc @ [mined_block now bc before after], bc_mempool := [] \<rparr>)"
proof -
  obtain res st where a: "applyAll (bc_mempool bc) (bc_state bc) = (res, st)" by force
  from assms wf_applyAll have "wf_state st" by (metis a snd_conv)
  then obtain before after where roots: "stateRoot (bc_state bc) = Inr before" "stateRoot st = Inr after"
    using assms(1) stateRoot_wf by blast
  consider "res = Inr ()" | "res = Inl (Runtime_error ''Insufficient balance'')"
    using applyAll_error [of "bc_mempool bc" "bc_state bc"] a by auto
  then show thesis
  proof cases
    case 1
    then show thesis using roots a assms(3)
      by (intro ok [of before after]) (simp_all add: mineBlock_def mined_block_def Let_def putReceipts_makeReceipts)
  next
    case 2
    then show thesis using roots a by (intro poor) (simp_all add: mineBlock_def)
  qed
qed


section \<open>Reachable chains\<close>

text \<open>
  A node's chain object lives through the constructor and any interleaving of the three mutating operations,
  with any clock readings, any transactions (of 20-byte addresses) and any received blocks, including
  operations that throw or return false.
\<close>

inductive chain_step :: "Blockchain \<Rightarrow> Blockchain \<Rightarrow> bool" where
  add_tx: "tx_addresses tx \<Longrightarrow> chain_step bc (addTransaction tx bc)"
| mine: "chain_step bc (snd (mineBlock now bc))"
| receive: "chain_step bc (snd (addBlock b bc))"

inductive reachable :: "GenesisConfig \<Rightarrow> Blockchain \<Rightarrow> bool" for genesis where
  start: "newBlockchain now genesis = Inr bc \<Longrightarrow> reachable genesis bc"
| step: "reachable genesis bc \<Longrightarrow> chain_step bc bc' \<Longrightarrow> reachable genesis bc'"

fun linked :: "nat \<Rightarrow> Block list \<Rightarrow> bool" where
  "linked i [] = True"
| "linked i [b] = (blk_index b = word_of_nat i \<and> zkVerify (blk_proof b))"
| "linked i (b # c # bs) = (blk_index b = word_of_nat i \<and> zkVerify (blk_proof b) \<and> blk_prevHash c = blk_hash b \<and> linked (Suc i) (c # bs))"

lemma linked_snoc:
  "bs \<noteq> [] \<Longrightarrow> linked i (bs @ [b]) \<longleftrightarrow>
   linked i bs \<and> blk_index b = word_of_nat (i + length bs) \<and> zkVerify (blk_proof b) \<and> blk_prevHash b = blk_hash (last bs)"
  by (induction i bs rule: linked.induct) (auto simp: add.commute)

lemma linked_nth:
  "linked i bs \<Longrightarrow> k < length bs \<Longrightarrow> blk_index (bs ! k) = word_of_nat (i + k) \<and> zkVerify (blk_proof (bs ! k)) \<and>
   (\<forall>j. k = Suc j \<longrightarrow> blk_prevHash (bs ! k) = blk_hash (bs ! j))"
proof (induction i bs arbitrary: k rule: linked.induct)
  case (3 i b c bs)
  show ?case
  proof (cases k)
    case (Suc j)
    then show ?thesis using 3(1) [of j] 3(2,3) by (cases j) auto
  qed (use 3 in auto)
qed auto

definition chain_inv :: "GenesisConfig \<Rightarrow> Blockchain \<Rightarrow> bool" where
  "chain_inv genesis bc \<longleftrightarrow> bc_chain bc \<noteq> [] \<and> linked 0 (bc_chain bc) \<and> wf_state (bc_state bc) \<and>
     list_all tx_addresses (bc_mempool bc) \<and> bc_chainId bc = gen_chainId genesis \<and>
     coins (bc_state bc) = coins (genesisState genesis)"

definition ok_genesis :: "GenesisConfig \<Rightarrow> bool" where
  "ok_genesis genesis \<longleftrightarrow> list_all (\<lambda>ga. is_address (ga_address ga)) (premine genesis) \<and>
     (\<Sum>ga \<leftarrow> premine genesis. unat (ga_balance ga)) < 2 ^ 64"

lemma mined_block_simps [simp]:
  "blk_index (mined_block now bc before after) = word_of_nat (length (bc_chain bc))"
  "blk_prevHash (mined_block now bc before after) = blk_hash (last (bc_chain bc))"
  "blk_stateBefore (mined_block now bc before after) = before"
  "blk_stateAfter (mined_block now bc before after) = after"
  "blk_transactions (mined_block now bc before after) = bc_mempool bc"
  "blk_receipts (mined_block now bc before after) = makeReceipts 0 (bc_mempool bc)"
  "blk_txRoot (mined_block now bc before after) = computeTxRoot (bc_mempool bc)"
  "blk_proof (mined_block now bc before after) = zkGenerate before after (computeTxRoot (bc_mempool bc))"
  "blk_timestamp (mined_block now bc before after) = now"
  "blk_receiptsRoot (mined_block now bc before after) =
     rootHash (mptBuild (receipt_entries 0 (makeReceipts 0 (bc_mempool bc))))"
  by (simp_all add: mined_block_def newBlock_def Let_def emptyBlock_def)

lemma chain_inv_start:
  assumes "newBlockchain now genesis = Inr bc" "ok_genesis genesis"
  shows "chain_inv genesis bc"
  using assms wf_genesisState [of genesis]
  by (auto simp: newBlockchain_def bindR_Inr_iff Let_def chain_inv_def ok_genesis_def newBlock_def)

lemma chain_inv_step:
  assumes "chain_step bc bc'" "chain_inv genesis bc" "ok_genesis genesis"
  shows "chain_inv genesis bc'"
  using assms(1)
proof cases
  case (add_tx tx)
  then show ?thesis using assms(2) by (simp add: chain_inv_def addTransaction_def)
next
  case (mine now)
  have small: "coins (bc_state bc) < 2 ^ 64"
    using assms(2,3) coins_genesisState [of genesis] by (simp add: chain_inv_def ok_genesis_def)
  from assms(2) have pre: "wf_state (bc_state bc)" "list_all tx_addresses (bc_mempool bc)" "bc_chain bc \<noteq> []"
    by (simp_all add: chain_inv_def)
  then show ?thesis
    using assms(2) wf_applyAll [OF pre(1,2)] coins_applyAll [OF small, of "bc_mempool bc"]
    by (cases rule: mineBlock_cases [of bc now]) (auto simp: mine chain_inv_def linked_snoc)
next
  case (receive b)
  then show ?thesis using assms(2) by (auto simp: addBlock_def chain_inv_def linked_snoc)
qed

lemma chain_inv_reachable: "reachable genesis bc \<Longrightarrow> ok_genesis genesis \<Longrightarrow> chain_inv genesis bc"
  by (induction rule: reachable.induct) (auto intro: chain_inv_start chain_inv_step)

lemma reachableD:
  assumes "reachable genesis bc" "ok_genesis genesis"
  shows "wf_state (bc_state bc)" "list_all tx_addresses (bc_mempool bc)" "bc_chain bc \<noteq> []"
  using chain_inv_reachable [OF assms] by (simp_all add: chain_inv_def)

lemma chain_step_appends: "chain_step bc bc' \<Longrightarrow> \<exists>bs. bc_chain bc' = bc_chain bc @ bs \<and> length bs \<le> 1"
proof (induction rule: chain_step.induct)
  case (mine bc now)
  then show ?case by (auto simp: mineBlock_def Let_def split: sum.splits prod.splits)
qed (auto simp: addTransaction_def addBlock_def)


section \<open>Properties\<close>

text \<open>
  C2. The chain invariant (src/blockchain.cpp): in every state reachable from a genesis whose premine fits in 64 bits,
  by any interleaving of \<open>addTransaction\<close>, \<open>mineBlock\<close> and \<open>addBlock\<close>, failing calls included, the chain is
  non-empty, block number \<open>k\<close> has index \<open>k\<close> and a verifying proof and points to the hash of block \<open>k - 1\<close>,
  the account table is well formed and the coins in it are those of the genesis; the next step only appends to the chain.
\<close>

theorem chain_invariant:
  assumes "reachable genesis bc" and "ok_genesis genesis"
  shows "bc_chain bc \<noteq> [] \<and> wf_state (bc_state bc) \<and> coins (bc_state bc) = coins (genesisState genesis) \<and>
    (\<forall>k < length (bc_chain bc). blk_index (bc_chain bc ! k) = word_of_nat k \<and> zkVerify (blk_proof (bc_chain bc ! k)) \<and>
      (\<forall>j. k = Suc j \<longrightarrow> blk_prevHash (bc_chain bc ! k) = blk_hash (bc_chain bc ! j))) \<and>
    (\<forall>bc'. chain_step bc bc' \<longrightarrow> (\<exists>bs. bc_chain bc' = bc_chain bc @ bs \<and> length bs \<le> 1))"
  using chain_inv_reachable [OF assms] linked_nth [of 0 "bc_chain bc"] chain_step_appends [of bc]
  by (simp add: chain_inv_def)

definition demo_genesis :: GenesisConfig where
  "demo_genesis = \<lparr> premine = [\<lparr> ga_address = zeroAddress, ga_balance = 7 \<rparr>], gen_chainId = 5 \<rparr>"

lemma ok_demo_genesis: "ok_genesis demo_genesis"
  by (simp add: ok_genesis_def demo_genesis_def)

lemma demo_chain: "\<exists>bc. newBlockchain 3 demo_genesis = Inr bc \<and> bc_mempool bc = []"
  using ok_demo_genesis wf_genesisState [of demo_genesis]
  by (auto simp: newBlockchain_def ok_genesis_def stateRoot_wf Let_def)

lemma demo_mines: "\<exists>bc b. reachable demo_genesis bc \<and> bc_mempool bc = [] \<and> fst (mineBlock 4 bc) = Inr b"
proof -
  obtain bc where bc: "newBlockchain 3 demo_genesis = Inr bc" "bc_mempool bc = []" using demo_chain by blast
  then have r: "reachable demo_genesis bc" by (blast intro: reachable.start)
  note pre = reachableD [OF this ok_demo_genesis]
  obtain b where "fst (mineBlock 4 bc) = Inr b"
    using bc(2) by (cases rule: mineBlock_cases [OF pre, of 4]) auto
  with r bc(2) show ?thesis by blast
qed

theorem chain_invariant_witness:
  "\<exists>bc. reachable demo_genesis (snd (mineBlock 4 bc)) \<and> bc_chain (snd (mineBlock 4 bc)) \<noteq> [] \<and>
     coins (bc_state (snd (mineBlock 4 bc))) = coins (genesisState demo_genesis)"
proof -
  obtain bc where "newBlockchain 3 demo_genesis = Inr bc" using demo_chain by blast
  then have "reachable demo_genesis (snd (mineBlock 4 bc))" by (blast intro: reachable.intros chain_step.mine)
  with chain_invariant [OF this ok_demo_genesis] show ?thesis by blast
qed

text \<open>
  C6. Mining (src/blockchain.cpp, \<open>mineBlock\<close>): in a reachable state, if the whole mempool can be applied, one block is
  appended and returned; its roots are those of the account table before and after all transactions, it
  carries exactly the mempool with one successful receipt each and running gas sums (modulo \<open>2 ^ 64\<close>), the
  table is the updated one, and the mempool is empty.
\<close>

theorem mineBlock_success:
  assumes "reachable genesis bc" and "ok_genesis genesis" and "fst (applyAll (bc_mempool bc) (bc_state bc)) = Inr ()"
  shows "\<exists>b. mineBlock now bc = (Inr b, bc \<lparr> bc_chain := bc_chain bc @ [b],
      bc_state := snd (applyAll (bc_mempool bc) (bc_state bc)), bc_mempool := [] \<rparr>) \<and>
    stateRoot (bc_state bc) = Inr (blk_stateBefore b) \<and>
    stateRoot (snd (applyAll (bc_mempool bc) (bc_state bc))) = Inr (blk_stateAfter b) \<and>
    blk_transactions b = bc_mempool bc \<and> blk_txRoot b = computeTxRoot (bc_mempool bc) \<and>
    length (blk_receipts b) = length (bc_mempool bc) \<and>
    (\<forall>i < length (bc_mempool bc). blk_receipts b ! i = \<lparr> rc_status = True,
      rc_cumulativeGasUsed = (\<Sum>tx \<leftarrow> take (Suc i) (bc_mempool bc). tx_gasLimit tx), rc_logs = [] \<rparr>)"
proof -
  from reachableD [OF assms(1,2)] show ?thesis
  proof (cases rule: mineBlock_cases [of bc now])
    case (ok before after)
    then show ?thesis by (auto simp: makeReceipts_nth)
  qed (use assms(3) in simp)
qed

theorem mineBlock_success_witness:
  "\<exists>bc b. reachable demo_genesis bc \<and> fst (mineBlock 4 bc) = Inr b \<and> blk_transactions b = []"
proof -
  obtain bc where bc: "newBlockchain 3 demo_genesis = Inr bc" "bc_mempool bc = []" using demo_chain by blast
  then have r: "reachable demo_genesis bc" by (blast intro: reachable.start)
  with mineBlock_success [OF this ok_demo_genesis, of 4] bc(2) show ?thesis by fastforce
qed

text \<open>
  C33. A failing \<open>mineBlock\<close> is not atomic (src/blockchain.cpp:110): when some transaction in the mempool lacks balance, the
  call throws, and the transactions before it have been applied to the account table while chain and mempool
  are unchanged: the next call applies the same transactions again to a table in which they are already paid.
  The failing transaction itself moves nothing.
\<close>

theorem mineBlock_failure:
  assumes "reachable genesis bc" and "ok_genesis genesis" and "bc_mempool bc = paid @ tx # rest"
    and "applyAll paid (bc_state bc) = (Inr (), st)" and "acc_balance (view st (tx_from tx)) < tx_value tx"
  shows "mineBlock now bc = (Inl (Runtime_error ''Insufficient balance''),
      bc \<lparr> bc_state := snd (applyTransaction (tx_from tx) tx st) \<rparr>) \<and>
    view (snd (applyTransaction (tx_from tx) tx st)) = view st"
proof -
  note pre = reachableD [OF assms(1,2)]
  have app: "applyAll (xs @ ys) s = (case applyAll xs s of (Inl e, s') \<Rightarrow> (Inl e, s') | (Inr _, s') \<Rightarrow> applyAll ys s')" for xs ys s
    by (induction xs arbitrary: s) (auto split: prod.splits sum.splits)
  have "applyAll (bc_mempool bc) (bc_state bc) =
      (Inl (Runtime_error ''Insufficient balance''), snd (applyTransaction (tx_from tx) tx st))"
    using assms(3-5) by (simp add: app applyAll_Cons del: applyAll.simps(2))
  moreover have "view (snd (applyTransaction (tx_from tx) tx st)) = view st"
    using assms(5) by (cases rule: applyTransaction_cases [of st "tx_from tx" tx]) (auto simp: view_def)
  ultimately show ?thesis by (cases rule: mineBlock_cases [OF pre, of now]) simp_all
qed


definition demo_tx :: "u64 \<Rightarrow> Transaction" where
  "demo_tx v = emptyTransaction \<lparr> tx_to := replicate 20 1, tx_value := v \<rparr>"

lemma demo_addresses [simp]: "is_address (replicate 20 b)" "zeroAddress \<noteq> replicate 20 1"
  by (simp_all add: is_address_length zeroAddress_def kSize_def)

lemma demo_tx_simps [simp]:
  "tx_from (demo_tx v) = zeroAddress" "tx_to (demo_tx v) = replicate 20 1" "tx_value (demo_tx v) = v"
  "tx_addresses (demo_tx v)"
  by (simp_all add: demo_tx_def emptyTransaction_def tx_addresses_def)

lemma demo_balance: "view (genesisState demo_genesis) zeroAddress = \<lparr> acc_balance = 7, acc_nonce = 0 \<rparr>"
  by (simp add: view_def genesisState_def demo_genesis_def accAt_def)

lemma applyTransaction_demo:
  assumes "acc_balance (view st zeroAddress) \<ge> v"
  shows "fst (applyTransaction zeroAddress (demo_tx v) st) = Inr ()"
    "acc_balance (view (snd (applyTransaction zeroAddress (demo_tx v) st)) zeroAddress) = acc_balance (view st zeroAddress) - v"
  using applyTransaction_view [of zeroAddress "demo_tx v" st] assms
  by (auto simp: spec_transfer_def not_less split: if_splits)

theorem mineBlock_failure_witness:
  "\<exists>bc. reachable demo_genesis bc \<and> bc_mempool bc = [demo_tx 1, demo_tx 100] \<and>
     fst (mineBlock 4 bc) = Inl (Runtime_error ''Insufficient balance'') \<and>
     bc_mempool (snd (mineBlock 4 bc)) = [demo_tx 1, demo_tx 100] \<and>
     acc_balance (view (bc_state (snd (mineBlock 4 bc))) zeroAddress) = 6"
proof -
  obtain bc0 where bc0: "newBlockchain 3 demo_genesis = Inr bc0" "bc_mempool bc0 = []" using demo_chain by blast
  define bc where "bc = addTransaction (demo_tx 100) (addTransaction (demo_tx 1) bc0)"
  have r: "reachable demo_genesis bc"
    unfolding bc_def using bc0(1) by (intro reachable.step [OF _ add_tx] reachable.start) simp_all
  have st: "bc_state bc = genesisState demo_genesis" "bc_mempool bc = [demo_tx 1] @ demo_tx 100 # []"
    using bc0 by (auto simp: bc_def addTransaction_def newBlockchain_def bindR_Inr_iff Let_def)
  let ?st = "snd (applyTransaction zeroAddress (demo_tx 1) (bc_state bc))"
  have b: "acc_balance (view ?st zeroAddress) = 6"
    using applyTransaction_demo(2) [of 1 "bc_state bc"] demo_balance st(1) by simp
  have "applyAll [demo_tx 1] (bc_state bc) = (Inr (), ?st)"
    using demo_balance st(1) by (simp add: applyAll_Cons del: applyAll.simps(2))
  from mineBlock_failure [OF r ok_demo_genesis st(2) this, of 4] b r st(2) show ?thesis by auto
qed

lemma validateTransaction_None_iff:
  "validateTransaction S bc tx = None \<longleftrightarrow>
     tx_chainId tx = bc_chainId bc \<and> verifySignature S tx \<and>
     tx_nonce tx = acc_nonce (view (bc_state bc) (tx_from tx)) \<and>
     unat (tx_gasPrice tx) * unat (tx_gasLimit tx) + unat (tx_value tx) \<le> unat (acc_balance (view (bc_state bc) (tx_from tx)))"
proof -
  let ?p = "tx_gasPrice tx" and ?l = "tx_gasLimit tx" and ?v = "tx_value tx" and ?a = "view (bc_state bc) (tx_from tx)"
  have mul: "\<not> (?p \<noteq> 0 \<and> ?p * ?l div ?p \<noteq> ?l) \<longleftrightarrow> unat ?p * unat ?l < 2 ^ 64"
    by (rule mult_div_no_overflow)
  have sum: "\<not> ?p * ?l + ?v < ?p * ?l \<longleftrightarrow> unat ?p * unat ?l + unat ?v < 2 ^ 64" if "unat ?p * unat ?l < 2 ^ 64"
    using add_no_overflow [of "?p * ?l" ?v] that by (simp add: unat_word_ariths)
  have need: "\<not> acc_balance ?a < ?p * ?l + ?v \<longleftrightarrow> unat ?p * unat ?l + unat ?v \<le> unat (acc_balance ?a)"
    if "unat ?p * unat ?l + unat ?v < 2 ^ 64"
    using that by (simp add: word_less_nat_alt unat_word_ariths not_less)
  have bound: "unat (acc_balance ?a) < 2 ^ 64" using unsigned_less [of "acc_balance ?a", where ?'a = nat] by simp
  show ?thesis
    unfolding validateTransaction_def Let_def account_field using mul sum need bound by auto
qed


text \<open>
  C7. \<open>validateTransaction\<close> (src/blockchain.cpp) accepts exactly the transactions with the node's chain id, a valid
  signature, the account's next nonce and a balance that covers \<open>gasPrice * gasLimit + value\<close> computed in the
  natural numbers: the two wrap-around tests on 64-bit values neither miss an overflow nor reject a payable sum.
\<close>

theorem validateTransaction_iff:
  "validateTransaction S bc tx = None \<longleftrightarrow>
     tx_chainId tx = bc_chainId bc \<and> verifySignature S tx \<and>
     tx_nonce tx = acc_nonce (view (bc_state bc) (tx_from tx)) \<and>
     unat (tx_gasPrice tx) * unat (tx_gasLimit tx) + unat (tx_value tx) \<le> unat (acc_balance (view (bc_state bc) (tx_from tx)))"
  by (rule validateTransaction_None_iff)

definition txs_preimage :: "Transaction list \<Rightarrow> string" where
  "txs_preimage txs = concat (map (\<lambda>tx. txToHex tx @ ''|'') txs)"

lemma bar_free_txToHex: "CHR ''|'' \<notin> set (txToHex tx)"
  using bar_free_toHex [of "rlpEncodeSigned tx"] by (simp add: txToHex_def bar_free_def)

lemma txs_preimage_eq_iff: "txs_preimage txs = txs_preimage us \<longleftrightarrow> map rlpEncodeSigned txs = map rlpEncodeSigned us"
proof (induction txs arbitrary: us)
  case Nil
  show ?case by (cases us) (auto simp: txs_preimage_def)
next
  case (Cons t txs)
  show ?case
  proof (cases us)
    case (Cons u us')
    have "txs_preimage (t # txs) = txs_preimage us \<longleftrightarrow> txToHex t = txToHex u \<and> txs_preimage txs = txs_preimage us'"
      by (simp add: Cons txs_preimage_def separator_cancel bar_free_txToHex)
    then show ?thesis by (simp add: Cons Cons.IH txToHex_def)
  qed (simp add: txs_preimage_def)
qed

text \<open>
  The transaction root (src/blockchain.cpp, \<open>computeTxRoot\<close>) commits to the list: two lists have the same root exactly
  if they hold the same broadcast encodings in the same order, or the root strings collide under Keccak;
  an empty list never has the root of a non-empty one.
\<close>

theorem tx_root_binds:
  "computeTxRoot txs = computeTxRoot us \<longleftrightarrow> map rlpEncodeSigned txs = map rlpEncodeSigned us \<or>
     (txs \<noteq> [] \<and> us \<noteq> [] \<and> txs_preimage txs \<noteq> txs_preimage us \<and>
      keccak256_str (txs_preimage txs) = keccak256_str (txs_preimage us))"
proof -
  have len: "length (toHex (keccak256_str s)) \<noteq> length ''0x00''" for s by (simp add: keccak256_str_def)
  have "toHex (keccak256_str s) \<noteq> ''0x00''" "''0x00'' \<noteq> toHex (keccak256_str s)" for s
    using len [of s] by metis+
  then show ?thesis
    using txs_preimage_eq_iff [of txs us] by (auto simp: computeTxRoot_def txs_preimage_def [symmetric])
qed

theorem tx_root_binds_witness:
  "computeTxRoot [demo_tx 1] \<noteq> computeTxRoot []"
  using tx_root_binds [of "[demo_tx 1]" "[]"] by simp

text \<open>
  The hash of a mined block (src/blockchain.cpp:141-151, src/block.cpp:23) is computed by the constructor, before
  \<open>mineBlock\<close> stores the receipts root: it is the digest of a string in which the receipts root is empty, and
  never that of the block's own preimage, so recomputing \<open>computeHash\<close> on the stored block gives another value
  unless Keccak collides.
\<close>

theorem mined_hash_omits_receipts:
  assumes "reachable genesis bc" and "ok_genesis genesis" and "fst (mineBlock now bc) = Inr b"
  shows "blk_hash b = toHex (keccak256_str (block_preimage (b \<lparr> blk_receiptsRoot := [] \<rparr>))) \<and>
    block_preimage (b \<lparr> blk_receiptsRoot := [] \<rparr>) \<noteq> block_preimage b"
proof -
  note pre = reachableD [OF assms(1,2)]
  from pre obtain before after where b: "b = mined_block now bc before after"
    using assms(3) by (cases rule: mineBlock_cases [of bc now]) auto
  have "blk_hash b = toHex (keccak256_str (block_preimage (b \<lparr> blk_receiptsRoot := [] \<rparr>)))"
    by (simp add: b mined_block_def newBlock_def Let_def blockComputeHash_preimage block_preimage_def emptyBlock_def)
  moreover have "length (blk_receiptsRoot b) = 66"
    by (simp add: b rootHash_def)
  then have "length (block_preimage (b \<lparr> blk_receiptsRoot := [] \<rparr>)) \<noteq> length (block_preimage b)"
    by (simp add: block_preimage_def)
  ultimately show ?thesis by metis
qed

theorem mined_hash_omits_receipts_witness:
  "\<exists>bc b. reachable demo_genesis bc \<and> fst (mineBlock 4 bc) = Inr b \<and>
     blk_hash b = toHex (keccak256_str (block_preimage (b \<lparr> blk_receiptsRoot := [] \<rparr>)))"
  using demo_mines mined_hash_omits_receipts [OF _ ok_demo_genesis] by blast

section \<open>The receipts trie\<close>

lemma map_of_rev_last:
  assumes "j < length kvs" "fst (kvs ! j) = k" "\<And>i. j < i \<Longrightarrow> i < length kvs \<Longrightarrow> fst (kvs ! i) \<noteq> k"
  shows "map_of (rev kvs) k = Some (snd (kvs ! j))"
proof -
  have kvs: "kvs = take j kvs @ kvs ! j # drop (Suc j) kvs" using assms(1) by (rule id_take_nth_drop)
  have "k \<notin> fst ` set (drop (Suc j) kvs)"
  proof
    assume "k \<in> fst ` set (drop (Suc j) kvs)"
    then obtain i where "i < length kvs - Suc j" "fst (kvs ! (Suc j + i)) = k"
      by (auto simp: in_set_conv_nth)
    moreover from this(1) have "Suc j + i < length kvs" by linarith
    ultimately show False using assms(3) [of "Suc j + i"] by simp
  qed
  then have "map_of (rev (drop (Suc j) kvs)) k = None" by (simp add: map_of_eq_None_iff)
  moreover have "rev kvs = rev (drop (Suc j) kvs) @ kvs ! j # rev (take j kvs)"
    by (subst kvs) simp
  ultimately show ?thesis using assms(2) by (cases "kvs ! j") (simp add: map_add_def)
qed

lemma last_residue:
  assumes "n mod 256 = i" "n < (N :: nat)"
  shows "n \<le> i + 256 * ((N - 1 - i) div 256)"
proof -
  have n: "n = i + 256 * (n div 256)" using assms(1) by (metis add.commute div_mult_mod_eq mult.commute)
  have "n div 256 = 256 * (n div 256) div 256" by simp
  also have "\<dots> \<le> (N - 1 - i) div 256" using n assms(2) by (intro div_le_mono) linarith
  finally show ?thesis using n by linarith
qed

text \<open>
  Receipt keys (src/blockchain.cpp:134): the trie under the receipts root is keyed by the receipt's position cut down to a
  byte. With up to 256 transactions every receipt is found at its position; beyond that, position \<open>i\<close>
  holds the last receipt whose number is \<open>i\<close> modulo 256 and the earlier ones are lost to the root.
\<close>

theorem receipts_trie_keys:
  assumes "i < 256" and "i < length txs"
  shows "\<exists>trie. putReceipts 0 (makeReceipts 0 txs) emptyNode = Inr trie \<and>
    mptGet trie [word_of_nat i] =
      Some (enc_item (receipt_item (makeReceipts 0 txs ! (i + 256 * ((length txs - 1 - i) div 256)))))"
proof -
  let ?rs = "makeReceipts 0 txs" and ?kvs = "receipt_entries 0 (makeReceipts 0 txs)"
  let ?j = "i + 256 * ((length txs - 1 - i) div 256)"
  have len: "length ?kvs = length txs" by (simp add: receipt_entries_def)
  have nth: "?kvs ! n = ([word_of_nat n], enc_item (receipt_item (?rs ! n)))" if "n < length txs" for n
    using that by (simp add: receipt_entries_def)
  have key: "(word_of_nat n :: byte) = word_of_nat i \<longleftrightarrow> n mod 256 = i" for n
    using assms(1) by (simp add: word_unat_eq_iff unat_of_nat del: unat_inject)
  have j: "?j < length txs" using assms(2) times_div_less_eq_dividend [of 256 "length txs - 1 - i"] by linarith
  have after: "fst (?kvs ! n) \<noteq> [word_of_nat i]" if "?j < n" "n < length ?kvs" for n
  proof
    assume "fst (?kvs ! n) = [word_of_nat i]"
    then have "n mod 256 = i" using that len nth key by simp
    then show False using last_residue [of n i "length txs"] that len by simp
  qed
  have "map_of (rev ?kvs) [word_of_nat i] = Some (snd (?kvs ! ?j))"
    using j len nth key [of ?j] assms(1) by (intro map_of_rev_last after) auto
  then show ?thesis using nth [of ?j] j by (simp add: putReceipts_makeReceipts)
qed


theorem receipts_trie_keys_witness:
  "\<exists>trie. putReceipts 0 (makeReceipts 0 (replicate 257 (demo_tx 1))) emptyNode = Inr trie \<and>
     mptGet trie [0] = Some (enc_item (receipt_item (makeReceipts 0 (replicate 257 (demo_tx 1)) ! 256)))"
  using receipts_trie_keys [of 0 "replicate 257 (demo_tx 1)"] by simp

text \<open>
  Received blocks (src/blockchain.cpp, \<open>addBlock\<close>) are taken at their word: from any reachable state and for any claimed
  state root and any transaction list, a block with the next index, the right previous hash and a freshly
  generated proof is appended, while the account table and the mempool stay as they were. The chain's last
  \<open>stateAfter\<close> then need not be the root of the node's table.
\<close>

theorem addBlock_trusts_roots:
  assumes "reachable genesis bc" and "ok_genesis genesis"
  shows "\<exists>b. addBlock b bc = (Inr True, bc \<lparr> bc_chain := bc_chain bc @ [b] \<rparr>) \<and>
    reachable genesis (bc \<lparr> bc_chain := bc_chain bc @ [b] \<rparr>) \<and>
    blk_stateBefore b = before \<and> blk_stateAfter b = after \<and> blk_transactions b = txs"
proof -
  let ?b = "(newBlock now (word_of_nat (length (bc_chain bc))) (blk_hash (last (bc_chain bc))) before after root
      (zkGenerate before after root)) \<lparr> blk_transactions := txs \<rparr>"
  have "bc_chain bc \<noteq> []" using chain_inv_reachable [OF assms] by (simp add: chain_inv_def)
  then have "addBlock ?b bc = (Inr True, bc \<lparr> bc_chain := bc_chain bc @ [?b] \<rparr>)"
    by (simp add: addBlock_def newBlock_def Let_def)
  moreover from this have "reachable genesis (bc \<lparr> bc_chain := bc_chain bc @ [?b] \<rparr>)"
    using reachable.step [OF assms(1) receive [of bc ?b]] by simp
  ultimately show ?thesis by (intro exI [of _ ?b]) (simp add: newBlock_def Let_def)
qed

theorem addBlock_trusts_roots_witness:
  "\<exists>bc. reachable demo_genesis bc \<and> blk_stateAfter (last (bc_chain bc)) = ''anything''"
proof -
  obtain bc where "newBlockchain 3 demo_genesis = Inr bc" using demo_chain by blast
  then have "reachable demo_genesis bc" by (rule reachable.start)
  from addBlock_trusts_roots [OF this ok_demo_genesis, of "''x''" "''anything''" "[]"] show ?thesis by force
qed

end
