(* ===== verification/P2p.thy ===== *)
theory P2p
  imports Blockchain
begin

unbundle bit_operations_syntax

text \<open>
  \<open>src/src/p2p_message.cpp\<close>, \<open>p2p_peer.cpp\<close>, \<open>p2p_node.cpp\<close>: the wire format, the receive loop of a connection and the
  node's handlers. A connection is the sequence of bytes the remote end sends before it closes: \<open>recv\<close> with
  \<open>MSG_WAITALL\<close> then returns what was asked for, or fewer bytes at the end, whatever the packets were, and 0 for a
  request of 0 bytes. A byte outside the enumerators of \<open>MessageType\<close> is a value of the enum's
  underlying type.
\<close>

section \<open>Messages\<close>

datatype MessageType = HELLO | NEW_TX | NEW_BLOCK | GET_BLOCKS | BLOCKS_RESPONSE | PING | PONG | Unnamed byte

definition typeOfByte :: "byte \<Rightarrow> MessageType" where
  "typeOfByte b = (if b = 0 then HELLO else if b = 1 then NEW_TX else if b = 2 then NEW_BLOCK else if b = 3 then GET_BLOCKS
     else if b = 4 then BLOCKS_RESPONSE else if b = 5 then PING else if b = 6 then PONG else Unnamed b)"

fun byteOfType :: "MessageType \<Rightarrow> byte" where
  "byteOfType HELLO = 0"
| "byteOfType NEW_TX = 1"
| "byteOfType NEW_BLOCK = 2"
| "byteOfType GET_BLOCKS = 3"
| "byteOfType BLOCKS_RESPONSE = 4"
| "byteOfType PING = 5"
| "byteOfType PONG = 6"
| "byteOfType (Unnamed b) = b"

record Message =
  msg_type :: MessageType
  msg_payload :: bytes

definition msgEncode :: "Message \<Rightarrow> bytes" where
  "msgEncode msg =
     (let len = (word_of_nat (length (msg_payload msg)) :: u32) in
      [byteOfType (msg_type msg),
       ucast (drop_bit 24 len AND 0xFF), ucast (drop_bit 16 len AND 0xFF),
       ucast (drop_bit 8 len AND 0xFF), ucast (len AND 0xFF)] @ msg_payload msg)"

definition len32 :: "byte \<Rightarrow> byte \<Rightarrow> byte \<Rightarrow> byte \<Rightarrow> u32" where
  "len32 a b c d = push_bit 24 (ucast a) OR push_bit 16 (ucast b) OR push_bit 8 (ucast c) OR ucast d"

text \<open>\<open>5 + len\<close> in the size check of \<open>decode\<close> is a 32-bit sum; the end of the copied range is not.\<close>

definition msgDecode :: "bytes \<Rightarrow> Message result" where
  "msgDecode data =
     (if length data < 5 then Inl (Runtime_error ''Message::decode: too short'')
      else
        let len = len32 (data ! 1) (data ! 2) (data ! 3) (data ! 4) in
        if length data < unat (5 + len) then Inl (Runtime_error ''Message::decode: incomplete payload'')
        else if length data < 5 + unat len then Inl Undefined
        else Inr \<lparr> msg_type = typeOfByte (data ! 0), msg_payload = take (unat len) (drop 5 data) \<rparr>)"

section \<open>The receive loop\<close>

datatype recv_end = Closed | Uninitialised_header

text \<open>
  One iteration reads a header of 5 bytes; a header cut short by the end of the stream is used although its
  rest was never written. The payload vector is zeroed before \<open>recv\<close> fills it, so a payload cut short is
  delivered with zeros at its end.
\<close>

function recvLoop :: "bytes \<Rightarrow> Message list \<times> recv_end" where
  "recvLoop inp =
     (if inp = [] then ([], Closed)
      else if length inp < 5 then ([], Uninitialised_header)
      else
        let len = unat (len32 (inp ! 1) (inp ! 2) (inp ! 3) (inp ! 4));
            rest = drop 5 inp;
            got = take len rest in
        if got = [] then ([], Closed)
        else
          let msg = \<lparr> msg_type = typeOfByte (inp ! 0), msg_payload = got @ replicate (len - length got) 0 \<rparr>;
              (msgs, e) = recvLoop (drop len rest)
          in (msg # msgs, e))"
  by pat_completeness auto

termination by (relation "measure length") auto

declare recvLoop.simps [simp del]

section \<open>Handlers and broadcasts\<close>

definition handleNewTx :: "secp256k1 \<Rightarrow> Message \<Rightarrow> Blockchain \<Rightarrow> Blockchain" where
  "handleNewTx S msg bc =
     (case txFromHex S (string_of_bytes (msg_payload msg)) of
        Inl e \<Rightarrow> bc
      | Inr tx \<Rightarrow> if validateTransaction S bc tx = None then addTransaction tx bc else bc)"

definition handleNewBlock :: "secp256k1 \<Rightarrow> Message \<Rightarrow> Blockchain \<Rightarrow> Blockchain" where
  "handleNewBlock S msg bc =
     (case blockFromHex S (string_of_bytes (msg_payload msg)) of
        Inl e \<Rightarrow> bc
      | Inr block \<Rightarrow> snd (addBlock block bc))"

definition onMessage :: "secp256k1 \<Rightarrow> Message \<Rightarrow> Blockchain \<Rightarrow> Blockchain" where
  "onMessage S msg bc =
     (case msg_type msg of
        NEW_TX \<Rightarrow> handleNewTx S msg bc
      | NEW_BLOCK \<Rightarrow> handleNewBlock S msg bc
      | _ \<Rightarrow> bc)"

definition newTxMessage :: "Transaction \<Rightarrow> Message" where
  "newTxMessage tx = \<lparr> msg_type = NEW_TX, msg_payload = bytes_of_string (txToHex tx) \<rparr>"

definition newBlockMessage :: "Block \<Rightarrow> Message result" where
  "newBlockMessage block =
     bindR (blockToHex block) (\<lambda>hex. Inr \<lparr> msg_type = NEW_BLOCK, msg_payload = bytes_of_string hex \<rparr>)"

text \<open>A broadcast hands each peer in turn the encoded message; peers are named by their sockets.\<close>

definition peerSend :: "Message \<Rightarrow> nat \<Rightarrow> nat \<times> bytes" where
  "peerSend msg socketFd = (socketFd, msgEncode msg)"

definition broadcastNewTx :: "Transaction \<Rightarrow> nat list \<Rightarrow> (nat \<times> bytes) list" where
  "broadcastNewTx tx peers = map (peerSend (newTxMessage tx)) peers"

definition broadcastNewBlock :: "Block \<Rightarrow> nat list \<Rightarrow> (nat \<times> bytes) list result" where
  "broadcastNewBlock block peers = bindR (newBlockMessage block) (\<lambda>msg. Inr (map (peerSend msg) peers))"

section \<open>Facts\<close>

lemma map_fst_peerSend [simp]: "map (fst \<circ> peerSend m) peers = peers"
  by (simp add: peerSend_def o_def)

definition wf_type :: "MessageType \<Rightarrow> bool" where
  "wf_type t \<longleftrightarrow> (case t of Unnamed b \<Rightarrow> unat b > 6 | _ \<Rightarrow> True)"

lemma typeOfByte_byteOfType [simp]: "wf_type t \<Longrightarrow> typeOfByte (byteOfType t) = t"
  by (cases t) (auto simp: typeOfByte_def wf_type_def)

definition wf_msg :: "Message \<Rightarrow> bool" where
  "wf_msg m \<longleftrightarrow> wf_type (msg_type m) \<and> length (msg_payload m) < 2 ^ 32"

lemma len32_bytes:
  "len32 (ucast (drop_bit 24 len AND 0xFF)) (ucast (drop_bit 16 len AND 0xFF)) (ucast (drop_bit 8 len AND 0xFF)) (ucast (len AND 0xFF))
   = (len :: u32)"
proof (rule bit_word_eqI)
  fix n
  assume "n < LENGTH(32)"
  then have n: "n < 32" by simp
  have ff: "bit (0xFF :: int) k \<longleftrightarrow> k < 8" for k
    using bit_mask_iff [of 8 k, where ?'a = int] by (simp add: mask_eq_exp_minus_1)
  consider "n < 8" | "8 \<le> n" "n < 16" | "16 \<le> n" "n < 24" | "24 \<le> n" "n < 32" using n by linarith
  then show "bit (len32 (ucast (drop_bit 24 len AND 0xFF)) (ucast (drop_bit 16 len AND 0xFF))
      (ucast (drop_bit 8 len AND 0xFF)) (ucast (len AND 0xFF))) n = bit len n"
    by cases (auto simp: len32_def bit_or_iff bit_push_bit_iff bit_ucast_iff bit_and_iff bit_drop_bit_eq ff)
qed


lemma len32_of_encode:
  "length p < 2 ^ 32 \<Longrightarrow> let len = (word_of_nat (length p) :: u32) in
     unat (len32 (ucast (drop_bit 24 len AND 0xFF)) (ucast (drop_bit 16 len AND 0xFF))
       (ucast (drop_bit 8 len AND 0xFF)) (ucast (len AND 0xFF))) = length p"
  by (simp add: len32_bytes Let_def unat_of_nat)

text \<open>The encoded header, and what the two readers make of it.\<close>

lemma msgEncode_header:
  assumes "wf_msg m"
  obtains a b c d where "msgEncode m = byteOfType (msg_type m) # a # b # c # d # msg_payload m"
    "unat (len32 a b c d) = length (msg_payload m)"
  using assms len32_of_encode [of "msg_payload m"] that by (simp add: msgEncode_def Let_def wf_msg_def)

lemma msgDecode_msgEncode:
  assumes "wf_msg m" "length (msg_payload m) < 2 ^ 32 - 5"
  shows "msgDecode (msgEncode m @ rest) = Inr m"
proof -
  obtain a b c d where h: "msgEncode m = byteOfType (msg_type m) # a # b # c # d # msg_payload m"
    "unat (len32 a b c d) = length (msg_payload m)"
    using assms(1) by (rule msgEncode_header)
  have "unat (5 + len32 a b c d) = 5 + length (msg_payload m)"
    using assms(2) h(2) by (simp add: unat_word_ariths)
  then show ?thesis using assms(1) h by (simp add: msgDecode_def Let_def wf_msg_def)
qed

interpretation msg: codec "\<lambda>m. wf_msg m \<and> length (msg_payload m) < 2 ^ 32 - 5" msgEncode msgDecode
  by unfold_locales (metis append_Nil2 msgDecode_msgEncode)

lemma recvLoop_Nil [simp]: "recvLoop [] = ([], Closed)"
  by (simp add: recvLoop.simps)

lemma recvLoop_msgEncode:
  assumes "wf_msg m"
  shows "recvLoop (msgEncode m @ rest) =
    (if msg_payload m = [] then ([], Closed) else (m # fst (recvLoop rest), snd (recvLoop rest)))"
proof -
  obtain a b c d where h: "msgEncode m = byteOfType (msg_type m) # a # b # c # d # msg_payload m"
    "unat (len32 a b c d) = length (msg_payload m)"
    using assms by (rule msgEncode_header)
  then show ?thesis
    using assms by (subst recvLoop.simps) (simp add: Let_def wf_msg_def case_prod_unfold)
qed

lemma recvLoop_messages:
  "list_all wf_msg ms \<Longrightarrow>
   recvLoop (concat (map msgEncode ms) @ rest) =
     (if list_all (\<lambda>m. msg_payload m \<noteq> []) ms then (ms @ fst (recvLoop rest), snd (recvLoop rest))
      else (takeWhile (\<lambda>m. msg_payload m \<noteq> []) ms, Closed))"
  by (induction ms) (auto simp: recvLoop_msgEncode)

lemma onMessage_step: "onMessage S m bc = bc \<or> chain_step bc (onMessage S m bc)"
  using add_tx [OF tx_addresses_txFromHex] chain_step.receive
  by (auto simp: onMessage_def handleNewTx_def handleNewBlock_def split: MessageType.split sum.split)

lemma reachable_onMessage: "reachable genesis bc \<Longrightarrow> reachable genesis (onMessage S m bc)"
  using onMessage_step [of S m bc] by (auto intro: reachable.step)

lemma reachable_messages: "reachable genesis bc \<Longrightarrow> reachable genesis (fold (onMessage S) ms bc)"
  by (induction ms arbitrary: bc) (auto intro: reachable_onMessage)


text \<open>What messages can do to a chain: append blocks that link up and queue transactions that validate.\<close>

definition network_effect :: "secp256k1 \<Rightarrow> Blockchain \<Rightarrow> Blockchain \<Rightarrow> bool" where
  "network_effect S bc bc' \<longleftrightarrow> (\<exists>bs txs. bc' = bc \<lparr> bc_chain := bc_chain bc @ bs, bc_mempool := bc_mempool bc @ txs \<rparr> \<and>
     list_all (\<lambda>b. zkVerify (blk_proof b)) bs \<and> list_all (\<lambda>tx. validateTransaction S bc tx = None) txs)"

lemma network_effect_refl: "network_effect S bc bc"
  unfolding network_effect_def by (intro exI [of _ "[]"]) simp

lemma validateTransaction_cong:
  "bc_state bc = bc_state bc' \<Longrightarrow> bc_chainId bc = bc_chainId bc' \<Longrightarrow> validateTransaction S bc tx = validateTransaction S bc' tx"
  by (simp add: validateTransaction_def)

lemma network_effect_trans:
  assumes "network_effect S bc bc'" "network_effect S bc' bc''"
  shows "network_effect S bc bc''"
proof -
  from assms(1) obtain bs txs where 1: "bc' = bc \<lparr> bc_chain := bc_chain bc @ bs, bc_mempool := bc_mempool bc @ txs \<rparr>"
    "list_all (\<lambda>b. zkVerify (blk_proof b)) bs" "list_all (\<lambda>tx. validateTransaction S bc tx = None) txs"
    by (auto simp: network_effect_def)
  from assms(2) obtain cs us where 2: "bc'' = bc' \<lparr> bc_chain := bc_chain bc' @ cs, bc_mempool := bc_mempool bc' @ us \<rparr>"
    "list_all (\<lambda>b. zkVerify (blk_proof b)) cs" "list_all (\<lambda>tx. validateTransaction S bc' tx = None) us"
    by (auto simp: network_effect_def)
  have "validateTransaction S bc' = validateTransaction S bc"
    by (intro ext validateTransaction_cong) (simp_all add: 1(1))
  then show ?thesis
    unfolding network_effect_def using 1 2 by (intro exI [of _ "bs @ cs"] exI [of _ "txs @ us"]) simp
qed

lemma network_effect_onMessage: "network_effect S bc (onMessage S m bc)"
proof -
  have tx: "network_effect S bc (addTransaction tx bc)" if "validateTransaction S bc tx = None" for tx
    unfolding network_effect_def using that by (intro exI [of _ "[]"] exI [of _ "[tx]"]) (simp add: addTransaction_def)
  have block: "network_effect S bc (snd (addBlock b bc))" for b
  proof (cases "fst (addBlock b bc) = Inr True")
    case True
    then show ?thesis unfolding network_effect_def
      by (intro exI [of _ "[b]"] exI [of _ "[]"]) (auto simp: addBlock_def split: if_splits)
  next
    case False
    then have "snd (addBlock b bc) = bc" by (auto simp: addBlock_def split: if_splits)
    then show ?thesis by (simp add: network_effect_refl)
  qed
  show ?thesis
    by (auto simp: onMessage_def handleNewTx_def handleNewBlock_def tx block network_effect_refl
        split: MessageType.split sum.split)
qed

lemma network_effect_messages: "network_effect S bc (fold (onMessage S) ms bc)"
  by (induction ms arbitrary: bc) (auto intro: network_effect_refl network_effect_trans network_effect_onMessage)

section \<open>Properties\<close>

text \<open>
  C38. Framing (src/p2p_message.cpp, src/p2p_peer.cpp): a stream made of encoded messages with payloads below 4 GB is cut by the
  receive loop into exactly those messages, in order and whatever follows them, as long as none has an
  empty payload. The first message with an empty payload (as \<open>PING\<close>, \<open>PONG\<close> and \<open>HELLO\<close> have) ends the loop: \<open>recv\<close> of 0
  bytes returns 0, which the loop takes for a closed connection, so that message and everything after it is lost.
\<close>

theorem recv_loop_framing:
  assumes "list_all wf_msg ms"
  shows "recvLoop (concat (map msgEncode ms) @ rest) =
     (if list_all (\<lambda>m. msg_payload m \<noteq> []) ms then (ms @ fst (recvLoop rest), snd (recvLoop rest))
      else (takeWhile (\<lambda>m. msg_payload m \<noteq> []) ms, Closed))"
  using assms by (rule recvLoop_messages)

theorem recv_loop_framing_witness:
  "recvLoop (concat (map msgEncode [\<lparr> msg_type = NEW_TX, msg_payload = [1, 2] \<rparr>, \<lparr> msg_type = PING, msg_payload = [] \<rparr>,
      \<lparr> msg_type = NEW_TX, msg_payload = [3] \<rparr>]) @ []) = ([\<lparr> msg_type = NEW_TX, msg_payload = [1, 2] \<rparr>], Closed)"
  using recv_loop_framing [of "[\<lparr> msg_type = NEW_TX, msg_payload = [1, 2] \<rparr>, \<lparr> msg_type = PING, msg_payload = [] \<rparr>,
      \<lparr> msg_type = NEW_TX, msg_payload = [3] \<rparr>]" "[]"] by (simp add: wf_msg_def wf_type_def)

text \<open>
  \<open>Message::decode\<close> (src/p2p_message.cpp:35) inverts \<open>encode\<close> on payloads below \<open>2 ^ 32 - 5\<close> bytes. But its size check adds
  \<open>5 + len\<close> in 32 bits: a 5-byte header that declares one of the five largest lengths passes the check on any
  shorter buffer, and the payload is then copied from beyond its end.
\<close>

theorem message_length_wraps:
  assumes "wf_msg m" and "length (msg_payload m) < 2 ^ 32 - 5"
    and "unat (len32 a b c d) \<ge> 2 ^ 32 - 5" and "length body < 2 ^ 32 - 5"
  shows "msgDecode (msgEncode m @ rest) = Inr m \<and> msgDecode (t # a # b # c # d # body) = Inl Undefined"
proof -
  let ?l = "len32 a b c d"
  have "unat ?l < 2 ^ 32" using unsigned_less [of ?l, where ?'a = nat] by simp
  then have "unat (5 + ?l) = 5 + unat ?l - 2 ^ 32" using assms(3) by (simp add: unat_word_ariths mod_if)
  then have "msgDecode (t # a # b # c # d # body) = Inl Undefined"
    using assms(3,4) \<open>unat ?l < 2 ^ 32\<close> by (simp add: msgDecode_def Let_def)
  then show ?thesis using msgDecode_msgEncode [OF assms(1,2)] by blast
qed

theorem message_length_wraps_witness:
  "msgDecode [1, 0xFF, 0xFF, 0xFF, 0xFF] = Inl Undefined"
proof -
  have "len32 0xFF 0xFF 0xFF 0xFF = 0xFFFFFFFF" by (simp add: len32_def)
  with message_length_wraps [of "\<lparr> msg_type = PING, msg_payload = [] \<rparr>" "0xFF" "0xFF" "0xFF" "0xFF" "[]" "[]" 1]
  show ?thesis by (simp add: wf_msg_def wf_type_def)
qed

end
