(* ===== verification/Mining.thy ===== *)
theory Mining
  imports P2p
begin

text \<open>
  \<open>src/include/gambit/mining_engine.hpp\<close>, \<open>src/src/zk_mining_engine.cpp\<close>, \<open>src/src/miner.cpp\<close>: the mining engine interface, the
  engine the node uses, and the miner. The interface is the locale \<open>mining_engine\<close>, in which the miner's
  behaviour is proved for every engine that keeps its contract; \<open>ZkMiningEngine\<close> is shown to keep it. The
  miner's thread is a sequence of iterations; the sleep between them and the console output are left out.
\<close>

section \<open>The engine\<close>

definition buildBlockTemplate :: "u64 \<Rightarrow> Blockchain \<Rightarrow> Block result" where
  "buildBlockTemplate now chain =
     bindR (stateRoot (bc_state chain)) (\<lambda>before.
     case applyAll (bc_mempool chain) (bc_state chain) of
       (Inl e, temp) \<Rightarrow> Inl e
     | (Inr _, temp) \<Rightarrow>
         bindR (stateRoot temp) (\<lambda>after.
         let txRoot = computeTxRoot (bc_mempool chain);
             proof = zkGenerate before after txRoot in
         if bc_chain chain = [] then Inl Undefined
         else
           let b = newBlock now (word_of_nat (length (bc_chain chain))) (blk_hash (last (bc_chain chain)))
                     before after txRoot proof
           in Inr (b \<lparr> blk_transactions := bc_mempool chain \<rparr>)))"

definition validateMinedBlock :: "Block \<Rightarrow> Blockchain \<Rightarrow> bool" where
  "validateMinedBlock block chain = zkVerify (blk_proof block)"

section \<open>The miner\<close>

text \<open>The engine the miner was constructed with is the pair of arguments \<open>build\<close> and \<open>valid\<close>.\<close>

definition getWork :: "(u64 \<Rightarrow> Blockchain \<Rightarrow> Block result) \<Rightarrow> u64 \<Rightarrow> Blockchain \<Rightarrow> Block result" where
  "getWork build now chain = build now chain"

definition submitWork :: "(Block \<Rightarrow> Blockchain \<Rightarrow> bool) \<Rightarrow> nat list \<Rightarrow> Block \<Rightarrow> Blockchain \<Rightarrow>
    (bool \<times> (nat \<times> bytes) list) result \<times> Blockchain" where
  "submitWork valid peers b chain =
     (if \<not> valid b chain then (Inr (False, []), chain)
      else case addBlock b chain of
        (Inl e, chain) \<Rightarrow> (Inl e, chain)
      | (Inr _, chain) \<Rightarrow>
          (case broadcastNewBlock b peers of Inl e \<Rightarrow> (Inl e, chain) | Inr sent \<Rightarrow> (Inr (True, sent), chain)))"

text \<open>One iteration of \<open>Miner::loop\<close>: any exception is swallowed.\<close>

definition minerIteration :: "(u64 \<Rightarrow> Blockchain \<Rightarrow> Block result) \<Rightarrow> nat list \<Rightarrow> u64 \<Rightarrow> Blockchain \<Rightarrow>
    (nat \<times> bytes) list \<times> Blockchain" where
  "minerIteration build peers now chain =
     (case build now chain of
        Inl e \<Rightarrow> ([], chain)
      | Inr block \<Rightarrow>
          (case addBlock block chain of
             (Inl e, chain) \<Rightarrow> ([], chain)
           | (Inr _, chain) \<Rightarrow>
               (case broadcastNewBlock block peers of Inl e \<Rightarrow> ([], chain) | Inr sent \<Rightarrow> (sent, chain))))"

fun minerLoop :: "(u64 \<Rightarrow> Blockchain \<Rightarrow> Block result) \<Rightarrow> nat list \<Rightarrow> u64 list \<Rightarrow> Blockchain \<Rightarrow> Blockchain" where
  "minerLoop build peers [] chain = chain"
| "minerLoop build peers (now # clocks) chain =
     minerLoop build peers clocks (snd (minerIteration build peers now chain))"

text \<open>
  The object's own state: the pause between iterations in milliseconds, and the thread as the flag that it can be joined. A new
  thread assigned over one that can be joined ends the program. The calls set the flag that the loop tests; the loop runs for as many
  iterations as it finds the flag set.
\<close>

record Miner =
  mn_interval :: int
  mn_joinable :: bool
  mn_running :: bool

definition newMiner :: Miner where
  "newMiner = \<lparr> mn_interval = 1000, mn_joinable = False, mn_running = False \<rparr>"

definition minerStart :: "Miner \<Rightarrow> Miner surviving" where
  "minerStart m =
     (let m = m \<lparr> mn_running := True \<rparr>
      in if mn_joinable m then Terminated else Alive (m \<lparr> mn_joinable := True \<rparr>))"

definition minerStop :: "Miner \<Rightarrow> Miner" where
  "minerStop m =
     (let m = m \<lparr> mn_running := False \<rparr>
      in if mn_joinable m then m \<lparr> mn_joinable := False \<rparr> else m)"

definition setInterval :: "int \<Rightarrow> Miner \<Rightarrow> Miner" where
  "setInterval ms m = m \<lparr> mn_interval := ms \<rparr>"

text \<open>One session: \<open>start\<close>, the iterations at the given clock readings, \<open>stop\<close>.\<close>

definition minerSession :: "(u64 \<Rightarrow> Blockchain \<Rightarrow> Block result) \<Rightarrow> nat list \<Rightarrow> u64 list \<Rightarrow> Miner \<times> Blockchain \<Rightarrow>
    (Miner \<times> Blockchain) surviving" where
  "minerSession build peers clocks = (\<lambda>(m, chain).
     case minerStart m of
       Terminated \<Rightarrow> Terminated
     | Alive m \<Rightarrow> Alive (minerStop m, minerLoop build peers clocks chain))"

section \<open>The engine contract\<close>

text \<open>
  What the miner needs of an engine: a template extends the chain it was built for (index and previous hash) with
  a proof that the chain accepts and that the engine itself accepts, and whether there is a template depends
  on the mempool and the account table only.
\<close>

locale mining_engine =
  fixes build :: "u64 \<Rightarrow> Blockchain \<Rightarrow> Block result"
    and valid :: "Block \<Rightarrow> Blockchain \<Rightarrow> bool"
  assumes build_extends: "bc_chain bc \<noteq> [] \<Longrightarrow> build now bc = Inr b \<Longrightarrow>
      blk_index b = word_of_nat (length (bc_chain bc)) \<and> blk_prevHash b = blk_hash (last (bc_chain bc)) \<and>
      zkVerify (blk_proof b) \<and> blk_transactions b = bc_mempool bc"
    and build_valid: "bc_chain bc \<noteq> [] \<Longrightarrow> build now bc = Inr b \<Longrightarrow> valid b bc"
    and build_defined: "bc_chain bc \<noteq> [] \<Longrightarrow> bc_chain bc' \<noteq> [] \<Longrightarrow> bc_state bc = bc_state bc' \<Longrightarrow>
      bc_mempool bc = bc_mempool bc' \<Longrightarrow> build now bc = Inr b \<Longrightarrow> \<exists>b'. build now' bc' = Inr b'"
begin

lemma template_accepted:
  assumes "bc_chain bc \<noteq> []" "build now bc = Inr b"
  shows "addBlock b bc = (Inr True, bc \<lparr> bc_chain := bc_chain bc @ [b] \<rparr>)"
  using build_extends [OF assms] assms(1) by (simp add: addBlock_def)

lemma iteration_chain:
  assumes "bc_chain bc \<noteq> []"
  shows "snd (minerIteration build peers now bc) =
    (case build now bc of Inl e \<Rightarrow> bc | Inr b \<Rightarrow> bc \<lparr> bc_chain := bc_chain bc @ [b] \<rparr>)"
  using template_accepted [OF assms] by (auto simp: minerIteration_def split: sum.splits)

lemma submit_own_work:
  assumes "bc_chain bc \<noteq> []" "build now bc = Inr b"
  shows "snd (submitWork valid peers b bc) = bc \<lparr> bc_chain := bc_chain bc @ [b] \<rparr>"
  using template_accepted [OF assms] build_valid [OF assms] by (auto simp: submitWork_def split: sum.splits)

text \<open>The loop adds one block per iteration and nothing else changes: mempool and account table stay.\<close>

lemma loop_appends:
  assumes "bc_chain bc \<noteq> []" "build now bc = Inr b"
  shows "\<exists>bs. minerLoop build peers clocks bc = bc \<lparr> bc_chain := bc_chain bc @ bs \<rparr> \<and> length bs = length clocks \<and>
    (\<forall>c \<in> set bs. blk_transactions c = bc_mempool bc \<and> zkVerify (blk_proof c))"
  using assms
proof (induction clocks arbitrary: bc now b)
  case Nil
  show ?case by (intro exI [of _ "[]"]) simp
next
  case (Cons t clocks)
  obtain c where c: "build t bc = Inr c" using build_defined [OF Cons.prems(1,1) refl refl Cons.prems(2)] by blast
  let ?bc = "bc \<lparr> bc_chain := bc_chain bc @ [c] \<rparr>"
  obtain c' where "build t ?bc = Inr c'" using build_defined [OF Cons.prems(1) _ _ _ c, of ?bc t] by auto
  from Cons.IH [OF _ this] obtain bs where bs: "minerLoop build peers clocks ?bc = ?bc \<lparr> bc_chain := bc_chain ?bc @ bs \<rparr>"
    "length bs = length clocks" "\<forall>d \<in> set bs. blk_transactions d = bc_mempool bc \<and> zkVerify (blk_proof d)"
    by auto
  then show ?case
    using iteration_chain [OF Cons.prems(1), of peers t] c build_extends [OF Cons.prems(1) c]
    by (intro exI [of _ "c # bs"]) simp
qed

end

lemma buildBlockTemplate_InrE:
  assumes "buildBlockTemplate now bc = Inr b"
  obtains before after where "stateRoot (bc_state bc) = Inr before" "fst (applyAll (bc_mempool bc) (bc_state bc)) = Inr ()"
    "stateRoot (snd (applyAll (bc_mempool bc) (bc_state bc))) = Inr after" "bc_chain bc \<noteq> []"
    "b = (newBlock now (word_of_nat (length (bc_chain bc))) (blk_hash (last (bc_chain bc))) before after
       (computeTxRoot (bc_mempool bc)) (zkGenerate before after (computeTxRoot (bc_mempool bc))))
       \<lparr> blk_transactions := bc_mempool bc \<rparr>"
proof -
  obtain res temp where a: "applyAll (bc_mempool bc) (bc_state bc) = (res, temp)" by force
  show thesis
    by (cases res) (use assms a in \<open>auto simp: buildBlockTemplate_def bindR_Inr_iff Let_def intro!: that split: if_splits\<close>)
qed

lemma buildBlockTemplate_defined:
  assumes "bc_chain bc \<noteq> []"
  shows "(\<exists>b. buildBlockTemplate now bc = Inr b) \<longleftrightarrow>
    fst (applyAll (bc_mempool bc) (bc_state bc)) = Inr () \<and> (\<exists>r. stateRoot (bc_state bc) = Inr r) \<and>
    (\<exists>r. stateRoot (snd (applyAll (bc_mempool bc) (bc_state bc))) = Inr r)"
proof -
  obtain res temp where a: "applyAll (bc_mempool bc) (bc_state bc) = (res, temp)" by force
  show ?thesis by (cases res) (use assms a in \<open>auto simp: buildBlockTemplate_def bindR_Inr_iff Let_def\<close>)
qed

interpretation zk_engine: mining_engine buildBlockTemplate validateMinedBlock
proof unfold_locales
  fix bc bc' :: Blockchain and now now' b
  assume "bc_chain bc \<noteq> []" "bc_chain bc' \<noteq> []" "bc_state bc = bc_state bc'" "bc_mempool bc = bc_mempool bc'"
    "buildBlockTemplate now bc = Inr b"
  then show "\<exists>b'. buildBlockTemplate now' bc' = Inr b'"
    using buildBlockTemplate_defined [of bc now] buildBlockTemplate_defined [of bc' now'] by metis
qed (auto elim!: buildBlockTemplate_InrE simp: newBlock_def Let_def validateMinedBlock_def)

lemma template_of_payable:
  assumes "reachable genesis bc" "ok_genesis genesis" "fst (applyAll (bc_mempool bc) (bc_state bc)) = Inr ()"
  shows "\<exists>b. buildBlockTemplate now bc = Inr b"
proof -
  note pre = reachableD [OF assms(1,2)]
  from pre show ?thesis
    using assms(3) stateRoot_wf [OF pre(1)] stateRoot_wf [OF wf_applyAll [OF pre(1,2)]] by (simp add: buildBlockTemplate_defined)
qed

text \<open>Sessions compose: a stopped miner can be started again; one that was not stopped cannot.\<close>

lemma miner_sessions:
  assumes "\<not> mn_joinable m"
  shows "\<exists>m'. minerSession build peers clocks (m, bc) = Alive (m', minerLoop build peers clocks bc) \<and>
      \<not> mn_joinable m' \<and> mn_interval m' = mn_interval m"
    and "\<exists>m'. minerStart m = Alive m' \<and> minerStart m' = Terminated"
  using assms by (auto simp: minerSession_def minerStart_def minerStop_def Let_def)

section \<open>Properties\<close>

text \<open>
  C39. The template of \<open>ZkMiningEngine\<close> (src/zk_mining_engine.cpp) agrees with \<open>mineBlock\<close>: in a reachable chain both succeed or
  fail together at the same clock reading, and the template is the mined block without receipts and receipts root;
  building it does not touch the account table.
\<close>

theorem template_matches_mineBlock:
  assumes "reachable genesis bc" and "ok_genesis genesis"
  shows "(case fst (mineBlock now bc) of
      Inl e \<Rightarrow> buildBlockTemplate now bc = Inl e
    | Inr b \<Rightarrow> buildBlockTemplate now bc = Inr (b \<lparr> blk_receipts := [], blk_receiptsRoot := [] \<rparr>))"
proof -
  note pre = reachableD [OF assms]
  from pre show ?thesis
  proof (cases rule: mineBlock_cases [of bc now])
    case poor
    then show ?thesis using stateRoot_wf [OF pre(1)]
      by (auto simp: buildBlockTemplate_def split: prod.splits)
  next
    case (ok before after)
    then show ?thesis using pre(3)
      by (auto simp: buildBlockTemplate_def mined_block_def newBlock_def emptyBlock_def Let_def split: prod.splits)
  qed
qed

theorem template_matches_mineBlock_witness:
  "\<exists>bc b. reachable demo_genesis bc \<and> fst (mineBlock 4 bc) = Inr b \<and>
     buildBlockTemplate 4 bc = Inr (b \<lparr> blk_receipts := [], blk_receiptsRoot := [] \<rparr>)"
proof -
  obtain bc b where "reachable demo_genesis bc" "fst (mineBlock 4 bc) = Inr b" using demo_mines by blast
  with template_matches_mineBlock [OF _ ok_demo_genesis, of bc 4] show ?thesis by fastforce
qed

text \<open>
  The miner's loop (src/miner.cpp) never empties the mempool and never updates the account table: started in a reachable
  chain whose mempool can be applied, \<open>n\<close> iterations append \<open>n\<close> blocks that all contain the same whole mempool,
  each with a verifying proof, and chain contents aside the object is unchanged, so no balance ever moves.
\<close>

theorem miner_loop_repeats:
  assumes "reachable genesis bc" and "ok_genesis genesis" and "fst (applyAll (bc_mempool bc) (bc_state bc)) = Inr ()"
  shows "\<exists>bs. minerLoop buildBlockTemplate peers clocks bc = bc \<lparr> bc_chain := bc_chain bc @ bs \<rparr> \<and>
    length bs = length clocks \<and> (\<forall>b \<in> set bs. blk_transactions b = bc_mempool bc \<and> zkVerify (blk_proof b))"
proof -
  note ne = reachableD(3) [OF assms(1,2)]
  from template_of_payable [OF assms] obtain b where "buildBlockTemplate 0 bc = Inr b" by blast
  with ne show ?thesis by (rule zk_engine.loop_appends)
qed


theorem miner_loop_repeats_witness:
  "\<exists>bc bs. reachable demo_genesis bc \<and> minerLoop buildBlockTemplate [7] [4, 5, 6] bc = bc \<lparr> bc_chain := bc_chain bc @ bs \<rparr> \<and>
     length bs = 3"
proof -
  obtain bc where bc: "reachable demo_genesis bc" "bc_mempool bc = []" using demo_mines by blast
  with miner_loop_repeats [OF bc(1) ok_demo_genesis, of "[7]" "[4, 5, 6]"] show ?thesis by fastforce
qed

text \<open>
  \<open>Miner::submitWork\<close> (src/miner.cpp) ignores what \<open>addBlock\<close> says: for every block with a verifying proof it
  reports success and broadcasts, also when the block does not extend the chain and was not added.
\<close>

theorem submitWork_reports_success:
  assumes "reachable genesis bc" and "ok_genesis genesis" and "zkVerify (blk_proof b)" and "blockToHex b = Inr hex"
  shows "\<exists>sent. fst (submitWork validateMinedBlock peers b bc) = Inr (True, sent) \<and> map fst sent = peers \<and>
    (snd (submitWork validateMinedBlock peers b bc) = bc \<lparr> bc_chain := bc_chain bc @ [b] \<rparr> \<longleftrightarrow>
      blk_index b = word_of_nat (length (bc_chain bc)) \<and> blk_prevHash b = blk_hash (last (bc_chain bc)))"
proof -
  note ne = reachableD(3) [OF assms(1,2)]
  have "bc \<noteq> bc \<lparr> bc_chain := bc_chain bc @ [b] \<rparr>" by (metis Blockchain.select_convs(1) Blockchain.surjective
        Blockchain.update_convs(1) append_self_conv not_Cons_self2)
  then show ?thesis
    using assms(3,4) ne
    by (auto simp: submitWork_def validateMinedBlock_def addBlock_def broadcastNewBlock_def newBlockMessage_def)
qed

theorem submitWork_reports_success_witness:
  "\<exists>bc sent. reachable demo_genesis bc \<and>
     fst (submitWork validateMinedBlock [7] (emptyBlock \<lparr> blk_proof := zkGenerate [] [] [] \<rparr>) bc) = Inr (True, sent)"
proof -
  let ?b = "emptyBlock \<lparr> blk_proof := zkGenerate [] [] [] \<rparr>"
  obtain bc where bc: "reachable demo_genesis bc" using demo_mines by blast
  have "\<exists>enc. blockEncode ?b = Inr enc \<and> length enc < 9000"
    by (rule small_block_encodes) (simp_all add: emptyBlock_def zkGenerate_def Let_def emptyBloom_def kBytes_def keccak256_str_def)
  then obtain hex where "blockToHex ?b = Inr hex" by (auto simp: blockToHex_def)
  with submitWork_reports_success [OF bc ok_demo_genesis, of ?b hex "[7]"] bc show ?thesis by auto
qed

end
