(* ===== verification/Cpp_Numbers.thy ===== *)
theory Cpp_Numbers
  imports Hex
begin

text \<open>
  The number parsers and printers of the C++ standard library that the sources use: \<open>std::stoi\<close>, \<open>std::stoul\<close> and \<open>std::stoull\<close>
  (with \<open>strtol\<close>/\<open>strtoull\<close> semantics: leading white space, a sign, for base 16 an optional \<open>0x\<close>, the longest run of digits,
  trailing characters ignored) and the conversion \<open>%llx\<close>. \<open>long\<close> has 64 bits. An unsigned parser accepts a minus sign and
  negates modulo \<open>2 ^ 64\<close>.
\<close>

section \<open>Definitions\<close>

definition is_space :: "char \<Rightarrow> bool" where
  "is_space c \<longleftrightarrow> of_char c \<in> {32, 9, 10, 11, 12, 13 :: nat}"

definition digit_val :: "char \<Rightarrow> nat option" where
  "digit_val c = (let n = (of_char c :: nat) in
     if 48 \<le> n \<and> n \<le> 57 then Some (n - 48)
     else if 97 \<le> n \<and> n \<le> 122 then Some (n - 97 + 10)
     else if 65 \<le> n \<and> n \<le> 90 then Some (n - 65 + 10)
     else None)"

definition is_digit_of :: "nat \<Rightarrow> char \<Rightarrow> bool" where
  "is_digit_of base c = (case digit_val c of None \<Rightarrow> False | Some d \<Rightarrow> d < base)"

definition digits_value :: "nat \<Rightarrow> string \<Rightarrow> nat" where
  "digits_value base ds = foldl (\<lambda>v c. v * base + (case digit_val c of None \<Rightarrow> 0 | Some d \<Rightarrow> d)) 0 ds"

definition scan_sign :: "string \<Rightarrow> bool \<times> string" where
  "scan_sign s = (case s of [] \<Rightarrow> (False, s)
     | c # cs \<Rightarrow> if c = CHR ''-'' then (True, cs) else if c = CHR ''+'' then (False, cs) else (False, s))"

definition scan_prefix :: "nat \<Rightarrow> string \<Rightarrow> string" where
  "scan_prefix base s =
     (if base = 16 \<and> (take 2 s = ''0x'' \<or> take 2 s = ''0X'') \<and> takeWhile (is_digit_of 16) (drop 2 s) \<noteq> []
      then drop 2 s else s)"

definition scan_number :: "nat \<Rightarrow> string \<Rightarrow> (bool \<times> nat) result" where
  "scan_number base s =
     (let (neg, rest) = scan_sign (dropWhile is_space s);
          ds = takeWhile (is_digit_of base) (scan_prefix base rest)
      in if ds = [] then Inl Invalid_argument else Inr (neg, digits_value base ds))"

definition stoi_base :: "nat \<Rightarrow> string \<Rightarrow> int result" where
  "stoi_base base s = bindR (scan_number base s) (\<lambda>(neg, n).
     let v = (if neg then - int n else int n)
     in if v < - (2 ^ 31) \<or> v \<ge> 2 ^ 31 then Inl Out_of_range else Inr v)"

abbreviation stoi :: "string \<Rightarrow> int result" where
  "stoi \<equiv> stoi_base 10"

definition stoull :: "nat \<Rightarrow> string \<Rightarrow> u64 result" where
  "stoull base s = bindR (scan_number base s) (\<lambda>(neg, n).
     if n \<ge> 2 ^ 64 then Inl Out_of_range
     else Inr (if neg then - word_of_nat n else word_of_nat n))"

definition hex_char :: "nat \<Rightarrow> char" where
  "hex_char n = (if n < 10 then char_of (48 + n) else char_of (87 + n))"

fun hex_nat :: "nat \<Rightarrow> string" where
  "hex_nat n = (if n < 16 then [hex_char n] else hex_nat (n div 16) @ [hex_char (n mod 16)])"

declare hex_nat.simps [simp del]

text \<open>\<open>snprintf(buf, size, "0x%llx", v)\<close> with a buffer that holds all sixteen digits.\<close>

definition format_llx :: "u64 \<Rightarrow> string" where
  "format_llx v = ''0x'' @ hex_nat (unat v)"

section \<open>Printing and parsing\<close>

lemma of_hex_char: "n < 16 \<Longrightarrow> of_char (hex_char n) = (if n < 10 then 48 + n else 87 + n)"
  by (simp add: hex_char_def)

lemma digit_val_hex_char [simp]: "n < 16 \<Longrightarrow> digit_val (hex_char n) = Some n"
  by (auto simp: digit_val_def of_hex_char Let_def)

lemma digit_val_dec_digit [simp]: "n < 10 \<Longrightarrow> digit_val (dec_digit n) = Some n"
  by (auto simp: digit_val_def of_dec_digit Let_def)

lemma hexdigit_eq_hex_char: "n < 16 \<Longrightarrow> hexdigit n = hex_char n"
proof -
  have "list_all (\<lambda>n. hexdigit n = hex_char n) [0..<16]" by code_simp
  then show "n < 16 \<Longrightarrow> hexdigit n = hex_char n" by (simp add: list_all_iff)
qed

lemma digits_value_snoc: "digits_value base (ds @ [c]) =
  digits_value base ds * base + (case digit_val c of None \<Rightarrow> 0 | Some d \<Rightarrow> d)"
  by (simp add: digits_value_def)

lemma digits_value_hex_nat [simp]: "digits_value 16 (hex_nat n) = n"
proof (induction n rule: hex_nat.induct)
  case (1 n)
  show ?case
  proof (cases "n < 16")
    case False
    then show ?thesis using 1 by (subst hex_nat.simps) (simp add: digits_value_snoc)
  qed (simp add: hex_nat.simps digits_value_def)
qed

lemma digits_value_dec_nat [simp]: "digits_value 10 (dec_nat n) = n"
proof (induction n rule: dec_nat.induct)
  case (1 n)
  show ?case
  proof (cases "n < 10")
    case False
    then show ?thesis using 1 by (subst dec_nat.simps) (simp add: digits_value_snoc)
  qed (simp add: dec_nat.simps digits_value_def)
qed

lemma hex_nat_digits: "list_all (is_digit_of 16) (hex_nat n)"
proof (induction n rule: hex_nat.induct)
  case (1 n)
  then show ?case by (cases "n < 16") (auto simp: hex_nat.simps [of n] is_digit_of_def)
qed

lemma dec_nat_is_digits: "list_all (is_digit_of 10) (dec_nat n)"
proof (induction n rule: dec_nat.induct)
  case (1 n)
  then show ?case by (cases "n < 10") (auto simp: dec_nat.simps [of n] is_digit_of_def)
qed

lemma hex_nat_not_Nil [simp]: "hex_nat n \<noteq> []"
  by (simp add: hex_nat.simps)

lemma dec_nat_not_Nil [simp]: "dec_nat n \<noteq> []"
  by (simp add: dec_nat.simps)

lemma takeWhile_all: "list_all P xs \<Longrightarrow> takeWhile P xs = xs"
  by (induction xs) auto

lemma digit_no_space_sign:
  "is_digit_of b c \<Longrightarrow> \<not> is_space c \<and> c \<noteq> CHR ''-'' \<and> c \<noteq> CHR ''+''"
  by (auto simp: is_digit_of_def digit_val_def is_space_def Let_def split: if_splits option.splits)

lemma scan_digits:
  assumes "list_all (is_digit_of base) ds" "ds \<noteq> []" "\<not> (base = 16 \<and> (take 2 ds = ''0x'' \<or> take 2 ds = ''0X''))"
  shows "scan_number base ds = Inr (False, digits_value base ds)"
proof -
  obtain c cs where ds: "ds = c # cs" using assms(2) by (cases ds) auto
  have "scan_sign (dropWhile is_space ds) = (False, ds)"
    using assms(1) digit_no_space_sign [of base c] by (simp add: ds scan_sign_def)
  moreover have "scan_prefix base ds = ds" using assms(3) by (auto simp: scan_prefix_def)
  ultimately show ?thesis using assms(1,2) by (simp add: scan_number_def takeWhile_all)
qed

lemma x_not_hex_digit: "\<not> is_digit_of 16 CHR ''x''" "\<not> is_digit_of 16 CHR ''X''"
  by (simp_all add: is_digit_of_def digit_val_def)

lemma hex_nat_no_prefix: "take 2 (hex_nat n) \<noteq> ''0x''" "take 2 (hex_nat n) \<noteq> ''0X''"
proof -
  have "c = CHR ''x'' \<or> c = CHR ''X'' \<Longrightarrow> c \<notin> set (take 2 (hex_nat n))" for c
    using hex_nat_digits [of n] x_not_hex_digit by (auto simp: list_all_iff dest: in_set_takeD)
  then show "take 2 (hex_nat n) \<noteq> ''0x''" "take 2 (hex_nat n) \<noteq> ''0X''" by force+
qed

lemma scan_0x:
  "list_all (is_digit_of 16) ds \<Longrightarrow> ds \<noteq> [] \<Longrightarrow> scan_number 16 (''0x'' @ ds) = Inr (False, digits_value 16 ds)"
  by (simp add: scan_number_def scan_sign_def is_space_def scan_prefix_def takeWhile_all)

lemma scan_0x_hex: "scan_number 16 (''0x'' @ hex_nat n) = Inr (False, n)"
  using scan_0x [OF hex_nat_digits [of n]] by simp

lemma stoull_format_llx [simp]: "stoull 16 (format_llx v) = Inr v"
  using scan_0x_hex [of "unat v"] unsigned_less [of v, where ?'a = nat] by (simp add: stoull_def format_llx_def)

lemma stoull_to_string [simp]: "stoull 10 (to_string v) = Inr v"
  using scan_digits [of 10 "dec_nat (unat v)"] dec_nat_is_digits unsigned_less [of v, where ?'a = nat]
  by (simp add: stoull_def to_string_def)

lemma format_llx_eq_iff [simp]: "format_llx v = format_llx w \<longleftrightarrow> v = w"
  by (metis stoull_format_llx sum.inject(2))

interpretation llx: codec "\<lambda>_. True" format_llx "stoull 16"
  by unfold_locales simp

interpretation dec: codec "\<lambda>_. True" to_string "stoull 10"
  by unfold_locales simp

end
