(* ===== verification/Rpc.thy ===== *)
theory Rpc
  imports Blockchain Cpp_Numbers
begin

text \<open>
  \<open>src/src/rpc_server.cpp\<close>: the HTTP/JSON-RPC front end. The JSON parser and printer of nlohmann/json are parameters (\<open>js_parse\<close>,
  \<open>js_dump\<close>); the data model and the accessors \<open>operator[]\<close> and the conversion to a string, which throw a type error, are written
  out. A handler returns the answer and the chain it leaves behind. Sockets and threads are in \<open>Rpc_Server\<close>; the debug output is left out.
\<close>

section \<open>JSON\<close>

datatype json = JNull | JBool bool | JNumber string | JString string | JArray "json list" | JObject "(string \<times> json) list"

record json_lib =
  js_parse :: "string \<Rightarrow> json result"
  js_dump :: "json \<Rightarrow> string"

definition type_error :: exn where
  "type_error = Runtime_error ''type_error''"

definition jsonContains :: "string \<Rightarrow> json \<Rightarrow> bool" where
  "jsonContains key j = (case j of JObject kvs \<Rightarrow> map_of kvs key \<noteq> None | _ \<Rightarrow> False)"

definition jsonAt :: "string \<Rightarrow> json \<Rightarrow> json result" where
  "jsonAt key j = (case j of
     JObject kvs \<Rightarrow> Inr (case map_of kvs key of Some v \<Rightarrow> v | None \<Rightarrow> JNull)
   | JNull \<Rightarrow> Inr JNull
   | _ \<Rightarrow> Inl type_error)"

definition jsonFirst :: "json \<Rightarrow> json result" where
  "jsonFirst j = (case j of
     JArray xs \<Rightarrow> Inr (case xs of [] \<Rightarrow> JNull | x # _ \<Rightarrow> x)
   | JNull \<Rightarrow> Inr JNull
   | _ \<Rightarrow> Inl type_error)"

definition jsonString :: "json \<Rightarrow> string result" where
  "jsonString j = (case j of JString s \<Rightarrow> Inr s | _ \<Rightarrow> Inl type_error)"

section \<open>Answers\<close>

definition quoted :: "string \<Rightarrow> string" where
  "quoted s = [CHR 0x22] @ s @ [CHR 0x22]"

definition crlf :: string where
  "crlf = [CHR 0x0D, CHR 0x0A]"

definition int_string :: "int \<Rightarrow> string" where
  "int_string i = (if i < 0 then ''-'' @ dec_nat (nat (- i)) else dec_nat (nat i))"

definition safeId :: "string \<Rightarrow> string" where
  "safeId ident = (if ident = [] then ''null'' else ident)"

definition jsonError :: "string \<Rightarrow> int \<Rightarrow> string \<Rightarrow> string" where
  "jsonError ident code message =
     ''{'' @ quoted ''jsonrpc'' @ '':'' @ quoted ''2.0'' @ '','' @ quoted ''error'' @ '':{'' @ quoted ''code'' @ '':'' @
     int_string code @ '','' @ quoted ''message'' @ '':'' @ quoted message @ ''},'' @ quoted ''id'' @ '':'' @ safeId ident @ ''}''"

definition jsonResult :: "string \<Rightarrow> string \<Rightarrow> string" where
  "jsonResult ident resultJson =
     ''{'' @ quoted ''jsonrpc'' @ '':'' @ quoted ''2.0'' @ '','' @ quoted ''result'' @ '':'' @ resultJson @ '','' @
     quoted ''id'' @ '':'' @ safeId ident @ ''}''"

definition httpResponse :: "string \<Rightarrow> string \<Rightarrow> string" where
  "httpResponse body status =
     ''HTTP/1.1 '' @ status @ crlf @
     ''Content-Type: application/json'' @ crlf @
     ''Content-Length: '' @ dec_nat (length body) @ crlf @
     ''Connection: close'' @ crlf @
     crlf @ body"

section \<open>Handlers\<close>

definition handle_blockNumber :: "string \<Rightarrow> Blockchain \<Rightarrow> string" where
  "handle_blockNumber ident bc =
     (let height = (if bc_chain bc = [] then 0 else blk_index (last (bc_chain bc)))
      in jsonResult ident (quoted (format_llx height)))"

definition handle_getBalance :: "string \<Rightarrow> string \<Rightarrow> Blockchain \<Rightarrow> string" where
  "handle_getBalance ident addrHex bc =
     (case addrFromHex addrHex of
        Inl e \<Rightarrow> jsonError ident (-32602) ''Invalid address''
      | Inr addr \<Rightarrow>
          let bal = (case stateGet (bc_state bc) addr of Some acc \<Rightarrow> acc_balance acc | None \<Rightarrow> 0)
          in jsonResult ident (quoted (format_llx bal)))"

definition handle_sendRawTransaction :: "secp256k1 \<Rightarrow> string \<Rightarrow> string \<Rightarrow> Blockchain \<Rightarrow> string \<times> Blockchain" where
  "handle_sendRawTransaction S ident txHex bc =
     (case txFromHex S txHex of
        Inl e \<Rightarrow> (jsonError ident (-32602) (exn_what e), bc)
      | Inr tx \<Rightarrow>
          (case validateTransaction S bc tx of
             Some err \<Rightarrow> (jsonError ident (-32000) err, bc)
           | None \<Rightarrow>
               let bc = addTransaction tx bc;
                   txHash = (if tx_hash tx = [] then computeHash tx else tx_hash tx)
               in (jsonResult ident (quoted txHash), bc)))"

definition field :: "string \<Rightarrow> string \<Rightarrow> string" where
  "field key v = quoted key @ '':'' @ quoted v"

definition hexUint :: "u64 \<Rightarrow> string" where
  "hexUint v = ''0x'' @ toHex (encodeUint v)"

text \<open>The objects the block and transaction handlers print: a block with its number and hashes as given, and a transaction, with
  the block that holds it if it is mined.\<close>

definition blockObject :: "string \<Rightarrow> string \<Rightarrow> Block \<Rightarrow> string" where
  "blockObject number prefix b =
     ''{'' @ field ''number'' number @ '','' @ field ''hash'' (prefix @ blk_hash b) @ '','' @
     field ''parentHash'' (prefix @ blk_prevHash b) @ '','' @ field ''stateRoot'' (prefix @ blk_stateAfter b) @ '','' @
     field ''txRoot'' (prefix @ blk_txRoot b) @ '','' @ field ''timestamp'' (hexUint (blk_timestamp b)) @ ''}''"

definition txObject :: "Block option \<Rightarrow> Transaction \<Rightarrow> string" where
  "txObject block tx =
     ''{'' @ field ''hash'' (tx_hash tx) @ '','' @
     (case block of None \<Rightarrow> []
      | Some b \<Rightarrow> field ''blockHash'' (blk_hash b) @ '','' @ field ''blockNumber'' (hexUint (blk_index b)) @ '','') @
     field ''from'' (addrToHex True (tx_from tx)) @ '','' @ field ''to'' (addrToHex True (tx_to tx)) @ '','' @
     field ''value'' (hexUint (tx_value tx)) @ '','' @ field ''nonce'' (hexUint (tx_nonce tx)) @ ''}''"

definition handle_getBlockByNumber :: "string \<Rightarrow> string \<Rightarrow> Blockchain \<Rightarrow> string result" where
  "handle_getBlockByNumber ident numHex bc =
     bindR (stoull 16 numHex) (\<lambda>num.
     if unat num \<ge> length (bc_chain bc) then Inr (jsonResult ident ''null'')
     else Inr (jsonResult ident (blockObject (''0x'' @ numHex) [] (bc_chain bc ! unat num))))"

definition handle_getBlockByHash :: "string \<Rightarrow> string \<Rightarrow> Blockchain \<Rightarrow> string" where
  "handle_getBlockByHash ident hashHex bc =
     (case find (\<lambda>b. strip0x (blk_hash b) = strip0x hashHex) (bc_chain bc) of
        None \<Rightarrow> jsonResult ident ''null''
      | Some b \<Rightarrow> jsonResult ident (blockObject (hexUint (blk_index b)) ''0x'' b))"

fun findInBlocks :: "string \<Rightarrow> Block list \<Rightarrow> (Block \<times> Transaction) option" where
  "findInBlocks h [] = None"
| "findInBlocks h (b # bs) =
     (case find (\<lambda>tx. tx_hash tx = h) (blk_transactions b) of
        Some tx \<Rightarrow> Some (b, tx)
      | None \<Rightarrow> findInBlocks h bs)"

definition handle_getTransactionByHash :: "string \<Rightarrow> string \<Rightarrow> Blockchain \<Rightarrow> string" where
  "handle_getTransactionByHash ident hashHex bc =
     (case find (\<lambda>tx. tx_hash tx = hashHex) (bc_mempool bc) of
        Some tx \<Rightarrow> jsonResult ident (txObject None tx)
      | None \<Rightarrow>
          (case findInBlocks hashHex (bc_chain bc) of
             Some (b, tx) \<Rightarrow> jsonResult ident (txObject (Some b) tx)
           | None \<Rightarrow> jsonResult ident ''null''))"

definition handle_getTransactionCount :: "string \<Rightarrow> string \<Rightarrow> Blockchain \<Rightarrow> string" where
  "handle_getTransactionCount ident addrHex bc =
     (case addrFromHex addrHex of
        Inl e \<Rightarrow> jsonError ident (-32602) ''Invalid address''
      | Inr addr \<Rightarrow>
          let nonce = (case stateGet (bc_state bc) addr of Some acc \<Rightarrow> acc_nonce acc | None \<Rightarrow> 0)
          in jsonResult ident (quoted (format_llx nonce)))"

section \<open>Dispatch\<close>

definition param0 :: "json \<Rightarrow> string result" where
  "param0 req = bindR (jsonAt ''params'' req) (\<lambda>ps. bindR (jsonFirst ps) jsonString)"

definition dispatch :: "secp256k1 \<Rightarrow> string \<Rightarrow> json \<Rightarrow> Blockchain \<Rightarrow> (string \<times> Blockchain) result" where
  "dispatch S ident req bc =
     bindR (bindR (jsonAt ''method'' req) jsonString) (\<lambda>m.
     if m = ''eth_blockNumber'' then Inr (handle_blockNumber ident bc, bc)
     else if m = ''eth_getBalance'' then bindR (param0 req) (\<lambda>a. Inr (handle_getBalance ident a bc, bc))
     else if m = ''eth_sendRawTransaction'' then bindR (param0 req) (\<lambda>h. Inr (handle_sendRawTransaction S ident h bc))
     else if m = ''net_version'' then Inr (jsonResult ident (quoted (to_string (bc_chainId bc))), bc)
     else if m = ''eth_getBlockByNumber'' then
       bindR (param0 req) (\<lambda>n. bindR (handle_getBlockByNumber ident n bc) (\<lambda>r. Inr (r, bc)))
     else if m = ''eth_getBlockByHash'' then bindR (param0 req) (\<lambda>h. Inr (handle_getBlockByHash ident h bc, bc))
     else if m = ''eth_getTransactionByHash'' then bindR (param0 req) (\<lambda>h. Inr (handle_getTransactionByHash ident h bc, bc))
     else if m = ''eth_getTransactionCount'' then bindR (param0 req) (\<lambda>a. Inr (handle_getTransactionCount ident a bc, bc))
     else Inr (jsonError ident (-32601) ''Method not found'', bc))"

definition requestId :: "json_lib \<Rightarrow> json \<Rightarrow> string" where
  "requestId J req = (if jsonContains ''id'' req
     then (case jsonAt ''id'' req of Inr v \<Rightarrow> js_dump J v | Inl e \<Rightarrow> ''null'') else ''null'')"

definition handleJsonRpc :: "json_lib \<Rightarrow> secp256k1 \<Rightarrow> string \<Rightarrow> Blockchain \<Rightarrow> string \<times> Blockchain" where
  "handleJsonRpc J S jsonStr bc =
     (case js_parse J jsonStr of
        Inl e \<Rightarrow> (jsonError ''null'' (-32799) ''Parse error'', bc)
      | Inr req \<Rightarrow>
          (case dispatch S (requestId J req) req bc of
             Inl e \<Rightarrow> (jsonError (requestId J req) (-32799) ''Parse error'', bc)
           | Inr r \<Rightarrow> r))"

fun bodyOf :: "string \<Rightarrow> string option" where
  "bodyOf s = (if take 4 s = crlf @ crlf then Some (drop 4 s) else case s of [] \<Rightarrow> None | c # cs \<Rightarrow> bodyOf cs)"

declare bodyOf.simps [simp del]

definition handleRequest :: "json_lib \<Rightarrow> secp256k1 \<Rightarrow> string \<Rightarrow> Blockchain \<Rightarrow> string \<times> Blockchain" where
  "handleRequest J S httpReq bc =
     (case bodyOf httpReq of
        None \<Rightarrow> (httpResponse (''{'' @ quoted ''jsonrpc'' @ '':'' @ quoted ''2.0'' @ '','' @ quoted ''error'' @ '':{'' @
                   quoted ''code'' @ '':-32700,'' @ quoted ''message'' @ '':'' @ quoted ''Parse error'' @ ''},'' @
                   quoted ''id'' @ '':null}'') ''200 OK'', bc)
      | Some body \<Rightarrow>
          let (jsonResp, bc) = handleJsonRpc J S body bc
          in (httpResponse jsonResp ''200 OK'', bc))"

section \<open>HTTP framing\<close>

lemma bodyOf_skip: "CHR 0x0D \<notin> set h \<Longrightarrow> bodyOf (h @ s) = bodyOf s"
proof (induction h)
  case (Cons c h)
  then show ?case by (subst bodyOf.simps) (auto simp: crlf_def)
qed simp

lemma bodyOf_line: "CHR 0x0D \<notin> set h \<Longrightarrow> c \<noteq> CHR 0x0D \<Longrightarrow> bodyOf (h @ crlf @ c # s) = bodyOf (c # s)"
  by (simp add: bodyOf_skip crlf_def)
    (simp add: crlf_def bodyOf.simps [of "CHR 0x0D # CHR 0x0A # c # s"] bodyOf.simps [of "CHR 0x0A # c # s"])

lemma bodyOf_end: "CHR 0x0D \<notin> set h \<Longrightarrow> bodyOf (h @ crlf @ crlf @ s) = Some s"
  by (simp add: bodyOf_skip) (simp add: bodyOf.simps crlf_def)

lemma dec_nat_no_cr: "CHR 0x0D \<notin> set (dec_nat n)"
  by (auto dest!: dec_nat_digits dest: arg_cong [of _ _ "of_char :: char \<Rightarrow> nat"] simp: of_dec_digit)

lemma bodyOf_httpResponse: "bodyOf (httpResponse body ''200 OK'') = Some body"
proof -
  let ?rest = "''Content-Length: '' @ dec_nat (length body) @ crlf @ ''Connection: close'' @ crlf @ crlf @ body"
  have "bodyOf (httpResponse body ''200 OK'') = bodyOf (''HTTP/1.1 200 OK'' @ crlf @ CHR ''C'' #
      (''ontent-Type: application/json'' @ crlf @ ?rest))"
    by (simp add: httpResponse_def)
  also have "\<dots> = bodyOf (''Content-Type: application/json'' @ crlf @ CHR ''C'' # tl ?rest)"
    by (subst bodyOf_line) simp_all
  also have "\<dots> = bodyOf ((''Content-Length: '' @ dec_nat (length body)) @ crlf @ CHR ''C'' # (''onnection: close'' @ crlf @ crlf @ body))"
    by (subst bodyOf_line) simp_all
  also have "\<dots> = bodyOf (''Connection: close'' @ crlf @ crlf @ body)"
    by (subst bodyOf_line) (simp_all add: dec_nat_no_cr)
  also have "\<dots> = Some body" by (rule bodyOf_end) simp
  finally show ?thesis .
qed

section \<open>What a request can do\<close>

definition rpc_effect :: "secp256k1 \<Rightarrow> Blockchain \<Rightarrow> Blockchain \<Rightarrow> bool" where
  "rpc_effect S bc bc' \<longleftrightarrow> bc' = bc \<or>
     (\<exists>txHex tx. txFromHex S txHex = Inr tx \<and> validateTransaction S bc tx = None \<and> bc' = addTransaction tx bc)"

lemma rpc_effect_refl [simp]: "rpc_effect S bc bc"
  by (simp add: rpc_effect_def)

lemma rpc_effect_sendRaw: "rpc_effect S bc (snd (handle_sendRawTransaction S ident txHex bc))"
  by (auto simp: handle_sendRawTransaction_def rpc_effect_def Let_def split: sum.split option.split)

lemma rpc_effect_dispatch:
  assumes "dispatch S ident req bc = Inr (ans, bc')"
  shows "rpc_effect S bc bc'"
proof -
  have raw: "\<And>h. handle_sendRawTransaction S ident h bc = (ans, bc') \<Longrightarrow> rpc_effect S bc bc'"
    by (metis rpc_effect_sendRaw snd_conv)
  show ?thesis
    using assms unfolding dispatch_def bindR_Inr_iff
    by (elim exE conjE) (auto simp: bindR_Inr_iff raw split: if_splits)
qed

lemma rpc_effect_handleJsonRpc: "rpc_effect S bc (snd (handleJsonRpc J S s bc))"
  using rpc_effect_dispatch by (auto simp: handleJsonRpc_def Let_def split: sum.split)

lemma rpc_effect_step: "rpc_effect S bc bc' \<Longrightarrow> bc' = bc \<or> chain_step bc bc'"
  by (auto simp: rpc_effect_def intro: add_tx tx_addresses_txFromHex)

lemma handleRequest_cases:
  obtains (no_body) body where "fst (handleRequest J S req bc) = httpResponse body ''200 OK''" "snd (handleRequest J S req bc) = bc"
  | (body) s where "handleRequest J S req bc = (httpResponse (fst (handleJsonRpc J S s bc)) ''200 OK'', snd (handleJsonRpc J S s bc))"
  by (cases "bodyOf req") (auto simp: handleRequest_def case_prod_unfold Let_def)

lemma rpc_effect_handleRequest: "rpc_effect S bc (snd (handleRequest J S req bc))"
  by (cases rule: handleRequest_cases [of J S req bc]) (simp_all add: rpc_effect_handleJsonRpc)

lemma handleRequest_response: "\<exists>body. fst (handleRequest J S req bc) = httpResponse body ''200 OK''"
  by (cases rule: handleRequest_cases [of J S req bc]) auto

lemma dispatch_method:
  "map_of kvs ''method'' = Some (JString m) \<Longrightarrow> bindR (jsonAt ''method'' (JObject kvs)) jsonString = Inr m"
  by (simp add: jsonAt_def jsonString_def)

lemma param0_string:
  "map_of kvs ''params'' = Some (JArray (JString a # rest)) \<Longrightarrow> param0 (JObject kvs) = Inr a"
  by (simp add: param0_def jsonAt_def jsonFirst_def jsonString_def)

lemma rpc_call:
  fixes kvs bc
  defines "ident J \<equiv> requestId J (JObject kvs)"
  assumes "js_parse J s = Inr (JObject kvs)" "map_of kvs ''method'' = Some (JString m)"
    and "map_of kvs ''params'' = Some (JArray (JString a # rest))"
  shows "m = ''eth_getBalance'' \<Longrightarrow> handleJsonRpc J S s bc = (handle_getBalance (ident J) a bc, bc)"
    "m = ''eth_getTransactionCount'' \<Longrightarrow> handleJsonRpc J S s bc = (handle_getTransactionCount (ident J) a bc, bc)"
    "m = ''eth_sendRawTransaction'' \<Longrightarrow> handleJsonRpc J S s bc = handle_sendRawTransaction S (ident J) a bc"
    "m = ''eth_getBlockByNumber'' \<Longrightarrow> handle_getBlockByNumber (ident J) a bc = Inr r \<Longrightarrow> handleJsonRpc J S s bc = (r, bc)"
    "m = ''eth_getBlockByHash'' \<Longrightarrow> handleJsonRpc J S s bc = (handle_getBlockByHash (ident J) a bc, bc)"
    "m = ''eth_getTransactionByHash'' \<Longrightarrow> handleJsonRpc J S s bc = (handle_getTransactionByHash (ident J) a bc, bc)"
  using assms(2) dispatch_method [OF assms(3)] param0_string [OF assms(4)]
  by (simp_all add: handleJsonRpc_def dispatch_def ident_def)

section \<open>Numbers in hexadecimal\<close>

lemma digits_value_toHex: "digits_value 16 (toHex bs) = be_value bs"
proof (induction bs rule: rev_induct)
  case (snoc b bs)
  have "digits_value 16 (toHex (bs @ [b])) = (be_value bs * 16 + unat b div 16) * 16 + unat b mod 16"
    using snoc digits_value_snoc [of 16 "toHex bs" "hexdigit (unat b div 16)"]
      digits_value_snoc [of 16 "toHex bs @ [hexdigit (unat b div 16)]" "hexdigit (unat b mod 16)"]
      unat_byte_less_256 [of b]
    by (simp add: toHex_def hex_byte_def hexdigit_eq_hex_char)
  also have "\<dots> = be_value (bs @ [b])" by simp
  finally show ?case .
qed (simp add: toHex_def digits_value_def)

lemma toHex_digits: "list_all (is_digit_of 16) (toHex bs)"
proof -
  have "list_all (is_digit_of 16) (hex_byte b)" for b
    using unat_byte_less_256 [of b] by (simp add: hex_byte_def hexdigit_eq_hex_char is_digit_of_def)
  then show ?thesis by (induction bs) (simp_all add: toHex_def)
qed

lemma toHex_Nil_iff [simp]: "toHex bs = [] \<longleftrightarrow> bs = []"
  by (cases bs) (simp_all add: toHex_def hex_byte_def)

lemma stoull_toHex:
  "bs \<noteq> [] \<Longrightarrow> stoull 16 (''0x'' @ toHex bs) = (if be_value bs \<ge> 2 ^ 64 then Inl Out_of_range else Inr (word_of_nat (be_value bs)))"
  using scan_0x [OF toHex_digits [of bs]] by (simp add: stoull_def digits_value_toHex)

lemma unat_u64_of_nat: "n < 2 ^ 64 \<Longrightarrow> unat (word_of_nat n :: u64) = n"
  by (simp add: unat_of_nat)

lemma encodeUint_not_Nil: "encodeUint v \<noteq> []"
  using unat_gt_0 [of v] by (auto simp: encodeUint_def encodeBytes_def encodeLength_def Let_def)

lemma be_value_encodeUint: "be_value (encodeUint v) = unat v \<longleftrightarrow> 0 < v \<and> v < 0x80"
proof (cases "v = 0 \<or> v < 0x80")
  case True
  then show ?thesis
  proof (cases "v = 0")
    case False
    then have "unat v < 128" "0 < unat v" using True by (simp_all add: word_less_nat_alt unat_gt_0)
    moreover from this obtain c where c: "be_bytes (unat v) [] = [c]" by (auto simp: be_bytes_rec)
    moreover have "unat c = unat v" using be_value_be_bytes [of "unat v"] by (simp add: c be_value_def)
    ultimately show ?thesis using False True
      by (simp add: encodeUint_def encodeBytes_def word_less_nat_alt be_value_def word_gt_0)
  qed (simp add: encodeUint_def be_value_def)
next
  case False
  let ?b = "be_bytes (unat v) []"
  have big: "unat v \<ge> 128" using False by (simp add: word_less_nat_alt)
  have len: "length ?b \<le> 8" using length_be_bytes_le [of "unat v" 8] unsigned_less [of v, where ?'a = nat] by simp
  have "\<not> (length ?b = 1 \<and> ?b ! 0 < 0x80)"
  proof
    assume a: "length ?b = 1 \<and> ?b ! 0 < 0x80"
    then obtain c where "?b = [c]" by (auto simp: length_Suc_conv)
    then have "unat v = unat c" using be_value_be_bytes [of "unat v"] by (simp add: be_value_def)
    with a \<open>?b = [c]\<close> big show False by (simp add: word_less_nat_alt)
  qed
  then have enc: "encodeUint v = (0x80 + word_of_nat (length ?b)) # ?b"
    using False len by (auto simp: encodeUint_def encodeBytes_def encodeLength_def)
  have "unat (0x80 + word_of_nat (length ?b) :: byte) = 128 + length ?b"
    using len by (simp add: unat_word_ariths unat_of_nat)
  then have "be_value (encodeUint v) > unat v"
    by (simp add: enc be_value_Cons)
  then show ?thesis using False by simp
qed

section \<open>Properties\<close>


text \<open>A stand-in for the JSON library that answers every text with one fixed request.\<close>

definition fixed_json :: "json \<Rightarrow> json_lib" where
  "fixed_json req = \<lparr> js_parse = (\<lambda>_. Inr req), js_dump = (\<lambda>_. ''1'') \<rparr>"


text \<open>
  \<open>eth_getBalance\<close> and \<open>eth_getTransactionCount\<close> (src/rpc_server.cpp) answer a request with a parsable address with a hexadecimal
  number that reads back, at full 64-bit width, as the balance or nonce the account table holds for that address
  (0 for an address it does not hold), and leave the chain alone; an address that does not parse gets error -32602.
\<close>

theorem rpc_account_query:
  assumes "js_parse J s = Inr (JObject kvs)" and "map_of kvs ''method'' = Some (JString m)"
    and "m = ''eth_getBalance'' \<or> m = ''eth_getTransactionCount''"
    and "map_of kvs ''params'' = Some (JArray (JString a # rest))"
  shows "\<exists>h. handleJsonRpc J S s bc =
      (case addrFromHex a of Inl e \<Rightarrow> jsonError (requestId J (JObject kvs)) (-32602) ''Invalid address''
       | Inr addr \<Rightarrow> jsonResult (requestId J (JObject kvs)) (quoted h), bc) \<and>
    (\<forall>addr. addrFromHex a = Inr addr \<longrightarrow> stoull 16 h =
       Inr (if m = ''eth_getBalance'' then acc_balance (view (bc_state bc) addr) else acc_nonce (view (bc_state bc) addr)))"
proof -
  note r = rpc_call(1,2) [OF assms(1,2,4)]
  define v where "v addr = (if m = ''eth_getBalance'' then acc_balance (view (bc_state bc) addr)
    else acc_nonce (view (bc_state bc) addr))" for addr
  have "handleJsonRpc J S s bc = (case addrFromHex a of Inl e \<Rightarrow> jsonError (requestId J (JObject kvs)) (-32602) ''Invalid address''
      | Inr addr \<Rightarrow> jsonResult (requestId J (JObject kvs)) (quoted (format_llx (v addr))), bc)"
    using assms(3) r by (auto simp: v_def handle_getBalance_def handle_getTransactionCount_def account_field split: sum.split)
  then show ?thesis
    unfolding v_def [symmetric]
    by (cases "addrFromHex a") (auto intro!: exI [of _ "format_llx (v (projr (addrFromHex a)))"])
qed

text \<open>A request object as clients send it.\<close>

definition rpc_object :: "string \<Rightarrow> string \<Rightarrow> (string \<times> json) list" where
  "rpc_object m a = [(''id'', JNumber ''1''), (''method'', JString m), (''params'', JArray [JString a])]"

lemma rpc_object_simps [simp]:
  "js_parse (fixed_json (JObject kvs)) s = Inr (JObject kvs)"
  "map_of (rpc_object m a) ''method'' = Some (JString m)"
  "map_of (rpc_object m a) ''params'' = Some (JArray [JString a])"
  "requestId (fixed_json (JObject (rpc_object m a))) (JObject (rpc_object m a)) = ''1''"
  by (simp_all add: fixed_json_def rpc_object_def requestId_def jsonContains_def jsonAt_def)

theorem rpc_account_query_witness:
  "\<exists>h. handleJsonRpc (fixed_json (JObject (rpc_object ''eth_getBalance'' (addrToHex True zeroAddress)))) plain_secp []
      \<lparr> bc_chain = [], bc_state = genesisState demo_genesis, bc_mempool = [], bc_chainId = 1 \<rparr> =
      (jsonResult ''1'' (quoted h), \<lparr> bc_chain = [], bc_state = genesisState demo_genesis, bc_mempool = [], bc_chainId = 1 \<rparr>) \<and>
      stoull 16 h = Inr 7"
proof -
  let ?bc = "\<lparr> bc_chain = [], bc_state = genesisState demo_genesis, bc_mempool = [], bc_chainId = 1 \<rparr>"
  let ?kvs = "rpc_object ''eth_getBalance'' (addrToHex True zeroAddress)"
  have "addrFromHex (addrToHex True zeroAddress) = Inr zeroAddress" by (simp add: addrFromHex_addrToHex)
  with rpc_account_query [of "fixed_json (JObject ?kvs)" "[]" ?kvs "''eth_getBalance''" "addrToHex True zeroAddress" "[]" plain_secp ?bc]
  show ?thesis using demo_balance by auto
qed

lemma find_SomeE:
  assumes "x \<in> set xs" "P x"
  obtains y where "find P xs = Some y" "y \<in> set xs" "P y"
  using assms by (cases "find P xs") (auto simp: find_None_iff find_Some_iff)

text \<open>
  C14. \<open>eth_sendRawTransaction\<close> and \<open>eth_getTransactionByHash\<close> (src/rpc_server.cpp): a text that does not parse as a transaction is answered with
  error -32602, one that does not validate with error -32000, both without effect. Otherwise the transaction goes to
  the end of the mempool, the answer is its hash, and a query for that hash then shows a pending transaction of
  the mempool with it, the one submitted unless an earlier one has the same hash.
\<close>

theorem rpc_submit_then_query:
  assumes "js_parse J s = Inr (JObject kvs)" and "map_of kvs ''method'' = Some (JString ''eth_sendRawTransaction'')"
    and "map_of kvs ''params'' = Some (JArray (JString hex # rest))"
  shows "case txFromHex S hex of
      Inl e \<Rightarrow> handleJsonRpc J S s bc = (jsonError (requestId J (JObject kvs)) (-32602) (exn_what e), bc)
    | Inr tx \<Rightarrow> (case validateTransaction S bc tx of
        Some err \<Rightarrow> handleJsonRpc J S s bc = (jsonError (requestId J (JObject kvs)) (-32000) err, bc)
      | None \<Rightarrow> (\<exists>bc' pending. handleJsonRpc J S s bc = (jsonResult (requestId J (JObject kvs)) (quoted (tx_hash tx)), bc') \<and>
          bc' = bc \<lparr> bc_mempool := bc_mempool bc @ [tx] \<rparr> \<and>
          pending \<in> set (bc_mempool bc') \<and> tx_hash pending = tx_hash tx \<and>
          ((\<forall>u \<in> set (bc_mempool bc). tx_hash u \<noteq> tx_hash tx) \<longrightarrow> pending = tx) \<and>
          (\<forall>ident. handle_getTransactionByHash ident (tx_hash tx) bc' = jsonResult ident (txObject None pending))))"
proof -
  note r = rpc_call(3) [OF assms refl, of S bc]
  show ?thesis
  proof (cases "txFromHex S hex")
    case (Inr tx)
    have hash: "tx_hash tx \<noteq> []"
      using Inr by (auto simp: txFromHex_def txOfFields_def bindR_Inr_iff Let_def computeHash_def split: if_splits)
    show ?thesis
    proof (cases "validateTransaction S bc tx")
      case None
      let ?bc = "bc \<lparr> bc_mempool := bc_mempool bc @ [tx] \<rparr>"
      obtain p where p: "find (\<lambda>u. tx_hash u = tx_hash tx) (bc_mempool ?bc) = Some p" "p \<in> set (bc_mempool ?bc)"
        "tx_hash p = tx_hash tx"
        using find_SomeE [of tx "bc_mempool ?bc" "\<lambda>u. tx_hash u = tx_hash tx"] by auto
      then have "\<forall>ident. handle_getTransactionByHash ident (tx_hash tx) ?bc = jsonResult ident (txObject None p)"
        by (simp add: handle_getTransactionByHash_def)
      then show ?thesis
        using r Inr None p hash
        by (auto simp: handle_sendRawTransaction_def Let_def addTransaction_def intro!: exI [of _ p])
    qed (use r Inr in \<open>simp add: handle_sendRawTransaction_def\<close>)
  qed (use r in \<open>simp add: handle_sendRawTransaction_def\<close>)
qed

theorem rpc_submit_then_query_witness:
  "\<exists>hex tx. handleJsonRpc (fixed_json (JObject (rpc_object ''eth_sendRawTransaction'' hex))) plain_secp []
     \<lparr> bc_chain = [], bc_state = [], bc_mempool = [], bc_chainId = 1 \<rparr> =
   (jsonResult ''1'' (quoted (tx_hash tx)), \<lparr> bc_chain = [], bc_state = [], bc_mempool = [tx], bc_chainId = 1 \<rparr>)"
proof -
  let ?bc = "\<lparr> bc_chain = [], bc_state = [], bc_mempool = [], bc_chainId = 1 \<rparr>"
  obtain tx' where s: "signWith plain_secp \<lparr> kp_priv = replicate 32 1, kp_pub = replicate 64 1 \<rparr> emptyTransaction = Inr tx'"
    and v: "sig_v (tx_sig tx') = 0"
    using plain_signWith [of emptyTransaction] by auto
  obtain t where t: "txFromHex plain_secp (txToHex tx') = Inr t" "t = parsed tx' \<lparr> tx_from := tx_from tx' \<rparr>"
    "same_body t emptyTransaction" "tx_chainId t = tx_chainId emptyTransaction"
    "recoverAddress plain_secp (signingHash t) (tx_sig t) (tx_chainId t) = Inr (tx_from tx')"
    by (rule signed_broadcast [OF plain_key plain_secp_ok(1,3,4) s]) (simp_all add: v emptyTransaction_def)
  have "verifySignature plain_secp t" using t(2,5) by (simp add: verifySignature_def)
  then have "validateTransaction plain_secp ?bc t = None"
    using t(3,4) by (simp add: validateTransaction_None_iff same_body_def emptyTransaction_def view_def accAt_def emptyAccount_def)
  with t(1) rpc_submit_then_query [of "fixed_json (JObject (rpc_object ''eth_sendRawTransaction'' (txToHex tx')))" "[]"
      "rpc_object ''eth_sendRawTransaction'' (txToHex tx')" "txToHex tx'" "[]" plain_secp ?bc]
  show ?thesis by auto
qed

text \<open>
  Block queries (src/rpc_server.cpp) on a chain whose block hashes have the form the node computes: block \<open>k\<close> is found under its number,
  and under its hash the first block with that hash. But the answer to a query by number prefixes the number the
  client sent, already \<open>0x...\<close>, with a second \<open>0x\<close>, and the answer to a query by hash does the same to all hashes: a
  client that asks again with the hash it was given is told there is no such block.
\<close>

theorem rpc_block_queries:
  assumes "list_all (\<lambda>b. \<exists>d. blk_hash b = ''0x'' @ toHex d) (bc_chain bc)" and "k < length (bc_chain bc)" and "k < 2 ^ 64"
  shows "handle_getBlockByNumber ident (format_llx (word_of_nat k)) bc =
      Inr (jsonResult ident (blockObject (''0x'' @ format_llx (word_of_nat k)) [] (bc_chain bc ! k))) \<and>
    (\<exists>b \<in> set (bc_chain bc). blk_hash b = blk_hash (bc_chain bc ! k) \<and>
      handle_getBlockByHash ident (blk_hash (bc_chain bc ! k)) bc = jsonResult ident (blockObject (hexUint (blk_index b)) ''0x'' b)) \<and>
    handle_getBlockByHash ident (''0x'' @ blk_hash (bc_chain bc ! k)) bc = jsonResult ident ''null''"
proof -
  let ?b = "bc_chain bc ! k"
  have strip: "strip0x (''0x'' @ x) = x" for x by (simp add: strip0x_def has_0x_def)
  obtain d where d: "blk_hash ?b = ''0x'' @ toHex d" using assms(1) nth_mem [OF assms(2)] by (auto simp: list_all_iff)
  have num: "unat (word_of_nat k :: u64) = k" using assms(3) by (simp add: unat_of_nat)
  obtain b where b: "find (\<lambda>b. strip0x (blk_hash b) = strip0x (blk_hash ?b)) (bc_chain bc) = Some b" "b \<in> set (bc_chain bc)"
    "strip0x (blk_hash b) = strip0x (blk_hash ?b)"
    using assms(2) by (rule find_SomeE [OF nth_mem refl])
  moreover from b(2) assms(1) obtain e where "blk_hash b = ''0x'' @ toHex e" by (auto simp: list_all_iff)
  ultimately have "blk_hash b = blk_hash ?b" using d by (simp only: strip)
  moreover have "strip0x (blk_hash c) \<noteq> strip0x (''0x'' @ blk_hash ?b)" if "c \<in> set (bc_chain bc)" for c
  proof -
    obtain e where "blk_hash c = ''0x'' @ toHex e" using assms(1) \<open>c \<in> set (bc_chain bc)\<close> by (auto simp: list_all_iff)
    then show ?thesis using toHex_digits [of e] x_not_hex_digit by (auto simp add: d strip simp del: append_Cons)
  qed
  then have "find (\<lambda>b. strip0x (blk_hash b) = strip0x (''0x'' @ blk_hash ?b)) (bc_chain bc) = None"
    by (simp add: find_None_iff)
  ultimately show ?thesis
    using b(1,2) assms(2) num by (auto simp: handle_getBlockByNumber_def handle_getBlockByHash_def)
qed

theorem rpc_block_queries_witness:
  "\<exists>b. handle_getBlockByHash ''1'' (''0x'' @ blk_hash b)
     \<lparr> bc_chain = [b], bc_state = [], bc_mempool = [], bc_chainId = 1 \<rparr> = jsonResult ''1'' ''null''"
proof -
  let ?b = "emptyBlock \<lparr> blk_hash := ''0x'' @ toHex [] \<rparr>"
  have "list_all (\<lambda>b. \<exists>d. blk_hash b = ''0x'' @ toHex d) [?b]" by (auto intro: exI [of _ "[]"] simp: toHex_def)
  with rpc_block_queries [of "\<lparr> bc_chain = [?b], bc_state = [], bc_mempool = [], bc_chainId = 1 \<rparr>" 0 "''1''"]
  show ?thesis by (intro exI [of _ ?b]) simp
qed

text \<open>
  Quantities (src/rpc_server.cpp:304,335,364,391): the handlers print block numbers, timestamps, values and nonces as the hex form of their RLP
  encoding. A client that reads the field as the hexadecimal number it should be gets the right value exactly for 1 to
  127: 0 reads as 128, and from 128 on the length byte of the encoding becomes the leading digits.
\<close>

theorem rpc_quantity_is_rlp: "stoull 16 (hexUint v) = Inr v \<longleftrightarrow> 0 < v \<and> v < 0x80"
proof -
  let ?n = "be_value (encodeUint v)"
  have v: "unat v < 2 ^ 64" using unsigned_less [of v, where ?'a = nat] by simp
  have "stoull 16 (hexUint v) = Inr v \<longleftrightarrow> ?n < 2 ^ 64 \<and> word_of_nat ?n = v"
    unfolding hexUint_def stoull_toHex [OF encodeUint_not_Nil] by simp
  also have "\<dots> \<longleftrightarrow> ?n = unat v"
  proof
    assume a: "?n < 2 ^ 64 \<and> word_of_nat ?n = v"
    then show "?n = unat v" using unat_u64_of_nat [of ?n] by simp
  qed (use v in simp)
  finally show ?thesis using be_value_encodeUint by simp
qed

end
