(* ===== verification/Cpp_Strings.thy ===== *)
theory Cpp_Strings
  imports Gambit_Prelude
begin

text \<open>
  The searching operations of \<open>std::string\<close> that the sources use: \<open>find\<close>, \<open>find_first_of\<close>, \<open>find_first_not_of\<close> from a position,
  with \<open>None\<close> for \<open>npos\<close>, and \<open>substr\<close> from a position inside the string; also \<open>std::getline\<close> with a separator and the
  words \<open>operator>>\<close> reads.
\<close>

section \<open>Definitions\<close>

definition str_find :: "string \<Rightarrow> string \<Rightarrow> nat \<Rightarrow> nat option" where
  "str_find pat s pos = find (\<lambda>i. take (length pat) (drop i s) = pat) [pos..<length s + 1 - length pat]"

definition find_first_of :: "string \<Rightarrow> string \<Rightarrow> nat \<Rightarrow> nat option" where
  "find_first_of cs s pos = find (\<lambda>i. s ! i \<in> set cs) [pos..<length s]"

definition find_first_not_of :: "string \<Rightarrow> string \<Rightarrow> nat \<Rightarrow> nat option" where
  "find_first_not_of cs s pos = find (\<lambda>i. s ! i \<notin> set cs) [pos..<length s]"

definition substr :: "string \<Rightarrow> nat \<Rightarrow> nat \<Rightarrow> string" where
  "substr s pos n = take n (drop pos s)"

text \<open>\<open>while (std::getline(ss, part, sep))\<close>: the parts between separators; a separator at the very end starts no further part.\<close>

function getlines :: "char \<Rightarrow> string \<Rightarrow> string list" where
  "getlines sep [] = []"
| "getlines sep (c # cs) =
     takeWhile (\<lambda>d. d \<noteq> sep) (c # cs) # getlines sep (drop 1 (dropWhile (\<lambda>d. d \<noteq> sep) (c # cs)))"
  by pat_completeness auto

termination
proof (relation "measure (length \<circ> snd)")
  fix sep c and cs :: string
  have "length (dropWhile (\<lambda>d. d \<noteq> sep) (c # cs)) \<le> length (c # cs)" by (rule length_dropWhile_le)
  then show "((sep, drop 1 (dropWhile (\<lambda>d. d \<noteq> sep) (c # cs))), sep, c # cs) \<in> measure (length \<circ> snd)" by simp
qed simp

declare getlines.simps [simp del]

section \<open>Searching\<close>

lemma find_upt_Some:
  "find P [a..<b] = Some i \<longleftrightarrow> a \<le> i \<and> i < b \<and> P i \<and> (\<forall>j. a \<le> j \<and> j < i \<longrightarrow> \<not> P j)"
proof -
  have nth: "\<And>k. k < b - a \<Longrightarrow> [a..<b] ! k = a + k" by simp
  show ?thesis
  proof
    assume "find P [a..<b] = Some i"
    then obtain k where k: "k < b - a" "P (a + k)" "i = a + k" "\<forall>j<k. \<not> P ([a..<b] ! j)"
      by (auto simp: find_Some_iff)
    have "\<not> P j" if "a \<le> j" "j < i" for j
      using k(4) that k(1,3) nth [of "j - a"] by (metis add_less_imp_less_left le_add_diff_inverse less_trans)
    with k show "a \<le> i \<and> i < b \<and> P i \<and> (\<forall>j. a \<le> j \<and> j < i \<longrightarrow> \<not> P j)" by simp
  next
    assume "a \<le> i \<and> i < b \<and> P i \<and> (\<forall>j. a \<le> j \<and> j < i \<longrightarrow> \<not> P j)"
    then show "find P [a..<b] = Some i"
      by (auto simp: find_Some_iff intro!: exI [of _ "i - a"])
  qed
qed

lemma str_find_bounds:
  "str_find pat s pos = Some i \<Longrightarrow> pos \<le> i \<and> i + length pat \<le> length s \<and> take (length pat) (drop i s) = pat"
  unfolding str_find_def find_upt_Some by linarith

text \<open>The occurrence of \<open>pat\<close> after \<open>a\<close> is the first one.\<close>

definition first_after :: "string \<Rightarrow> string \<Rightarrow> string \<Rightarrow> bool" where
  "first_after a pat b \<longleftrightarrow> list_all (\<lambda>j. take (length pat) (drop j (a @ pat @ b)) \<noteq> pat) [0..<length a]"

lemma str_find_first: "first_after a pat b \<Longrightarrow> str_find pat (a @ pat @ b) 0 = Some (length a)"
  unfolding str_find_def find_upt_Some first_after_def by (simp add: list_all_iff)

lemma take_one_drop: "i < length s \<Longrightarrow> take (Suc 0) (drop i s) = [s ! i]"
  by (metis Cons_nth_drop_Suc take_Suc_Cons take_0)

lemma str_find_single: "str_find [c] s pos = find (\<lambda>i. s ! i = c) [pos..<length s]"
  unfolding str_find_def by (rule find_cong) (auto simp: take_one_drop)

lemma str_find_char:
  assumes "c \<notin> set a"
  shows "str_find [c] (pre @ a @ c # b) (length pre) = Some (length pre + length a)"
proof -
  have "(pre @ a @ c # b) ! j \<noteq> c" if "length pre \<le> j" "j < length pre + length a" for j
    using that assms nth_mem [of "j - length pre" a] by (auto simp: nth_append)
  then show ?thesis unfolding str_find_single find_upt_Some by (simp add: nth_append)
qed

lemma str_find_char_none: "c \<notin> set b \<Longrightarrow> str_find [c] (pre @ b) (length pre) = None"
  by (auto simp: str_find_single find_None_iff nth_append)

lemma substr_middle: "substr (pre @ v @ post) (length pre) (length v) = v"
  by (simp add: substr_def)

section \<open>Splitting\<close>

lemma getlines_last: "sep \<notin> set p \<Longrightarrow> p \<noteq> [] \<Longrightarrow> getlines sep p = [p]"
proof -
  assume a: "sep \<notin> set p" "p \<noteq> []"
  then have "takeWhile (\<lambda>d. d \<noteq> sep) p = p" "dropWhile (\<lambda>d. d \<noteq> sep) p = []"
    by (auto simp: takeWhile_eq_all_conv dropWhile_eq_Nil_conv)
  with a(2) show ?thesis by (cases p) (simp_all add: getlines.simps)
qed

lemma getlines_part: "sep \<notin> set p \<Longrightarrow> getlines sep (p @ sep # s) = p # getlines sep s"
proof -
  assume a: "sep \<notin> set p"
  then have "takeWhile (\<lambda>d. d \<noteq> sep) (p @ sep # s) = p" "dropWhile (\<lambda>d. d \<noteq> sep) (p @ sep # s) = sep # s"
    by (induction p) auto
  then show ?thesis by (cases p) (simp_all add: getlines.simps)
qed

end
