(* ===== verification/Rpc_Text.thy ===== *)
theory Rpc_Text
  imports Rpc Cpp_Strings
begin

text \<open>
  The hand-written JSON text helpers at the end of \<open>src/src/rpc_server.cpp\<close>. They search the raw text for a key and cut the value out;
  the dispatcher has moved to a JSON library, so no request reaches them any more. A position that is not found
  ends a helper with its default answer.
\<close>

section \<open>Definitions\<close>

definition dquote :: string where
  "dquote = [CHR 0x22]"

definition unquote :: "string \<Rightarrow> string" where
  "unquote v = (if v \<noteq> [] \<and> hd v = CHR 0x22 \<and> last v = CHR 0x22 then substr v 1 (length v - 2) else v)"

text \<open>The value between the colon at or after a position and the next comma or brace, blanks skipped.\<close>

definition bareValue :: "string \<Rightarrow> nat \<Rightarrow> string option" where
  "bareValue json pos =
     (case str_find '':'' json pos of None \<Rightarrow> None | Some pos \<Rightarrow>
      (case find_first_not_of ('' '' @ [CHR 0x09, CHR 0x0A, CHR 0x0D]) json (pos + 1) of None \<Rightarrow> None | Some start \<Rightarrow>
       let endp = (case find_first_of '',}'' json start of None \<Rightarrow> length json | Some e \<Rightarrow> e)
       in Some (substr json start (endp - start))))"

definition jsonExtractStringParam :: "string \<Rightarrow> string \<Rightarrow> string" where
  "jsonExtractStringParam json key =
     (case str_find (quoted key) json 0 of
        Some pos \<Rightarrow>
          (case str_find '':'' json pos of None \<Rightarrow> [] | Some pos \<Rightarrow>
           (case str_find dquote json pos of None \<Rightarrow> [] | Some pos \<Rightarrow>
            (case str_find dquote json (pos + 1) of None \<Rightarrow> [] | Some endp \<Rightarrow>
               substr json (pos + 1) (endp - pos - 1))))
      | None \<Rightarrow>
          (case str_find (key @ '':'') json 0 of None \<Rightarrow> [] | Some pos \<Rightarrow>
           (case bareValue json pos of None \<Rightarrow> [] | Some v \<Rightarrow> unquote v)))"

definition jsonExtractId :: "string \<Rightarrow> string" where
  "jsonExtractId json =
     (case str_find (quoted ''id'') json 0 of
        Some pos \<Rightarrow> (case bareValue json pos of None \<Rightarrow> ''null'' | Some v \<Rightarrow> unquote v)
      | None \<Rightarrow>
          (case str_find ''id:'' json 0 of None \<Rightarrow> ''null'' | Some pos \<Rightarrow>
           (case bareValue json pos of None \<Rightarrow> ''null'' | Some v \<Rightarrow> v)))"

definition jsonExtractMethod :: "string \<Rightarrow> string" where
  "jsonExtractMethod json = jsonExtractStringParam json ''method''"

text \<open>The endless loop over quoted strings; each round moves beyond a closing quote, so it ends with the text.\<close>

function paramLoop :: "string \<Rightarrow> nat \<Rightarrow> nat \<Rightarrow> nat \<Rightarrow> string" where
  "paramLoop json index currentIndex pos =
     (case str_find dquote json (pos + 1) of None \<Rightarrow> [] | Some pos \<Rightarrow>
      (case str_find dquote json (pos + 1) of None \<Rightarrow> [] | Some endp \<Rightarrow>
       if currentIndex = index then substr json (pos + 1) (endp - pos - 1)
       else paramLoop json index (currentIndex + 1) (endp + 1)))"
  by pat_completeness auto

termination
  by (relation "measure (\<lambda>(json, index, currentIndex, pos). length json - pos)")
    (auto dest!: str_find_bounds)

declare paramLoop.simps [simp del]

definition jsonExtractParamByIndex :: "string \<Rightarrow> nat \<Rightarrow> string" where
  "jsonExtractParamByIndex json index =
     (case str_find (quoted ''params'') json 0 of None \<Rightarrow> [] | Some pos \<Rightarrow>
      (case str_find ''['' json pos of None \<Rightarrow> [] | Some pos \<Rightarrow> paramLoop json index 0 pos))"

definition jsonExtractObjectParams :: "string \<Rightarrow> (string \<times> string) list" where
  "jsonExtractObjectParams json = []"

definition hasParam :: "string \<Rightarrow> nat \<Rightarrow> bool" where
  "hasParam json index =
     (case str_find (quoted ''params'') json 0 of None \<Rightarrow> False | Some pos \<Rightarrow>
      (case str_find ''['' json pos of None \<Rightarrow> False | Some arrStart \<Rightarrow>
       (case str_find '']'' json arrStart of None \<Rightarrow> False | Some arrEnd \<Rightarrow>
         length (filter (\<lambda>i. json ! i = CHR '','') [arrStart + 1..<arrEnd]) \<ge> index)))"

section \<open>Cutting out a parameter\<close>

lemma paramLoop_step:
  assumes "CHR 0x22 \<notin> set sep" "CHR 0x22 \<notin> set v" "pre \<noteq> []"
  shows "paramLoop (pre @ sep @ quoted v @ rest) i n (length pre - 1) =
    (if n = i then v else paramLoop (pre @ sep @ quoted v @ rest) i (n + 1) (length (pre @ sep @ quoted v)))"
proof -
  let ?s = "pre @ sep @ quoted v @ rest"
  have 1: "str_find dquote ?s (length pre - 1 + 1) = Some (length pre + length sep)"
    using str_find_char [OF assms(1), of pre "v @ [CHR 0x22] @ rest"] assms(3) by (simp add: dquote_def quoted_def)
  have 2: "str_find dquote ?s (length pre + length sep + 1) = Some (length pre + length sep + 1 + length v)"
    using str_find_char [OF assms(2), of "pre @ sep @ [CHR 0x22]" rest] by (simp add: dquote_def quoted_def)
  have 3: "substr ?s (length pre + length sep + 1) (length v) = v"
    using substr_middle [of "pre @ sep @ [CHR 0x22]" v "CHR 0x22 # rest"] by (simp add: quoted_def)
  show ?thesis
    unfolding paramLoop.simps [of ?s i n "length pre - 1"] 1 option.case 2 using 3 by (simp add: quoted_def add.assoc)
qed

fun params_text :: "string list \<Rightarrow> string" where
  "params_text [] = []"
| "params_text [v] = quoted v"
| "params_text (v # w # vs) = quoted v @ '','' @ params_text (w # vs)"

lemma paramLoop_params:
  assumes "list_all (\<lambda>v. CHR 0x22 \<notin> set v) vs" "k < length vs" "pre \<noteq> []" "CHR 0x22 \<notin> set sep"
  shows "paramLoop (pre @ sep @ params_text vs @ post) (n + k) n (length pre - 1) = vs ! k"
  using assms
proof (induction vs arbitrary: pre sep n k rule: params_text.induct)
  case (2 v)
  then show ?case using paramLoop_step [of sep v pre post "n + k" n] by simp
next
  case (3 v w vs)
  let ?rest = "params_text (w # vs) @ post"
  have step: "paramLoop (pre @ sep @ quoted v @ '','' @ ?rest) (n + k) n (length pre - 1) =
    (if k = 0 then v else paramLoop (pre @ sep @ quoted v @ '','' @ ?rest) (n + k) (n + 1) (length (pre @ sep @ quoted v)))"
    using paramLoop_step [of sep v pre "'','' @ ?rest" "n + k" n] 3(2,4,5) by simp
  show ?case
  proof (cases k)
    case 0
    then show ?thesis using step by simp
  next
    case (Suc j)
    have "paramLoop ((pre @ sep @ quoted v @ '','') @ [] @ params_text (w # vs) @ post) (n + 1 + j) (n + 1)
        (length (pre @ sep @ quoted v @ '','') - 1) = (w # vs) ! j"
      using 3(2,3) Suc by (intro "3.IH") auto
    then show ?thesis using step Suc by simp
  qed
qed simp

section \<open>Properties\<close>

text \<open>
  The text helpers (src/rpc_server.cpp:453-595) on a request in the layout they expect: the method is cut out exactly when it is the first
  occurrence of its key and has no quote in it, and the parameter with a given index is the string at that index.
\<close>

theorem json_text_helpers:
  assumes "first_after pre (quoted ''method'') ('':'' @ quoted m @ mid)"
    and "CHR 0x22 \<notin> set m"
    and "first_after pre2 (quoted ''params'') ('':['' @ params_text vs @ post)"
    and "list_all (\<lambda>v. CHR 0x22 \<notin> set v) vs" and "k < length vs"
  shows "jsonExtractMethod (pre @ quoted ''method'' @ '':'' @ quoted m @ mid) = m \<and>
    jsonExtractParamByIndex (pre2 @ quoted ''params'' @ '':['' @ params_text vs @ post) k = vs ! k"
proof
  let ?s = "pre @ quoted ''method'' @ '':'' @ quoted m @ mid"
  have 1: "str_find (quoted ''method'') ?s 0 = Some (length pre)"
    using assms(1) by (rule str_find_first)
  have 2: "str_find '':'' ?s (length pre) = Some (length pre + 8)"
    using str_find_char [of "CHR '':''" "quoted ''method''" pre "quoted m @ mid"] by (simp add: quoted_def)
  have 3: "str_find dquote ?s (length pre + 8) = Some (length pre + 9)"
    using str_find_char [of "CHR 0x22" "'':''" "pre @ quoted ''method''" "m @ CHR 0x22 # mid"]
    by (simp add: quoted_def dquote_def eval_nat_numeral)
  have 4: "str_find dquote ?s (length pre + 9 + 1) = Some (length pre + 10 + length m)"
    using str_find_char [OF assms(2), of "pre @ quoted ''method'' @ '':'' @ dquote" mid] by (simp add: quoted_def dquote_def eval_nat_numeral)
  have "substr ?s (length pre + 9 + 1) (length m) = m"
    using substr_middle [of "pre @ quoted ''method'' @ '':'' @ dquote" m "CHR 0x22 # mid"] by (simp add: quoted_def dquote_def eval_nat_numeral)
  then show "jsonExtractMethod ?s = m"
    unfolding jsonExtractMethod_def jsonExtractStringParam_def 1 option.case 2 3 4 by simp
next
  let ?s = "pre2 @ quoted ''params'' @ '':['' @ params_text vs @ post"
  have 1: "str_find (quoted ''params'') ?s 0 = Some (length pre2)"
    using assms(3) by (rule str_find_first)
  have 2: "str_find ''['' ?s (length pre2) = Some (length pre2 + 9)"
    using str_find_char [of "CHR ''[''" "quoted ''params'' @ '':''" pre2 "params_text vs @ post"] by (simp add: quoted_def eval_nat_numeral)
  have "paramLoop ((pre2 @ quoted ''params'' @ '':['') @ [] @ params_text vs @ post) (0 + k) 0
      (length (pre2 @ quoted ''params'' @ '':['') - 1) = vs ! k"
    using assms(4,5) by (intro paramLoop_params) (simp_all add: quoted_def)
  then show "jsonExtractParamByIndex ?s k = vs ! k"
    unfolding jsonExtractParamByIndex_def 1 option.case 2 by (simp add: quoted_def eval_nat_numeral)
qed

theorem json_text_helpers_witness:
  "jsonExtractMethod (quoted ''method'' @ '':'' @ quoted ''eth_blockNumber'' @ ''}'') = ''eth_blockNumber'' \<and>
   jsonExtractParamByIndex (quoted ''params'' @ '':['' @ params_text [''0xa'', ''latest''] @ '']'') 1 = ''latest''"
  using json_text_helpers [of "[]" "''eth_blockNumber''" "''}''" "[]" "[''0xa'', ''latest'']" "'']''" 1] by (simp add: first_after_def)

text \<open>An empty parameter list has a parameter number 0 for \<open>hasParam\<close>, which counts commas.\<close>

lemma hasParam_empty: "hasParam (quoted ''params'' @ '':[]}'') 0"
  by code_simp

end
