(* ===== verification/Rpc_Server.thy ===== *)
theory Rpc_Server
  imports Rpc_Text "HOL-Library.Multiset"
begin

text \<open>
  The life of the RPC server: \<open>src/src/rpc_server.cpp\<close>, \<open>start\<close>, \<open>stop\<close>, \<open>acceptLoop\<close> and \<open>handleClient\<close>. The answers of the operating system (the
  new socket, whether \<open>bind\<close> and \<open>listen\<close> succeed, the accepted connection, the bytes of the one \<open>recv\<close>) are arguments. The accept thread is the
  flag that it can be joined; the detached client threads are the list of connections still to be served, and a run interleaves them
  with the server's own calls and with the other threads that use the chain.
\<close>

section \<open>The server object\<close>

record RpcServer =
  rs_port :: u16
  rs_listenSock :: int
  rs_joinable :: bool
  rs_running :: bool

definition newRpcServer :: "u16 \<Rightarrow> RpcServer" where
  "newRpcServer port = \<lparr> rs_port = port, rs_listenSock = -1, rs_joinable = False, rs_running = False \<rparr>"

text \<open>Assigning a new thread over one that can still be joined calls \<open>std::terminate\<close>.\<close>

definition rpcStart :: "int \<Rightarrow> bool \<Rightarrow> bool \<Rightarrow> RpcServer \<Rightarrow> RpcServer surviving" where
  "rpcStart sock bindOk listenOk srv =
     (let srv = srv \<lparr> rs_running := True, rs_listenSock := sock \<rparr> in
      if \<not> bindOk then Alive srv
      else if \<not> listenOk then Alive srv
      else if rs_joinable srv then Terminated
      else Alive (srv \<lparr> rs_joinable := True \<rparr>))"

definition rpcStop :: "RpcServer \<Rightarrow> RpcServer \<times> int list" where
  "rpcStop srv =
     (let srv = srv \<lparr> rs_running := False \<rparr>;
          (srv, closed) = (if rs_listenSock srv \<ge> 0 then (srv \<lparr> rs_listenSock := -1 \<rparr>, [rs_listenSock srv]) else (srv, []));
          srv = (if rs_joinable srv then srv \<lparr> rs_joinable := False \<rparr> else srv)
      in (srv, closed))"

definition bufSize :: nat where
  "bufSize = 8192"

text \<open>
  One client: \<open>recv\<close> fills at most the buffer with what has arrived, or fails; the socket is closed on both paths. The first component is
  the response that is sent.
\<close>

definition handleClient :: "json_lib \<Rightarrow> secp256k1 \<Rightarrow> string option \<Rightarrow> Blockchain \<Rightarrow> string option \<times> Blockchain" where
  "handleClient J S arrived bc =
     (case arrived of
        None \<Rightarrow> (None, bc)
      | Some s \<Rightarrow>
          let buf = take bufSize s in
          if length buf \<le> 0 then (None, bc)
          else let (resp, bc) = handleRequest J S buf bc in (Some resp, bc))"

text \<open>One turn of the accept loop: a failed \<open>accept\<close> is retried, a connection gets its own detached thread.\<close>

definition acceptTurn :: "int \<Rightarrow> RpcServer \<Rightarrow> int list \<Rightarrow> int list" where
  "acceptTurn fd srv clients = (if \<not> rs_running srv \<or> fd < 0 then clients else clients @ [fd])"

section \<open>Runs\<close>

record rpc_state =
  sv_server :: RpcServer
  sv_chain :: Blockchain
  sv_clients :: "int list"
  sv_accepted :: "int list"
  sv_closed :: "int list"
  sv_sent :: "(int \<times> string) list"

definition rpcInitial :: "u16 \<Rightarrow> Blockchain \<Rightarrow> rpc_state" where
  "rpcInitial port bc = \<lparr> sv_server = newRpcServer port, sv_chain = bc, sv_clients = [], sv_accepted = [], sv_closed = [], sv_sent = [] \<rparr>"

datatype rpc_event = Start int bool bool | Stop | Accept int | Client int "string option" | Elsewhere

inductive rpc_step :: "json_lib \<Rightarrow> secp256k1 \<Rightarrow> rpc_state \<Rightarrow> rpc_event \<Rightarrow> rpc_state \<Rightarrow> bool" for J S where
  start: "rpcStart sock b l (sv_server st) = Alive srv \<Longrightarrow> rpc_step J S st (Start sock b l) (st \<lparr> sv_server := srv \<rparr>)"
| stop: "rpcStop (sv_server st) = (srv, closed) \<Longrightarrow> rpc_step J S st Stop (st \<lparr> sv_server := srv \<rparr>)"
| accept: "rs_joinable (sv_server st) \<Longrightarrow> acceptTurn fd (sv_server st) (sv_clients st) = sv_clients st @ new \<Longrightarrow>
    rpc_step J S st (Accept fd) (st \<lparr> sv_clients := sv_clients st @ new, sv_accepted := sv_accepted st @ new \<rparr>)"
| client: "fd \<in> set (sv_clients st) \<Longrightarrow> handleClient J S arrived (sv_chain st) = (resp, bc) \<Longrightarrow>
    rpc_step J S st (Client fd arrived) (st \<lparr> sv_chain := bc, sv_clients := remove1 fd (sv_clients st),
      sv_sent := sv_sent st @ (case resp of None \<Rightarrow> [] | Some r \<Rightarrow> [(fd, r)]), sv_closed := sv_closed st @ [fd] \<rparr>)"
| elsewhere: "chain_step (sv_chain st) bc \<Longrightarrow> rpc_step J S st Elsewhere (st \<lparr> sv_chain := bc \<rparr>)"

inductive_cases rpc_stepE: "rpc_step J S st e st'"

inductive rpc_run :: "json_lib \<Rightarrow> secp256k1 \<Rightarrow> rpc_state \<Rightarrow> rpc_event list \<Rightarrow> rpc_state \<Rightarrow> bool" for J S where
  none: "rpc_run J S st [] st"
| more: "rpc_step J S st e st' \<Longrightarrow> rpc_run J S st' es st'' \<Longrightarrow> rpc_run J S st (e # es) st''"

section \<open>Facts\<close>

lemma handleClient_effect: "handleClient J S arrived bc = (resp, bc') \<Longrightarrow> rpc_effect S bc bc'"
  using rpc_effect_handleRequest [of S bc J]
  by (auto simp: handleClient_def Let_def case_prod_unfold split: option.splits if_splits)

lemma handleClient_response:
  "handleClient J S arrived bc = (Some r, bc') \<Longrightarrow> \<exists>body. r = httpResponse body ''200 OK''"
  using handleRequest_response [of J S _ bc]
  by (fastforce simp: handleClient_def Let_def case_prod_unfold split: option.splits if_splits)

text \<open>The invariant of a run: connections are conserved, answered at most once, and the chain is one the program can reach.\<close>

definition rpc_inv :: "GenesisConfig \<Rightarrow> rpc_state \<Rightarrow> bool" where
  "rpc_inv genesis st \<longleftrightarrow> reachable genesis (sv_chain st) \<and> mset (sv_accepted st) = mset (sv_clients st) + mset (sv_closed st) \<and>
     mset (map fst (sv_sent st)) \<subseteq># mset (sv_closed st) \<and>
     list_all (\<lambda>(fd, r). \<exists>body. r = httpResponse body ''200 OK'' \<and> bodyOf r = Some body) (sv_sent st)"

lemma subseteq_add: "A \<subseteq># B \<Longrightarrow> A \<subseteq># add_mset x B"
  by (metis add_mset_add_single mset_subset_eq_add_left subset_mset.order_trans)

lemma rpc_step_inv:
  assumes "rpc_step J S st e st'" and "rpc_inv genesis st"
  shows "rpc_inv genesis st'"
  using assms(1)
proof cases
  case (client fd arrived resp bc)
  have "reachable genesis bc" using rpc_effect_step [OF handleClient_effect [OF client(4)]] assms(2)
    by (auto simp: rpc_inv_def intro: reachable.step)
  moreover have "mset (remove1 fd (sv_clients st)) + add_mset fd (mset (sv_closed st)) = mset (sv_clients st) + mset (sv_closed st)"
    using client(3) by simp
  ultimately show ?thesis
    using assms(2) handleClient_response [of J S arrived "sv_chain st"] client(4)
    by (auto simp: client(2) rpc_inv_def bodyOf_httpResponse subseteq_add split: option.splits)
qed (use assms(2) in \<open>auto simp: rpc_inv_def intro: reachable.step\<close>)

lemma rpc_run_inv: "rpc_run J S st es st' \<Longrightarrow> rpc_inv genesis st \<Longrightarrow> rpc_inv genesis st'"
  by (induction rule: rpc_run.induct) (auto intro: rpc_step_inv)

definition is_start :: "rpc_event \<Rightarrow> bool" where
  "is_start e = (case e of Start _ _ _ \<Rightarrow> True | _ \<Rightarrow> False)"

lemma run_without_thread:
  "rpc_run J S st es st' \<Longrightarrow> \<not> rs_joinable (sv_server st) \<Longrightarrow> list_all (\<lambda>e. \<not> is_start e) es \<Longrightarrow> sv_accepted st' = sv_accepted st"
proof (induction rule: rpc_run.induct)
  case (more st e st' es st'')
  then have "sv_accepted st' = sv_accepted st" "\<not> rs_joinable (sv_server st')"
    by (auto elim!: rpc_stepE simp: is_start_def rpcStop_def Let_def split: if_splits)
  with more show ?case by simp
qed simp

lemma stop_joins: "rpcStop srv = (srv', closed) \<Longrightarrow> \<not> rs_joinable srv' \<and> \<not> rs_running srv' \<and> rs_listenSock srv' < 0"
  by (auto simp: rpcStop_def Let_def split: if_splits)

section \<open>Properties\<close>



text \<open>
  Calling \<open>start\<close> on a server that is already listening (src/rpc_server.cpp:35-73): if \<open>bind\<close> succeeds the program is terminated, as a thread
  is assigned over a running one; otherwise the old listening socket is forgotten, and the next \<open>stop\<close> closes the new one only.
\<close>

lemma rpc_start_twice:
  assumes "rs_joinable srv"
  shows "rpcStart sock True True srv = Terminated"
    and "0 \<le> sock \<Longrightarrow> \<exists>srv'. rpcStart sock False l srv = Alive srv' \<and> snd (rpcStop srv') = [sock]"
  using assms by (simp_all add: rpcStart_def rpcStop_def Let_def)

end
