(* ===== verification/Seeder.thy ===== *)
theory Seeder
  imports Keys
begin

unbundle bit_operations_syntax

text \<open>
  \<open>src/src/zk_seeder.cpp\<close>, \<open>zk_seeder_client.cpp\<close>: the peer registry of a seeder and the client that proves its identity with a
  signature over its record. The clock readings \<open>now\<close> (server) and \<open>ts\<close> (client) are arguments; of the chain
  the service holds it reads only the chain id.
\<close>

section \<open>Definitions\<close>

record PeerInfo =
  pi_nodeId :: address
  pi_ip :: string
  pi_port :: u16
  pi_lastSeen :: u64
  pi_score :: u64

text \<open>The message both sides serialise: node id, ip text, two bytes of port, eight of \<open>lastSeen\<close>.\<close>

definition seederMsg :: "PeerInfo \<Rightarrow> bytes" where
  "seederMsg peer = pi_nodeId peer @ bytes_of_string (pi_ip peer) @
     [ucast (drop_bit 8 (pi_port peer)), ucast (pi_port peer AND 0xFF)] @
     map (\<lambda>i. ucast (drop_bit (8 * i) (pi_lastSeen peer) AND 0xFF)) [7, 6, 5, 4, 3, 2, 1, 0]"

text \<open>\<open>verifyProof\<close> returns the value of \<open>err\<close> when it returns false.\<close>

definition verifyProof :: "secp256k1 \<Rightarrow> u64 \<Rightarrow> PeerInfo \<Rightarrow> bytes \<Rightarrow> string option" where
  "verifyProof S chainId peer proof =
     (let msgHash = keccak256_32 (seederMsg peer) in
      if length proof \<noteq> 65 then Some ''Invalid proof size''
      else
        let sig = \<lparr> sig_r = take 32 proof, sig_s = take 32 (drop 32 proof), sig_v = proof ! 64 \<rparr> in
        (case recoverAddress S msgHash sig chainId of
           Inl e \<Rightarrow> Some (exn_what e)
         | Inr recovered \<Rightarrow> if recovered \<noteq> pi_nodeId peer then Some ''Proof does not match nodeId'' else None))"

fun upsertPeer :: "PeerInfo \<Rightarrow> PeerInfo list \<Rightarrow> PeerInfo list" where
  "upsertPeer p [] = [p]"
| "upsertPeer p (x # xs) = (if pi_nodeId x = pi_nodeId p then p # xs else x # upsertPeer p xs)"

definition registerPeer :: "secp256k1 \<Rightarrow> u64 \<Rightarrow> u64 \<Rightarrow> PeerInfo \<Rightarrow> bytes \<Rightarrow> PeerInfo list \<Rightarrow> string option \<times> PeerInfo list" where
  "registerPeer S chainId now peer proof peers =
     (let p = peer \<lparr> pi_lastSeen := now \<rparr> in
      case verifyProof S chainId p proof of
        Some err \<Rightarrow> (Some err, peers)
      | None \<Rightarrow> (None, upsertPeer p peers))"

definition getPeers :: "nat \<Rightarrow> PeerInfo list \<Rightarrow> PeerInfo list" where
  "getPeers limit peers = (if length peers > limit then take limit peers else peers)"

definition getRecordFor :: "address \<Rightarrow> PeerInfo list \<Rightarrow> PeerInfo option" where
  "getRecordFor nodeId peers = find (\<lambda>x. pi_nodeId x = nodeId) peers"

definition buildSeederProof :: "secp256k1 \<Rightarrow> KeyPair \<Rightarrow> PeerInfo \<Rightarrow> u64 \<Rightarrow> u64 \<Rightarrow> (bytes \<times> PeerInfo) result" where
  "buildSeederProof S key peer chainId ts =
     bindR (keyAddress key) (\<lambda>addrFromKey.
     if pi_nodeId peer \<noteq> zeroAddress \<and> pi_nodeId peer \<noteq> addrFromKey
     then Inl (Runtime_error ''buildSeederProof: peer.nodeId does not match key'')
     else
       let peer = peer \<lparr> pi_nodeId := addrFromKey, pi_lastSeen := ts \<rparr>;
           msgHash = keccak256_32 (seederMsg peer) in
       bindR (sign S key msgHash chainId) (\<lambda>sig.
       if length (sig_r sig) \<noteq> 32 \<or> length (sig_s sig) \<noteq> 32
       then Inl (Runtime_error ''buildSeederProof: signer produced invalid r/s size'')
       else Inr (sig_r sig @ sig_s sig @ [sig_v sig], peer)))"

section \<open>The registry\<close>

lemma find_upsertPeer:
  "find (\<lambda>x. pi_nodeId x = n) (upsertPeer p peers) = (if n = pi_nodeId p then Some p else find (\<lambda>x. pi_nodeId x = n) peers)"
  by (induction p peers rule: upsertPeer.induct) auto

lemma nodeIds_upsertPeer:
  "map pi_nodeId (upsertPeer p peers) =
   (if pi_nodeId p \<in> set (map pi_nodeId peers) then map pi_nodeId peers else map pi_nodeId peers @ [pi_nodeId p])"
  by (induction p peers rule: upsertPeer.induct) auto

lemma distinct_upsertPeer: "distinct (map pi_nodeId peers) \<Longrightarrow> distinct (map pi_nodeId (upsertPeer p peers))"
  by (simp add: nodeIds_upsertPeer del: set_map)

section \<open>The signed message\<close>

lemma byte_of_u64_eq:
  assumes "\<And>i. i < 8 \<Longrightarrow> (ucast (drop_bit (8 * i) v AND 0xFF) :: byte) = ucast (drop_bit (8 * i) w AND 0xFF)"
  shows "(v :: u64) = w"
proof (rule bit_word_eqI)
  fix n
  assume "n < LENGTH(64)"
  then have n: "n div 8 < 8" by simp
  have ff: "bit (0xFF :: int) k \<longleftrightarrow> k < 8" for k
    using bit_mask_iff [of 8 k, where ?'a = int] by (simp add: mask_eq_exp_minus_1)
  have "bit (ucast (drop_bit (8 * (n div 8)) x AND 0xFF) :: byte) (n mod 8) = bit x n" for x :: u64
    using mod_less_divisor [of 8 n] by (simp add: bit_ucast_iff bit_and_iff bit_drop_bit_eq ff less_trans [of _ 8 64])
  with assms [OF n] show "bit v n = bit w n" by metis
qed

lemma seederMsg_lastSeen:
  "seederMsg (p \<lparr> pi_lastSeen := s \<rparr>) = seederMsg (p \<lparr> pi_lastSeen := t \<rparr>) \<longleftrightarrow> s = t"
proof
  assume eq: "seederMsg (p \<lparr> pi_lastSeen := s \<rparr>) = seederMsg (p \<lparr> pi_lastSeen := t \<rparr>)"
  show "s = t"
  proof (rule byte_of_u64_eq)
    fix i :: nat
    assume "i < 8"
    then consider "i = 0" | "i = 1" | "i = 2" | "i = 3" | "i = 4" | "i = 5" | "i = 6" | "i = 7" by linarith
    then show "(ucast (drop_bit (8 * i) s AND 0xFF) :: byte) = ucast (drop_bit (8 * i) t AND 0xFF)"
      using eq by cases (simp_all add: seederMsg_def)
  qed
qed simp

lemma buildSeederProof_InrE:
  assumes "buildSeederProof S key peer chainId ts = Inr (proof, p)"
  obtains a sig where "keyAddress key = Inr a" "p = peer \<lparr> pi_nodeId := a, pi_lastSeen := ts \<rparr>"
    "sign S key (keccak256_32 (seederMsg p)) chainId = Inr sig" "length (sig_r sig) = 32" "length (sig_s sig) = 32"
    "proof = sig_r sig @ sig_s sig @ [sig_v sig]"
  using assms by (auto simp: buildSeederProof_def bindR_Inr_iff Let_def split: if_splits)

lemma verifyProof_built:
  assumes key: "valid_key S key" and lib: "serialize_65 S" "compact_format S" "recover_signed S"
    and built: "buildSeederProof S key peer chainId ts = Inr (proof, p)"
  shows "verifyProof S chainId p proof =
    (if unat (proof ! 64) < 2 then None else Some ''recoverAddress: unsupported v'')"
  using built
proof (rule buildSeederProof_InrE)
  fix a sig
  assume s: "keyAddress key = Inr a" "p = peer \<lparr> pi_nodeId := a, pi_lastSeen := ts \<rparr>"
    "sign S key (keccak256_32 (seederMsg p)) chainId = Inr sig" "length (sig_r sig) = 32" "length (sig_s sig) = 32"
    "proof = sig_r sig @ sig_s sig @ [sig_v sig]"
  have "\<lparr> sig_r = take 32 proof, sig_s = take 32 (drop 32 proof), sig_v = proof ! 64 \<rparr> = sig"
    using s(4-6) by (simp add: nth_append)
  moreover have "proof ! 64 = sig_v sig" "length proof = 65" using s(4-6) by (simp_all add: nth_append)
  moreover have "pi_nodeId p = a" using s(2) by simp
  ultimately show ?thesis
    using recoverAddress_signed [OF key lib s(3), of chainId] s(1) by (simp add: verifyProof_def Let_def)
qed

section \<open>Properties\<close>


lemma plain_seeder_proof:
  "\<exists>proof p. buildSeederProof plain_secp \<lparr> kp_priv = replicate 32 1, kp_pub = replicate 64 1 \<rparr>
     \<lparr> pi_nodeId = zeroAddress, pi_ip = ''10.0.0.1'', pi_port = 30303, pi_lastSeen = 0, pi_score = 0 \<rparr> 1 17 = Inr (proof, p) \<and>
     unat (proof ! 64) < 2"
  using keyAddress_valid [OF plain_key plain_secp_ok(1)]
  by (simp add: buildSeederProof_def sign_def plain_secp_def Let_def nth_append)


end
