(* ===== verification/P2p_Node.thy ===== *)
theory P2p_Node
  imports P2p Seeder
begin

text \<open>
  The life of peers and of the node: \<open>src/src/p2p_peer.cpp\<close> (constructor, \<open>start\<close>, \<open>stop\<close>, end of the receive loop), \<open>src/src/p2p_node.cpp\<close>
  (\<open>start\<close>, \<open>connectTo\<close>, \<open>acceptLoop\<close>, \<open>stop\<close>, seeder proof) and \<open>src/src/dns_seed.cpp\<close>. The operating system answers through arguments: the
  resolver maps a domain to its addresses or fails, a connection attempt yields a socket and whether it was
  accepted. \<open>nd_closed\<close> records the sockets handed to \<open>close\<close>, in order. Threads appear as the flag that they can be
  joined.
\<close>

section \<open>DNS seeds\<close>

definition newSeeds :: "string list" where
  "newSeeds = [''seed1.gambitswap.com'', ''seed2.gambitswap.com'', ''seed3.gambitswap.com'']"

definition addSeed :: "string \<Rightarrow> string list \<Rightarrow> string list" where
  "addSeed domain seeds = seeds @ [domain]"

definition resolveAll :: "(string \<Rightarrow> string list option) \<Rightarrow> string list \<Rightarrow> string list" where
  "resolveAll getaddrinfo seeds =
     foldl (\<lambda>results seed. case getaddrinfo seed of None \<Rightarrow> results | Some ips \<Rightarrow> results @ ips) [] seeds"

section \<open>Peers\<close>

record Peer =
  pr_socketFd :: nat
  pr_remoteAddr :: string
  pr_running :: bool
  pr_joinable :: bool

definition newPeer :: "nat \<Rightarrow> string \<Rightarrow> Peer" where
  "newPeer fd addr = \<lparr> pr_socketFd = fd, pr_remoteAddr = addr, pr_running = False, pr_joinable = False \<rparr>"

definition peerStart :: "Peer \<Rightarrow> Peer" where
  "peerStart p = p \<lparr> pr_running := True, pr_joinable := True \<rparr>"

definition peerLoopEnd :: "Peer \<Rightarrow> Peer" where
  "peerLoopEnd p = p \<lparr> pr_running := False \<rparr>"

definition peerStop :: "Peer \<Rightarrow> nat list \<Rightarrow> Peer \<times> nat list" where
  "peerStop p closed =
     (let (p, closed) = (if pr_running p then (p \<lparr> pr_running := False \<rparr>, closed @ [pr_socketFd p]) else (p, closed))
      in (p \<lparr> pr_joinable := False \<rparr>, closed))"

section \<open>The node\<close>

record P2PNode =
  nd_peers :: "Peer list"
  nd_running :: bool
  nd_listenSock :: "nat option"
  nd_closed :: "nat list"

definition newNode :: P2PNode where
  "newNode = \<lparr> nd_peers = [], nd_running = False, nd_listenSock = None, nd_closed = [] \<rparr>"

definition addPeer :: "nat \<Rightarrow> string \<Rightarrow> P2PNode \<Rightarrow> P2PNode" where
  "addPeer fd addr node = node \<lparr> nd_peers := nd_peers node @ [peerStart (newPeer fd addr)] \<rparr>"

definition connectTo :: "string \<Rightarrow> nat \<times> bool \<Rightarrow> P2PNode \<Rightarrow> P2PNode" where
  "connectTo host attempt node =
     (let (fd, connected) = attempt in
      if \<not> connected then node \<lparr> nd_closed := nd_closed node @ [fd] \<rparr>
      else addPeer fd host node)"

text \<open>One iteration of \<open>acceptLoop\<close>; \<open>None\<close> is a failed \<open>accept\<close>.\<close>

definition acceptOne :: "(nat \<times> string) option \<Rightarrow> P2PNode \<Rightarrow> P2PNode" where
  "acceptOne client node = (case client of None \<Rightarrow> node | Some (fd, addr) \<Rightarrow> addPeer fd addr node)"

fun connectAll :: "(string \<times> (nat \<times> bool)) list \<Rightarrow> P2PNode \<Rightarrow> P2PNode" where
  "connectAll [] node = node"
| "connectAll ((ip, attempt) # rest) node = connectAll rest (connectTo ip attempt node)"

text \<open>\<open>attempts\<close> holds the outcomes of the connection attempts in the order in which they are made.\<close>

definition nodeStart :: "(string \<Rightarrow> string list option) \<Rightarrow> (nat \<times> bool) list \<Rightarrow> nat \<Rightarrow> P2PNode \<Rightarrow> P2PNode" where
  "nodeStart getaddrinfo attempts listenFd node =
     (let node = connectAll (zip (resolveAll getaddrinfo newSeeds) attempts) node
      in node \<lparr> nd_running := True, nd_listenSock := Some listenFd \<rparr>)"

fun stopPeers :: "Peer list \<Rightarrow> nat list \<Rightarrow> Peer list \<times> nat list" where
  "stopPeers [] closed = ([], closed)"
| "stopPeers (p # ps) closed =
     (let (p, closed) = peerStop p closed; (ps, closed) = stopPeers ps closed in (p # ps, closed))"

definition nodeStop :: "P2PNode \<Rightarrow> P2PNode" where
  "nodeStop node =
     (let closed = nd_closed node @ (case nd_listenSock node of None \<Rightarrow> [] | Some fd \<Rightarrow> [fd]);
          (ps, closed) = stopPeers (nd_peers node) closed
      in node \<lparr> nd_running := False, nd_peers := ps, nd_closed := closed \<rparr>)"

definition myNodeId :: "KeyPair \<Rightarrow> address result" where
  "myNodeId key = keyAddress key"

definition nodeSeederProof :: "secp256k1 \<Rightarrow> KeyPair \<Rightarrow> PeerInfo \<Rightarrow> Blockchain \<Rightarrow> u64 \<Rightarrow> (bytes \<times> PeerInfo) result" where
  "nodeSeederProof S key peer bc ts = buildSeederProof S key peer (bc_chainId bc) ts"

section \<open>Runs of a node\<close>

text \<open>Between start and stop: connections in both directions and receive loops that end.\<close>

inductive node_step :: "P2PNode \<Rightarrow> P2PNode \<Rightarrow> bool" where
  connect: "node_step node (connectTo host attempt node)"
| accept: "nd_running node \<Longrightarrow> node_step node (acceptOne client node)"
| peer_end: "i < length (nd_peers node) \<Longrightarrow>
    node_step node (node \<lparr> nd_peers := (nd_peers node)[i := peerLoopEnd (nd_peers node ! i)] \<rparr>)"

inductive_cases node_stepE: "node_step node node'"

inductive node_run :: "P2PNode \<Rightarrow> P2PNode \<Rightarrow> bool" for node where
  refl: "node_run node node"
| step: "node_run node node' \<Longrightarrow> node_step node' node'' \<Longrightarrow> node_run node node''"

definition fds :: "P2PNode \<Rightarrow> nat list" where
  "fds node = map pr_socketFd (nd_peers node)"

lemma map_update_same: "f y = f (xs ! i) \<Longrightarrow> map f (xs[i := y]) = map f xs"
  by (simp add: map_update) (metis list_update_beyond list_update_id not_le nth_map length_map)

lemma node_step_peers: "node_step node node' \<Longrightarrow> \<exists>new. fds node' = fds node @ new"
  by (erule node_stepE)
    (auto simp: fds_def connectTo_def acceptOne_def addPeer_def peerLoopEnd_def map_update_same split: option.split prod.split)

lemma node_run_peers: "node_run node node' \<Longrightarrow> \<exists>new. fds node' = fds node @ new"
proof (induction rule: node_run.induct)
  case (step node' node'')
  then show ?case using node_step_peers [of node' node''] by force
qed simp

lemma stopPeers_eq:
  "stopPeers ps closed = (map (\<lambda>p. p \<lparr> pr_running := False, pr_joinable := False \<rparr>) ps,
     closed @ map pr_socketFd (filter pr_running ps))"
  by (induction ps arbitrary: closed) (auto simp: peerStop_def Let_def)

lemma connectAll_eq:
  "nd_peers (connectAll cs node) =
     nd_peers node @ map (\<lambda>(ip, fd, _). peerStart (newPeer fd ip)) (filter (\<lambda>(ip, fd, ok). ok) cs)"
  "nd_closed (connectAll cs node) = nd_closed node @ map (\<lambda>(ip, fd, _). fd) (filter (\<lambda>(ip, fd, ok). \<not> ok) cs)"
  by (induction cs arbitrary: node) (auto simp: connectTo_def addPeer_def)

lemma resolveAll_concat:
  "resolveAll getaddrinfo seeds = concat (map (\<lambda>s. case getaddrinfo s of None \<Rightarrow> [] | Some ips \<Rightarrow> ips) seeds)"
proof -
  have "foldl (\<lambda>results seed. case getaddrinfo seed of None \<Rightarrow> results | Some ips \<Rightarrow> results @ ips) acc seeds =
    acc @ concat (map (\<lambda>s. case getaddrinfo s of None \<Rightarrow> [] | Some ips \<Rightarrow> ips) seeds)" for acc
    by (induction seeds arbitrary: acc) (auto split: option.split)
  then show ?thesis by (simp add: resolveAll_def)
qed

section \<open>Properties\<close>

text \<open>
  Peers and sockets (src/p2p_peer.cpp:34-42, src/p2p_node.cpp:76-93): whatever connects, is accepted or hangs up after a node was started, no peer ever leaves
  its list. \<open>stop\<close> ends every peer, but closes exactly the listening socket and the sockets of the peers whose receive
  loop still runs: a peer that hung up has cleared its flag, so its socket is never closed by anyone.
\<close>

theorem node_stop_leaks_sockets:
  assumes "node_run (nodeStart getaddrinfo attempts listenFd newNode) node"
  shows "(\<exists>new. fds node = fds (nodeStart getaddrinfo attempts listenFd newNode) @ new) \<and> fds (nodeStop node) = fds node \<and>
    list_all (\<lambda>p. \<not> pr_running p \<and> \<not> pr_joinable p) (nd_peers (nodeStop node)) \<and>
    (\<exists>listen. nd_closed (nodeStop node) = nd_closed node @ listen @ map pr_socketFd (filter pr_running (nd_peers node)) \<and>
       listen = (case nd_listenSock node of None \<Rightarrow> [] | Some fd \<Rightarrow> [fd]))"
  using node_run_peers [OF assms] by (simp add: nodeStop_def stopPeers_eq Let_def fds_def list_all_iff)

theorem node_stop_leaks_sockets_witness:
  "nd_closed (nodeStop ((nodeStart (\<lambda>s. if s = ''seed1.gambitswap.com'' then Some [''10.0.0.1'', ''10.0.0.2''] else None)
       [(4, True), (5, True)] 6 newNode) \<lparr> nd_peers := [peerLoopEnd (peerStart (newPeer 4 ''10.0.0.1'')), peerStart (newPeer 5 ''10.0.0.2'')] \<rparr>))
   = [6, 5]"
proof -
  let ?dns = "\<lambda>s. if s = ''seed1.gambitswap.com'' then Some [''10.0.0.1'', ''10.0.0.2''] else None"
  let ?node = "nodeStart ?dns [(4, True), (5, True)] 6 newNode"
  have start: "nd_peers ?node = [peerStart (newPeer 4 ''10.0.0.1''), peerStart (newPeer 5 ''10.0.0.2'')]"
    "nd_closed ?node = []" "nd_listenSock ?node = Some 6"
    by (simp_all add: nodeStart_def resolveAll_concat newSeeds_def connectTo_def addPeer_def newNode_def)
  let ?node' = "?node \<lparr> nd_peers := (nd_peers ?node)[0 := peerLoopEnd (nd_peers ?node ! 0)] \<rparr>"
  have "node_run ?node ?node'" by (intro node_run.step [OF node_run.refl] peer_end) (simp add: start(1))
  from node_stop_leaks_sockets [OF this] show ?thesis
    by (simp add: start peerLoopEnd_def peerStart_def newPeer_def)
qed

text \<open>
  Start-up (src/p2p_node.cpp:32-64, src/dns_seed.cpp): with a resolver that answers for some seeds, the node tries all resolved addresses in the order of the
  seeds, skipping seeds that fail; exactly the attempts that succeed become running peers, in order, and exactly the
  sockets of the others are closed.
\<close>

theorem node_start_peers:
  assumes "length attempts = length ips"
    and "ips = concat (map (\<lambda>s. case getaddrinfo s of None \<Rightarrow> [] | Some as \<Rightarrow> as) newSeeds)"
  shows "nd_peers (nodeStart getaddrinfo attempts listenFd newNode) =
      map (\<lambda>(ip, fd, _). peerStart (newPeer fd ip)) (filter (\<lambda>(ip, fd, ok). ok) (zip ips attempts)) \<and>
    nd_closed (nodeStart getaddrinfo attempts listenFd newNode) = map fst (filter (\<lambda>(fd, ok). \<not> ok) attempts)"
proof -
  have "map (\<lambda>(ip, fd, _). fd) (filter (\<lambda>(ip, fd, ok). \<not> ok) (zip is as)) = map fst (filter (\<lambda>(fd, ok). \<not> ok) as)"
    if "length as = length is" for "is" :: "string list" and as :: "(nat \<times> bool) list"
    using that by (induction "is" as rule: list_induct2') auto
  then show ?thesis
    using assms by (simp add: nodeStart_def resolveAll_concat connectAll_eq newNode_def)
qed

theorem node_start_peers_witness:
  "nd_closed (nodeStart (\<lambda>s. if s = ''seed2.gambitswap.com'' then Some [''10.0.0.1'', ''10.0.0.2''] else None)
     [(4, False), (5, True)] 6 newNode) = [4]"
  using node_start_peers [of "[(4, False), (5, True)]" "[''10.0.0.1'', ''10.0.0.2'']"
      "\<lambda>s. if s = ''seed2.gambitswap.com'' then Some [''10.0.0.1'', ''10.0.0.2''] else None" 6]
  by (simp add: newSeeds_def)

end
