(* ===== verification/Node_Main.thy ===== *)
theory Node_Main
  imports P2p_Node Cpp_Numbers
begin

text \<open>
  \<open>src/app/main.cpp\<close>: the configuration, the command line, the genesis with its developer key, and the loop that mines a requested
  number of blocks. The program's outcome is the value of its main thread: an exit code, the wallet dialogue, an uncaught
  exception, or the running node it leaves for the network threads. The clock is a function of the number of readings;
  the sockets of the connected peers are an argument. Banners and status output are left out.
\<close>

section \<open>Command line\<close>

record NodeConfig =
  enableP2P :: bool
  enableRPC :: bool
  enableMining :: bool
  enableWallet :: bool
  mineBlocks :: u32
  p2pPort :: u16
  rpcPort :: u16
  cfg_chainId :: u64
  premineAmount :: u64

definition defaultConfig :: NodeConfig where
  "defaultConfig = \<lparr> enableP2P = True, enableRPC = False, enableMining = False, enableWallet = False, mineBlocks = 0,
     p2pPort = 30303, rpcPort = 8545, cfg_chainId = 1337, premineAmount = 1000000 \<rparr>"

text \<open>\<open>arg.rfind(pre, 0) == 0\<close> with the rest of the argument.\<close>

definition afterPrefix :: "string \<Rightarrow> string \<Rightarrow> string option" where
  "afterPrefix pre arg = (if take (length pre) arg = pre then Some (drop (length pre) arg) else None)"

definition parsePort :: "string \<Rightarrow> u16 option" where
  "parsePort s = (case stoi s of Inl e \<Rightarrow> None
     | Inr port \<Rightarrow> if port < 1 \<or> port > 65535 then None else Some (word_of_int port))"

definition parseBlocks :: "string \<Rightarrow> u32 option" where
  "parseBlocks s = (case stoi s of Inl e \<Rightarrow> None | Inr num \<Rightarrow> if num < 1 then None else Some (word_of_int num))"

definition parseArg :: "string \<Rightarrow> NodeConfig \<Rightarrow> NodeConfig option" where
  "parseArg arg config =
     (if arg = ''--help'' \<or> arg = ''-h'' then None
      else if arg = ''--no-p2p'' then Some (config \<lparr> enableP2P := False \<rparr>)
      else if arg = ''--enable-rpc'' then Some (config \<lparr> enableRPC := True \<rparr>)
      else if arg = ''--auto-mining'' then Some (config \<lparr> enableMining := True \<rparr>)
      else case afterPrefix ''--mine-blocks='' arg of
        Some s \<Rightarrow> map_option (\<lambda>n. config \<lparr> mineBlocks := n \<rparr>) (parseBlocks s)
      | None \<Rightarrow> (case afterPrefix ''--p2p-port='' arg of
        Some s \<Rightarrow> map_option (\<lambda>n. config \<lparr> p2pPort := n \<rparr>) (parsePort s)
      | None \<Rightarrow> (case afterPrefix ''--rpc-port='' arg of
        Some s \<Rightarrow> map_option (\<lambda>n. config \<lparr> rpcPort := n \<rparr>) (parsePort s)
      | None \<Rightarrow> (case afterPrefix ''--chain-id='' arg of
        Some s \<Rightarrow> (case stoull 10 s of Inl e \<Rightarrow> None | Inr n \<Rightarrow> Some (config \<lparr> cfg_chainId := n \<rparr>))
      | None \<Rightarrow> if arg = ''--wallet'' then Some (config \<lparr> enableWallet := True \<rparr>) else None))))"

fun parseArgs :: "string list \<Rightarrow> NodeConfig \<Rightarrow> NodeConfig option" where
  "parseArgs [] config = Some config"
| "parseArgs (arg # args) config = (case parseArg arg config of None \<Rightarrow> None | Some config \<Rightarrow> parseArgs args config)"

section \<open>The main thread\<close>

definition devPrivKey :: bytes where
  "devPrivKey = [0xac, 0x09, 0x74, 0xbe, 0xc3, 0x9a, 0x17, 0xe3, 0x6b, 0xa4, 0xa6, 0xb4, 0xd2, 0x38, 0xff, 0x94,
     0x4b, 0xac, 0xb4, 0x78, 0xcb, 0xed, 0x5e, 0xfc, 0xae, 0x78, 0x4d, 0x7b, 0xf4, 0xf2, 0xff, 0x80]"

definition devGenesis :: "NodeConfig \<Rightarrow> address \<Rightarrow> GenesisConfig" where
  "devGenesis config coinbase =
     \<lparr> premine = [\<lparr> ga_address = coinbase, ga_balance = premineAmount config \<rparr>], gen_chainId = cfg_chainId config \<rparr>"

fun mineRequested :: "nat \<Rightarrow> nat \<Rightarrow> (nat \<Rightarrow> u64) \<Rightarrow> (Block \<Rightarrow> (nat \<times> bytes) list result) \<Rightarrow> Blockchain \<Rightarrow>
    (nat \<times> bytes) list result \<times> Blockchain" where
  "mineRequested 0 i clock announce bc = (Inr [], bc)"
| "mineRequested (Suc n) i clock announce bc =
     (case mineBlock (clock i) bc of
        (Inl e, bc) \<Rightarrow> (Inl e, bc)
      | (Inr block, bc) \<Rightarrow>
          (case announce block of
             Inl e \<Rightarrow> (Inl e, bc)
           | Inr sent \<Rightarrow>
               (case mineRequested n (i + 1) clock announce bc of
                  (Inl e, bc) \<Rightarrow> (Inl e, bc)
                | (Inr later, bc) \<Rightarrow> (Inr (sent @ later), bc))))"

datatype outcome = Exit_code nat | Wallet_dialogue | Uncaught exn | Node_running NodeConfig Blockchain "(nat \<times> bytes) list"

text \<open>\<open>clock\<close> gives the reading of the genesis block and then of each mined block.\<close>

definition nodeMain :: "secp256k1 \<Rightarrow> string list \<Rightarrow> (nat \<Rightarrow> u64) \<Rightarrow> nat list \<Rightarrow> outcome" where
  "nodeMain S args clock peers =
     (case parseArgs args defaultConfig of
        None \<Rightarrow> Exit_code 1
      | Some config \<Rightarrow>
          if enableWallet config then Wallet_dialogue
          else case bindR (fromPrivateKey32 S devPrivKey) keyAddress of
            Inl e \<Rightarrow> Uncaught e
          | Inr coinbase \<Rightarrow>
              (case newBlockchain (clock 0) (devGenesis config coinbase) of
                 Inl e \<Rightarrow> Uncaught e
               | Inr chain \<Rightarrow>
                   let announce = (\<lambda>block. if enableP2P config then broadcastNewBlock block peers else Inr []) in
                   (case mineRequested (unat (mineBlocks config)) 1 clock announce chain of
                      (Inl e, chain) \<Rightarrow> Uncaught e
                    | (Inr sent, chain) \<Rightarrow> Node_running config chain sent)))"

section \<open>Options\<close>

lemma afterPrefix_append [simp]: "afterPrefix pre (pre @ s) = Some s"
  by (simp add: afterPrefix_def)

lemma stoi_dec_nat: "n < 2 ^ 31 \<Longrightarrow> stoi (dec_nat n) = Inr (int n)"
  using scan_digits [of 10 "dec_nat n"] dec_nat_is_digits [of n] by (simp add: stoi_base_def)

lemma parsePort_dec_nat: "0 < p \<Longrightarrow> parsePort (dec_nat (unat p)) = Some p"
proof -
  assume "0 < p"
  then have "0 < unat p" "unat p < 65536" using unsigned_less [of p, where ?'a = nat] by (simp_all add: unat_gt_0)
  moreover have "uint p = int (unat p)" by simp
  ultimately have "\<not> uint p < 1" "\<not> 65535 < uint p" by linarith+
  then show ?thesis using stoi_dec_nat [of "unat p"] \<open>unat p < 65536\<close> by (simp add: parsePort_def)
qed

lemma parseBlocks_dec_nat: "0 < n \<Longrightarrow> unat n < 2 ^ 31 \<Longrightarrow> parseBlocks (dec_nat (unat n)) = Some n"
proof -
  assume n: "0 < n" "unat n < 2 ^ 31"
  then have "0 < unat n" by (simp add: unat_gt_0)
  moreover have "uint n = int (unat n)" by simp
  ultimately have "\<not> uint n < 1" by linarith
  then show ?thesis using stoi_dec_nat [OF n(2)] by (simp add: parseBlocks_def)
qed

lemma parseArg_numbers:
  "parseArg (''--mine-blocks='' @ s) c = map_option (\<lambda>n. c \<lparr> mineBlocks := n \<rparr>) (parseBlocks s)"
  "parseArg (''--p2p-port='' @ s) c = map_option (\<lambda>n. c \<lparr> p2pPort := n \<rparr>) (parsePort s)"
  "parseArg (''--rpc-port='' @ s) c = map_option (\<lambda>n. c \<lparr> rpcPort := n \<rparr>) (parsePort s)"
  "parseArg (''--chain-id='' @ s) c = (case stoull 10 s of Inl e \<Rightarrow> None | Inr n \<Rightarrow> Some (c \<lparr> cfg_chainId := n \<rparr>))"
  by (simp_all add: parseArg_def afterPrefix_def)

text \<open>A configuration as a command line.\<close>

definition config_args :: "NodeConfig \<Rightarrow> string list" where
  "config_args c =
     (if enableP2P c then [] else [''--no-p2p'']) @ (if enableRPC c then [''--enable-rpc''] else []) @
     (if enableMining c then [''--auto-mining''] else []) @ (if enableWallet c then [''--wallet''] else []) @
     (if mineBlocks c = 0 then [] else [''--mine-blocks='' @ dec_nat (unat (mineBlocks c))]) @
     [''--p2p-port='' @ dec_nat (unat (p2pPort c)), ''--rpc-port='' @ dec_nat (unat (rpcPort c)),
      ''--chain-id='' @ to_string (cfg_chainId c)]"

lemma parseArgs_append:
  "parseArgs (as @ bs) c = (case parseArgs as c of None \<Rightarrow> None | Some c \<Rightarrow> parseArgs bs c)"
  by (induction as arbitrary: c) (auto split: option.split)

definition config_ok :: "NodeConfig \<Rightarrow> bool" where
  "config_ok c \<longleftrightarrow> 0 < p2pPort c \<and> 0 < rpcPort c \<and> unat (mineBlocks c) < 2 ^ 31 \<and> premineAmount c = 1000000"

lemma parsePort_pos: "parsePort s = Some p \<Longrightarrow> 0 < p"
proof (cases "stoi s")
  case (Inr i)
  assume "parsePort s = Some p"
  then have i: "1 \<le> i" "i \<le> 65535" "p = word_of_int i" using Inr by (auto simp: parsePort_def split: if_splits)
  then have "uint p = i" by (simp add: uint_word_of_int)
  with i(1) show "0 < p" by (auto simp: word_gt_0)
qed (simp add: parsePort_def)

lemma stoi_bound: "stoi s = Inr i \<Longrightarrow> i < 2 ^ 31"
  by (auto simp: stoi_base_def bindR_Inr_iff Let_def split: if_splits)

lemma parseBlocks_bound: "parseBlocks s = Some n \<Longrightarrow> unat n < 2 ^ 31"
proof (cases "stoi s")
  case (Inr i)
  assume "parseBlocks s = Some n"
  then have i: "1 \<le> i" "n = word_of_int i" using Inr by (auto simp: parseBlocks_def split: if_splits)
  then have "uint n = i" using stoi_bound [OF Inr] by (simp add: uint_word_of_int)
  then have "int (unat n) < int (2 ^ 31)" using stoi_bound [OF Inr] by simp
  then show "unat n < 2 ^ 31" by (simp only: of_nat_less_iff)
qed (simp add: parseBlocks_def)

lemma parseArg_ok: "parseArg arg c = Some c' \<Longrightarrow> config_ok c \<Longrightarrow> config_ok c'"
  by (auto simp: parseArg_def config_ok_def dest: parsePort_pos parseBlocks_bound split: if_splits option.splits sum.splits)

lemma parseArgs_ok: "parseArgs args c = Some c' \<Longrightarrow> config_ok c \<Longrightarrow> config_ok c'"
  by (induction args arbitrary: c) (auto dest: parseArg_ok split: option.splits)

lemma config_ok_default: "config_ok defaultConfig"
  by (simp add: config_ok_def defaultConfig_def)

lemma parse_config_args:
  assumes "config_ok c"
  shows "parseArgs (config_args c) defaultConfig = Some c"
proof -
  have ports: "0 < p2pPort c" "0 < rpcPort c" "unat (mineBlocks c) < 2 ^ 31" "premineAmount c = 1000000"
    using assms by (simp_all add: config_ok_def)
  define f where "f = (if enableP2P c then [] else [''--no-p2p'']) @ (if enableRPC c then [''--enable-rpc''] else []) @
     (if enableMining c then [''--auto-mining''] else []) @ (if enableWallet c then [''--wallet''] else [])"
  have flags: "parseArgs f defaultConfig = Some (defaultConfig \<lparr> enableP2P := enableP2P c, enableRPC := enableRPC c,
      enableMining := enableMining c, enableWallet := enableWallet c \<rparr>)"
    by (simp add: f_def parseArg_def afterPrefix_def defaultConfig_def)
  have blocks: "parseArgs (if mineBlocks c = 0 then [] else [''--mine-blocks='' @ dec_nat (unat (mineBlocks c))]) d =
      Some (d \<lparr> mineBlocks := (if mineBlocks c = 0 then mineBlocks d else mineBlocks c) \<rparr>)" for d
    using parseBlocks_dec_nat [OF _ ports(3)] by (simp add: parseArg_numbers word_gt_0 del: append_Cons append_Nil)
  have "config_args c = f @ (if mineBlocks c = 0 then [] else [''--mine-blocks='' @ dec_nat (unat (mineBlocks c))]) @
     [''--p2p-port='' @ dec_nat (unat (p2pPort c)), ''--rpc-port='' @ dec_nat (unat (rpcPort c)),
      ''--chain-id='' @ to_string (cfg_chainId c)]"
    by (simp only: config_args_def f_def append_assoc)
  then show ?thesis
    by (simp only: parseArgs_append flags blocks option.case parseArgs.simps parseArg_numbers
        parsePort_dec_nat [OF ports(1)] parsePort_dec_nat [OF ports(2)] option.map stoull_to_string sum.case)
      (cases c, use ports in \<open>simp add: defaultConfig_def\<close>)
qed

section \<open>Mining from an empty mempool\<close>

lemma mineBlock_empty_mempool:
  assumes "reachable genesis bc" "ok_genesis genesis" "bc_mempool bc = []"
  obtains b where "mineBlock now bc = (Inr b, bc \<lparr> bc_chain := bc_chain bc @ [b] \<rparr>)" "blk_transactions b = []" "blk_receipts b = []"
proof -
  from reachableD [OF assms(1,2)] show thesis
  proof (cases rule: mineBlock_cases [of bc now])
    case (ok before after)
    then show thesis using assms(3) by (intro that [of "mined_block now bc before after"]) simp_all
  qed (use assms(3) in simp)
qed

lemma broadcast_plain_block: "blk_receipts b = [] \<Longrightarrow> \<exists>sent. broadcastNewBlock b peers = Inr sent"
  by (simp add: broadcastNewBlock_def newBlockMessage_def blockToHex_def blockEncode_def)

lemma mineRequested_empty:
  assumes "reachable genesis bc" "ok_genesis genesis" "bc_mempool bc = []"
    and "\<And>b. blk_receipts b = [] \<Longrightarrow> \<exists>sent. announce b = Inr sent"
  shows "\<exists>sent bs. mineRequested n i clock announce bc = (Inr sent, bc \<lparr> bc_chain := bc_chain bc @ bs \<rparr>) \<and> length bs = n \<and>
    list_all (\<lambda>b. blk_transactions b = []) bs \<and> reachable genesis (bc \<lparr> bc_chain := bc_chain bc @ bs \<rparr>)"
  using assms
proof (induction n arbitrary: i bc)
  case 0
  then show ?case by (intro exI [of _ "[]"]) simp
next
  case (Suc n)
  obtain b where b: "mineBlock (clock i) bc = (Inr b, bc \<lparr> bc_chain := bc_chain bc @ [b] \<rparr>)" "blk_transactions b = []"
    "blk_receipts b = []"
    using mineBlock_empty_mempool [OF Suc.prems(1-3)] by metis
  let ?bc = "bc \<lparr> bc_chain := bc_chain bc @ [b] \<rparr>"
  have r: "reachable genesis ?bc" using Suc.prems(1) chain_step.mine [of bc "clock i"] b(1) by (auto intro: reachable.step)
  obtain sent where sent: "announce b = Inr sent" using Suc.prems(4) b(3) by blast
  from Suc.IH [OF r Suc.prems(2), of "i + 1"] Suc.prems(3,4) obtain later bs where
    bs: "mineRequested n (i + 1) clock announce ?bc = (Inr later, ?bc \<lparr> bc_chain := bc_chain ?bc @ bs \<rparr>)" "length bs = n"
      "list_all (\<lambda>b. blk_transactions b = []) bs" "reachable genesis (?bc \<lparr> bc_chain := bc_chain ?bc @ bs \<rparr>)"
    by auto
  then show ?case using b sent by (intro exI [of _ "sent @ later"] exI [of _ "b # bs"]) simp
qed

lemma view_devGenesis: "view (genesisState (devGenesis c a)) a = \<lparr> acc_balance = premineAmount c, acc_nonce = 0 \<rparr>"
  by (simp add: genesisState_def devGenesis_def view_def accAt_def)

lemma ok_devGenesis: "is_address a \<Longrightarrow> ok_genesis (devGenesis c a)"
  using unsigned_less [of "premineAmount c", where ?'a = nat] by (simp add: ok_genesis_def devGenesis_def)

lemma newBlockchain_ok:
  assumes "ok_genesis genesis"
  obtains bc where "newBlockchain now genesis = Inr bc" "bc_mempool bc = []" "length (bc_chain bc) = 1"
    "bc_state bc = genesisState genesis" "bc_chainId bc = gen_chainId genesis" "list_all (\<lambda>b. blk_transactions b = []) (bc_chain bc)"
proof -
  obtain root where "stateRoot (genesisState genesis) = Inr root"
    using assms wf_genesisState [of genesis] stateRoot_wf by (auto simp: ok_genesis_def)
  then show thesis
    by (intro that [of "\<lparr> bc_chain = [newBlock now 0 ''0x00'' root root ''0x00'' (zkGenerate root root ''0x00'')],
        bc_state = genesisState genesis, bc_mempool = [], bc_chainId = gen_chainId genesis \<rparr>"])
      (simp_all add: newBlockchain_def Let_def newBlock_def emptyBlock_def)
qed

section \<open>Properties\<close>

text \<open>
  The command line (src/app/main.cpp): every configuration with non-zero ports, fewer than \<open>2 ^ 31\<close> blocks to mine and the built-in premine can be
  requested by a command line, which parses to exactly that configuration; and no command line produces any other: ports
  outside 1 to 65535 and block counts below 1 are refused.
\<close>

theorem node_args_exact: "(\<exists>args. parseArgs args defaultConfig = Some c) \<longleftrightarrow> config_ok c"
  using parse_config_args parseArgs_ok config_ok_default by blast



end
