(* ===== verification/Vm.thy ===== *)
theory Vm
  imports Ledger
begin

text \<open>
  \<open>src/include/gambit/vm.hpp\<close>, \<open>vms.hpp\<close>, \<open>src/src/vm_registry.cpp\<close>, \<open>vm_plugin_loader.cpp\<close>, \<open>zkvm_plugin.cpp\<close>: the registry of virtual machines by contract type, and the
  loader of plugins from a directory. A \<open>ContractType\<close> is the byte the enumeration is stored in; a pointer is an
  optional machine. The dynamic linker and the file system answer through arguments. The registry keeps its machines
  twice, in the owning map and in the table of raw pointers read without the lock; the registry is an interpretation of
  the store interface with the agreement of the two as its invariant.
\<close>

section \<open>Machines\<close>

type_synonym ContractType = byte

definition PLUGIN_BASE :: ContractType where
  "PLUGIN_BASE = 128"

datatype IVM = EvmVM | WasmVM | CoreVM | ZkVM | Plugin_VM string ContractType

fun vmName :: "IVM \<Rightarrow> string" where
  "vmName EvmVM = ''EVM''"
| "vmName WasmVM = ''WASM''"
| "vmName CoreVM = ''CORE''"
| "vmName ZkVM = ''ZKVM''"
| "vmName (Plugin_VM n t) = n"

fun vmType :: "IVM \<Rightarrow> ContractType" where
  "vmType EvmVM = 0"
| "vmType WasmVM = 1"
| "vmType CoreVM = 2"
| "vmType ZkVM = PLUGIN_BASE + 0"
| "vmType (Plugin_VM n t) = t"

section \<open>Registry\<close>

record VMRegistry =
  vr_table :: "IVM option list"
  vr_storage :: "(ContractType \<times> IVM option) list"

definition newRegistry :: VMRegistry where
  "newRegistry = \<lparr> vr_table = replicate 256 None, vr_storage = [] \<rparr>"

fun storePut :: "ContractType \<Rightarrow> IVM option \<Rightarrow> (ContractType \<times> IVM option) list \<Rightarrow> (ContractType \<times> IVM option) list" where
  "storePut key vm [] = [(key, vm)]"
| "storePut key vm ((k, v) # st) = (if k = key then (k, vm) # st else (k, v) # storePut key vm st)"

definition registerVM :: "ContractType \<Rightarrow> IVM option \<Rightarrow> VMRegistry \<Rightarrow> VMRegistry" where
  "registerVM key vm reg =
     (let storage = storePut key vm (vr_storage reg);
          stored = (case map_of storage key of None \<Rightarrow> None | Some v \<Rightarrow> v)
      in reg \<lparr> vr_storage := storage, vr_table := (vr_table reg)[unat key := stored] \<rparr>)"

definition vmGet :: "ContractType \<Rightarrow> VMRegistry \<Rightarrow> IVM option" where
  "vmGet t reg = vr_table reg ! unat t"

definition vmHas :: "ContractType \<Rightarrow> VMRegistry \<Rightarrow> bool" where
  "vmHas t reg \<longleftrightarrow> vmGet t reg \<noteq> None"

section \<open>Plugins\<close>

text \<open>
  A shared library as the loader sees it: the function \<open>gambit_register_vm\<close>, if exported, which changes the registry and reports
  success.
\<close>

type_synonym plugin = "(VMRegistry \<Rightarrow> bool \<times> VMRegistry) option"

datatype load_report = Failed_to_load | Missing_symbol | Registration_failed | Loaded

definition gambit_register_vm :: "VMRegistry \<Rightarrow> bool \<times> VMRegistry" where
  "gambit_register_vm registry = (True, registerVM (PLUGIN_BASE + 0) (Some ZkVM) registry)"

definition loadPlugin :: "(string \<Rightarrow> plugin option) \<Rightarrow> string \<Rightarrow> VMRegistry \<Rightarrow> load_report \<times> VMRegistry" where
  "loadPlugin dlopen path reg =
     (case dlopen path of
        None \<Rightarrow> (Failed_to_load, reg)
      | Some None \<Rightarrow> (Missing_symbol, reg)
      | Some (Some fn) \<Rightarrow> (case fn reg of (ok, reg) \<Rightarrow> (if ok then Loaded else Registration_failed, reg)))"

definition isPluginFile :: "(string \<Rightarrow> bool) \<Rightarrow> string \<Rightarrow> string \<Rightarrow> bool" where
  "isPluginFile regular dir name \<longleftrightarrow>
     (let path = dir @ ''/'' @ name in
      name \<noteq> ''.'' \<and> name \<noteq> ''..'' \<and> regular path \<and> length path \<ge> 3 \<and> drop (length path - 3) path = ''.so'')"

fun loadEntries :: "(string \<Rightarrow> plugin option) \<Rightarrow> (string \<Rightarrow> bool) \<Rightarrow> string \<Rightarrow> string list \<Rightarrow> VMRegistry \<Rightarrow>
    (string \<times> load_report) list \<times> VMRegistry" where
  "loadEntries dlopen regular dir [] reg = ([], reg)"
| "loadEntries dlopen regular dir (name # names) reg =
     (if isPluginFile regular dir name
      then case loadPlugin dlopen (dir @ ''/'' @ name) reg of
          (r, reg) \<Rightarrow> (case loadEntries dlopen regular dir names reg of (rs, reg) \<Rightarrow> ((dir @ ''/'' @ name, r) # rs, reg))
      else loadEntries dlopen regular dir names reg)"

definition loadFromDirectory :: "(string \<Rightarrow> string list option) \<Rightarrow> (string \<Rightarrow> plugin option) \<Rightarrow> (string \<Rightarrow> bool) \<Rightarrow> string \<Rightarrow>
    VMRegistry \<Rightarrow> (string \<times> load_report) list \<times> VMRegistry" where
  "loadFromDirectory readdir dlopen regular dir reg =
     (case readdir dir of None \<Rightarrow> ([], reg) | Some names \<Rightarrow> loadEntries dlopen regular dir names reg)"

section \<open>The registry as a store\<close>

definition vr_inv :: "VMRegistry \<Rightarrow> bool" where
  "vr_inv reg \<longleftrightarrow> length (vr_table reg) = 256 \<and> distinct (map fst (vr_storage reg)) \<and>
     (\<forall>t. vmGet t reg = (case map_of (vr_storage reg) t of None \<Rightarrow> None | Some v \<Rightarrow> v))"

lemma map_of_storePut: "map_of (storePut key vm st) = (map_of st)(key \<mapsto> vm)"
  by (induction key vm st rule: storePut.induct) auto

lemma keys_storePut: "fst ` set (storePut key vm st) = insert key (fst ` set st)"
  by (induction key vm st rule: storePut.induct) auto

lemma distinct_storePut: "distinct (map fst st) \<Longrightarrow> distinct (map fst (storePut key vm st))"
  by (induction key vm st rule: storePut.induct) (auto simp: keys_storePut)

lemma vmGet_registerVM: "vr_inv reg \<Longrightarrow> vmGet t (registerVM key vm reg) = (if t = key then vm else vmGet t reg)"
  by (simp add: vmGet_def registerVM_def Let_def map_of_storePut vr_inv_def nth_list_update)

lemma vr_inv_registerVM:
  assumes "vr_inv reg"
  shows "vr_inv (registerVM key vm reg)"
  using assms vmGet_registerVM [OF assms, of _ key vm]
  by (simp add: vr_inv_def distinct_storePut registerVM_def Let_def map_of_storePut)

lemma vr_inv_newRegistry: "vr_inv newRegistry"
  by (simp add: vr_inv_def newRegistry_def vmGet_def)

interpretation vm_store: kv_store newRegistry "\<lambda>reg k vm. registerVM k (Some vm) reg" "\<lambda>reg t. vmGet t reg" vr_inv
proof
  show "vmGet k newRegistry = None" for k by (simp add: vmGet_def newRegistry_def)
qed (simp_all add: vr_inv_newRegistry vr_inv_registerVM vmGet_registerVM)

definition register_of :: "(string \<Rightarrow> plugin option) \<Rightarrow> string \<Rightarrow> VMRegistry \<Rightarrow> VMRegistry" where
  "register_of dlopen path reg = (case dlopen path of Some (Some fn) \<Rightarrow> snd (fn reg) | _ \<Rightarrow> reg)"

lemma snd_loadPlugin: "snd (loadPlugin dlopen path reg) = register_of dlopen path reg"
  by (auto simp: loadPlugin_def register_of_def split: option.split prod.split)

lemma loadEntries_eq:
  "snd (loadEntries dlopen regular dir names reg) =
     fold (register_of dlopen) (map (\<lambda>n. dir @ ''/'' @ n) (filter (isPluginFile regular dir) names)) reg \<and>
   map fst (fst (loadEntries dlopen regular dir names reg)) =
     map (\<lambda>n. dir @ ''/'' @ n) (filter (isPluginFile regular dir) names)"
proof (induction names arbitrary: reg)
  case (Cons n ns)
  show ?case
  proof (cases "isPluginFile regular dir n")
    case True
    obtain r reg' where l: "loadPlugin dlopen (dir @ ''/'' @ n) reg = (r, reg')" by force
    then have "reg' = register_of dlopen (dir @ ''/'' @ n) reg" by (metis snd_conv snd_loadPlugin)
    then show ?thesis using True l Cons [of reg'] by (auto split: prod.split)
  qed (use Cons in simp)
qed simp

section \<open>Properties\<close>

text \<open>
  The registry (src/vm_registry.cpp): after any sequence of registrations the unlocked table lookup returns the machine registered last for every
  type and null for the others, and agrees with the owning map.
\<close>

theorem vm_registry_is_map:
  "vmGet t (fold (\<lambda>(k, vm) reg. registerVM k (Some vm) reg) kvs newRegistry) = map_of (rev kvs) t \<and>
   vr_inv (fold (\<lambda>(k, vm) reg. registerVM k (Some vm) reg) kvs newRegistry)"
  using vm_store.look_build [of kvs] vm_store.invar_build [OF vr_inv_newRegistry, of kvs] by (simp add: fun_eq_iff)

text \<open>
  The plugin loader (src/vm_plugin_loader.cpp, POSIX branch): of a directory that can be read, exactly the regular files ending in \<open>.so\<close> are tried, in
  directory order; the registry is what their registration functions make of it in that order, files that fail to load
  are skipped. With a single plugin built from zkvm_plugin.cpp the registry then serves type 128 and no other.
\<close>

theorem plugin_loader_order:
  assumes "readdir dir = Some names"
  shows "map fst (fst (loadFromDirectory readdir dlopen regular dir reg)) =
      map (\<lambda>n. dir @ ''/'' @ n) (filter (isPluginFile regular dir) names) \<and>
    snd (loadFromDirectory readdir dlopen regular dir reg) =
      fold (register_of dlopen) (map (\<lambda>n. dir @ ''/'' @ n) (filter (isPluginFile regular dir) names)) reg \<and>
    (\<forall>path t. dlopen path = Some (Some gambit_register_vm) \<longrightarrow>
       vmGet t (register_of dlopen path newRegistry) = (if t = 128 then Some ZkVM else None))"
  using assms loadEntries_eq [of dlopen regular dir names reg]
  by (auto simp: loadFromDirectory_def register_of_def gambit_register_vm_def vmGet_registerVM vr_inv_newRegistry
      PLUGIN_BASE_def vm_store.look_emp)

theorem plugin_loader_order_witness:
  "fst (loadFromDirectory (\<lambda>d. Some [''.'', ''..'', ''zk.so'', ''notes.txt'']) (\<lambda>p. Some (Some gambit_register_vm)) (\<lambda>p. True)
     ''plugins'' newRegistry) = [(''plugins/zk.so'', Loaded)]"
  using plugin_loader_order [of "\<lambda>d. Some [''.'', ''..'', ''zk.so'', ''notes.txt'']" "''plugins''" _
      "\<lambda>p. Some (Some gambit_register_vm)" "\<lambda>p. True" newRegistry]
  by (simp add: isPluginFile_def loadFromDirectory_def loadPlugin_def gambit_register_vm_def)

end
