(* ===== verification/Base64.thy ===== *)
theory Base64
  imports Gambit_Prelude
begin

unbundle bit_operations_syntax

text \<open>
  \<open>base64Encode\<close> and \<open>base64Decode\<close> of \<open>src/src/wallet.cpp\<close>. The accumulator \<open>val\<close> is an \<open>int\<close> of 32 bits that is shifted left for every input
  byte and never reduced: from the fifth byte on the shift overflows, which C++17 leaves undefined and the compilers in use
  define as wrap-around; it is modelled so, with the arithmetic right shift of a signed value. \<open>enc3\<close> is the group-wise
  definition of RFC 4648, to which the encoder is shown equal.
\<close>

section \<open>Definitions\<close>

definition base64_chars :: string where
  "base64_chars = ''ABCDEFGHIJKLMNOPQRSTUVWXYZabcdefghijklmnopqrstuvwxyz0123456789+/''"

definition b64Char :: "32 word \<Rightarrow> char" where
  "b64Char v = base64_chars ! unat (v AND 0x3F)"

fun b64Drain :: "32 word \<Rightarrow> nat \<Rightarrow> string \<Rightarrow> nat \<times> string" where
  "b64Drain val valb ret =
     (if valb \<ge> 6 then b64Drain val (valb - 6) (ret @ [b64Char (signed_drop_bit (valb - 6) val)]) else (valb, ret))"

declare b64Drain.simps [simp del]

fun b64Step :: "32 word \<times> nat \<times> string \<Rightarrow> byte \<Rightarrow> 32 word \<times> nat \<times> string" where
  "b64Step (val, valb, ret) c =
     (let val = push_bit 8 val + ucast c;
          (valb, ret) = b64Drain val (valb + 8) ret
      in (val, valb, ret))"

function b64Pad :: "string \<Rightarrow> string" where
  "b64Pad ret = (if length ret mod 4 \<noteq> 0 then b64Pad (ret @ ''='') else ret)"
  by pat_completeness auto

termination
proof (relation "measure (\<lambda>ret. (4 - length ret mod 4) mod 4)")
  fix ret :: string
  assume "length ret mod 4 \<noteq> 0"
  then consider "length ret mod 4 = 1" | "length ret mod 4 = 2" | "length ret mod 4 = 3" by linarith
  then show "(ret @ ''='', ret) \<in> measure (\<lambda>ret. (4 - length ret mod 4) mod 4)"
    by cases (simp_all add: mod_Suc)
qed simp

declare b64Pad.simps [simp del]

definition base64Encode :: "bytes \<Rightarrow> string" where
  "base64Encode data =
     (let (val, valb, ret) = foldl b64Step (0, 0, []) data;
          ret = (if valb > 0 then ret @ [b64Char (push_bit (6 - valb) val)] else ret)
      in b64Pad ret)"

text \<open>The entry of the table \<open>T\<close> for a character, with \<open>None\<close> for -1.\<close>

definition b64Value :: "char \<Rightarrow> nat option" where
  "b64Value c = find (\<lambda>i. base64_chars ! i = c) [0..<64]"

fun b64DecodeLoop :: "string \<Rightarrow> 32 word \<Rightarrow> nat \<Rightarrow> bytes \<Rightarrow> bytes" where
  "b64DecodeLoop [] val valb ret = ret"
| "b64DecodeLoop (c # cs) val valb ret =
     (case b64Value c of
        None \<Rightarrow> ret
      | Some t \<Rightarrow>
          let val = push_bit 6 val + word_of_nat t; valb = valb + 6 in
          if valb \<ge> 8 then b64DecodeLoop cs val (valb - 8) (ret @ [ucast (signed_drop_bit (valb - 8) val AND 0xFF)])
          else b64DecodeLoop cs val valb ret)"

definition base64Decode :: "string \<Rightarrow> bytes" where
  "base64Decode str = b64DecodeLoop str 0 0 []"

section \<open>The accumulator\<close>

lemma accumulate8: "push_bit 8 (word_of_nat n :: 32 word) + ucast (c :: byte) = word_of_nat (n * 256 + unat c)"
  by (simp add: push_bit_eq_mult mult.commute)

lemma accumulate6: "push_bit 6 (word_of_nat n :: 32 word) + word_of_nat t = word_of_nat (n * 64 + t)"
  by (simp add: push_bit_eq_mult mult.commute)

lemma low_bits_signed_drop:
  assumes "k + m \<le> 32"
  shows "unat (take_bit m (signed_drop_bit k (word_of_nat n :: 32 word))) = n div 2 ^ k mod 2 ^ m"
proof -
  have "take_bit m (signed_drop_bit k (word_of_nat n :: 32 word)) = take_bit m (drop_bit k (word_of_nat n))"
    using assms by (intro bit_word_eqI) (auto simp: bit_take_bit_iff bit_signed_drop_bit_iff bit_drop_bit_eq)
  moreover have "unat (take_bit m (drop_bit k (word_of_nat n :: 32 word))) = take_bit m (drop_bit k (take_bit 32 n))"
    by (simp add: unsigned_take_bit_eq unsigned_drop_bit_eq unsigned_of_nat)
  moreover have "take_bit m (drop_bit k (take_bit 32 n)) = take_bit m (drop_bit k n)"
    using assms by (intro bit_eqI) (auto simp: bit_take_bit_iff bit_drop_bit_eq)
  ultimately show ?thesis by (simp add: take_bit_eq_mod drop_bit_eq_div)
qed

lemma b64Char_signed: "k \<le> 26 \<Longrightarrow> b64Char (signed_drop_bit k (word_of_nat n)) = base64_chars ! (n div 2 ^ k mod 64)"
  using low_bits_signed_drop [of k 6 n] by (simp add: b64Char_def take_bit_eq_mask mask_eq_exp_minus_1)

lemma b64Char_shift: "b64Char (push_bit k (word_of_nat n)) = base64_chars ! (n * 2 ^ k mod 64)"
  using b64Char_signed [of 0 "n * 2 ^ k"] by (simp add: push_bit_eq_mult mult.commute)

lemma byte_signed: "k \<le> 24 \<Longrightarrow> (ucast (signed_drop_bit k (word_of_nat n :: 32 word) AND 0xFF) :: byte) = word_of_nat (n div 2 ^ k mod 256)"
proof -
  assume "k \<le> 24"
  then have "unat (signed_drop_bit k (word_of_nat n :: 32 word) AND 0xFF) = n div 2 ^ k mod 256"
    using low_bits_signed_drop [of k 8 n] by (simp add: take_bit_eq_mask mask_eq_exp_minus_1)
  then show ?thesis by (simp add: word_unat_eq_iff unsigned_ucast_eq take_bit_eq_mod unsigned_of_nat)
qed

section \<open>Groups of three bytes\<close>

fun enc3 :: "bytes \<Rightarrow> string" where
  "enc3 [] = []"
| "enc3 [a] = [base64_chars ! (unat a div 4), base64_chars ! (unat a mod 4 * 16), CHR ''='', CHR ''='']"
| "enc3 [a, b] = [base64_chars ! (unat a div 4), base64_chars ! (unat a mod 4 * 16 + unat b div 16),
     base64_chars ! (unat b mod 16 * 4), CHR ''='']"
| "enc3 (a # b # c # rest) = [base64_chars ! (unat a div 4), base64_chars ! (unat a mod 4 * 16 + unat b div 16),
     base64_chars ! (unat b mod 16 * 4 + unat c div 64), base64_chars ! (unat c mod 64)] @ enc3 rest"

text \<open>A digit of a sum whose upper part is a multiple of everything below it.\<close>

lemma middle_digit: "a < k * m \<Longrightarrow> 0 < k \<Longrightarrow> (n * (k * m) + a) div k mod m = a div (k :: nat)"
proof -
  assume a: "a < k * m" "0 < k"
  have "(n * (k * m) + a) div k = (a + k * (n * m)) div k" by (simp add: algebra_simps)
  also have "\<dots> = n * m + a div k" using a(2) by (subst div_mult_self2) simp_all
  finally show ?thesis using a by (simp add: less_mult_imp_div_less mult.commute)
qed

lemma split_low: "(n :: nat) * 256 = n div k * (k * 256) + n mod k * 256"
  by (metis div_mult_mod_eq distrib_right mult.assoc)

lemma step_from_0:
  "b64Step (word_of_nat n, 0, ret) a = (word_of_nat (n * 256 + unat a), 2, ret @ [base64_chars ! (unat a div 4)])"
  using middle_digit [of "unat a" 4 64 n]
  by (simp add: accumulate8 b64Drain.simps b64Char_signed del: of_nat_add of_nat_mult)

lemma step_from_2:
  "b64Step (word_of_nat n, 2, ret) b =
     (word_of_nat (n * 256 + unat b), 4, ret @ [base64_chars ! (n mod 4 * 16 + unat b div 16)])"
proof -
  have "n * 256 + unat b = n div 4 * (16 * 64) + (n mod 4 * 256 + unat b)" using split_low [of n 4] by simp
  moreover have "n mod 4 * 256 + unat b < 16 * 64"
    using unat_byte_less_256 [of b] mod_less_divisor [of 4 n] by linarith
  moreover have "(n mod 4 * 256 + unat b) div 16 = n mod 4 * 16 + unat b div 16"
    using div_mult_self1 [of 16 "unat b" "n mod 4 * 16"] by (simp add: add.commute)
  ultimately have "(n * 256 + unat b) div 16 mod 64 = n mod 4 * 16 + unat b div 16"
    using middle_digit [of "n mod 4 * 256 + unat b" 16 64 "n div 4"] by (simp add: add.assoc)
  then show ?thesis by (simp add: accumulate8 b64Drain.simps b64Char_signed del: of_nat_add of_nat_mult)
qed

lemma step_from_4:
  "b64Step (word_of_nat n, 4, ret) c =
     (word_of_nat (n * 256 + unat c), 0,
      ret @ [base64_chars ! (n mod 16 * 4 + unat c div 64), base64_chars ! (unat c mod 64)])"
proof -
  have "n * 256 + unat c = n div 16 * (64 * 64) + (n mod 16 * 256 + unat c)" using split_low [of n 16] by simp
  moreover have "n mod 16 * 256 + unat c < 64 * 64"
    using unat_byte_less_256 [of c] mod_less_divisor [of 16 n] by linarith
  moreover have "(n mod 16 * 256 + unat c) div 64 = n mod 16 * 4 + unat c div 64"
    using div_mult_self1 [of 64 "unat c" "n mod 16 * 4"] by (simp add: add.commute)
  ultimately have "(n * 256 + unat c) div 64 mod 64 = n mod 16 * 4 + unat c div 64"
    using middle_digit [of "n mod 16 * 256 + unat c" 64 64 "n div 16"] by (simp add: add.assoc)
  moreover have "(n * 256 + unat c) mod 64 = unat c mod 64"
    using mod_mult_self1 [of "unat c" "n * 4" 64] by (simp add: add.commute mult.commute)
  ultimately show ?thesis
    using b64Char_signed [of 0 "n * 256 + unat c"]
    by (simp add: accumulate8 b64Drain.simps b64Char_signed del: of_nat_add of_nat_mult)
qed

lemma low_of_step: "(n * 256 + unat (a :: byte)) mod 4 = unat a mod 4" "(n * 256 + unat a) mod 16 = unat a mod 16"
  using mod_mult_self1 [of "unat a" "n * 64" 4] mod_mult_self1 [of "unat a" "n * 16" 16]
  by (simp_all add: add.commute mult.commute)

lemma b64Pad_0: "length r mod 4 = 0 \<Longrightarrow> b64Pad r = r"
  by (simp add: b64Pad.simps)

lemma b64Pad_3: "length r mod 4 = 3 \<Longrightarrow> b64Pad r = r @ ''=''"
  using b64Pad_0 [of "r @ ''=''"] by (subst b64Pad.simps) (simp add: mod_Suc)

lemma b64Pad_2: "length r mod 4 = 2 \<Longrightarrow> b64Pad r = r @ ''==''"
  using b64Pad_3 [of "r @ ''=''"] by (subst b64Pad.simps) (simp add: mod_Suc)

lemma foldl_b64Step:
  assumes "length ret mod 4 = 0" "foldl b64Step (word_of_nat n, 0, ret) data = (val, valb, out)"
  shows "b64Pad (if valb > 0 then out @ [b64Char (push_bit (6 - valb) val)] else out) = ret @ enc3 data"
  using assms
proof (induction data arbitrary: n ret rule: enc3.induct)
  case 1
  then show ?case by (simp add: b64Pad.simps)
next
  case (2 a)
  have "(n * 256 + unat a) * 16 mod 64 = unat a mod 4 * 16"
    using mult_mod_right [of 16 "n * 256 + unat a" 4] low_of_step(1) [of n a] by (simp add: mult.commute)
  then have c: "b64Char (push_bit 4 (word_of_nat (n * 256 + unat a))) = base64_chars ! (unat a mod 4 * 16)"
    by (simp only: b64Char_shift) simp
  have "b64Pad (ret @ [x, y]) = ret @ [x, y] @ ''==''" for x y
    using b64Pad_2 [of "ret @ [x, y]"] 2(1) by (simp add: mod_Suc)
  with 2(2) c show ?case by (auto simp: step_from_0 simp del: b64Step.simps of_nat_add of_nat_mult)
next
  case (3 a b)
  let ?m = "n * 256 + unat a"
  have "(?m * 256 + unat b) * 4 mod 64 = unat b mod 16 * 4"
    using mult_mod_right [of 4 "?m * 256 + unat b" 16] low_of_step(2) [of ?m b] by (simp add: mult.commute)
  then have c: "b64Char (push_bit 2 (word_of_nat (?m * 256 + unat b))) = base64_chars ! (unat b mod 16 * 4)"
    by (simp only: b64Char_shift) simp
  have "b64Pad (ret @ [x, y, z]) = ret @ [x, y, z] @ ''=''" for x y z
    using b64Pad_3 [of "ret @ [x, y, z]"] 3(1) by (simp add: mod_Suc)
  with 3(2) c show ?case by (auto simp: step_from_0 step_from_2 low_of_step simp del: b64Step.simps of_nat_add of_nat_mult)
next
  case (4 a b c rest)
  let ?m = "(n * 256 + unat a) * 256 + unat b"
  from 4(3) have "foldl b64Step (word_of_nat (?m * 256 + unat c), 0, ret @ [base64_chars ! (unat a div 4),
      base64_chars ! (unat a mod 4 * 16 + unat b div 16), base64_chars ! (unat b mod 16 * 4 + unat c div 64),
      base64_chars ! (unat c mod 64)]) rest = (val, valb, out)"
    by (simp only: foldl_Cons step_from_0 step_from_2 step_from_4 low_of_step append_assoc append.simps)
  with 4(1) [rotated] 4(2) show ?case by (simp add: mod_Suc del: b64Step.simps of_nat_add of_nat_mult)
qed

lemma base64Encode_enc3: "base64Encode data = enc3 data"
proof -
  obtain val valb out where f: "foldl b64Step (0, 0, []) data = (val, valb, out)" by (metis prod_cases3)
  from foldl_b64Step [of "[]" 0 data val valb out] f show ?thesis by (simp add: base64Encode_def)
qed

section \<open>Decoding\<close>

lemma b64Value_chars: "i < 64 \<Longrightarrow> b64Value (base64_chars ! i) = Some i"
proof -
  have "list_all (\<lambda>i. b64Value (base64_chars ! i) = Some i) [0..<64]" by code_simp
  then show "i < 64 \<Longrightarrow> b64Value (base64_chars ! i) = Some i" by (simp add: list_all_iff)
qed

lemma b64Value_pad: "b64Value (CHR ''='') = None"
  by code_simp

lemma decode_low:
  assumes "i < 64"
  shows "b64DecodeLoop (base64_chars ! i # cs) (word_of_nat n) 0 ret = b64DecodeLoop cs (word_of_nat (n * 64 + i)) 6 ret"
  using assms by (simp add: b64Value_chars accumulate6 Let_def del: of_nat_add of_nat_mult)

lemma decode_emit:
  assumes "i < 64" "valb \<in> {2, 4, 6}"
  shows "b64DecodeLoop (base64_chars ! i # cs) (word_of_nat n) valb ret =
    b64DecodeLoop cs (word_of_nat (n * 64 + i)) (valb - 2) (ret @ [word_of_nat ((n * 64 + i) div 2 ^ (valb - 2) mod 256)])"
  using assms byte_signed [of 0 "n * 64 + i"]
  by (auto simp: b64Value_chars accumulate6 Let_def byte_signed simp del: of_nat_add of_nat_mult)

lemma recombine:
  "(n * 64 + a div 4) * 64 + (a mod 4 * 16 + t) = n * (16 * 256) + (a * 16 + t)"
  "(n * 16 + b div 16) * 64 + (b mod 16 * 4 + u) = n * (4 * 256) + (b * 4 + u)"
  "(n * 4 + c div 64) * 64 + c mod 64 = n * 256 + (c :: nat)"
proof -
  have "(n * 64 + q) * 64 + (r * 16 + t) = n * (16 * 256) + ((q * 4 + r) * 16 + t)"
    "(n * 16 + q) * 64 + (r * 4 + u) = n * (4 * 256) + ((q * 16 + r) * 4 + u)"
    "(n * 4 + q) * 64 + r = n * 256 + (q * 64 + r)" for q r :: nat
    by simp_all
  from this [of "a div 4" "a mod 4"] this [of "b div 16" "b mod 16"] this [of "c div 64" "c mod 64"]
  show "(n * 64 + a div 4) * 64 + (a mod 4 * 16 + t) = n * (16 * 256) + (a * 16 + t)"
    "(n * 16 + b div 16) * 64 + (b mod 16 * 4 + u) = n * (4 * 256) + (b * 4 + u)"
    "(n * 4 + c div 64) * 64 + c mod 64 = n * 256 + c"
    by (simp_all only: div_mult_mod_eq)
qed

declare b64DecodeLoop.simps(2) [simp del]

lemma decode_stop: "b64DecodeLoop (CHR ''='' # cs) val valb ret = ret"
  by (simp add: b64DecodeLoop.simps(2) b64Value_pad)

lemma decode_pair:
  assumes "t < 16"
  shows "b64DecodeLoop (base64_chars ! (unat a div 4) # base64_chars ! (unat a mod 4 * 16 + t) # cs) (word_of_nat n) 0 ret =
    b64DecodeLoop cs (word_of_nat ((n * 256 + unat a) * 16 + t)) 4 (ret @ [a])"
proof -
  let ?i = "unat a div 4" and ?j = "unat a mod 4 * 16 + t"
  have i: "?i < 64" "?j < 64" using unat_byte_less_256 [of a] assms mod_less_divisor [of 4 "unat a"] by linarith+
  have v: "(n * 64 + ?i) * 64 + ?j = n * (16 * 256) + (unat a * 16 + t)" by (rule recombine)
  have "(n * (16 * 256) + (unat a * 16 + t)) div 16 mod 256 = (unat a * 16 + t) div 16"
    by (rule middle_digit) (use unat_byte_less_256 [of a] assms in linarith, simp)
  also have "\<dots> = unat a" using assms by simp
  finally have "(n * (16 * 256) + (unat a * 16 + t)) div 2 ^ (6 - 2) mod 256 = unat a" by simp
  moreover have "n * (16 * 256) + (unat a * 16 + t) = (n * 256 + unat a) * 16 + t" by simp
  ultimately show ?thesis
    using decode_low [OF i(1)] decode_emit [OF i(2), of 6 cs "n * 64 + ?i" ret] unfolding v
    by (simp add: algebra_simps)
qed

lemma decode_third:
  assumes "t = unat b div 16" "u < 4"
  shows "b64DecodeLoop (base64_chars ! (unat b mod 16 * 4 + u) # cs) (word_of_nat (n * 16 + t)) 4 ret =
    b64DecodeLoop cs (word_of_nat ((n * 256 + unat b) * 4 + u)) 2 (ret @ [b])"
proof -
  have i: "unat b mod 16 * 4 + u < 64" using assms(2) mod_less_divisor [of 16 "unat b"] by linarith
  have v: "(n * 16 + t) * 64 + (unat b mod 16 * 4 + u) = n * (4 * 256) + (unat b * 4 + u)" unfolding assms(1) by (rule recombine)
  have "(n * (4 * 256) + (unat b * 4 + u)) div 4 mod 256 = (unat b * 4 + u) div 4"
    by (rule middle_digit) (use unat_byte_less_256 [of b] assms(2) in linarith, simp)
  also have "\<dots> = unat b" using assms(2) by simp
  finally have "(n * (4 * 256) + (unat b * 4 + u)) div 2 ^ (4 - 2) mod 256 = unat b" by simp
  moreover have "n * (4 * 256) + (unat b * 4 + u) = (n * 256 + unat b) * 4 + u" by simp
  ultimately show ?thesis using decode_emit [OF i, of 4 cs "n * 16 + t" ret] unfolding v by (simp add: algebra_simps)
qed

lemma decode_fourth:
  assumes "u = unat c div 64"
  shows "b64DecodeLoop (base64_chars ! (unat c mod 64) # cs) (word_of_nat (n * 4 + u)) 2 ret =
    b64DecodeLoop cs (word_of_nat (n * 256 + unat c)) 0 (ret @ [c])"
proof -
  have v: "(n * 4 + u) * 64 + unat c mod 64 = n * 256 + unat c" unfolding assms by (rule recombine)
  have "(n * 256 + unat c) mod 256 = unat c" using mod_mult_self3 [of n 256 "unat c"] by simp
  then have "(n * 256 + unat c) div 2 ^ (2 - 2) mod 256 = unat c" by simp
  then show ?thesis using decode_emit [of "unat c mod 64" 2 cs "n * 4 + u" ret] unfolding v by simp
qed

lemma decode_enc3: "b64DecodeLoop (enc3 data) (word_of_nat n) 0 ret = ret @ data"
proof (induction data arbitrary: n ret rule: enc3.induct)
  case (2 a)
  then show ?case using decode_pair [of 0 a "''==''" n ret] by (simp add: decode_stop)
next
  case (3 a b)
  then show ?case
    using decode_pair [of "unat b div 16" a "base64_chars ! (unat b mod 16 * 4) # ''=''" n ret]
      decode_third [of "unat b div 16" b 0 "''=''" "n * 256 + unat a" "ret @ [a]"] unat_byte_less_256 [of b]
    by (simp add: decode_stop less_mult_imp_div_less)
next
  case (4 a b c rest)
  let ?cs = "base64_chars ! (unat c mod 64) # enc3 rest"
  have "unat b div 16 < 16" "unat c div 64 < 4"
    using unat_byte_less_256 [of b] unat_byte_less_256 [of c] by (simp_all add: less_mult_imp_div_less)
  then show ?case
    using decode_pair [of "unat b div 16" a "base64_chars ! (unat b mod 16 * 4 + unat c div 64) # ?cs" n ret]
      decode_third [of "unat b div 16" b "unat c div 64" ?cs "n * 256 + unat a" "ret @ [a]"]
      decode_fourth [of "unat c div 64" c "enc3 rest" "(n * 256 + unat a) * 256 + unat b" "ret @ [a, b]"]
      4 [of "((n * 256 + unat a) * 256 + unat b) * 256 + unat c" "ret @ [a, b, c]"]
    by (simp only: enc3.simps append.simps append_assoc)
qed simp

lemma base64Decode_Encode: "base64Decode (base64Encode data) = data"
  using decode_enc3 [of data 0 "[]"] by (simp add: base64Decode_def base64Encode_enc3)

interpretation b64: codec "\<lambda>_. True" base64Encode "\<lambda>s. Inr (base64Decode s)"
  by unfold_locales (simp add: base64Decode_Encode)

lemma base64_no_quote: "CHR 0x22 \<notin> set (base64Encode data)"
proof -
  have "list_all (\<lambda>i. base64_chars ! i \<noteq> CHR 0x22) [0..<64]" by code_simp
  then have q: "i < 64 \<Longrightarrow> base64_chars ! i \<noteq> CHR 0x22" for i by (simp add: list_all_iff)
  have b: "unat (x :: byte) div 4 < 64" "unat x mod 4 * 16 + unat (y :: byte) div 16 < 64"
      "unat x mod 16 * 4 + unat y div 64 < 64" "unat x mod 4 * 16 < 64" "unat x mod 16 * 4 < 64" for x y
    using unat_byte_less_256 [of x] unat_byte_less_256 [of y] mod_less_divisor [of 4 "unat x"] mod_less_divisor [of 16 "unat x"]
    by linarith+
  have "CHR 0x22 \<notin> set (enc3 data)"
    by (induction data rule: enc3.induct) (simp_all add: q [OF b(1), symmetric] q [OF b(2), symmetric] q [OF b(3), symmetric]
        q [OF b(4), symmetric] q [OF b(5), symmetric] q [symmetric])
  then show ?thesis by (simp add: base64Encode_enc3)
qed

section \<open>Properties\<close>

text \<open>
  Base64 (src/wallet.cpp:158-193): on every byte string the encoder, whose accumulator wraps around, computes the group-wise encoding of RFC 4648, a
  multiple of four characters, and the decoder gives the bytes back.
\<close>

theorem base64_exact:
  "base64Encode data = enc3 data \<and> length (base64Encode data) mod 4 = 0 \<and> base64Decode (base64Encode data) = data"
proof -
  have "length (enc3 data) mod 4 = 0" by (induction data rule: enc3.induct) (simp_all add: mod_Suc)
  then show ?thesis by (simp add: base64Encode_enc3 base64Decode_Encode [unfolded base64Encode_enc3])
qed

end
