(* ===== verification/Wallet_Crypto.thy ===== *)
theory Wallet_Crypto
  imports Base64 Hex Cpp_Numbers
begin

unbundle bit_operations_syntax

text \<open>
  The cryptographic helpers of \<open>src/src/wallet.cpp\<close> (the static functions and the two encryption members), in both builds the preprocessor
  selects: with OpenSSL, whose calls are the record \<open>openssl\<close>, or the fallback, which knows only \<open>std::hash\<close>, a parameter of 64 bits.
  Random bytes come from a stream; a call takes the next ones. Reading outside a vector is \<open>Undefined\<close>.
\<close>

section \<open>The libraries\<close>

record openssl =
  HMAC_sha512 :: "bytes \<Rightarrow> bytes \<Rightarrow> bytes"
  PBKDF2_HMAC_sha512 :: "string \<Rightarrow> string \<Rightarrow> nat \<Rightarrow> bytes"
  SHA256_digest :: "bytes \<Rightarrow> bytes"
  CIPHER_CTX_new :: bool
  EncryptInit :: "bytes \<Rightarrow> bytes \<Rightarrow> bool"
  EncryptUpdate :: "bytes \<Rightarrow> bytes \<Rightarrow> bytes \<Rightarrow> bytes option"
  EncryptFinal :: "bytes \<Rightarrow> bytes \<Rightarrow> bytes \<Rightarrow> bytes option"
  GetTag :: "bytes \<Rightarrow> bytes \<Rightarrow> bytes \<Rightarrow> bytes option"
  DecryptInit :: "bytes \<Rightarrow> bytes \<Rightarrow> bool"
  SetTag :: "bytes \<Rightarrow> bool"
  DecryptUpdate :: "bytes \<Rightarrow> bytes \<Rightarrow> bytes \<Rightarrow> bytes option"
  DecryptFinal :: "bytes \<Rightarrow> bytes \<Rightarrow> bytes \<Rightarrow> bytes \<Rightarrow> bytes option"

text \<open>
  \<open>EncryptUpdate\<close> and \<open>EncryptFinal\<close> take key, nonce and plaintext and give the bytes they write; \<open>DecryptFinal\<close> also takes the tag that was set.
\<close>

datatype build = With_OpenSSL openssl | Fallback "string \<Rightarrow> u64"

section \<open>Helpers\<close>

definition bytesToHex :: "bytes \<Rightarrow> string" where
  "bytesToHex data = concat (map hex_byte data)"

fun hexToBytes :: "string \<Rightarrow> bytes result" where
  "hexToBytes [] = Inr []"
| "hexToBytes [c] = bindR (stoi_base 16 [c]) (\<lambda>v. Inr [word_of_int v])"
| "hexToBytes (c # d # s) = bindR (stoi_base 16 [c, d]) (\<lambda>v. bindR (hexToBytes s) (\<lambda>bs. Inr (word_of_int v # bs)))"

definition secureRandomBytes :: "(nat \<Rightarrow> byte) \<Rightarrow> nat \<Rightarrow> nat \<Rightarrow> bytes \<times> nat" where
  "secureRandomBytes rnd pos n = (map rnd [pos..<pos + n], pos + n)"

text \<open>The bytes \<open>(v >> (i % 64)) & 0xFF\<close> that the fallback spreads one hash value over.\<close>

definition spreadHash :: "u64 \<Rightarrow> nat \<Rightarrow> bytes" where
  "spreadHash v n = map (\<lambda>i. ucast (drop_bit (i mod 64) v AND 0xFF)) [0..<n]"

definition hmacSHA512 :: "build \<Rightarrow> bytes \<Rightarrow> bytes \<Rightarrow> bytes" where
  "hmacSHA512 B key data =
     (case B of
        With_OpenSSL L \<Rightarrow> HMAC_sha512 L key data
      | Fallback h \<Rightarrow> spreadHash (h (string_of_bytes key @ string_of_bytes data)) 64)"

text \<open>\<open>cur.assign((char*)&v, sizeof(v))\<close> on a little-endian machine.\<close>

definition hashBytes :: "u64 \<Rightarrow> string" where
  "hashBytes v = map (\<lambda>i. char_of_byte (ucast (drop_bit (8 * i) v))) [0..<8]"

fun rehash :: "(string \<Rightarrow> u64) \<Rightarrow> nat \<Rightarrow> string \<Rightarrow> string" where
  "rehash h 0 cur = cur"
| "rehash h (Suc n) cur = rehash h n (hashBytes (h cur))"

definition pbkdf2SHA512 :: "build \<Rightarrow> string \<Rightarrow> string \<Rightarrow> nat \<Rightarrow> bytes" where
  "pbkdf2SHA512 B password salt iterations =
     (case B of
        With_OpenSSL L \<Rightarrow> PBKDF2_HMAC_sha512 L password salt iterations
      | Fallback h \<Rightarrow>
          let cur = rehash h iterations (password @ salt)
          in map (\<lambda>i. byte_of_char (cur ! (i mod length cur))) [0..<64])"

definition sha256 :: "build \<Rightarrow> bytes \<Rightarrow> bytes" where
  "sha256 B data =
     (case B of
        With_OpenSSL L \<Rightarrow> SHA256_digest L data
      | Fallback h \<Rightarrow> spreadHash (h (string_of_bytes data)) 32)"

definition deriveKeysFromPassword :: "build \<Rightarrow> string \<Rightarrow> string \<Rightarrow> bytes \<times> bytes" where
  "deriveKeysFromPassword B salt password =
     (let keyMaterial = pbkdf2SHA512 B password salt 100000 in (take 32 keyMaterial, drop 32 keyMaterial))"

definition encryptAES256GCM :: "build \<Rightarrow> string \<Rightarrow> (nat \<Rightarrow> byte) \<Rightarrow> nat \<Rightarrow> string \<Rightarrow> string \<Rightarrow> (string \<times> nat) result" where
  "encryptAES256GCM B salt rnd pos plaintext password =
     (let (encKey, ivData) = deriveKeysFromPassword B salt password;
          (iv, pos) = secureRandomBytes rnd pos 12;
          p = bytes_of_string plaintext in
      case B of
        With_OpenSSL L \<Rightarrow>
          if \<not> CIPHER_CTX_new L then Inl (Runtime_error ''Failed to create cipher context'')
          else if \<not> EncryptInit L encKey iv then Inl (Runtime_error ''Failed to initialize encryption'')
          else (case EncryptUpdate L encKey iv p of None \<Rightarrow> Inl (Runtime_error ''Failed to encrypt data'') | Some c1 \<Rightarrow>
               (case EncryptFinal L encKey iv p of None \<Rightarrow> Inl (Runtime_error ''Failed to finalize encryption'') | Some c2 \<Rightarrow>
               (case GetTag L encKey iv p of None \<Rightarrow> Inl (Runtime_error ''Failed to get GCM tag'') | Some tag \<Rightarrow>
                  Inr (base64Encode (iv @ (c1 @ c2) @ tag), pos))))
      | Fallback h \<Rightarrow> Inr (base64Encode (iv @ p), pos))"

definition decryptAES256GCM :: "build \<Rightarrow> string \<Rightarrow> string \<Rightarrow> string \<Rightarrow> string result" where
  "decryptAES256GCM B salt ciphertext_b64 password =
     (let (encKey, ivData) = deriveKeysFromPassword B salt password;
          result = base64Decode ciphertext_b64 in
      case B of
        With_OpenSSL L \<Rightarrow>
          if length result < 28 then Inl Undefined
          else
            let iv = take 12 result; tag = drop (length result - 16) result;
                ciphertext = drop 12 (take (length result - 16) result) in
            if \<not> CIPHER_CTX_new L then Inl (Runtime_error ''Failed to create cipher context'')
            else if \<not> DecryptInit L encKey iv then Inl (Runtime_error ''Failed to initialize decryption'')
            else if \<not> SetTag L tag then Inl (Runtime_error ''Failed to set GCM tag'')
            else (case DecryptUpdate L encKey iv ciphertext of None \<Rightarrow> Inl (Runtime_error ''Failed to decrypt data'') | Some p1 \<Rightarrow>
                 (case DecryptFinal L encKey iv tag ciphertext of
                    None \<Rightarrow> Inl (Runtime_error ''GCM tag verification failed - wrong password?'')
                  | Some p2 \<Rightarrow> Inr (string_of_bytes (p1 @ p2))))
      | Fallback h \<Rightarrow> Inr (if length result \<le> 12 then [] else string_of_bytes (drop 12 result)))"

section \<open>What OpenSSL promises\<close>

text \<open>
  Digest sizes, and for AES-256-GCM that decryption under the same key and nonce with the tag of the encryption gives the plaintext.
\<close>

definition digest_sizes :: "openssl \<Rightarrow> bool" where
  "digest_sizes L \<longleftrightarrow> (\<forall>k d. length (HMAC_sha512 L k d) = 64) \<and> (\<forall>p s n. length (PBKDF2_HMAC_sha512 L p s n) = 64) \<and>
     (\<forall>d. length (SHA256_digest L d) = 32)"

definition gcm_decrypts :: "openssl \<Rightarrow> bool" where
  "gcm_decrypts L \<longleftrightarrow> (\<forall>key iv p c1 c2 tag. length iv = 12 \<longrightarrow> EncryptUpdate L key iv p = Some c1 \<longrightarrow> EncryptFinal L key iv p = Some c2 \<longrightarrow>
     GetTag L key iv p = Some tag \<longrightarrow> length tag = 16 \<and> DecryptInit L key iv \<and> SetTag L tag \<and>
     (\<exists>p1 p2. DecryptUpdate L key iv (c1 @ c2) = Some p1 \<and> DecryptFinal L key iv tag (c1 @ c2) = Some p2 \<and> p1 @ p2 = p))"

text \<open>A cipher with these properties that any key opens; it serves to show that they can hold.\<close>

definition plain_openssl :: openssl where
  "plain_openssl = \<lparr> HMAC_sha512 = (\<lambda>k d. take 64 (d @ k @ replicate 64 1)), PBKDF2_HMAC_sha512 = (\<lambda>p s n. take 64 (bytes_of_string p @ replicate 64 2)),
     SHA256_digest = (\<lambda>d. take 32 (d @ replicate 32 0)), CIPHER_CTX_new = True, EncryptInit = (\<lambda>k iv. True),
     EncryptUpdate = (\<lambda>k iv p. Some p), EncryptFinal = (\<lambda>k iv p. Some []), GetTag = (\<lambda>k iv p. Some (replicate 16 0)),
     DecryptInit = (\<lambda>k iv. True), SetTag = (\<lambda>t. True), DecryptUpdate = (\<lambda>k iv c. Some c), DecryptFinal = (\<lambda>k iv t c. Some []) \<rparr>"

lemma plain_openssl_ok: "digest_sizes plain_openssl" "gcm_decrypts plain_openssl"
  by (auto simp: digest_sizes_def gcm_decrypts_def plain_openssl_def min_def)

section \<open>Facts\<close>

lemma bytesToHex_toHex [simp]: "bytesToHex = toHex"
  by (simp add: bytesToHex_def toHex_def fun_eq_iff)

lemma length_spreadHash [simp]: "length (spreadHash v n) = n"
  by (simp add: spreadHash_def)

definition sized :: "build \<Rightarrow> bool" where
  "sized B \<longleftrightarrow> (case B of With_OpenSSL L \<Rightarrow> digest_sizes L | Fallback h \<Rightarrow> True)"

lemma length_hmacSHA512: "sized B \<Longrightarrow> length (hmacSHA512 B k d) = 64"
  by (cases B) (auto simp: sized_def hmacSHA512_def digest_sizes_def)

lemma length_sha256: "sized B \<Longrightarrow> length (sha256 B d) = 32"
  by (cases B) (auto simp: sized_def sha256_def digest_sizes_def)

lemma length_pbkdf2: "sized B \<Longrightarrow> length (pbkdf2SHA512 B p s n) = 64"
  by (cases B) (auto simp: sized_def pbkdf2SHA512_def digest_sizes_def Let_def)

lemma stoi_hex_byte: "stoi_base 16 (hex_byte b) = Inr (uint b)"
proof -
  have d: "unat b div 16 < 16" "unat b mod 16 < 16" using unat_byte_less_256 [of b] by (simp_all add: less_mult_imp_div_less)
  have digits: "list_all (is_digit_of 16) (hex_byte b)"
    using d by (simp add: hex_byte_def hexdigit_eq_hex_char is_digit_of_def)
  have "take 2 (hex_byte b) \<noteq> ''0x''" "take 2 (hex_byte b) \<noteq> ''0X''"
    using digits x_not_hex_digit by (auto simp: hex_byte_def)
  then have "scan_number 16 (hex_byte b) = Inr (False, digits_value 16 (hex_byte b))"
    using digits by (intro scan_digits) (auto simp: hex_byte_def)
  moreover have "digits_value 16 (hex_byte b) = unat b"
    using d by (simp add: hex_byte_def digits_value_def hexdigit_eq_hex_char)
  moreover have "\<not> 2147483648 \<le> unat b" using unat_byte_less_256 [of b] by linarith
  ultimately show ?thesis by (simp add: stoi_base_def)
qed

lemma hexToBytes_bytesToHex: "hexToBytes (toHex data) = Inr data"
proof (induction data)
  case (Cons b data)
  have "hexToBytes (toHex (b # data)) = bindR (stoi_base 16 (hex_byte b)) (\<lambda>v. bindR (hexToBytes (toHex data)) (\<lambda>bs. Inr (word_of_int v # bs)))"
    by (simp add: toHex_def hex_byte_def)
  with Cons show ?case by (simp add: stoi_hex_byte)
qed (simp add: toHex_def)

interpretation wallet_hex: codec "\<lambda>_. True" bytesToHex hexToBytes
  by unfold_locales (simp add: hexToBytes_bytesToHex)

lemma encrypt_fallback:
  "encryptAES256GCM (Fallback h) salt rnd pos plaintext password = Inr (base64Encode (map rnd [pos..<pos + 12] @ bytes_of_string plaintext), pos + 12)"
  by (simp add: encryptAES256GCM_def secureRandomBytes_def case_prod_unfold Let_def)

lemma decrypt_fallback:
  "decryptAES256GCM (Fallback h) salt (base64Encode (map rnd [pos..<pos + 12] @ bytes_of_string plaintext)) password = Inr plaintext"
  by (auto simp: decryptAES256GCM_def base64Decode_Encode case_prod_unfold Let_def simp del: upt_Suc)

lemma decrypt_encrypt:
  assumes "encryptAES256GCM B salt rnd pos plaintext password = Inr (text, pos')"
    and "\<forall>L. B = With_OpenSSL L \<longrightarrow> gcm_decrypts L"
  shows "decryptAES256GCM B salt text password = Inr plaintext"
proof (cases B)
  case (With_OpenSSL L')
  let ?iv = "map rnd [pos..<pos + 12]" and ?key = "fst (deriveKeysFromPassword B salt password)"
  obtain c1 c2 tag where c: "CIPHER_CTX_new L'" "EncryptUpdate L' ?key ?iv (bytes_of_string plaintext) = Some c1"
    "EncryptFinal L' ?key ?iv (bytes_of_string plaintext) = Some c2" "GetTag L' ?key ?iv (bytes_of_string plaintext) = Some tag"
    "text = base64Encode (?iv @ (c1 @ c2) @ tag)"
    using assms(1) With_OpenSSL
    by (auto simp: encryptAES256GCM_def secureRandomBytes_def case_prod_unfold Let_def split: if_splits option.splits)
  have "gcm_decrypts L'" using assms(2) With_OpenSSL by blast
  then have d: "length tag = 16" "DecryptInit L' ?key ?iv" "SetTag L' tag"
    "\<exists>p1 p2. DecryptUpdate L' ?key ?iv (c1 @ c2) = Some p1 \<and> DecryptFinal L' ?key ?iv tag (c1 @ c2) = Some p2 \<and> p1 @ p2 = bytes_of_string plaintext"
    using c(2-4) unfolding gcm_decrypts_def by (force simp del: upt_Suc)+
  show ?thesis
    using With_OpenSSL c d
    by (auto simp: decryptAES256GCM_def base64Decode_Encode case_prod_unfold Let_def simp del: upt_Suc)
next
  case (Fallback h)
  with assms(1) show ?thesis using decrypt_fallback by (simp add: encrypt_fallback del: upt_Suc) blast
qed

section \<open>Properties\<close>

text \<open>
  C36. Encryption of the mnemonic (src/wallet.cpp:390-492): whatever the OpenSSL build encrypts, it decrypts with the same password, for every plaintext, salt and
  nonce, given that AES-GCM decrypts what it encrypted. In the fallback build the text is not encrypted at all: it is the Base64
  form of the nonce and the plaintext, and decryption returns the plaintext under every password.
\<close>

theorem wallet_encryption:
  assumes "encryptAES256GCM B salt rnd pos plaintext password = Inr (text, pos')"
    and "\<forall>L. B = With_OpenSSL L \<longrightarrow> gcm_decrypts L"
  shows "decryptAES256GCM B salt text password = Inr plaintext \<and>
    (\<forall>h. B = Fallback h \<longrightarrow> text = enc3 (map rnd [pos..<pos + 12] @ bytes_of_string plaintext) \<and>
       (\<forall>password' salt'. decryptAES256GCM B salt' text password' = Inr plaintext))"
  using decrypt_encrypt [OF assms] assms(1) decrypt_fallback encrypt_fallback by (auto simp: base64Encode_enc3 [symmetric] simp del: upt_Suc)

theorem wallet_encryption_witness:
  "\<exists>text pos text' pos'. encryptAES256GCM (With_OpenSSL plain_openssl) ''00'' (\<lambda>i. 7) 0 ''seed words'' ''pw'' = Inr (text, pos) \<and>
     decryptAES256GCM (With_OpenSSL plain_openssl) ''00'' text ''pw'' = Inr ''seed words'' \<and>
     encryptAES256GCM (Fallback (\<lambda>s. 0)) ''00'' (\<lambda>i. 7) 0 ''seed words'' ''pw'' = Inr (text', pos') \<and>
     decryptAES256GCM (Fallback (\<lambda>s. 0)) ''00'' text' ''wrong'' = Inr ''seed words''"
proof -
  obtain t p where t: "encryptAES256GCM (With_OpenSSL plain_openssl) ''00'' (\<lambda>i. 7) 0 ''seed words'' ''pw'' = Inr (t, p)"
    by (auto simp: encryptAES256GCM_def plain_openssl_def secureRandomBytes_def case_prod_unfold Let_def)
  obtain t' p' where t': "encryptAES256GCM (Fallback (\<lambda>s. 0)) ''00'' (\<lambda>i. 7) 0 ''seed words'' ''pw'' = Inr (t', p')"
    by (auto simp: encryptAES256GCM_def secureRandomBytes_def case_prod_unfold Let_def)
  show ?thesis
    using wallet_encryption [OF t] wallet_encryption [OF t'] plain_openssl_ok(2) t t' by auto
qed

text \<open>
  Keys of the fallback build (src/wallet.cpp:87-108): a derived private key, the first 32 bytes of \<open>hmacSHA512\<close>, depends on the input only through the low 39 bits of
  one \<open>std::hash\<close> value, each byte repeating seven bits of the one before: there are at most \<open>2 ^ 39\<close> keys.
\<close>

theorem fallback_key_entropy:
  assumes "take_bit 39 (h (string_of_bytes key @ string_of_bytes data)) = take_bit 39 (h' (string_of_bytes key' @ string_of_bytes data'))"
  shows "take 32 (hmacSHA512 (Fallback h) key data) = take 32 (hmacSHA512 (Fallback h') key' data')"
proof -
  have same: "ucast (drop_bit i v AND 0xFF) = (ucast (drop_bit i (take_bit 39 v) AND 0xFF) :: byte)" if "i < 32" for i and v :: u64
  proof -
    have "drop_bit i v AND mask 8 = drop_bit i (take_bit 39 v) AND mask 8"
      using that by (intro bit_word_eqI) (auto simp: bit_and_iff bit_drop_bit_eq bit_take_bit_iff bit_mask_iff)
    then show ?thesis by (simp add: mask_eq_exp_minus_1)
  qed
  have "take 32 (spreadHash v 64) = map (\<lambda>i. ucast (drop_bit i (take_bit 39 v) AND 0xFF)) [0..<32]" for v
  proof -
    have "take 32 (spreadHash v 64) = map (\<lambda>i. ucast (drop_bit (i mod 64) v AND 0xFF)) [0..<32]"
      unfolding spreadHash_def take_map using take_upt [of 0 32 64] by (simp del: upt_rec_numeral upt_Suc)
    also have "\<dots> = map (\<lambda>i. ucast (drop_bit i (take_bit 39 v) AND 0xFF)) [0..<32]"
    proof (rule map_cong [OF refl])
      fix i :: nat
      assume "i \<in> set [0..<32]"
      then have "i < 32" by (simp only: set_upt atLeastLessThan_iff)
      then show "(ucast (drop_bit (i mod 64) v AND 0xFF) :: byte) = ucast (drop_bit i (take_bit 39 v) AND 0xFF)"
        using same [of i v] by simp
    qed
    finally show ?thesis .
  qed
  with assms show ?thesis by (simp only: hmacSHA512_def build.case)
qed

theorem fallback_key_entropy_witness:
  "take 32 (hmacSHA512 (Fallback (\<lambda>s. 5)) [1] [2]) = take 32 (hmacSHA512 (Fallback (\<lambda>s. 5 + 2 ^ 39)) [3] [4])"
  by (rule fallback_key_entropy) (simp add: take_bit_eq_mod)

end
