(* ===== verification/Mnemonic.thy ===== *)
theory Mnemonic
  imports Wallet_Crypto Cpp_Strings
begin

unbundle bit_operations_syntax

text \<open>
  BIP39 as \<open>src/src/wallet.cpp\<close> has it: the word list, generation of a phrase from 16 random bytes, validation, and the seed. The list is the one of
  the source, 310 words with repetitions, where the standard has 2048. A word with an index beyond the list is left out of a
  generated phrase; validation looks words up at their first occurrence.
\<close>

section \<open>Word list\<close>

definition BIP39_WORDLIST :: "string list" where
  "BIP39_WORDLIST =
    [''abandon'', ''ability'', ''able'', ''about'', ''above'', ''absent'', ''absorb'', ''abstract'', ''abuse'', ''access'',
     ''accident'', ''account'', ''accuse'', ''achieve'', ''acid'', ''acoustic'', ''acquire'', ''across'', ''act'', ''action'',
     ''actor'', ''acts'', ''actual'', ''acuity'', ''acute'', ''adapt'', ''add'', ''addict'', ''added'', ''adder'',
     ''adding'', ''addition'', ''additive'', ''address'', ''adds'', ''adept'', ''adieu'', ''admin'', ''admit'', ''adobe'',
     ''adopt'', ''adorable'', ''adore'', ''adorn'', ''adult'', ''advance'', ''advent'', ''adverb'', ''adverse'', ''advert'',
     ''advice'', ''advise'', ''advised'', ''adviser'', ''advocate'', ''aerobic'', ''aero'', ''affair'', ''afford'', ''affrays'',
     ''afield'', ''afire'', ''aflame'', ''afloat'', ''afoot'', ''afraid'', ''afresh'', ''afro'', ''aft'', ''after'',
     ''again'', ''against'', ''agape'', ''agate'', ''agave'', ''age'', ''aged'', ''agent'', ''ages'', ''agile'',
     ''aging'', ''agism'', ''agist'', ''agitate'', ''ago'', ''agonies'', ''agony'', ''agora'', ''agree'', ''agreed'',
     ''agreement'', ''agrees'', ''agri'', ''agric'', ''agricola'', ''agricole'', ''agriculture'', ''aground'', ''ague'', ''ahead'',
     ''ahem'', ''ahoy'', ''aid'', ''aide'', ''aider'', ''aides'', ''aids'', ''ail'', ''aileron'', ''ailing'',
     ''ailment'', ''aims'', ''ain'', ''air'', ''airbase'', ''airbed'', ''airboat'', ''airborne'', ''airbrake'', ''airbrush'',
     ''aircraft'', ''aircrew'', ''airdock'', ''airdrop'', ''aired'', ''airer'', ''airfare'', ''airfield'', ''airflow'', ''airfoil'',
     ''airforce'', ''airframe'', ''airfreight'', ''airgap'', ''airglow'', ''airgun'', ''airhead'', ''airier'', ''airiest'', ''airily'',
     ''airiness'', ''airing'', ''airings'', ''airless'', ''airlift'', ''airline'', ''airliner'', ''airlines'', ''airlock'', ''airmail'',
     ''airman'', ''airmen'', ''airn'', ''airplane'', ''airplay'', ''airport'', ''airs'', ''airscrew'', ''airship'', ''airsick'',
     ''airspace'', ''airspeed'', ''airstrike'', ''airstrip'', ''airtime'', ''airtight'', ''airway'', ''airways'', ''airwoman'', ''airwomen'',
     ''airy'', ''aisle'', ''aisle'', ''aisle'', ''aitch'', ''aitch'', ''ait'', ''aitch'', ''aits'', ''aiver'',
     ''aizle'', ''aizle'', ''aizure'', ''ajapa'', ''ajar'', ''ajiva'', ''ajo'', ''ajowan'', ''ajuga'', ''aka'',
     ''akahl'', ''akahest'', ''akame'', ''akamea'', ''akana'', ''akasa'', ''akasaka'', ''akathisia'', ''akatsuka'', ''akba'',
     ''akebi'', ''akebia'', ''akebias'', ''akebi'', ''akebos'', ''akee'', ''akees'', ''akeela'', ''akeelah'', ''akees'',
     ''akela'', ''akele'', ''akelarre'', ''akelas'', ''akeles'', ''akeley'', ''akeleyine'', ''akelia'', ''akeman'', ''akene'',
     ''akenes'', ''akenia'', ''akeno'', ''akenos'', ''akent'', ''akents'', ''akenz'', ''akenza'', ''akeo'', ''akeos'',
     ''aker'', ''akera'', ''akerate'', ''akered'', ''akeres'', ''akerfield'', ''akeries'', ''akering'', ''akerley'', ''akers'',
     ''akersh'', ''akership'', ''akess'', ''akessay'', ''akessays'', ''akessine'', ''akete'', ''aketes'', ''aketon'', ''aketons'',
     ''aketonia'', ''aketonias'', ''aketre'', ''aketres'', ''akeuchle'', ''akeum'', ''akeums'', ''akeva'', ''akevas'', ''akeve'',
     ''akevoe'', ''akevoes'', ''akevy'', ''akewife'', ''akewives'', ''akeworth'', ''akez'', ''akezia'', ''akezias'', ''akezie'',
     ''akezies'', ''akfal'', ''akfals'', ''akfasha'', ''akgal'', ''akgals'', ''akh'', ''akhara'', ''akharas'', ''akhc'',
     ''akheem'', ''akheeme'', ''akheemed'', ''akhees'', ''akheme'', ''akhemer'', ''akhemers'', ''akhemo'', ''akhemos'', ''akhena'',
     ''akhenaten'', ''akhenes'', ''akhenesian'', ''akhenis'', ''akhenishs'', ''akhenism'', ''akhenisms'', ''akhenist'', ''akhenists'', ''akhenite'',
     ''akhenites'', ''akhenizah'', ''akhenizahs'', ''akhenization'', ''akhenizations'', ''akhenize'', ''akhenized'', ''akhenizer'', ''akhenizers'', ''akhenizes'']"

section \<open>Generation\<close>

text \<open>Bits from the most significant one, of a byte and of an 11-bit index, and back.\<close>

definition byte_bits :: "byte \<Rightarrow> bool list" where
  "byte_bits b = map (\<lambda>j. bit b j) [7, 6, 5, 4, 3, 2, 1, 0]"

definition index_bits :: "nat \<Rightarrow> bool list" where
  "index_bits n = map (\<lambda>i. bit n i) [10, 9, 8, 7, 6, 5, 4, 3, 2, 1, 0]"

definition bits_index :: "bool list \<Rightarrow> nat" where
  "bits_index bs = foldl (\<lambda>index b. 2 * index + (if b then 1 else 0)) 0 bs"

definition bits_byte :: "bool list \<Rightarrow> byte" where
  "bits_byte bs = foldl (\<lambda>byte b. push_bit 1 byte OR (if b then 1 else 0)) 0 bs"

definition mnemonicBits :: "build \<Rightarrow> bytes \<Rightarrow> bool list" where
  "mnemonicBits B entropy =
     (let checksum = sha256 B entropy ! 0
      in concat (map byte_bits entropy) @ map (\<lambda>j. bit checksum j) [7, 6, 5, 4])"

definition mnemonicIndices :: "bool list \<Rightarrow> nat list" where
  "mnemonicIndices bits = map (\<lambda>i. bits_index (map (\<lambda>j. bits ! (i * 11 + j)) [0..<11])) [0..<12]"

fun joinWords :: "string list \<Rightarrow> string" where
  "joinWords [] = []"
| "joinWords [w] = w"
| "joinWords (w # v # ws) = w @ '' '' @ joinWords (v # ws)"

definition generateMnemonic :: "build \<Rightarrow> (nat \<Rightarrow> byte) \<Rightarrow> nat \<Rightarrow> string \<times> nat" where
  "generateMnemonic B rnd pos =
     (let (entropy, pos) = secureRandomBytes rnd pos 16;
          indices = mnemonicIndices (mnemonicBits B entropy);
          words = map (\<lambda>i. BIP39_WORDLIST ! i) (filter (\<lambda>i. i < length BIP39_WORDLIST) indices)
      in (joinWords words, pos))"

definition mnemonicToSeed :: "build \<Rightarrow> string \<Rightarrow> string \<Rightarrow> bytes" where
  "mnemonicToSeed B mnemonic passphrase = pbkdf2SHA512 B mnemonic (''TREZOR'' @ passphrase) 2048"

section \<open>Validation\<close>

text \<open>\<open>while (ss >> word)\<close>\<close>

function splitWords :: "string \<Rightarrow> string list" where
  "splitWords s =
     (let t = dropWhile is_space s in
      if t = [] then [] else takeWhile (\<lambda>c. \<not> is_space c) t # splitWords (dropWhile (\<lambda>c. \<not> is_space c) t))"
  by pat_completeness auto

termination
proof (relation "measure length")
  fix s t :: string
  assume t: "t = dropWhile is_space s" "t \<noteq> []"
  then have "\<not> is_space (hd t)" using hd_dropWhile [of is_space s] by simp
  then have "length (dropWhile (\<lambda>c. \<not> is_space c) t) \<le> length (tl t)"
    using t(2) length_dropWhile_le [of "\<lambda>c. \<not> is_space c" "tl t"] by (cases t) simp_all
  also have "\<dots> < length t" using t(2) by (cases t) simp_all
  also have "\<dots> \<le> length s" unfolding t(1) by (rule length_dropWhile_le)
  finally show "(dropWhile (\<lambda>c. \<not> is_space c) t, s) \<in> measure length" by simp
qed simp

declare splitWords.simps [simp del]

definition wordIndex :: "string \<Rightarrow> nat option" where
  "wordIndex w = find (\<lambda>i. BIP39_WORDLIST ! i = w) [0..<length BIP39_WORDLIST]"

definition validateMnemonic :: "build \<Rightarrow> string \<Rightarrow> bool" where
  "validateMnemonic B mnemonic =
     (let words = splitWords mnemonic; n = length words in
      if n \<noteq> 12 \<and> n \<noteq> 24 then False
      else if \<not> list_all (\<lambda>w. wordIndex w \<noteq> None) words then False
      else
        let entropyBytes = n * 11 div 8 - 1;
            bits = concat (map (\<lambda>w. index_bits (the (wordIndex w))) words);
            entropy = map (\<lambda>i. bits_byte (map (\<lambda>j. bits ! (i * 8 + j)) [0..<8])) [0..<entropyBytes];
            calculatedChecksum = sha256 B entropy ! 0;
            checksumBits = n div 3;
            bitsChecksum = bits_byte (map (\<lambda>i. bits ! (entropyBytes * 8 + i)) [0..<checksumBits])
        in push_bit (8 - checksumBits) bitsChecksum = calculatedChecksum AND push_bit (8 - checksumBits) 0xFF)"

section \<open>Words\<close>

definition is_word :: "string \<Rightarrow> bool" where
  "is_word w \<longleftrightarrow> w \<noteq> [] \<and> list_all (\<lambda>c. \<not> is_space c) w"

lemma letters_not_space:
  "\<not> is_space (CHR ''a'')" "\<not> is_space (CHR ''b'')" "\<not> is_space (CHR ''c'')" "\<not> is_space (CHR ''d'')" "\<not> is_space (CHR ''e'')"
  "\<not> is_space (CHR ''f'')" "\<not> is_space (CHR ''g'')" "\<not> is_space (CHR ''h'')" "\<not> is_space (CHR ''i'')" "\<not> is_space (CHR ''j'')"
  "\<not> is_space (CHR ''k'')" "\<not> is_space (CHR ''l'')" "\<not> is_space (CHR ''m'')" "\<not> is_space (CHR ''n'')" "\<not> is_space (CHR ''o'')"
  "\<not> is_space (CHR ''p'')" "\<not> is_space (CHR ''q'')" "\<not> is_space (CHR ''r'')" "\<not> is_space (CHR ''s'')" "\<not> is_space (CHR ''t'')"
  "\<not> is_space (CHR ''u'')" "\<not> is_space (CHR ''v'')" "\<not> is_space (CHR ''w'')" "\<not> is_space (CHR ''x'')" "\<not> is_space (CHR ''y'')"
  "\<not> is_space (CHR ''z'')"
  by (simp_all add: is_space_def)

lemma wordlist_words: "list_all is_word BIP39_WORDLIST"
  unfolding BIP39_WORDLIST_def is_word_def by (simp add: letters_not_space)

lemma length_wordlist: "length BIP39_WORDLIST = 310"
  by (simp add: BIP39_WORDLIST_def)

lemma takeWhile_word: "is_word w \<Longrightarrow> takeWhile (\<lambda>c. \<not> is_space c) w = w"
  "is_word w \<Longrightarrow> dropWhile (\<lambda>c. \<not> is_space c) w = []"
  by (simp_all add: is_word_def list_all_iff takeWhile_eq_all_conv)

lemma splitWords_word: "is_word w \<Longrightarrow> splitWords w = [w]"
proof -
  assume w: "is_word w"
  then have "dropWhile is_space w = w" by (cases w) (auto simp: is_word_def)
  with w show ?thesis
    by (simp add: splitWords.simps [of w] takeWhile_word splitWords.simps [of "[]"]) (simp add: is_word_def)
qed

lemma splitWords_Cons:
  assumes "is_word w"
  shows "splitWords (w @ '' '' @ s) = w # splitWords s"
proof -
  obtain c cs where w: "w = c # cs" using assms by (cases w) (auto simp: is_word_def)
  have "\<not> is_space c" using assms by (simp add: w is_word_def)
  then have "dropWhile is_space (w @ '' '' @ s) = w @ '' '' @ s" by (simp add: w)
  moreover have "takeWhile (\<lambda>c. \<not> is_space c) (w @ '' '' @ s) = w" "dropWhile (\<lambda>c. \<not> is_space c) (w @ '' '' @ s) = '' '' @ s"
    using assms by (simp_all add: is_word_def list_all_iff takeWhile_append2 dropWhile_append2 is_space_def takeWhile_eq_all_conv)
  moreover have "splitWords ('' '' @ s) = splitWords s"
    by (simp add: splitWords.simps [of "CHR '' '' # s"] splitWords.simps [of s] is_space_def)
  ultimately show ?thesis by (subst splitWords.simps) (simp add: w Let_def)
qed

lemma splitWords_joinWords: "list_all is_word ws \<Longrightarrow> splitWords (joinWords ws) = ws"
proof (induction ws rule: joinWords.induct)
  case (3 w v ws)
  then show ?case using splitWords_Cons [of w "joinWords (v # ws)"] by simp
qed (simp_all add: splitWords.simps [of "[]"] splitWords_word)

lemma wordlist_nth_word: "i < length BIP39_WORDLIST \<Longrightarrow> is_word (BIP39_WORDLIST ! i)"
  using wordlist_words by (simp add: list_all_length)

definition generated_indices :: "build \<Rightarrow> (nat \<Rightarrow> byte) \<Rightarrow> nat \<Rightarrow> nat list" where
  "generated_indices B rnd pos = mnemonicIndices (mnemonicBits B (map rnd [pos..<pos + 16]))"

lemma length_generated_indices [simp]: "length (generated_indices B rnd pos) = 12"
  by (simp add: generated_indices_def mnemonicIndices_def)

lemma splitWords_generate:
  "splitWords (fst (generateMnemonic B rnd pos)) =
     map (\<lambda>i. BIP39_WORDLIST ! i) (filter (\<lambda>i. i < 310) (generated_indices B rnd pos))"
proof -
  let ?ws = "map (\<lambda>i. BIP39_WORDLIST ! i) (filter (\<lambda>i. i < length BIP39_WORDLIST) (generated_indices B rnd pos))"
  have "fst (generateMnemonic B rnd pos) = joinWords ?ws"
    by (simp add: generateMnemonic_def secureRandomBytes_def generated_indices_def Let_def)
  moreover have "list_all is_word ?ws" by (auto simp: list_all_iff wordlist_nth_word)
  ultimately show ?thesis by (simp add: splitWords_joinWords length_wordlist)
qed

section \<open>Bits\<close>

lemma all_bytes: "list_all (\<lambda>n. P (word_of_nat n :: byte)) [0..<256] \<Longrightarrow> P b"
proof -
  assume "list_all (\<lambda>n. P (word_of_nat n :: byte)) [0..<256]"
  moreover have "unat b \<in> set [0..<256]" using unat_byte_less_256 [of b] by (simp only: set_upt atLeastLessThan_iff) simp
  ultimately have "P (word_of_nat (unat b))" by (simp only: list_all_iff)
  then show ?thesis by simp
qed

lemma bits_byte_byte_bits: "bits_byte (byte_bits b) = b"
  by (rule all_bytes) code_simp

lemma high_nibble: "push_bit 4 (bits_byte (take 4 (byte_bits b))) = b AND 0xF0"
  by (rule all_bytes) code_simp

lemma length_byte_bits [simp]: "length (byte_bits b) = 8"
  by (simp add: byte_bits_def)

lemma bits_index_snoc: "bits_index (bs @ [b]) = 2 * bits_index bs + (if b then 1 else 0)"
  by (simp add: bits_index_def)

lemma map_bit_bits_index: "map (bit (bits_index bs)) (rev [0..<length bs]) = bs"
proof (induction bs rule: rev_induct)
  case (snoc b bs)
  have "bit (bits_index (bs @ [b])) (Suc i) = bit (bits_index bs) i" for i
    by (simp add: bits_index_snoc bit_Suc)
  moreover have "bit (bits_index (bs @ [b])) 0 = b" by (simp add: bits_index_snoc bit_0)
  moreover have "rev [0..<Suc n] = map Suc (rev [0..<n]) @ [0]" for n
    by (metis map_Suc_upt rev_map upt_conv_Cons zero_less_Suc rev.simps(2))
  ultimately show ?case using snoc by (simp del: upt_Suc add: o_def)
qed simp

lemma index_bits_bits_index: "length bs = 11 \<Longrightarrow> index_bits (bits_index bs) = bs"
proof -
  assume "length bs = 11"
  then have "map (bit (bits_index bs)) (rev [0..<11]) = bs" using map_bit_bits_index [of bs] by simp
  moreover have "rev [0..<11] = [10, 9, 8, 7, 6, 5, 4, 3, 2, 1, 0 :: nat]" by code_simp
  ultimately show ?thesis by (simp only: index_bits_def)
qed

text \<open>Cutting a list into pieces of equal length and putting them together.\<close>

lemma concat_pieces:
  "length bs = k * m \<Longrightarrow> concat (map (\<lambda>i. map (\<lambda>j. bs ! (i * m + j)) [0..<m]) [0..<k]) = bs"
proof (induction k arbitrary: bs)
  case (Suc k)
  have "concat (map (\<lambda>i. map (\<lambda>j. take (k * m) bs ! (i * m + j)) [0..<m]) [0..<k]) = take (k * m) bs"
    using Suc.prems by (intro Suc.IH) simp
  moreover have "take (k * m) bs ! (i * m + j) = bs ! (i * m + j)" if "i < k" "j < m" for i j
  proof -
    have "i * m + j < Suc i * m" using that(2) by simp
    also have "\<dots> \<le> k * m" using that(1) by (intro mult_le_mono1) simp
    finally show ?thesis by simp
  qed
  then have "map (\<lambda>i. map (\<lambda>j. take (k * m) bs ! (i * m + j)) [0..<m]) [0..<k] = map (\<lambda>i. map (\<lambda>j. bs ! (i * m + j)) [0..<m]) [0..<k]"
    by (intro map_cong refl) simp
  ultimately have "concat (map (\<lambda>i. map (\<lambda>j. bs ! (i * m + j)) [0..<m]) [0..<k]) = take (k * m) bs" by simp
  moreover have "map (\<lambda>j. bs ! (k * m + j)) [0..<m] = drop (k * m) bs"
    using Suc.prems by (intro nth_equalityI) simp_all
  ultimately show ?case by simp
qed simp

lemma nth_concat_uniform:
  "list_all (\<lambda>x. length x = m) xs \<Longrightarrow> i < length xs \<Longrightarrow> j < m \<Longrightarrow> (concat xs @ ys) ! (i * m + j) = xs ! i ! j"
proof (induction xs arbitrary: i)
  case (Cons x xs)
  then show ?case by (cases i) (auto simp: nth_append add.assoc)
qed simp

lemma length_mnemonicBits: "length (mnemonicBits B entropy) = 8 * length entropy + 4"
proof -
  have "length (concat (map byte_bits entropy)) = 8 * length entropy" by (induction entropy) simp_all
  then show ?thesis by (simp add: mnemonicBits_def Let_def)
qed

lemma concat_index_bits:
  assumes "length bits = 132"
  shows "concat (map index_bits (mnemonicIndices bits)) = bits"
proof -
  have "map index_bits (mnemonicIndices bits) = map (\<lambda>i. map (\<lambda>j. bits ! (i * 11 + j)) [0..<11]) [0..<12]"
    by (simp add: mnemonicIndices_def index_bits_bits_index o_def del: upt_rec_numeral)
  then show ?thesis using concat_pieces [of bits 12 11] assms by simp
qed

lemma piece_of_entropy:
  assumes "i < length entropy"
  shows "j < 8 \<Longrightarrow> mnemonicBits B entropy ! (i * 8 + j) = byte_bits (entropy ! i) ! j"
    and "map (\<lambda>j. mnemonicBits B entropy ! (i * 8 + j)) [0..<8] = byte_bits (entropy ! i)"
proof -
  show nth: "mnemonicBits B entropy ! (i * 8 + j) = byte_bits (entropy ! i) ! j" if "j < 8" for j
    unfolding mnemonicBits_def Let_def
    using nth_concat_uniform [of 8 "map byte_bits entropy" i j] assms that by (simp add: list_all_iff)
  show "map (\<lambda>j. mnemonicBits B entropy ! (i * 8 + j)) [0..<8] = byte_bits (entropy ! i)"
    by (rule nth_equalityI) (simp_all add: nth del: upt_rec_numeral)
qed

lemma validate_words:
  assumes "length entropy = 16"
    and "\<And>i. i \<in> set (mnemonicIndices (mnemonicBits B entropy)) \<Longrightarrow> wordIndex (BIP39_WORDLIST ! i) = Some i"
    and "splitWords phrase = map (\<lambda>i. BIP39_WORDLIST ! i) (mnemonicIndices (mnemonicBits B entropy))"
  shows "validateMnemonic B phrase \<longleftrightarrow> entropy ! 15 AND 0xF0 = sha256 B (take 15 entropy) ! 0 AND 0xF0"
proof -
  let ?bits = "mnemonicBits B entropy"
  let ?words = "splitWords phrase"
  have len: "length ?words = 12" using assms(3) by (simp add: mnemonicIndices_def del: upt_rec_numeral)
  have all: "list_all (\<lambda>w. wordIndex w \<noteq> None) ?words" using assms(2,3) by (simp add: list_all_iff)
  have "map (\<lambda>w. index_bits (the (wordIndex w))) ?words = map index_bits (mnemonicIndices ?bits)"
    using assms(2,3) by simp
  then have bits: "concat (map (\<lambda>w. index_bits (the (wordIndex w))) ?words) = ?bits"
    using concat_index_bits [of ?bits] length_mnemonicBits [of B entropy] assms(1) by simp
  have "map (\<lambda>i. bits_byte (map (\<lambda>j. ?bits ! (i * 8 + j)) [0..<8])) [0..<15] = map (\<lambda>i. entropy ! i) [0..<15]"
  proof (intro map_cong refl)
    fix i :: nat
    assume "i \<in> set [0..<15]"
    then have "i < length entropy" using assms(1) by (simp only: set_upt atLeastLessThan_iff) simp
    then show "bits_byte (map (\<lambda>j. ?bits ! (i * 8 + j)) [0..<8]) = entropy ! i"
      by (simp only: piece_of_entropy(2) bits_byte_byte_bits)
  qed
  also have "\<dots> = take 15 entropy" using assms(1) by (intro nth_equalityI) (simp_all del: upt_rec_numeral)
  finally have ent: "map (\<lambda>i. bits_byte (map (\<lambda>j. ?bits ! (i * 8 + j)) [0..<8])) [0..<15] = take 15 entropy" .
  have "map (\<lambda>i. ?bits ! (15 * 8 + i)) [0..<4] = take 4 (byte_bits (entropy ! 15))"
    using piece_of_entropy(1) [of 15 entropy] assms(1)
    by (intro nth_equalityI) (simp_all del: upt_rec_numeral)
  then have "push_bit 4 (bits_byte (map (\<lambda>i. ?bits ! (15 * 8 + i)) [0..<4])) = entropy ! 15 AND 0xF0"
    by (simp only: high_nibble)
  moreover have "push_bit 4 0xFF = (0xF0 :: byte)" by code_simp
  ultimately show ?thesis
    unfolding validateMnemonic_def Let_def len bits using all ent by (simp del: upt_rec_numeral push_bit_numeral)
qed

lemma find_in_list: "i < length BIP39_WORDLIST \<Longrightarrow> (\<And>j. j < i \<Longrightarrow> BIP39_WORDLIST ! j \<noteq> w) \<Longrightarrow> BIP39_WORDLIST ! i = w \<Longrightarrow> wordIndex w = Some i"
  unfolding wordIndex_def find_upt_Some by simp

section \<open>Properties\<close>

text \<open>
  Generated phrases (src/wallet.cpp:201-238): of the twelve 11-bit indices, only those below 310, the size of the built-in list, become words. So a generated phrase
  that validates, and can therefore be imported again, exists only for entropies all of whose indices are below 310.
\<close>

theorem mnemonic_words_dropped:
  "splitWords (fst (generateMnemonic B rnd pos)) =
     map (\<lambda>i. BIP39_WORDLIST ! i) (filter (\<lambda>i. i < 310) (generated_indices B rnd pos)) \<and>
   (validateMnemonic B (fst (generateMnemonic B rnd pos)) \<longrightarrow> list_all (\<lambda>i. i < 310) (generated_indices B rnd pos))"
proof -
  let ?is = "generated_indices B rnd pos"
  have "list_all (\<lambda>i. i < 310) ?is" if v: "validateMnemonic B (fst (generateMnemonic B rnd pos))"
  proof -
    have "length (filter (\<lambda>i. i < 310) ?is) = 12 \<or> length (filter (\<lambda>i. i < 310) ?is) = 24"
      using v by (auto simp: validateMnemonic_def splitWords_generate Let_def split: if_splits)
    moreover have "length (filter (\<lambda>i. i < 310) ?is) \<le> 12" using length_filter_le [of _ ?is] by simp
    ultimately have "filter (\<lambda>i. i < 310) ?is = ?is"
      by (metis length_generated_indices length_filter_less less_irrefl filter_True numeral_le_iff semiring_norm(71,72,73,74,69,70))
    then show ?thesis by (metis filter_id_conv list_all_iff)
  qed
  then show ?thesis by (simp add: splitWords_generate)
qed

lemma bits_index_ones: "list_all id bs \<Longrightarrow> bits_index bs = 2 ^ length bs - 1"
proof (induction bs rule: rev_induct)
  case (snoc b bs)
  have "(1 :: nat) \<le> 2 ^ length bs" by simp
  then have "Suc (2 * (2 ^ length bs - Suc 0)) = 2 * 2 ^ length bs - Suc 0" by linarith
  with snoc show ?case by (simp add: bits_index_snoc)
qed (simp add: bits_index_def)

theorem mnemonic_words_dropped_witness:
  "\<not> validateMnemonic (Fallback (\<lambda>s. 0)) (fst (generateMnemonic (Fallback (\<lambda>s. 0)) (\<lambda>i. 0xFF) 0))"
proof
  let ?e = "map (\<lambda>i. 0xFF :: byte) [0..<0 + 16]"
  let ?bits = "mnemonicBits (Fallback (\<lambda>s. 0)) ?e"
  assume "validateMnemonic (Fallback (\<lambda>s. 0)) (fst (generateMnemonic (Fallback (\<lambda>s. 0)) (\<lambda>i. 0xFF) 0))"
  then have "list_all (\<lambda>i. i < 310) (generated_indices (Fallback (\<lambda>s. 0)) (\<lambda>i. 0xFF) 0)"
    using mnemonic_words_dropped by blast
  then have "generated_indices (Fallback (\<lambda>s. 0)) (\<lambda>i. 0xFF) 0 ! 0 < 310" by (simp only: list_all_length) simp
  moreover have "generated_indices (Fallback (\<lambda>s. 0)) (\<lambda>i. 0xFF) 0 ! 0 = bits_index (map (\<lambda>j. ?bits ! j) [0..<11])"
    by (simp add: generated_indices_def mnemonicIndices_def del: upt_rec_numeral)
  moreover have "?bits ! j" if "j < 11" for j
  proof -
    have "j div 8 < length ?e" using that by simp
    from piece_of_entropy(1) [OF this, of "j mod 8" "Fallback (\<lambda>s. 0)"]
    have "?bits ! j = byte_bits (?e ! (j div 8)) ! (j mod 8)" by (simp del: upt_rec_numeral)
    also have "?e ! (j div 8) = 0xFF" using that by (subst nth_map) simp_all
    also have "byte_bits 0xFF = replicate 8 True" by code_simp
    finally show ?thesis by simp
  qed
  then have "bits_index (map (\<lambda>j. ?bits ! j) [0..<11]) = 2 ^ 11 - 1"
    by (subst bits_index_ones) (simp_all add: list_all_iff del: upt_rec_numeral)
  ultimately show False by simp
qed

text \<open>
  C37. The checksum (src/wallet.cpp:246-296): even when all twelve words are in the list, validation takes 15 bytes for the entropy instead of 16. It compares the hash of the
  first 15 bytes with the upper half of the last entropy byte and never looks at the checksum bits the generator appended,
  so the wallet rejects its own phrases unless that byte happens to match.
\<close>

theorem mnemonic_checksum_misplaced:
  assumes "\<forall>i \<in> set (generated_indices B rnd pos). i < 310 \<and> wordIndex (BIP39_WORDLIST ! i) = Some i"
  shows "validateMnemonic B (fst (generateMnemonic B rnd pos)) \<longleftrightarrow>
    rnd (pos + 15) AND 0xF0 = sha256 B (map rnd [pos..<pos + 15]) ! 0 AND 0xF0"
proof -
  let ?e = "map rnd [pos..<pos + 16]"
  have "filter (\<lambda>i. i < 310) (generated_indices B rnd pos) = generated_indices B rnd pos" using assms by (simp add: filter_id_conv)
  then have "splitWords (fst (generateMnemonic B rnd pos)) = map (\<lambda>i. BIP39_WORDLIST ! i) (mnemonicIndices (mnemonicBits B ?e))"
    by (simp only: splitWords_generate) (simp only: generated_indices_def)
  then have "validateMnemonic B (fst (generateMnemonic B rnd pos)) \<longleftrightarrow> ?e ! 15 AND 0xF0 = sha256 B (take 15 ?e) ! 0 AND 0xF0"
    using assms by (intro validate_words) (simp_all add: generated_indices_def del: upt_rec_numeral)
  moreover have "?e ! 15 = rnd (pos + 15)" "take 15 ?e = map rnd [pos..<pos + 15]"
    by (simp_all add: take_map take_upt)
  ultimately show ?thesis by simp
qed

theorem mnemonic_checksum_misplaced_witness:
  "\<not> validateMnemonic (Fallback (\<lambda>s. if length s = 16 then 0 else 0xF0))
      (fst (generateMnemonic (Fallback (\<lambda>s. if length s = 16 then 0 else 0xF0)) (\<lambda>i. 0) 0))"
proof -
  let ?B = "Fallback (\<lambda>s. if length s = 16 then 0 else 0xF0 :: u64)"
  let ?e = "map (\<lambda>i. 0 :: byte) [0..<0 + 16]"
  have sha: "sha256 ?B ?e ! 0 = 0" "sha256 ?B (map (\<lambda>i. 0) [0..<0 + 15]) ! 0 = 0xF0"
    by (simp_all add: sha256_def string_of_bytes_def spreadHash_def del: upt_rec_numeral)
  have "concat (map byte_bits ?e) = replicate 128 False" by code_simp
  then have bits: "mnemonicBits ?B ?e = replicate 132 False"
    unfolding mnemonicBits_def Let_def sha(1) by (simp add: numeral_eq_Suc)
  have zero: "bits_index (map (\<lambda>j. False) xs) = 0" for xs :: "nat list"
    by (induction xs rule: rev_induct) (simp_all add: bits_index_snoc, simp add: bits_index_def)
  have "i = 0" if i: "i \<in> set (generated_indices ?B (\<lambda>i. 0) 0)" for i
  proof -
    from i obtain k where k: "k < 12" "i = bits_index (map (\<lambda>j. replicate 132 False ! (k * 11 + j)) [0..<11])"
      unfolding generated_indices_def bits mnemonicIndices_def by (auto simp del: upt_rec_numeral)
    have "map (\<lambda>j. replicate 132 False ! (k * 11 + j)) [0..<11] = map (\<lambda>j. False) [0..<11]"
      using k(1) by (intro map_cong refl) (simp del: upt_rec_numeral)
    then show ?thesis by (simp only: k(2) zero)
  qed
  moreover have "wordIndex (BIP39_WORDLIST ! 0) = Some 0" by (rule find_in_list) (simp_all add: length_wordlist)
  ultimately have "\<forall>i \<in> set (generated_indices ?B (\<lambda>i. 0) 0). i < 310 \<and> wordIndex (BIP39_WORDLIST ! i) = Some i"
    by (metis zero_less_numeral)
  from mnemonic_checksum_misplaced [OF this] show ?thesis using sha(2) by simp
qed

end
