(* ===== verification/Wallet.thy ===== *)
theory Wallet
  imports Mnemonic Keys
begin

unbundle bit_operations_syntax

text \<open>
  The wallet of \<open>src/src/wallet.cpp\<close>: BIP32 derivation, accounts, the keystore file and the public operations, and the wallet dialogue of \<open>src/app/main.cpp\<close>. The
  arguments \<open>B\<close> (the build of the crypto helpers), \<open>S\<close> (the curve library), the random stream with its position, and \<open>writable\<close> (whether
  a file can be created) are the outside world; a file is its path and text.
\<close>

section \<open>Data\<close>

record WalletAccount =
  wa_name :: string
  wa_address :: address
  wa_keypair :: KeyPair
  wa_path :: string

record Wallet =
  w_path :: string
  w_mnemonic :: string
  w_salt :: string
  w_accounts :: "WalletAccount list"
  w_masterKey :: bytes
  w_masterChainCode :: bytes

definition newWallet :: "string \<Rightarrow> string \<Rightarrow> Wallet" where
  "newWallet path mnemonic = \<lparr> w_path = path, w_mnemonic = mnemonic, w_salt = [], w_accounts = [], w_masterKey = [], w_masterChainCode = [] \<rparr>"

section \<open>Key derivation\<close>

definition initializeFromSeed :: "build \<Rightarrow> bytes \<Rightarrow> Wallet \<Rightarrow> Wallet" where
  "initializeFromSeed B seed w =
     (let I = hmacSHA512 B (bytes_of_string ''Bitcoin seed'') seed
      in w \<lparr> w_masterKey := take 32 I, w_masterChainCode := drop 32 I \<rparr>)"

definition deriveChildKey :: "build \<Rightarrow> bytes \<Rightarrow> bytes \<Rightarrow> u32 \<Rightarrow> bytes \<times> bytes" where
  "deriveChildKey B parentKey chainCode childIndex =
     (let data = (if childIndex \<ge> 0x80000000 then 0x00 # parentKey else 0x02 # parentKey) @
            [ucast (drop_bit 24 childIndex AND 0xFF), ucast (drop_bit 16 childIndex AND 0xFF),
             ucast (drop_bit 8 childIndex AND 0xFF), ucast (childIndex AND 0xFF)];
          I = hmacSHA512 B chainCode data
      in (take 32 I, drop 32 I))"

definition parseComponent :: "string \<Rightarrow> u32 result" where
  "parseComponent component =
     (let hardened = (component \<noteq> [] \<and> last component = CHR 0x27);
          component = (if hardened then butlast component else component)
      in bindR (stoull 10 component) (\<lambda>v.
         let index = (ucast v :: u32) in Inr (if hardened then index + 0x80000000 else index)))"

definition parseBIP32Path :: "string \<Rightarrow> u32 list result" where
  "parseBIP32Path path =
     (if path = [] \<or> hd path \<noteq> CHR ''m'' then Inl (Runtime_error (''Invalid BIP32 path: must start with '' @ [CHR 0x27] @ ''m'' @ [CHR 0x27]))
      else mapR parseComponent (filter (\<lambda>c. c \<noteq> []) (getlines (CHR ''/'') (drop 1 path))))"

fun deriveAlong :: "build \<Rightarrow> u32 list \<Rightarrow> bytes \<times> bytes \<Rightarrow> bytes \<times> bytes" where
  "deriveAlong B [] kc = kc"
| "deriveAlong B (i # is) kc = deriveAlong B is (deriveChildKey B (fst kc) (snd kc) i)"

definition deriveKeyFromPath :: "build \<Rightarrow> secp256k1 \<Rightarrow> string \<Rightarrow> Wallet \<Rightarrow> KeyPair result" where
  "deriveKeyFromPath B S path w =
     bindR (parseBIP32Path path) (\<lambda>indices.
       fromPrivateKey S (fst (deriveAlong B indices (w_masterKey w, w_masterChainCode w))))"

section \<open>Accounts\<close>

definition addAccount :: "build \<Rightarrow> secp256k1 \<Rightarrow> string \<Rightarrow> string \<Rightarrow> Wallet \<Rightarrow> Wallet result" where
  "addAccount B S name path w =
     bindR (deriveKeyFromPath B S path w) (\<lambda>keypair.
     bindR (addrFromPublicKey (kp_pub keypair)) (\<lambda>address.
     Inr (w \<lparr> w_accounts := w_accounts w @
       [\<lparr> wa_name = name, wa_address = address, wa_keypair = keypair, wa_path = path \<rparr>] \<rparr>)))"

definition getAccountByAddress :: "address \<Rightarrow> Wallet \<Rightarrow> WalletAccount option" where
  "getAccountByAddress addr w = find (\<lambda>acc. wa_address acc = addr) (w_accounts w)"

definition getAccountByName :: "string \<Rightarrow> Wallet \<Rightarrow> WalletAccount option" where
  "getAccountByName name w = find (\<lambda>acc. wa_name acc = name) (w_accounts w)"

definition listAccounts :: "Wallet \<Rightarrow> WalletAccount list" where
  "listAccounts w = w_accounts w"

definition exportPrivateKey :: "address \<Rightarrow> string \<Rightarrow> Wallet \<Rightarrow> string result" where
  "exportPrivateKey addr password w =
     (case getAccountByAddress addr w of
        None \<Rightarrow> Inl (Runtime_error ''Account not found'')
      | Some acc \<Rightarrow> Inr (bytesToHex (kp_priv (wa_keypair acc))))"

definition exportMnemonic :: "string \<Rightarrow> Wallet \<Rightarrow> string" where
  "exportMnemonic password w = w_mnemonic w"

section \<open>Keystore file\<close>

definition nl :: string where
  "nl = [CHR 0x0A]"

definition jsonMember :: "string \<Rightarrow> string \<Rightarrow> string" where
  "jsonMember key v = [CHR 0x22] @ key @ [CHR 0x22] @ '': '' @ [CHR 0x22] @ v @ [CHR 0x22]"

definition accountJson :: "WalletAccount \<Rightarrow> string" where
  "accountJson acc =
     ''    {'' @ nl @ ''      '' @ jsonMember ''name'' (wa_name acc) @ '','' @ nl @
     ''      '' @ jsonMember ''address'' (addrToHex True (wa_address acc)) @ '','' @ nl @
     ''      '' @ jsonMember ''path'' (wa_path acc) @ nl @ ''    }''"

fun accountsJson :: "WalletAccount list \<Rightarrow> string" where
  "accountsJson [] = []"
| "accountsJson [acc] = accountJson acc"
| "accountsJson (acc # b # accs) = accountJson acc @ '','' @ nl @ accountsJson (b # accs)"

definition versionJson :: string where
  "versionJson = ''  '' @ [CHR 0x22] @ ''version'' @ [CHR 0x22] @ '': 1,'' @ nl"

definition toJson :: "Wallet \<Rightarrow> string" where
  "toJson w =
     ''{'' @ nl @ versionJson @ ''  '' @ jsonMember ''salt'' (w_salt w) @ '','' @ nl @
     ''  '' @ [CHR 0x22] @ ''accounts'' @ [CHR 0x22] @ '': ['' @ nl @ accountsJson (w_accounts w) @ nl @ ''  ]'' @ nl @ ''}'' @ nl"

definition fromJson :: "string \<Rightarrow> Wallet \<Rightarrow> Wallet" where
  "fromJson jsonStr w = w \<lparr> w_accounts := [] \<rparr>"

definition keystoreText :: "string \<Rightarrow> Wallet \<Rightarrow> string" where
  "keystoreText encryptedMnemonic w =
     ''{'' @ nl @ versionJson @ ''  '' @ jsonMember ''salt'' (w_salt w) @ '','' @ nl @
     ''  '' @ jsonMember ''mnemonic'' encryptedMnemonic @ '','' @ nl @
     ''  '' @ [CHR 0x22] @ ''accounts'' @ [CHR 0x22] @ '': ['' @ nl @ accountsJson (w_accounts w) @ nl @ ''  ]'' @ nl @ ''}'' @ nl"

definition walletSave :: "build \<Rightarrow> (string \<Rightarrow> bool) \<Rightarrow> (nat \<Rightarrow> byte) \<Rightarrow> nat \<Rightarrow> string \<Rightarrow> Wallet \<Rightarrow> (string \<times> nat) result" where
  "walletSave B writable rnd pos password w =
     bindR (encryptAES256GCM B (w_salt w) rnd pos (w_mnemonic w) password) (\<lambda>(encryptedMnemonic, pos).
     if \<not> writable (w_path w) then Inl (Runtime_error (''Failed to create wallet file: '' @ w_path w))
     else Inr (keystoreText encryptedMnemonic w, pos))"

section \<open>Public operations\<close>

definition defaultPath :: string where
  "defaultPath = ''m/44'' @ [CHR 0x27] @ ''/60'' @ [CHR 0x27] @ ''/0'' @ [CHR 0x27] @ ''/0/0''"

text \<open>The common tail of \<open>create\<close> and \<open>importMnemonic\<close>: wallet, file text and the position in the random stream.\<close>

definition setupWallet :: "build \<Rightarrow> secp256k1 \<Rightarrow> (string \<Rightarrow> bool) \<Rightarrow> (nat \<Rightarrow> byte) \<Rightarrow> nat \<Rightarrow> string \<Rightarrow> string \<Rightarrow> string \<Rightarrow>
    (Wallet \<times> string \<times> nat) result" where
  "setupWallet B S writable rnd pos walletPath mnemonic password =
     (let (saltBytes, pos) = secureRandomBytes rnd pos 16;
          wallet = (newWallet walletPath mnemonic) \<lparr> w_salt := bytesToHex saltBytes \<rparr>;
          wallet = initializeFromSeed B (mnemonicToSeed B mnemonic []) wallet in
      bindR (addAccount B S ''Default'' defaultPath wallet) (\<lambda>wallet.
      bindR (walletSave B writable rnd pos password wallet) (\<lambda>(file, pos).
      Inr (wallet, file, pos))))"

definition walletCreate :: "build \<Rightarrow> secp256k1 \<Rightarrow> (string \<Rightarrow> bool) \<Rightarrow> (nat \<Rightarrow> byte) \<Rightarrow> nat \<Rightarrow> string \<Rightarrow> string \<Rightarrow> (Wallet \<times> string \<times> nat) result" where
  "walletCreate B S writable rnd pos walletPath password =
     (let (mnemonic, pos) = generateMnemonic B rnd pos
      in setupWallet B S writable rnd pos walletPath mnemonic password)"

definition walletLoad :: "(string \<Rightarrow> string option) \<Rightarrow> string \<Rightarrow> string \<Rightarrow> Wallet result" where
  "walletLoad files walletPath password =
     (case files walletPath of
        None \<Rightarrow> Inl (Runtime_error (''Failed to open wallet file: '' @ walletPath))
      | Some buffer \<Rightarrow> Inl (Runtime_error ''Wallet loading not yet implemented''))"

definition importMnemonic :: "build \<Rightarrow> secp256k1 \<Rightarrow> (string \<Rightarrow> bool) \<Rightarrow> (nat \<Rightarrow> byte) \<Rightarrow> nat \<Rightarrow> string \<Rightarrow> string \<Rightarrow> string \<Rightarrow>
    (Wallet \<times> string \<times> nat) result" where
  "importMnemonic B S writable rnd pos mnemonic walletPath password =
     (if \<not> validateMnemonic B mnemonic then Inl (Runtime_error ''Invalid BIP39 mnemonic'')
      else setupWallet B S writable rnd pos walletPath mnemonic password)"

text \<open>The dialogue: the command with the path and password typed after it.\<close>

datatype cli_outcome = Wallet_saved Wallet string | Accounts_listed "WalletAccount list" | No_action | Unknown_command

definition walletCLI :: "build \<Rightarrow> secp256k1 \<Rightarrow> (string \<Rightarrow> bool) \<Rightarrow> (string \<Rightarrow> string option) \<Rightarrow> (nat \<Rightarrow> byte) \<Rightarrow>
    string \<Rightarrow> string \<Rightarrow> string \<Rightarrow> cli_outcome result" where
  "walletCLI B S writable files rnd command path password =
     (if command = ''create'' then
        bindR (walletCreate B S writable rnd 0 path password) (\<lambda>(w, file, pos).
        bindR (addAccount B S ''default'' defaultPath w) (\<lambda>w.
        bindR (walletSave B writable rnd pos password w) (\<lambda>(file, pos). Inr (Wallet_saved w file))))
      else if command = ''load'' then bindR (walletLoad files path password) (\<lambda>w. Inr (Accounts_listed (listAccounts w)))
      else if command = ''add-account'' then Inr No_action
      else Inr Unknown_command)"


section \<open>Paths\<close>

text \<open>How BIP32 writes a path: \<open>m\<close>, then for each step a slash, the number and, when hardened, an apostrophe.\<close>

definition formatComponent :: "bool \<times> nat \<Rightarrow> string" where
  "formatComponent c = dec_nat (snd c) @ (if fst c then [CHR 0x27] else [])"

definition formatPath :: "(bool \<times> nat) list \<Rightarrow> string" where
  "formatPath cs = CHR ''m'' # concat (map (\<lambda>c. CHR ''/'' # formatComponent c) cs)"

definition componentIndex :: "bool \<times> nat \<Rightarrow> u32" where
  "componentIndex c = word_of_nat (snd c) + (if fst c then 0x80000000 else 0)"

definition indexComponent :: "u32 \<Rightarrow> bool \<times> nat" where
  "indexComponent i = (i \<ge> 0x80000000, unat i mod 2 ^ 31)"

lemma digit_not_mark: "is_digit_of 10 c \<Longrightarrow> c \<noteq> CHR ''/'' \<and> c \<noteq> CHR 0x27"
  by (auto simp: is_digit_of_def digit_val_def)

lemma dec_nat_no_mark: "CHR ''/'' \<notin> set (dec_nat n)" "CHR 0x27 \<notin> set (dec_nat n)"
  using dec_nat_is_digits [of n] digit_not_mark by (auto simp: list_all_iff)

lemma stoull_dec_nat: "n < 2 ^ 64 \<Longrightarrow> stoull 10 (dec_nat n) = Inr (word_of_nat n)"
  using scan_digits [of 10 "dec_nat n"] dec_nat_is_digits by (simp add: stoull_def)

lemma ucast_word_of_nat: "(ucast (word_of_nat n :: u64) :: u32) = word_of_nat n"
  by transfer simp

lemma parseComponent_format:
  assumes "snd c < 2 ^ 64"
  shows "parseComponent (formatComponent c) = Inr (componentIndex c)"
proof (cases "fst c")
  case True
  then show ?thesis
    using stoull_dec_nat [OF assms] by (simp add: parseComponent_def formatComponent_def componentIndex_def ucast_word_of_nat)
next
  case False
  have "last (dec_nat (snd c)) \<noteq> CHR 0x27"
    using dec_nat_no_mark(2) [of "snd c"] last_in_set [OF dec_nat_not_Nil, of "snd c"] by metis
  with False show ?thesis
    using stoull_dec_nat [OF assms] by (simp add: parseComponent_def formatComponent_def componentIndex_def ucast_word_of_nat)
qed

lemma formatComponent_plain: "CHR ''/'' \<notin> set (formatComponent c)" "formatComponent c \<noteq> []"
  using dec_nat_no_mark(1) [of "snd c"] by (auto simp: formatComponent_def)

lemma getlines_formatPath:
  "getlines (CHR ''/'') (concat (map (\<lambda>c. CHR ''/'' # formatComponent c) cs)) =
   (if cs = [] then [] else [] # map formatComponent cs)"
proof -
  have tail: "getlines (CHR ''/'') (formatComponent c @ concat (map (\<lambda>c. CHR ''/'' # formatComponent c) cs)) = map formatComponent (c # cs)" for c cs
  proof (induction cs arbitrary: c)
    case Nil
    then show ?case using formatComponent_plain [of c] by (simp add: getlines_last)
  next
    case (Cons d cs)
    then show ?case using formatComponent_plain [of c] by (simp add: getlines_part)
  qed
  show ?thesis
  proof (cases cs)
    case (Cons c cs')
    then show ?thesis using getlines_part [of "CHR ''/''" "[]"] tail [of c cs'] by simp
  qed (simp add: getlines.simps)
qed

lemma parse_formatPath:
  assumes "\<forall>c \<in> set cs. snd c < 2 ^ 64"
  shows "parseBIP32Path (formatPath cs) = Inr (map componentIndex cs)"
proof -
  have "filter (\<lambda>c. c \<noteq> []) (getlines (CHR ''/'') (drop 1 (formatPath cs))) = map formatComponent cs"
    by (simp add: formatPath_def getlines_formatPath formatComponent_plain(2) filter_map comp_def)
  moreover have "mapR parseComponent (map formatComponent cs) = Inr (map componentIndex cs)"
    using assms by (induction cs) (simp_all add: parseComponent_format)
  ultimately show ?thesis by (simp add: parseBIP32Path_def formatPath_def)
qed

lemma componentIndex_indexComponent [simp]: "componentIndex (indexComponent i) = i"
proof -
  have b: "unat i < 2 ^ 32" using unsigned_less [of i, where ?'a = nat] by simp
  have "unat i = unat i mod 2 ^ 31 + (if i \<ge> 0x80000000 then 2 ^ 31 else 0)"
    using b by (auto simp: word_le_nat_alt mod_if)
  then have "word_of_nat (unat i) = (word_of_nat (unat i mod 2 ^ 31 + (if i \<ge> 0x80000000 then 2 ^ 31 else 0)) :: u32)" by metis
  then show ?thesis by (simp add: componentIndex_def indexComponent_def split: if_splits)
qed

lemma componentIndex_wraps: "componentIndex (h, n + 2 ^ 32) = componentIndex (h, n)"
  "componentIndex (False, n + 2 ^ 31) = componentIndex (True, n)"
  by (simp_all add: componentIndex_def)

lemma defaultPath_format: "formatPath [(True, 44), (True, 60), (True, 0), (False, 0), (False, 0)] = defaultPath"
  by code_simp

lemma default_indices: "parseBIP32Path defaultPath = Inr [0x8000002C, 0x8000003C, 0x80000000, 0, 0]"
  using parse_formatPath [of "[(True, 44), (True, 60), (True, 0), (False, 0), (False, 0)]"]
  by (simp add: defaultPath_format componentIndex_def)

section \<open>Accounts of a wallet\<close>

text \<open>An account is derived when its key is the one at its path below the master key and its address is the key's.\<close>

definition derived :: "build \<Rightarrow> secp256k1 \<Rightarrow> bytes \<times> bytes \<Rightarrow> WalletAccount \<Rightarrow> bool" where
  "derived B S master acc \<longleftrightarrow>
     (case parseBIP32Path (wa_path acc) of
        Inl e \<Rightarrow> False
      | Inr is \<Rightarrow> kp_priv (wa_keypair acc) = fst (deriveAlong B is master)) \<and>
     valid_key S (wa_keypair acc) \<and> keyAddress (wa_keypair acc) = Inr (wa_address acc)"

definition wallet_inv :: "build \<Rightarrow> secp256k1 \<Rightarrow> Wallet \<Rightarrow> bool" where
  "wallet_inv B S w \<longleftrightarrow>
     (let seed = mnemonicToSeed B (w_mnemonic w) []; I = hmacSHA512 B (bytes_of_string ''Bitcoin seed'') seed
      in w_masterKey w = take 32 I \<and> w_masterChainCode w = drop 32 I) \<and>
     list_all (derived B S (w_masterKey w, w_masterChainCode w)) (w_accounts w)"

text \<open>The wallets a caller can hold: made by \<open>create\<close> or \<open>importMnemonic\<close>, then given accounts. Saving leaves the object as it is.\<close>

inductive wallet_reachable :: "build \<Rightarrow> secp256k1 \<Rightarrow> Wallet \<Rightarrow> bool" for B S where
  created: "walletCreate B S writable rnd pos path password = Inr (w, file, pos') \<Longrightarrow> wallet_reachable B S w"
| imported: "importMnemonic B S writable rnd pos mnemonic path password = Inr (w, file, pos') \<Longrightarrow> wallet_reachable B S w"
| account_added: "wallet_reachable B S w \<Longrightarrow> addAccount B S name path w = Inr w' \<Longrightarrow> wallet_reachable B S w'"

lemma addAccount_InrE:
  assumes "addAccount B S name path w = Inr w'"
  obtains acc where "w' = w \<lparr> w_accounts := w_accounts w @ [acc] \<rparr>" "wa_name acc = name" "wa_path acc = path"
    "derived B S (w_masterKey w, w_masterChainCode w) acc"
  using assms fromPrivateKey_valid
  by (fastforce simp: addAccount_def deriveKeyFromPath_def bindR_Inr_iff derived_def keyAddress_def)

lemma addAccount_inv: "wallet_inv B S w \<Longrightarrow> addAccount B S name path w = Inr w' \<Longrightarrow> wallet_inv B S w'"
  by (erule addAccount_InrE) (simp add: wallet_inv_def)

lemma setupWallet_InrE:
  assumes "setupWallet B S writable rnd pos path mnemonic password = Inr (w, file, pos')"
  obtains w0 where "w0 = initializeFromSeed B (mnemonicToSeed B mnemonic []) ((newWallet path mnemonic) \<lparr> w_salt := bytesToHex (map rnd [pos..<pos + 16]) \<rparr>)"
    "addAccount B S ''Default'' defaultPath w0 = Inr w" "walletSave B writable rnd (pos + 16) password w = Inr (file, pos')"
  using assms by (auto simp: setupWallet_def secureRandomBytes_def bindR_Inr_iff Let_def)

lemma initial_inv: "wallet_inv B S (initializeFromSeed B (mnemonicToSeed B mnemonic []) ((newWallet path mnemonic) \<lparr> w_salt := s \<rparr>))"
  by (simp add: wallet_inv_def initializeFromSeed_def newWallet_def Let_def)

lemma setupWallet_inv:
  "setupWallet B S writable rnd pos path mnemonic password = Inr (w, file, pos') \<Longrightarrow> wallet_inv B S w"
  by (erule setupWallet_InrE) (auto intro: addAccount_inv initial_inv)

lemma reachable_inv: "wallet_reachable B S w \<Longrightarrow> wallet_inv B S w"
  by (induction rule: wallet_reachable.induct)
    (auto simp: walletCreate_def importMnemonic_def case_prod_unfold Let_def intro: setupWallet_inv addAccount_inv split: if_splits)

lemma getAccount_mem:
  "getAccountByAddress a w = Some acc \<Longrightarrow> acc \<in> set (w_accounts w) \<and> wa_address acc = a"
  "getAccountByName n w = Some acc \<Longrightarrow> acc \<in> set (w_accounts w) \<and> wa_name acc = n"
  by (auto simp: getAccountByAddress_def getAccountByName_def find_Some_iff in_set_conv_nth)

lemma walletSave_decrypts:
  assumes "walletSave B writable rnd pos password w = Inr (file, pos')"
  obtains t where "file = keystoreText t w" "encryptAES256GCM B (w_salt w) rnd pos (w_mnemonic w) password = Inr (t, pos')"
    "writable (w_path w)"
  using assms by (auto simp: walletSave_def bindR_Inr_iff split: if_splits)

section \<open>Properties\<close>

text \<open>
  Derivation paths (src/wallet.cpp:333-376): the parser reads back every path in BIP32's notation, and every sequence of 32-bit indices has a path that gives it, so all
  keys of the tree can be reached. Numbers are kept modulo \<open>2 ^ 32\<close> without a check: a step of \<open>n + 2 ^ 32\<close>, or an unhardened step of
  \<open>n + 2 ^ 31\<close>, names the key of the step \<open>n\<close> and of the hardened step \<open>n\<close>.
\<close>

theorem bip32_paths:
  assumes "\<forall>c \<in> set cs. snd c < 2 ^ 64" "n + 2 ^ 32 < 2 ^ 64"
  shows "deriveKeyFromPath B S (formatPath cs) w =
      fromPrivateKey S (fst (deriveAlong B (map componentIndex cs) (w_masterKey w, w_masterChainCode w))) \<and>
    parseBIP32Path (formatPath (map indexComponent ixs)) = Inr ixs \<and>
    deriveKeyFromPath B S (formatPath (cs @ [(h, n + 2 ^ 32)])) w = deriveKeyFromPath B S (formatPath (cs @ [(h, n)])) w \<and>
    deriveKeyFromPath B S (formatPath (cs @ [(False, n + 2 ^ 31)])) w = deriveKeyFromPath B S (formatPath (cs @ [(True, n)])) w"
proof (intro conjI)
  have key: "deriveKeyFromPath B S (formatPath ds) w =
      fromPrivateKey S (fst (deriveAlong B (map componentIndex ds) (w_masterKey w, w_masterChainCode w)))"
    if "\<forall>c \<in> set ds. snd c < 2 ^ 64" for ds
    using parse_formatPath [OF that] by (simp add: deriveKeyFromPath_def)
  show "deriveKeyFromPath B S (formatPath cs) w =
      fromPrivateKey S (fst (deriveAlong B (map componentIndex cs) (w_masterKey w, w_masterChainCode w)))"
    by (rule key [OF assms(1)])
  have "snd (indexComponent i) < 2 ^ 64" for i
  proof -
    have "snd (indexComponent i) < 2 ^ 31" by (simp add: indexComponent_def)
    then show ?thesis by simp
  qed
  then show "parseBIP32Path (formatPath (map indexComponent ixs)) = Inr ixs"
    using parse_formatPath [of "map indexComponent ixs"] by (simp add: comp_def)
  show "deriveKeyFromPath B S (formatPath (cs @ [(h, n + 2 ^ 32)])) w = deriveKeyFromPath B S (formatPath (cs @ [(h, n)])) w"
    using key [of "cs @ [(h, n + 2 ^ 32)]"] key [of "cs @ [(h, n)]"] assms componentIndex_wraps(1) [of h n] by auto
  show "deriveKeyFromPath B S (formatPath (cs @ [(False, n + 2 ^ 31)])) w = deriveKeyFromPath B S (formatPath (cs @ [(True, n)])) w"
    using key [of "cs @ [(False, n + 2 ^ 31)]"] key [of "cs @ [(True, n)]"] assms componentIndex_wraps(2) [of n] by auto
qed

theorem bip32_paths_witness:
  "formatPath [(True, 44), (True, 60), (True, 0), (False, 0), (False, 0)] = defaultPath \<and>
   parseBIP32Path defaultPath = Inr [0x8000002C, 0x8000003C, 0x80000000, 0, 0] \<and>
   deriveKeyFromPath (Fallback (\<lambda>s. 1)) plain_secp (formatPath [(True, 44), (False, 2 ^ 31)]) (newWallet [] []) =
     deriveKeyFromPath (Fallback (\<lambda>s. 1)) plain_secp (formatPath [(True, 44), (True, 0)]) (newWallet [] [])"
proof (intro conjI)
  let ?ixs = "[0x8000002C, 0x8000003C, 0x80000000, 0, 0] :: u32 list"
  show path: "formatPath [(True, 44), (True, 60), (True, 0), (False, 0), (False, 0)] = defaultPath"
    by (rule defaultPath_format)
  have "map indexComponent ?ixs = [(True, 44), (True, 60), (True, 0), (False, 0), (False, 0)]"
    by (simp add: indexComponent_def)
  then show "parseBIP32Path defaultPath = Inr ?ixs"
    using bip32_paths [of "[]" 0 "Fallback (\<lambda>s. 1)" plain_secp "newWallet [] []" ?ixs] path by simp
  show "deriveKeyFromPath (Fallback (\<lambda>s. 1)) plain_secp (formatPath [(True, 44), (False, 2 ^ 31)]) (newWallet [] []) =
     deriveKeyFromPath (Fallback (\<lambda>s. 1)) plain_secp (formatPath [(True, 44), (True, 0)]) (newWallet [] [])"
    using bip32_paths [of "[(True, 44)]" 0 "Fallback (\<lambda>s. 1)" plain_secp "newWallet [] []"] by simp
qed

text \<open>
  C35. Accounts (src/wallet.cpp:526-613): in every wallet made by \<open>create\<close> or \<open>importMnemonic\<close> and extended by \<open>addAccount\<close>, the master key comes from the
  mnemonic, each account's private key is the one derived along its path and its address is that key's address. So the lookups return such
  accounts, and \<open>exportPrivateKey\<close> prints a key that controls the address asked for, whatever password is given.
\<close>

theorem wallet_accounts_derived:
  assumes "wallet_reachable B S w"
  shows "wallet_inv B S w \<and>
    (\<forall>a acc. getAccountByAddress a w = Some acc \<longrightarrow> wa_address acc = a \<and> derived B S (w_masterKey w, w_masterChainCode w) acc) \<and>
    (\<forall>n acc. getAccountByName n w = Some acc \<longrightarrow> wa_name acc = n \<and> derived B S (w_masterKey w, w_masterChainCode w) acc) \<and>
    (\<forall>a password t. exportPrivateKey a password w = Inr t \<longrightarrow>
       (\<exists>key. hexToBytes t = Inr (kp_priv key) \<and> valid_key S key \<and> keyAddress key = Inr a)) \<and>
    (\<forall>a password. (\<exists>acc \<in> set (w_accounts w). wa_address acc = a) \<longrightarrow> (\<exists>t. exportPrivateKey a password w = Inr t))"
proof -
  have inv: "wallet_inv B S w" by (rule reachable_inv [OF assms])
  then have d: "acc \<in> set (w_accounts w) \<Longrightarrow> derived B S (w_masterKey w, w_masterChainCode w) acc" for acc
    by (simp add: wallet_inv_def list_all_iff)
  have "\<exists>key. hexToBytes t = Inr (kp_priv key) \<and> valid_key S key \<and> keyAddress key = Inr a"
    if e: "exportPrivateKey a password w = Inr t" for a password t
  proof -
    obtain acc where acc: "getAccountByAddress a w = Some acc" "t = toHex (kp_priv (wa_keypair acc))"
      using e by (auto simp: exportPrivateKey_def split: option.splits)
    with d getAccount_mem(1) [OF acc(1)] show ?thesis by (auto simp: derived_def hexToBytes_bytesToHex)
  qed
  moreover have "\<exists>t. exportPrivateKey a password w = Inr t" if "\<exists>acc \<in> set (w_accounts w). wa_address acc = a" for a password
    using that by (auto simp: exportPrivateKey_def getAccountByAddress_def find_None_iff split: option.split)
  ultimately show ?thesis using inv d getAccount_mem by blast
qed

lemma plain_key_32: "length k = 32 \<Longrightarrow> k \<noteq> replicate 32 0 \<Longrightarrow> fromPrivateKey plain_secp k = Inr \<lparr> kp_priv = k, kp_pub = k @ k \<rparr>"
  by (simp add: fromPrivateKey_def fromPrivateKey32_def derivePublic_def plain_secp_def Let_def)

text \<open>A wallet in the fallback build whose \<open>std::hash\<close> always gives one.\<close>

definition sampleKey :: bytes where
  "sampleKey = 1 # replicate 31 0"

definition sampleWallet :: "string \<Rightarrow> Wallet" where
  "sampleWallet path = \<lparr> w_path = path, w_mnemonic = fst (generateMnemonic (Fallback (\<lambda>s. 1)) (\<lambda>i. 0) 0), w_salt = bytesToHex (replicate 16 0),
     w_accounts = [\<lparr> wa_name = ''Default'', wa_address = drop 12 (keccak256 (sampleKey @ sampleKey)),
       wa_keypair = \<lparr> kp_priv = sampleKey, kp_pub = sampleKey @ sampleKey \<rparr>, wa_path = defaultPath \<rparr>],
     w_masterKey = sampleKey, w_masterChainCode = replicate 32 0 \<rparr>"

lemma sample_hmac: "take 32 (hmacSHA512 (Fallback (\<lambda>s. 1)) k d) = sampleKey" "drop 32 (hmacSHA512 (Fallback (\<lambda>s. 1)) k d) = replicate 32 0"
  by (simp_all add: hmacSHA512_def) (code_simp, code_simp)

lemma sample_along: "fst (deriveAlong (Fallback (\<lambda>s. 1)) ixs (sampleKey, replicate 32 0)) = sampleKey"
proof -
  have "deriveAlong (Fallback (\<lambda>s. 1)) ixs (sampleKey, replicate 32 0) = (sampleKey, replicate 32 0)"
    by (induction ixs) (simp_all add: deriveChildKey_def sample_hmac Let_def)
  then show ?thesis by simp
qed

lemma sample_account:
  assumes "w_masterKey w = sampleKey" "w_masterChainCode w = replicate 32 0"
  shows "addAccount (Fallback (\<lambda>s. 1)) plain_secp name defaultPath w = Inr (w \<lparr> w_accounts := w_accounts w @
    [\<lparr> wa_name = name, wa_address = drop 12 (keccak256 (sampleKey @ sampleKey)),
       wa_keypair = \<lparr> kp_priv = sampleKey, kp_pub = sampleKey @ sampleKey \<rparr>, wa_path = defaultPath \<rparr>] \<rparr>)"
proof -
  have len: "length (sampleKey @ sampleKey) = 64" and ok: "length sampleKey = 32" "sampleKey \<noteq> replicate 32 0"
    by (simp_all add: sampleKey_def) code_simp
  show ?thesis
    using assms by (simp add: addAccount_def deriveKeyFromPath_def default_indices sample_along plain_key_32 [OF ok] addrFromPublicKey_64 [OF len])
qed

lemma sample_setup:
  assumes "mnemonic = fst (generateMnemonic (Fallback (\<lambda>s. 1)) (\<lambda>i. 0) 0)"
  shows "\<exists>file pos'. setupWallet (Fallback (\<lambda>s. 1)) plain_secp (\<lambda>p. True) (\<lambda>i. 0) pos path mnemonic password = Inr (sampleWallet path, file, pos')"
proof -
  let ?w = "initializeFromSeed (Fallback (\<lambda>s. 1)) (mnemonicToSeed (Fallback (\<lambda>s. 1)) mnemonic []) ((newWallet path mnemonic) \<lparr> w_salt := toHex (replicate 16 0) \<rparr>)"
  have m: "w_masterKey ?w = sampleKey" "w_masterChainCode ?w = replicate 32 0"
    by (simp_all add: initializeFromSeed_def sample_hmac Let_def)
  have "map (\<lambda>i. 0) [pos..<pos + 16] = replicate 16 (0 :: byte)"
    by (rule replicate_eqI) auto
  moreover have "addAccount (Fallback (\<lambda>s. 1)) plain_secp ''Default'' defaultPath ?w = Inr (sampleWallet path)"
    using sample_account [OF m] by (simp add: sampleWallet_def initializeFromSeed_def newWallet_def sample_hmac assms Let_def)
  ultimately show ?thesis
    by (simp add: setupWallet_def secureRandomBytes_def walletSave_def encryptAES256GCM_def case_prod_unfold Let_def)
qed

lemma sample_created:
  "\<exists>file pos. walletCreate (Fallback (\<lambda>s. 1)) plain_secp (\<lambda>p. True) (\<lambda>i. 0) 0 path password = Inr (sampleWallet path, file, pos)"
  by (simp add: walletCreate_def case_prod_unfold Let_def sample_setup)

theorem wallet_accounts_derived_witness:
  "wallet_reachable (Fallback (\<lambda>s. 1)) plain_secp (sampleWallet ''w.json'') \<and>
   wallet_inv (Fallback (\<lambda>s. 1)) plain_secp (sampleWallet ''w.json'') \<and>
   (\<exists>key. exportPrivateKey (drop 12 (keccak256 (sampleKey @ sampleKey))) ''wrong'' (sampleWallet ''w.json'') = Inr (toHex (kp_priv key)) \<and>
     keyAddress key = Inr (drop 12 (keccak256 (sampleKey @ sampleKey))))"
proof -
  obtain f pos where "walletCreate (Fallback (\<lambda>s. 1)) plain_secp (\<lambda>p. True) (\<lambda>i. 0) 0 ''w.json'' ''pw'' = Inr (sampleWallet ''w.json'', f, pos)"
    using sample_created by blast
  then have r: "wallet_reachable (Fallback (\<lambda>s. 1)) plain_secp (sampleWallet ''w.json'')" by (rule created)
  have "exportPrivateKey (drop 12 (keccak256 (sampleKey @ sampleKey))) ''wrong'' (sampleWallet ''w.json'') = Inr (toHex sampleKey)"
    by (simp add: exportPrivateKey_def getAccountByAddress_def sampleWallet_def)
  moreover have "keyAddress \<lparr> kp_priv = sampleKey, kp_pub = sampleKey @ sampleKey \<rparr> = Inr (drop 12 (keccak256 (sampleKey @ sampleKey)))"
    by (simp add: keyAddress_def addrFromPublicKey_64 sampleKey_def)
  ultimately have "\<exists>key. exportPrivateKey (drop 12 (keccak256 (sampleKey @ sampleKey))) ''wrong'' (sampleWallet ''w.json'') = Inr (toHex (kp_priv key)) \<and>
     keyAddress key = Inr (drop 12 (keccak256 (sampleKey @ sampleKey)))"
    by (intro exI [of _ "\<lparr> kp_priv = sampleKey, kp_pub = sampleKey @ sampleKey \<rparr>"]) simp
  then show ?thesis using r wallet_accounts_derived [OF r, THEN conjunct1] by (intro conjI)
qed

text \<open>
  Restoring a wallet (src/wallet.cpp:526-574): importing the mnemonic that \<open>exportMnemonic\<close> shows, on any machine, to any file and under any password, gives
  the master key and the account of the original wallet, and then saves. It is refused when the phrase does not validate.
\<close>

theorem wallet_import_restores:
  assumes "walletCreate B S writable rnd pos path password = Inr (w, file, pos')"
  shows "\<exists>w'. w_accounts w' = w_accounts w \<and> w_masterKey w' = w_masterKey w \<and> w_masterChainCode w' = w_masterChainCode w \<and>
      w_mnemonic w' = w_mnemonic w \<and> w_path w' = path' \<and>
      importMnemonic B S writable' rnd' p (exportMnemonic any w) path' password' =
        (if validateMnemonic B (exportMnemonic any w)
         then bindR (walletSave B writable' rnd' (p + 16) password' w') (\<lambda>(file', q). Inr (w', file', q))
         else Inl (Runtime_error ''Invalid BIP39 mnemonic''))"
proof -
  let ?start = "\<lambda>s path m. initializeFromSeed B (mnemonicToSeed B m []) ((newWallet path m) \<lparr> w_salt := s \<rparr>)"
  obtain m s where m: "addAccount B S ''Default'' defaultPath (?start s path m) = Inr w"
    using assms by (auto simp: walletCreate_def case_prod_unfold Let_def elim!: setupWallet_InrE)
  then obtain acc where acc: "w = (?start s path m) \<lparr> w_accounts := [acc] \<rparr>"
    by (elim addAccount_InrE) (simp add: initializeFromSeed_def newWallet_def Let_def)
  define w' where "w' = (?start (toHex (map rnd' [p..<p + 16])) path' m) \<lparr> w_accounts := [acc] \<rparr>"
  have "deriveKeyFromPath B S defaultPath (?start t q m) = deriveKeyFromPath B S defaultPath (?start s path m)" for t q
    by (simp add: deriveKeyFromPath_def initializeFromSeed_def Let_def)
  then have "addAccount B S ''Default'' defaultPath (?start (toHex (map rnd' [p..<p + 16])) path' m) = Inr w'"
    using m acc by (auto simp: addAccount_def w'_def bindR_Inr_iff initializeFromSeed_def newWallet_def Let_def)
  moreover have "w_mnemonic w = m" using acc by (simp add: initializeFromSeed_def newWallet_def Let_def)
  ultimately show ?thesis
    by (intro exI [of _ w'])
      (simp add: importMnemonic_def exportMnemonic_def setupWallet_def secureRandomBytes_def acc w'_def initializeFromSeed_def newWallet_def Let_def)
qed

lemma sample_mnemonic: "fst (generateMnemonic (Fallback (\<lambda>s. 1)) (\<lambda>i. 0) 0) = joinWords (replicate 12 ''abandon'')"
  by code_simp

lemma sample_validates: "validateMnemonic (Fallback (\<lambda>s. 1)) (joinWords (replicate 12 ''abandon''))"
  by code_simp

theorem wallet_import_restores_witness:
  "validateMnemonic (Fallback (\<lambda>s. 1)) (exportMnemonic ''wrong'' (sampleWallet ''w.json'')) \<and>
   (\<exists>w' t q. importMnemonic (Fallback (\<lambda>s. 1)) plain_secp (\<lambda>p. True) (\<lambda>i. 9) 0 (exportMnemonic ''wrong'' (sampleWallet ''w.json'')) ''x'' ''pw2'' =
      Inr (w', t, q) \<and> w_accounts w' = w_accounts (sampleWallet ''w.json''))"
proof -
  obtain f pos where c: "walletCreate (Fallback (\<lambda>s. 1)) plain_secp (\<lambda>p. True) (\<lambda>i. 0) 0 ''w.json'' ''pw'' = Inr (sampleWallet ''w.json'', f, pos)"
    using sample_created by blast
  have v: "validateMnemonic (Fallback (\<lambda>s. 1)) (exportMnemonic ''wrong'' (sampleWallet ''w.json''))"
    using sample_mnemonic sample_validates by (simp add: exportMnemonic_def sampleWallet_def)
  then show ?thesis
    using wallet_import_restores [OF c, of "''x''" "\<lambda>p. True" "\<lambda>i. 9" 0 "''wrong''" "''pw2''"]
    by (auto simp: walletSave_def encrypt_fallback simp del: upt_Suc)
qed

text \<open>
  The wallet dialogue (app/main.cpp:129-171): the command \<open>load\<close> always ends in an exception, since loading is not implemented. When \<open>create\<close>
  succeeds the file was writable and holds the mnemonic in a form that the typed password decrypts, and the wallet has two accounts,
  \<open>Default\<close> and \<open>default\<close>, with the same path, key and address.
\<close>

theorem wallet_dialogue:
  assumes "\<forall>L. B = With_OpenSSL L \<longrightarrow> gcm_decrypts L"
  shows "(\<exists>e. walletCLI B S writable files rnd ''load'' path password = Inl e) \<and>
    (\<forall>outcome. walletCLI B S writable files rnd ''create'' path password = Inr outcome \<longrightarrow>
       (\<exists>w t a b. outcome = Wallet_saved w (keystoreText t w) \<and> writable path \<and> wallet_inv B S w \<and>
          decryptAES256GCM B (w_salt w) t password = Inr (w_mnemonic w) \<and>
          w_accounts w = [a, b] \<and> wa_name a = ''Default'' \<and> wa_name b = ''default'' \<and>
          wa_path a = wa_path b \<and> wa_keypair a = wa_keypair b \<and> wa_address a = wa_address b))"
proof (intro conjI allI impI)
  show "\<exists>e. walletCLI B S writable files rnd ''load'' path password = Inl e"
    by (simp add: walletCLI_def walletLoad_def split: option.split)
  fix outcome
  assume "walletCLI B S writable files rnd ''create'' path password = Inr outcome"
  then obtain w1 file1 pos1 w t pos2 where run: "walletCreate B S writable rnd 0 path password = Inr (w1, file1, pos1)"
      "addAccount B S ''default'' defaultPath w1 = Inr w" "walletSave B writable rnd pos1 password w = Inr (t, pos2)" "outcome = Wallet_saved w t"
    by (auto simp: walletCLI_def bindR_Inr_iff)
  obtain w0 where w0: "addAccount B S ''Default'' defaultPath w0 = Inr w1" "w_accounts w0 = []" "w_path w0 = path"
    using run(1) by (auto simp: walletCreate_def case_prod_unfold Let_def initializeFromSeed_def newWallet_def elim!: setupWallet_InrE)
  from w0 run(2) obtain a b where ab: "w_accounts w = [a, b]" "wa_name a = ''Default''" "wa_name b = ''default''" "wa_path a = wa_path b"
      "wa_keypair a = wa_keypair b" "wa_address a = wa_address b" "w_path w = path"
    by (auto simp: addAccount_def deriveKeyFromPath_def bindR_Inr_iff)
  have "wallet_inv B S w" using run(1,2) by (blast intro: reachable_inv wallet_reachable.intros)
  with ab run(3,4) decrypt_encrypt [OF _ assms]
  show "\<exists>w t a b. outcome = Wallet_saved w (keystoreText t w) \<and> writable path \<and> wallet_inv B S w \<and>
          decryptAES256GCM B (w_salt w) t password = Inr (w_mnemonic w) \<and>
          w_accounts w = [a, b] \<and> wa_name a = ''Default'' \<and> wa_name b = ''default'' \<and>
          wa_path a = wa_path b \<and> wa_keypair a = wa_keypair b \<and> wa_address a = wa_address b"
    by (elim walletSave_decrypts) (intro exI [of _ w], auto)
qed

theorem wallet_dialogue_witness:
  "(\<exists>outcome. walletCLI (Fallback (\<lambda>s. 1)) plain_secp (\<lambda>p. True) (\<lambda>p. None) (\<lambda>i. 0) ''create'' ''w.json'' ''pw'' = Inr outcome \<and>
     (\<exists>w t a b. outcome = Wallet_saved w (keystoreText t w) \<and> w_accounts w = [a, b] \<and> wa_address a = wa_address b)) \<and>
   (\<exists>e. walletCLI (Fallback (\<lambda>s. 1)) plain_secp (\<lambda>p. True) (\<lambda>p. Some ''saved'') (\<lambda>i. 0) ''load'' ''w.json'' ''pw'' = Inl e)"
proof -
  obtain f pos where c: "walletCreate (Fallback (\<lambda>s. 1)) plain_secp (\<lambda>p. True) (\<lambda>i. 0) 0 ''w.json'' ''pw'' = Inr (sampleWallet ''w.json'', f, pos)"
    using sample_created by blast
  have "\<exists>outcome. walletCLI (Fallback (\<lambda>s. 1)) plain_secp (\<lambda>p. True) (\<lambda>p. None) (\<lambda>i. 0) ''create'' ''w.json'' ''pw'' = Inr outcome"
    by (simp add: walletCLI_def c sample_account sampleWallet_def walletSave_def encrypt_fallback del: upt_Suc)
  then show ?thesis
    using wallet_dialogue [of "Fallback (\<lambda>s. 1)" plain_secp "\<lambda>p. True" "\<lambda>p. None" "\<lambda>i. 0" "''w.json''" "''pw''"]
      wallet_dialogue [of "Fallback (\<lambda>s. 1)" plain_secp "\<lambda>p. True" "\<lambda>p. Some ''saved''" "\<lambda>i. 0" "''w.json''" "''pw''"]
    by blast
qed

end
