(* ===== verification/Scalar.thy ===== *)
theory Scalar
  imports Gambit_Prelude
begin

unbundle bit_operations_syntax

text \<open>
  Arithmetic modulo the order of the curve group in the vendored curve library: \<open>src/external/secp256k1/src/scalar_4x64_impl.h\<close> (the variant for machines with
  128-bit products), \<open>scalar_impl.h\<close>, the 64-bit big-endian helpers of \<open>util.h\<close> and the key test of \<open>secp256k1.c\<close>. A scalar is four 64-bit limbs, least
  significant first; \<open>secp256k1_uint128\<close> is a word of 128 bits. The checks of the \<open>VERIFY\<close> build are left out; what they state is proved.
\<close>

type_synonym u128 = "128 word"

section \<open>Words\<close>

definition read_be64 :: "bytes \<Rightarrow> u64" where
  "read_be64 p = push_bit 56 (ucast (p ! 0)) OR push_bit 48 (ucast (p ! 1)) OR push_bit 40 (ucast (p ! 2)) OR push_bit 32 (ucast (p ! 3)) OR
     push_bit 24 (ucast (p ! 4)) OR push_bit 16 (ucast (p ! 5)) OR push_bit 8 (ucast (p ! 6)) OR ucast (p ! 7)"

definition write_be64 :: "u64 \<Rightarrow> bytes" where
  "write_be64 x = [ucast (drop_bit 56 x), ucast (drop_bit 48 x), ucast (drop_bit 40 x), ucast (drop_bit 32 x),
     ucast (drop_bit 24 x), ucast (drop_bit 16 x), ucast (drop_bit 8 x), ucast x]"

definition u128_from_u64 :: "u64 \<Rightarrow> u128" where
  "u128_from_u64 a = ucast a"

definition u128_accum_u64 :: "u128 \<Rightarrow> u64 \<Rightarrow> u128" where
  "u128_accum_u64 t a = t + ucast a"

definition u128_to_u64 :: "u128 \<Rightarrow> u64" where
  "u128_to_u64 t = ucast t"

definition u128_rshift64 :: "u128 \<Rightarrow> u128" where
  "u128_rshift64 t = drop_bit 64 t"

section \<open>Scalars\<close>

record secp256k1_scalar =
  d0 :: u64
  d1 :: u64
  d2 :: u64
  d3 :: u64

definition N_0 :: u64 where "N_0 = 0xBFD25E8CD0364141"

definition N_1 :: u64 where "N_1 = 0xBAAEDCE6AF48A03B"

definition N_2 :: u64 where "N_2 = 0xFFFFFFFFFFFFFFFE"

definition N_3 :: u64 where "N_3 = 0xFFFFFFFFFFFFFFFF"

definition N_C_0 :: u64 where "N_C_0 = NOT N_0 + 1"

definition N_C_1 :: u64 where "N_C_1 = NOT N_1"

definition N_C_2 :: u64 where "N_C_2 = 1"

definition N_H_0 :: u64 where "N_H_0 = 0xDFE92F46681B20A0"

definition N_H_1 :: u64 where "N_H_1 = 0x5D576E7357A4501D"

definition N_H_2 :: u64 where "N_H_2 = 0xFFFFFFFFFFFFFFFF"

definition N_H_3 :: u64 where "N_H_3 = 0x7FFFFFFFFFFFFFFF"

definition scalar_set_int :: "u32 \<Rightarrow> secp256k1_scalar" where
  "scalar_set_int v = \<lparr> d0 = ucast v, d1 = 0, d2 = 0, d3 = 0 \<rparr>"

definition scalar_check_overflow :: "secp256k1_scalar \<Rightarrow> bool" where
  "scalar_check_overflow a =
     (let no = (d3 a < N_3);
          no = (no \<or> d2 a < N_2);
          yes = (d2 a > N_2 \<and> \<not> no);
          no = (no \<or> d1 a < N_1);
          yes = (yes \<or> (d1 a > N_1 \<and> \<not> no));
          yes = (yes \<or> (d0 a \<ge> N_0 \<and> \<not> no))
      in yes)"

definition scalar_reduce :: "secp256k1_scalar \<Rightarrow> u64 \<Rightarrow> secp256k1_scalar" where
  "scalar_reduce r overflow =
     (let t = u128_from_u64 (d0 r);
          t = u128_accum_u64 t (overflow * N_C_0);
          r0 = u128_to_u64 t; t = u128_rshift64 t;
          t = u128_accum_u64 t (d1 r);
          t = u128_accum_u64 t (overflow * N_C_1);
          r1 = u128_to_u64 t; t = u128_rshift64 t;
          t = u128_accum_u64 t (d2 r);
          t = u128_accum_u64 t (overflow * N_C_2);
          r2 = u128_to_u64 t; t = u128_rshift64 t;
          t = u128_accum_u64 t (d3 r);
          r3 = u128_to_u64 t
      in \<lparr> d0 = r0, d1 = r1, d2 = r2, d3 = r3 \<rparr>)"

definition scalar_add :: "secp256k1_scalar \<Rightarrow> secp256k1_scalar \<Rightarrow> secp256k1_scalar \<times> u64" where
  "scalar_add a b =
     (let t = u128_from_u64 (d0 a);
          t = u128_accum_u64 t (d0 b);
          r0 = u128_to_u64 t; t = u128_rshift64 t;
          t = u128_accum_u64 t (d1 a);
          t = u128_accum_u64 t (d1 b);
          r1 = u128_to_u64 t; t = u128_rshift64 t;
          t = u128_accum_u64 t (d2 a);
          t = u128_accum_u64 t (d2 b);
          r2 = u128_to_u64 t; t = u128_rshift64 t;
          t = u128_accum_u64 t (d3 a);
          t = u128_accum_u64 t (d3 b);
          r3 = u128_to_u64 t; t = u128_rshift64 t;
          r = \<lparr> d0 = r0, d1 = r1, d2 = r2, d3 = r3 \<rparr>;
          overflow = u128_to_u64 t + of_bool (scalar_check_overflow r)
      in (scalar_reduce r overflow, overflow))"

definition scalar_set_b32 :: "bytes \<Rightarrow> secp256k1_scalar \<times> bool" where
  "scalar_set_b32 b32 =
     (let r = \<lparr> d0 = read_be64 (drop 24 b32), d1 = read_be64 (drop 16 b32), d2 = read_be64 (drop 8 b32), d3 = read_be64 (drop 0 b32) \<rparr>;
          over = scalar_check_overflow r
      in (scalar_reduce r (of_bool over), over))"

definition scalar_get_b32 :: "secp256k1_scalar \<Rightarrow> bytes" where
  "scalar_get_b32 a = write_be64 (d3 a) @ write_be64 (d2 a) @ write_be64 (d1 a) @ write_be64 (d0 a)"

definition scalar_is_zero :: "secp256k1_scalar \<Rightarrow> bool" where
  "scalar_is_zero a \<longleftrightarrow> (d0 a OR d1 a OR d2 a OR d3 a) = 0"

definition scalar_is_one :: "secp256k1_scalar \<Rightarrow> bool" where
  "scalar_is_one a \<longleftrightarrow> ((d0 a XOR 1) OR d1 a OR d2 a OR d3 a) = 0"

definition scalar_is_even :: "secp256k1_scalar \<Rightarrow> bool" where
  "scalar_is_even a \<longleftrightarrow> \<not> (d0 a AND 1 \<noteq> 0)"

definition scalar_eq :: "secp256k1_scalar \<Rightarrow> secp256k1_scalar \<Rightarrow> bool" where
  "scalar_eq a b \<longleftrightarrow> ((d0 a XOR d0 b) OR (d1 a XOR d1 b) OR (d2 a XOR d2 b) OR (d3 a XOR d3 b)) = 0"

definition scalar_negate :: "secp256k1_scalar \<Rightarrow> secp256k1_scalar" where
  "scalar_negate a =
     (let nonzero = 0xFFFFFFFFFFFFFFFF * of_bool (\<not> scalar_is_zero a);
          t = u128_from_u64 (NOT (d0 a));
          t = u128_accum_u64 t (N_0 + 1);
          r0 = u128_to_u64 t AND nonzero; t = u128_rshift64 t;
          t = u128_accum_u64 t (NOT (d1 a));
          t = u128_accum_u64 t N_1;
          r1 = u128_to_u64 t AND nonzero; t = u128_rshift64 t;
          t = u128_accum_u64 t (NOT (d2 a));
          t = u128_accum_u64 t N_2;
          r2 = u128_to_u64 t AND nonzero; t = u128_rshift64 t;
          t = u128_accum_u64 t (NOT (d3 a));
          t = u128_accum_u64 t N_3;
          r3 = u128_to_u64 t AND nonzero
      in \<lparr> d0 = r0, d1 = r1, d2 = r2, d3 = r3 \<rparr>)"

definition scalar_is_high :: "secp256k1_scalar \<Rightarrow> bool" where
  "scalar_is_high a =
     (let no = (d3 a < N_H_3);
          yes = (d3 a > N_H_3 \<and> \<not> no);
          no = (no \<or> (d2 a < N_H_2 \<and> \<not> yes));
          no = (no \<or> (d1 a < N_H_1 \<and> \<not> yes));
          yes = (yes \<or> (d1 a > N_H_1 \<and> \<not> no));
          yes = (yes \<or> (d0 a > N_H_0 \<and> \<not> no))
      in yes)"

definition scalar_cond_negate :: "secp256k1_scalar \<Rightarrow> bool \<Rightarrow> secp256k1_scalar \<times> int" where
  "scalar_cond_negate r flag =
     (let mask = - of_bool flag;
          nonzero = of_bool (scalar_is_zero r) - 1;
          t = u128_from_u64 (d0 r XOR mask);
          t = u128_accum_u64 t ((N_0 + 1) AND mask);
          r0 = u128_to_u64 t AND nonzero; t = u128_rshift64 t;
          t = u128_accum_u64 t (d1 r XOR mask);
          t = u128_accum_u64 t (N_1 AND mask);
          r1 = u128_to_u64 t AND nonzero; t = u128_rshift64 t;
          t = u128_accum_u64 t (d2 r XOR mask);
          t = u128_accum_u64 t (N_2 AND mask);
          r2 = u128_to_u64 t AND nonzero; t = u128_rshift64 t;
          t = u128_accum_u64 t (d3 r XOR mask);
          t = u128_accum_u64 t (N_3 AND mask);
          r3 = u128_to_u64 t AND nonzero
      in (\<lparr> d0 = r0, d1 = r1, d2 = r2, d3 = r3 \<rparr>, 2 * of_bool (mask = 0) - 1))"

definition scalar_cmov :: "secp256k1_scalar \<Rightarrow> secp256k1_scalar \<Rightarrow> bool \<Rightarrow> secp256k1_scalar" where
  "scalar_cmov r a flag =
     (let mask0 = of_bool flag + NOT 0;
          mask1 = NOT mask0
      in \<lparr> d0 = (d0 r AND mask0) OR (d0 a AND mask1), d1 = (d1 r AND mask0) OR (d1 a AND mask1),
           d2 = (d2 r AND mask0) OR (d2 a AND mask1), d3 = (d3 r AND mask0) OR (d3 a AND mask1) \<rparr>)"

section \<open>Keys\<close>

definition scalar_set_b32_seckey :: "bytes \<Rightarrow> secp256k1_scalar \<times> bool" where
  "scalar_set_b32_seckey bin =
     (let (r, overflow) = scalar_set_b32 bin in (r, \<not> overflow \<and> \<not> scalar_is_zero r))"

definition secp_ec_seckey_verify :: "bytes \<Rightarrow> bool" where
  "secp_ec_seckey_verify seckey = snd (scalar_set_b32_seckey seckey)"

section \<open>Limbs\<close>

text \<open>The number a scalar stands for, and the order of the group.\<close>

definition sval :: "secp256k1_scalar \<Rightarrow> nat" where
  "sval a = unat (d0 a) + 2 ^ 64 * (unat (d1 a) + 2 ^ 64 * (unat (d2 a) + 2 ^ 64 * unat (d3 a)))"

definition order :: nat where
  "order = 0xFFFFFFFFFFFFFFFFFFFFFFFFFFFFFFFEBAAEDCE6AF48A03BBFD25E8CD0364141"

lemma unat_u64_less [simp]: "unat (x :: u64) < 2 ^ 64"
  using unsigned_less [of x, where ?'a = nat] by simp

lemma unat_to_u64: "unat (u128_to_u64 t) = unat t mod 2 ^ 64"
  by (simp add: u128_to_u64_def unsigned_ucast_eq take_bit_eq_mod)

lemma unat_rshift64: "unat (u128_rshift64 t) = unat t div 2 ^ 64"
  by (simp add: u128_rshift64_def drop_bit_eq_div unat_div_distrib)

lemma unat_from_u64: "unat (u128_from_u64 a) = unat a"
proof -
  have "unat a < 2 ^ 128" using unat_u64_less [of a] by simp
  then show ?thesis by (simp add: u128_from_u64_def unsigned_ucast_eq take_bit_nat_eq_self)
qed

lemma unat_accum: "unat t \<le> 2 ^ 127 \<Longrightarrow> unat (u128_accum_u64 t a) = unat t + unat a"
proof -
  assume t: "unat t \<le> 2 ^ 127"
  have a: "unat (ucast a :: u128) = unat a" using unat_from_u64 [of a] by (simp add: u128_from_u64_def)
  have "unat t + unat a < 2 ^ 128" using t unat_u64_less [of a] by simp
  then show ?thesis unfolding u128_accum_u64_def unat_word_ariths(1) a by simp
qed

text \<open>One step of a carry chain.\<close>

lemma chain_step:
  assumes "unat t \<le> 1"
  shows "unat (u128_to_u64 (u128_accum_u64 (u128_accum_u64 t a) b)) + 2 ^ 64 * unat (u128_rshift64 (u128_accum_u64 (u128_accum_u64 t a) b)) =
      unat t + unat a + unat b"
    and "unat (u128_rshift64 (u128_accum_u64 (u128_accum_u64 t a) b)) \<le> 1"
proof -
  have s: "unat (u128_accum_u64 (u128_accum_u64 t a) b) = unat t + unat a + unat b"
    using assms unat_u64_less [of a] by (simp add: unat_accum)
  show "unat (u128_to_u64 (u128_accum_u64 (u128_accum_u64 t a) b)) + 2 ^ 64 * unat (u128_rshift64 (u128_accum_u64 (u128_accum_u64 t a) b)) =
      unat t + unat a + unat b"
    unfolding unat_to_u64 unat_rshift64 s by (rule mod_mult_div_eq)
  have "unat t + unat a + unat b < 2 * 2 ^ 64" using assms unat_u64_less [of a] unat_u64_less [of b] by linarith
  then show "unat (u128_rshift64 (u128_accum_u64 (u128_accum_u64 t a) b)) \<le> 1"
    unfolding unat_rshift64 s by (simp add: less_mult_imp_div_less less_Suc_eq_le [symmetric])
qed

text \<open>The chain on four pairs of limbs: a 256-bit sum and its carry.\<close>

definition chain4 :: "u64 \<times> u64 \<Rightarrow> u64 \<times> u64 \<Rightarrow> u64 \<times> u64 \<Rightarrow> u64 \<times> u64 \<Rightarrow> secp256k1_scalar \<times> u128" where
  "chain4 p0 p1 p2 p3 =
     (let t0 = u128_accum_u64 (u128_from_u64 (fst p0)) (snd p0);
          t1 = u128_accum_u64 (u128_accum_u64 (u128_rshift64 t0) (fst p1)) (snd p1);
          t2 = u128_accum_u64 (u128_accum_u64 (u128_rshift64 t1) (fst p2)) (snd p2);
          t3 = u128_accum_u64 (u128_accum_u64 (u128_rshift64 t2) (fst p3)) (snd p3)
      in (\<lparr> d0 = u128_to_u64 t0, d1 = u128_to_u64 t1, d2 = u128_to_u64 t2, d3 = u128_to_u64 t3 \<rparr>, u128_rshift64 t3))"

lemma chain4_sum:
  "sval (fst (chain4 (a0, b0) (a1, b1) (a2, b2) (a3, b3))) + 2 ^ 256 * unat (snd (chain4 (a0, b0) (a1, b1) (a2, b2) (a3, b3))) =
   sval \<lparr> d0 = a0, d1 = a1, d2 = a2, d3 = a3 \<rparr> + sval \<lparr> d0 = b0, d1 = b1, d2 = b2, d3 = b3 \<rparr>"
  (is ?sum)
  "unat (snd (chain4 (a0, b0) (a1, b1) (a2, b2) (a3, b3))) \<le> 1" (is ?carry)
proof -
  define t0 where "t0 = u128_accum_u64 (u128_accum_u64 0 a0) b0"
  have t0_eq: "u128_accum_u64 (u128_from_u64 a0) b0 = t0" by (simp add: t0_def u128_accum_u64_def u128_from_u64_def)
  define t1 where "t1 = u128_accum_u64 (u128_accum_u64 (u128_rshift64 t0) a1) b1"
  define t2 where "t2 = u128_accum_u64 (u128_accum_u64 (u128_rshift64 t1) a2) b2"
  define t3 where "t3 = u128_accum_u64 (u128_accum_u64 (u128_rshift64 t2) a3) b3"
  have "unat (0 :: u128) \<le> 1" by simp
  note s0 = chain_step [OF this, of a0 b0, folded t0_def]
  note s1 = chain_step [OF s0(2), of a1 b1, folded t1_def]
  note s2 = chain_step [OF s1(2), of a2 b2, folded t2_def]
  note s3 = chain_step [OF s2(2), of a3 b3, folded t3_def]
  have c: "chain4 (a0, b0) (a1, b1) (a2, b2) (a3, b3) =
      (\<lparr> d0 = u128_to_u64 t0, d1 = u128_to_u64 t1, d2 = u128_to_u64 t2, d3 = u128_to_u64 t3 \<rparr>, u128_rshift64 t3)"
    by (simp add: chain4_def t0_eq t1_def t2_def t3_def Let_def)
  show ?carry unfolding c using s3(2) by simp
  show ?sum unfolding c sval_def secp256k1_scalar.simps fst_conv snd_conv using s0(1) s1(1) s2(1) s3(1) by simp
qed

section \<open>Arithmetic modulo the order\<close>

lemmas constants = N_0_def N_1_def N_2_def N_3_def N_C_0_def N_C_1_def N_C_2_def N_H_0_def N_H_1_def N_H_2_def N_H_3_def

lemma sval_less: "sval a < 2 ^ 256"
  using unat_u64_less [of "d0 a"] unat_u64_less [of "d1 a"] unat_u64_less [of "d2 a"] unat_u64_less [of "d3 a"]
  unfolding sval_def by simp

lemma limb_le: "x < B \<Longrightarrow> y < B \<Longrightarrow> x + B * X \<le> y + B * Y \<longleftrightarrow> X < Y \<or> (X = Y \<and> x \<le> y)" for B :: nat
proof (cases X Y rule: linorder_cases)
  case less
  assume "x < B" "y < B"
  obtain k where "Y = Suc (X + k)" using less less_iff_Suc_add by auto
  with \<open>x < B\<close> show ?thesis by (simp add: algebra_simps)
next
  case greater
  assume "x < B" "y < B"
  obtain k where "X = Suc (Y + k)" using greater less_iff_Suc_add by auto
  with \<open>y < B\<close> show ?thesis by (simp add: algebra_simps)
qed auto

lemma limb_less: "x < B \<Longrightarrow> y < B \<Longrightarrow> x + B * X < y + B * Y \<longleftrightarrow> X < Y \<or> (X = Y \<and> x < y)" for B :: nat
  using limb_le [of y B x Y X] by (auto simp: not_le [symmetric])

lemma limb_eq: "x < B \<Longrightarrow> y < B \<Longrightarrow> x + B * X = y + B * Y \<longleftrightarrow> X = Y \<and> x = y" for B :: nat
  by (metis limb_le nat_less_le order_refl le_antisym)

lemma sval_le_iff:
  "sval a \<le> sval b \<longleftrightarrow> d3 a < d3 b \<or> d3 a = d3 b \<and> (d2 a < d2 b \<or> d2 a = d2 b \<and> (d1 a < d1 b \<or> d1 a = d1 b \<and> d0 a \<le> d0 b))"
  unfolding sval_def by (simp only: limb_le limb_less limb_eq unat_u64_less unat_inject word_less_nat_alt word_le_nat_alt) blast

lemma sval_eq_iff: "sval a = sval b \<longleftrightarrow> a = b"
  unfolding sval_def by (simp only: limb_eq unat_u64_less unat_inject) (cases a; cases b; auto)

lemma sval_eqD: "sval a = sval b \<Longrightarrow> a = b"
  by (simp add: sval_eq_iff)

lemma sval_order: "sval \<lparr> d0 = N_0, d1 = N_1, d2 = N_2, d3 = N_3 \<rparr> = order"
  by (simp add: sval_def constants order_def)

lemma sval_complement: "sval \<lparr> d0 = N_C_0, d1 = N_C_1, d2 = N_C_2, d3 = 0 \<rparr> = 2 ^ 256 - order"
  by (simp add: sval_def constants order_def)

lemma sval_half: "sval \<lparr> d0 = N_H_0, d1 = N_H_1, d2 = N_H_2, d3 = N_H_3 \<rparr> = order div 2"
  by (simp add: sval_def constants order_def)

lemma u64_max: "x \<le> (0xFFFFFFFFFFFFFFFF :: u64)"
  using unat_u64_less [of x] by (simp add: word_le_nat_alt)

lemma check_overflow_iff: "scalar_check_overflow a \<longleftrightarrow> order \<le> sval a"
proof -
  have "d3 a \<le> N_3" unfolding N_3_def by (rule u64_max)
  then show ?thesis
    unfolding sval_order [symmetric] sval_le_iff by (auto simp: scalar_check_overflow_def Let_def not_less)
qed

lemma is_high_iff: "scalar_is_high a \<longleftrightarrow> order div 2 < sval a"
proof -
  have "d2 a \<le> N_H_2" unfolding N_H_2_def by (rule u64_max)
  then show ?thesis
    unfolding sval_half [symmetric] not_le [symmetric] sval_le_iff by (auto simp: scalar_is_high_def Let_def not_less)
qed

lemma is_zero_iff: "scalar_is_zero a \<longleftrightarrow> sval a = 0"
  by (auto simp: scalar_is_zero_def sval_def or_eq_0_iff unat_eq_0)

lemma accum_0 [simp]: "u128_accum_u64 t 0 = t"
  by (simp add: u128_accum_u64_def)

lemma reduce_chain: "scalar_reduce r ov = fst (chain4 (d0 r, ov * N_C_0) (d1 r, ov * N_C_1) (d2 r, ov * N_C_2) (d3 r, 0))"
  by (simp add: scalar_reduce_def chain4_def Let_def)

lemma sval_mod_chain:
  "sval (fst (chain4 (a0, b0) (a1, b1) (a2, b2) (a3, b3))) =
   (sval \<lparr> d0 = a0, d1 = a1, d2 = a2, d3 = a3 \<rparr> + sval \<lparr> d0 = b0, d1 = b1, d2 = b2, d3 = b3 \<rparr>) mod 2 ^ 256"
  using chain4_sum(1) [of a0 b0 a1 b1 a2 b2 a3 b3] sval_less [of "fst (chain4 (a0, b0) (a1, b1) (a2, b2) (a3, b3))"]
  by (metis mod_mult_self2 mod_less)

lemma order_bounds: "0 < order" "order < 2 ^ 256" "2 ^ 256 < 2 * order"
  by (simp_all add: order_def)

lemma sval_eta [simp]: "\<lparr> d0 = d0 a, d1 = d1 a, d2 = d2 a, d3 = d3 a \<rparr> = (a :: secp256k1_scalar)"
  by simp

lemma reduce_0: "scalar_reduce r 0 = r"
proof (rule sval_eqD)
  have "sval (scalar_reduce r 0) = sval r mod 2 ^ 256"
    unfolding reduce_chain sval_mod_chain by (simp add: sval_def [of "\<lparr> d0 = 0, d1 = 0, d2 = 0, d3 = 0 \<rparr>"])
  then show "sval (scalar_reduce r 0) = sval r" using sval_less [of r] by simp
qed

lemma reduce_1: "sval (scalar_reduce r 1) = (sval r + (2 ^ 256 - order)) mod 2 ^ 256"
  unfolding reduce_chain sval_mod_chain by (simp only: mult_1 sval_eta sval_complement)

lemma reduce_1_high: "order \<le> sval r \<Longrightarrow> sval (scalar_reduce r 1) = sval r - order"
proof -
  assume h: "order \<le> sval r"
  have "sval r + (2 ^ 256 - order) = 2 ^ 256 + (sval r - order)" using h order_bounds by linarith
  moreover have "sval r - order < 2 ^ 256" using sval_less [of r] by (rule less_imp_diff_less)
  ultimately show ?thesis unfolding reduce_1 by (simp only: mod_add_self1 mod_less)
qed

lemma reduce_once: "sval (scalar_reduce r (of_bool (scalar_check_overflow r))) = sval r mod order"
proof (cases "order \<le> sval r")
  case True
  have "sval r - order < order" using sval_less [of r] order_bounds(3) by linarith
  then show ?thesis using True by (simp add: check_overflow_iff reduce_1_high le_mod_geq)
qed (simp add: check_overflow_iff reduce_0)

text \<open>The common end of addition and multiplication: a carry and a test decide whether the order is subtracted once.\<close>

lemma reduce_carry:
  assumes T: "T = sval r + 2 ^ 256 * unat c" "T < 2 * order"
  shows "sval (scalar_reduce r (c + of_bool (scalar_check_overflow r))) = T mod order \<and>
    c + of_bool (scalar_check_overflow r) = of_bool (order \<le> T)"
proof -
  have "2 ^ 256 * unat c < 2 ^ 256 * 2" using T order_bounds by linarith
  then have "unat c < 2" by (rule mult_less_cancel1 [THEN iffD1, THEN conjunct2])
  then consider "unat c = 0" | "unat c = 1" by linarith
  then show ?thesis
  proof cases
    case 1
    then have "c = 0" "T = sval r" using T by (simp_all add: unat_eq_0)
    then show ?thesis using reduce_once [of r] by (simp add: check_overflow_iff)
  next
    case 2
    then have c: "c = 1" and s: "T = sval r + 2 ^ 256" using T unat_inject [of c 1] by simp_all
    then have "sval r < order" using T order_bounds by linarith
    then have o: "c + of_bool (scalar_check_overflow r) = 1" using c by (simp add: check_overflow_iff)
    have "sval r + (2 ^ 256 - order) = T - order" "T - order < order" "order \<le> T"
      using s T order_bounds by linarith+
    moreover from this have "sval r + (2 ^ 256 - order) < 2 ^ 256" using order_bounds by linarith
    ultimately show ?thesis unfolding o reduce_1 by (simp only: mod_less le_mod_geq) simp
  qed
qed

lemma unat_small_to_u64: "unat t \<le> 1 \<Longrightarrow> unat (u128_to_u64 t) = unat t"
  by (simp add: unat_to_u64)

lemma add_spec:
  assumes "sval a < order" "sval b < order"
  shows "sval (fst (scalar_add a b)) = (sval a + sval b) mod order \<and> snd (scalar_add a b) = of_bool (order \<le> sval a + sval b)"
proof -
  let ?c = "chain4 (d0 a, d0 b) (d1 a, d1 b) (d2 a, d2 b) (d3 a, d3 b)"
  have add: "scalar_add a b = (scalar_reduce (fst ?c) (u128_to_u64 (snd ?c) + of_bool (scalar_check_overflow (fst ?c))),
      u128_to_u64 (snd ?c) + of_bool (scalar_check_overflow (fst ?c)))"
    by (simp add: scalar_add_def chain4_def Let_def)
  have "sval a + sval b = sval (fst ?c) + 2 ^ 256 * unat (snd ?c)" using chain4_sum(1) by (simp only: sval_eta)
  then have "sval a + sval b = sval (fst ?c) + 2 ^ 256 * unat (u128_to_u64 (snd ?c))" by (simp only: unat_small_to_u64 [OF chain4_sum(2)])
  then show ?thesis unfolding add fst_conv snd_conv using assms by (intro reduce_carry) simp_all
qed

lemma set_int_spec: "sval (scalar_set_int v) = unat v"
proof -
  have "unat v < 2 ^ 64" using unsigned_less [of v, where ?'a = nat] by simp
  then show ?thesis by (simp add: scalar_set_int_def sval_def unsigned_ucast_eq take_bit_nat_eq_self)
qed

lemma all_ones: "(0xFFFFFFFFFFFFFFFF :: u64) = - 1"
  by simp

lemma and_all_ones [simp]: "x AND 0xFFFFFFFFFFFFFFFF = (x :: u64)"
  unfolding all_ones by simp

lemma not_u64: "unat (NOT x :: u64) + unat x = 2 ^ 64 - 1"
proof -
  have "NOT x = 0xFFFFFFFFFFFFFFFF - x" unfolding all_ones by (simp add: not_eq_complement)
  then have "unat (NOT x) = unat (0xFFFFFFFFFFFFFFFF :: u64) - unat x" by (simp only: unat_sub [OF u64_max])
  then show ?thesis using unat_u64_less [of x] by simp
qed

lemma sval_not: "sval \<lparr> d0 = NOT (d0 a), d1 = NOT (d1 a), d2 = NOT (d2 a), d3 = NOT (d3 a) \<rparr> + sval a + 1 = 2 ^ 256"
  using not_u64 [of "d0 a"] not_u64 [of "d1 a"] not_u64 [of "d2 a"] not_u64 [of "d3 a"] by (simp add: sval_def)

lemma negate_spec:
  assumes "sval a < order"
  shows "sval (scalar_negate a) = (if sval a = 0 then 0 else order - sval a)"
proof (cases "sval a = 0")
  case True
  then show ?thesis by (simp add: scalar_negate_def is_zero_iff sval_def Let_def)
next
  case False
  let ?na = "\<lparr> d0 = NOT (d0 a), d1 = NOT (d1 a), d2 = NOT (d2 a), d3 = NOT (d3 a) \<rparr>" and ?n1 = "\<lparr> d0 = N_0 + 1, d1 = N_1, d2 = N_2, d3 = N_3 \<rparr>"
  have "scalar_negate a = fst (chain4 (NOT (d0 a), N_0 + 1) (NOT (d1 a), N_1) (NOT (d2 a), N_2) (NOT (d3 a), N_3))"
    using False by (simp add: scalar_negate_def is_zero_iff chain4_def Let_def)
  then have "sval (scalar_negate a) = (sval ?na + sval ?n1) mod 2 ^ 256" by (simp only: sval_mod_chain)
  moreover have "sval ?n1 = order + 1" by (simp add: sval_def constants order_def)
  then have "sval ?na + sval ?n1 = 2 ^ 256 + (order - sval a)" using sval_not [of a] assms by linarith
  moreover have "order - sval a < 2 ^ 256" using order_bounds by linarith
  ultimately show ?thesis using False by (simp only: mod_add_self1 mod_less if_False)
qed

lemma cond_negate_spec: "scalar_cond_negate r flag = (if flag then (scalar_negate r, -1) else (r, 1))"
proof (cases flag)
  case True
  have "(x XOR - 1 :: u64) = NOT x" for x by simp
  with True show ?thesis by (simp add: scalar_cond_negate_def scalar_negate_def Let_def)
next
  case False
  let ?r = "\<lparr> d0 = d0 r, d1 = d1 r, d2 = d2 r, d3 = d3 r \<rparr>"
  have c: "fst (chain4 (d0 r, 0) (d1 r, 0) (d2 r, 0) (d3 r, 0)) = r"
    using reduce_0 [of r] by (simp add: reduce_chain)
  have "scalar_cond_negate r False = (if scalar_is_zero r then (\<lparr> d0 = 0, d1 = 0, d2 = 0, d3 = 0 \<rparr>, 1)
      else (fst (chain4 (d0 r, 0) (d1 r, 0) (d2 r, 0) (d3 r, 0)), 1))"
    by (simp add: scalar_cond_negate_def chain4_def Let_def)
  moreover have "scalar_is_zero r \<Longrightarrow> r = \<lparr> d0 = 0, d1 = 0, d2 = 0, d3 = 0 \<rparr>"
    by (rule sval_eqD) (simp add: is_zero_iff sval_def)
  ultimately show ?thesis using False c by simp
qed

lemma cmov_spec: "scalar_cmov r a flag = (if flag then a else r)"
  by (cases flag) (simp_all add: scalar_cmov_def Let_def)

lemma xor_0_iff: "x XOR y = 0 \<longleftrightarrow> x = (y :: u64)"
proof
  assume "x XOR y = 0"
  then have "(x XOR y) XOR y = y" by simp
  then show "x = y" by (simp only: xor.assoc xor_self_eq) simp
qed simp

lemma eq_iff: "scalar_eq a b \<longleftrightarrow> a = b"
  by (cases a; cases b) (auto simp: scalar_eq_def or_eq_0_iff xor_0_iff)

lemma is_one_iff: "scalar_is_one a \<longleftrightarrow> sval a = 1"
proof -
  have "sval a = sval \<lparr> d0 = 1, d1 = 0, d2 = 0, d3 = 0 \<rparr> \<longleftrightarrow> scalar_is_one a"
    unfolding sval_eq_iff by (cases a) (auto simp: scalar_is_one_def or_eq_0_iff xor_0_iff)
  then show ?thesis by (simp add: sval_def [of "\<lparr> d0 = 1, d1 = 0, d2 = 0, d3 = 0 \<rparr>"])
qed

lemma is_even_iff: "scalar_is_even a \<longleftrightarrow> even (sval a)"
proof -
  have "bit (unat (d0 a)) 0 = bit (d0 a) 0" by (simp only: bit_unsigned_iff) simp
  then have "even (unat (d0 a)) = even (d0 a)" by (simp only: bit_0) blast
  then show ?thesis by (simp add: scalar_is_even_def sval_def and_one_eq mod_2_eq_odd)
qed

section \<open>Bytes\<close>

lemma append_byte64: "push_bit 8 v OR ucast b = v * 256 + ucast (b :: byte)" for v :: u64
  using or_push_bit_8_byte [of v b] by (simp add: push_bit_eq_mult)

lemma read_be64_value:
  assumes "length p \<ge> 8"
  shows "unat (read_be64 p) = be_value (take 8 p)"
proof -
  obtain a b c d e f g h r where p: "p = a # b # c # d # e # f # g # h # r"
    using assms by (auto simp: numeral_eq_Suc Suc_le_length_iff)
  have "read_be64 p = be_u64 (take 8 p)"
    unfolding be_u64_def by (simp add: p read_be64_def push_bit_or ac_simps or.assoc)
  then show ?thesis using assms by (simp add: unat_be_u64)
qed

lemma length_write_be64 [simp]: "length (write_be64 x) = 8"
  by (simp add: write_be64_def)

lemma be_value_digits: "be_value (map (\<lambda>i. word_of_nat (n div 256 ^ i)) (rev [0..<k])) = n mod 256 ^ k"
proof (induction k)
  case (Suc k)
  have "unat (word_of_nat (n div 256 ^ k) :: byte) = n div 256 ^ k mod 256" by (simp add: unsigned_of_nat take_bit_eq_mod)
  moreover have "n mod 256 ^ Suc k = 256 ^ k * (n div 256 ^ k mod 256) + n mod 256 ^ k"
    using mod_mult2_eq [of n "256 ^ k" 256] by (simp add: mult.commute)
  ultimately show ?case using Suc by (simp add: be_value_Cons mult.commute)
qed simp

lemma unat_drop_bit: "unat (drop_bit k x) = unat x div 2 ^ k" for x :: u64
proof -
  have "unat (drop_bit k x) = drop_bit k (unat x)" by (rule bit_eqI) (auto simp: bit_simps dest: bit_imp_le_length)
  then show ?thesis by (simp only: drop_bit_eq_div)
qed

lemma write_be64_digits: "write_be64 x = map (\<lambda>i. word_of_nat (unat x div 256 ^ i)) (rev [0..<8])"
proof -
  have "ucast (drop_bit (8 * i) x) = (word_of_nat (unat x div 256 ^ i) :: byte)" for i
  proof (rule unat_inject [THEN iffD1])
    have "(256 :: nat) ^ i = 2 ^ (8 * i)" by (simp add: power_mult)
    then show "unat (ucast (drop_bit (8 * i) x) :: byte) = unat (word_of_nat (unat x div 256 ^ i) :: byte)"
      by (simp only: unsigned_ucast_eq unsigned_of_nat unat_drop_bit of_nat_id)
  qed
  from this [of 0] this [of 1] this [of 2] this [of 3] this [of 4] this [of 5] this [of 6] this [of 7]
  show ?thesis by (simp add: write_be64_def upt_rec)
qed

lemma be_value_write_be64: "be_value (write_be64 x) = unat x"
  unfolding write_be64_digits be_value_digits using unat_u64_less [of x] by simp

lemma be_value_get_b32: "be_value (scalar_get_b32 a) = sval a"
  by (simp add: scalar_get_b32_def be_value_append be_value_write_be64 sval_def algebra_simps)

lemma length_get_b32 [simp]: "length (scalar_get_b32 a) = 32"
  by (simp add: scalar_get_b32_def)

lemma read_limbs:
  assumes "length b = 32"
  shows "sval \<lparr> d0 = read_be64 (drop 24 b), d1 = read_be64 (drop 16 b), d2 = read_be64 (drop 8 b), d3 = read_be64 (drop 0 b) \<rparr> = be_value b"
proof -
  let ?v = "\<lambda>n. be_value (take 8 (drop n b))"
  have cut: "be_value (drop n b) = ?v n * 256 ^ (24 - n) + be_value (drop (n + 8) b)" if "n \<le> 24" for n
    using be_value_append [of "take 8 (drop n b)" "drop (n + 8) b"] append_take_drop_id [of 8 "drop n b"] assms that
    by (simp add: add.commute)
  have "be_value b = ?v 0 * 256 ^ 24 + (?v 8 * 256 ^ 16 + (?v 16 * 256 ^ 8 + (?v 24 + be_value (drop 32 b))))"
    using cut [of 0] cut [of 8] cut [of 16] cut [of 24] by simp
  moreover have "drop 32 b = []" using assms by simp
  moreover have "unat (read_be64 (drop n b)) = ?v n" if "n \<le> 24" for n
    using read_be64_value [of "drop n b"] assms that by simp
  from this [of 0] this [of 8] this [of 16] this [of 24] have "unat (read_be64 (drop 0 b)) = ?v 0" "unat (read_be64 (drop 8 b)) = ?v 8"
    "unat (read_be64 (drop 16 b)) = ?v 16" "unat (read_be64 (drop 24 b)) = ?v 24" by simp_all
  ultimately show ?thesis by (simp add: sval_def)
qed

lemma set_b32_spec:
  assumes "length b = 32"
  shows "sval (fst (scalar_set_b32 b)) = be_value b mod order" "snd (scalar_set_b32 b) \<longleftrightarrow> order \<le> be_value b"
proof -
  let ?r = "\<lparr> d0 = read_be64 (drop 24 b), d1 = read_be64 (drop 16 b), d2 = read_be64 (drop 8 b), d3 = read_be64 (drop 0 b) \<rparr>"
  have "scalar_set_b32 b = (scalar_reduce ?r (of_bool (scalar_check_overflow ?r)), scalar_check_overflow ?r)"
    by (simp add: scalar_set_b32_def Let_def)
  then show "sval (fst (scalar_set_b32 b)) = be_value b mod order" "snd (scalar_set_b32 b) \<longleftrightarrow> order \<le> be_value b"
    using reduce_once [of ?r] check_overflow_iff [of ?r] read_limbs [OF assms] by (simp_all only: fst_conv snd_conv)
qed

lemma set_get_b32:
  assumes "sval a < order"
  shows "scalar_set_b32 (scalar_get_b32 a) = (a, False)"
proof -
  have "sval (fst (scalar_set_b32 (scalar_get_b32 a))) = sval a" "\<not> snd (scalar_set_b32 (scalar_get_b32 a))"
    using set_b32_spec [of "scalar_get_b32 a"] assms by (simp_all add: be_value_get_b32)
  then show ?thesis by (simp add: sval_eq_iff prod_eq_iff)
qed

lemma be_value_inject: "length a = length b \<Longrightarrow> be_value a = be_value b \<Longrightarrow> a = b"
proof (induction a b rule: list_induct2)
  case (Cons x xs y ys)
  then have "be_value xs + 256 ^ length xs * unat x = be_value ys + 256 ^ length xs * unat y"
    by (simp add: be_value_Cons algebra_simps)
  then have "unat x = unat y \<and> be_value xs = be_value ys"
    using limb_eq [OF be_value_bound [of xs], of "be_value ys"] be_value_bound [of ys] Cons.hyps by simp
  with Cons.IH show ?case by simp
qed simp

lemma get_set_b32: "length b = 32 \<Longrightarrow> be_value b < order \<Longrightarrow> scalar_get_b32 (fst (scalar_set_b32 b)) = b"
  by (rule be_value_inject) (simp_all add: be_value_get_b32 set_b32_spec)

lemma seckey_iff:
  assumes "length k = 32"
  shows "secp_ec_seckey_verify k \<longleftrightarrow> 0 < be_value k \<and> be_value k < order"
  using set_b32_spec [OF assms]
  by (auto simp: secp_ec_seckey_verify_def scalar_set_b32_seckey_def is_zero_iff case_prod_unfold Let_def not_le)

end
