(* ===== verification/Scalar_Mul.thy ===== *)
theory Scalar_Mul
  imports Scalar
begin

unbundle bit_operations_syntax

text \<open>
  Multiplication of scalars in \<open>src/external/secp256k1/src/scalar_4x64_impl.h\<close>, the portable variant: a 512-bit product by columns in a three-limb accumulator and
  its reduction in three folds of the part above 256 bits. The macros work on the accumulator \<open>(c0, c1, c2)\<close>, whose last limb has 32 bits
  in the product and 64 in the reduction.
\<close>

section \<open>The accumulator\<close>

type_synonym 'c acc = "u64 \<times> u64 \<times> 'c word"

definition u128_mul :: "u64 \<Rightarrow> u64 \<Rightarrow> u128" where
  "u128_mul a b = ucast a * ucast b"

definition u128_hi_u64 :: "u128 \<Rightarrow> u64" where
  "u128_hi_u64 t = ucast (drop_bit 64 t)"

definition u128_accum_mul :: "u128 \<Rightarrow> u64 \<Rightarrow> u64 \<Rightarrow> u128" where
  "u128_accum_mul r a b = r + ucast a * ucast b"

definition muladd :: "u64 \<Rightarrow> u64 \<Rightarrow> 'c::len acc \<Rightarrow> 'c acc" where
  "muladd a b acc =
     (let (c0, c1, c2) = acc;
          t = u128_mul a b; th = u128_hi_u64 t; tl = u128_to_u64 t;
          c0 = c0 + tl; th = th + of_bool (c0 < tl);
          c1 = c1 + th; c2 = c2 + of_bool (c1 < th)
      in (c0, c1, c2))"

definition muladd_fast :: "u64 \<Rightarrow> u64 \<Rightarrow> 'c::len acc \<Rightarrow> 'c acc" where
  "muladd_fast a b acc =
     (let (c0, c1, c2) = acc;
          t = u128_mul a b; th = u128_hi_u64 t; tl = u128_to_u64 t;
          c0 = c0 + tl; th = th + of_bool (c0 < tl);
          c1 = c1 + th
      in (c0, c1, c2))"

definition sumadd :: "u64 \<Rightarrow> 'c::len acc \<Rightarrow> 'c acc" where
  "sumadd a acc =
     (let (c0, c1, c2) = acc;
          c0 = c0 + a; over = of_bool (c0 < a);
          c1 = c1 + over; c2 = c2 + of_bool (c1 < over)
      in (c0, c1, c2))"

definition sumadd_fast :: "u64 \<Rightarrow> 'c::len acc \<Rightarrow> 'c acc" where
  "sumadd_fast a acc =
     (let (c0, c1, c2) = acc;
          c0 = c0 + a; c1 = c1 + of_bool (c0 < a)
      in (c0, c1, c2))"

definition extract64 :: "'c::len acc \<Rightarrow> u64 \<times> 'c acc" where
  "extract64 acc = (let (c0, c1, c2) = acc in (c0, (c1, ucast c2, 0)))"

definition extract64_fast :: "'c::len acc \<Rightarrow> u64 \<times> 'c acc" where
  "extract64_fast acc = (let (c0, c1, c2) = acc in (c0, (c1, 0, c2)))"

section \<open>Product and reduction\<close>

definition scalar_mul_512 :: "secp256k1_scalar \<Rightarrow> secp256k1_scalar \<Rightarrow> u64 list" where
  "scalar_mul_512 a b =
     (let acc = (0, 0, 0 :: u32);
          acc = muladd_fast (d0 a) (d0 b) acc;
          (l0, acc) = extract64_fast acc;
          acc = muladd (d0 a) (d1 b) acc;
          acc = muladd (d1 a) (d0 b) acc;
          (l1, acc) = extract64 acc;
          acc = muladd (d0 a) (d2 b) acc;
          acc = muladd (d1 a) (d1 b) acc;
          acc = muladd (d2 a) (d0 b) acc;
          (l2, acc) = extract64 acc;
          acc = muladd (d0 a) (d3 b) acc;
          acc = muladd (d1 a) (d2 b) acc;
          acc = muladd (d2 a) (d1 b) acc;
          acc = muladd (d3 a) (d0 b) acc;
          (l3, acc) = extract64 acc;
          acc = muladd (d1 a) (d3 b) acc;
          acc = muladd (d2 a) (d2 b) acc;
          acc = muladd (d3 a) (d1 b) acc;
          (l4, acc) = extract64 acc;
          acc = muladd (d2 a) (d3 b) acc;
          acc = muladd (d3 a) (d2 b) acc;
          (l5, acc) = extract64 acc;
          acc = muladd_fast (d3 a) (d3 b) acc;
          (l6, acc) = extract64_fast acc;
          l7 = fst acc
      in [l0, l1, l2, l3, l4, l5, l6, l7])"

text \<open>The three folds of the reduction: 512 bits to 385, to 258, to 256 and a carry.\<close>

definition fold_385 :: "u64 list \<Rightarrow> u64 list \<times> u32" where
  "fold_385 l =
     (let n0 = l ! 4; n1 = l ! 5; n2 = l ! 6; n3 = l ! 7;
          acc = (l ! 0, 0, 0 :: u64);
          acc = muladd_fast n0 N_C_0 acc;
          (m0, acc) = extract64_fast acc;
          acc = sumadd_fast (l ! 1) acc;
          acc = muladd n1 N_C_0 acc;
          acc = muladd n0 N_C_1 acc;
          (m1, acc) = extract64 acc;
          acc = sumadd (l ! 2) acc;
          acc = muladd n2 N_C_0 acc;
          acc = muladd n1 N_C_1 acc;
          acc = sumadd n0 acc;
          (m2, acc) = extract64 acc;
          acc = sumadd (l ! 3) acc;
          acc = muladd n3 N_C_0 acc;
          acc = muladd n2 N_C_1 acc;
          acc = sumadd n1 acc;
          (m3, acc) = extract64 acc;
          acc = muladd n3 N_C_1 acc;
          acc = sumadd n2 acc;
          (m4, acc) = extract64 acc;
          acc = sumadd_fast n3 acc;
          (m5, acc) = extract64_fast acc
      in ([m0, m1, m2, m3, m4, m5], ucast (fst acc)))"

definition fold_258 :: "u64 list \<Rightarrow> u32 \<Rightarrow> u64 list \<times> u32" where
  "fold_258 m m6 =
     (let m4 = m ! 4; m5 = m ! 5;
          acc = (m ! 0, 0, 0 :: u64);
          acc = muladd_fast m4 N_C_0 acc;
          (p0, acc) = extract64_fast acc;
          acc = sumadd_fast (m ! 1) acc;
          acc = muladd m5 N_C_0 acc;
          acc = muladd m4 N_C_1 acc;
          (p1, acc) = extract64 acc;
          acc = sumadd (m ! 2) acc;
          acc = muladd (ucast m6) N_C_0 acc;
          acc = muladd m5 N_C_1 acc;
          acc = sumadd m4 acc;
          (p2, acc) = extract64 acc;
          acc = sumadd_fast (m ! 3) acc;
          acc = muladd_fast (ucast m6) N_C_1 acc;
          acc = sumadd_fast m5 acc;
          (p3, acc) = extract64_fast acc
      in ([p0, p1, p2, p3], ucast (fst acc + ucast m6)))"

definition fold_256 :: "u64 list \<Rightarrow> u32 \<Rightarrow> secp256k1_scalar \<times> u64" where
  "fold_256 p p4 =
     (let c128 = u128_from_u64 (p ! 0);
          c128 = u128_accum_mul c128 N_C_0 (ucast p4);
          r0 = u128_to_u64 c128; c128 = u128_rshift64 c128;
          c128 = u128_accum_u64 c128 (p ! 1);
          c128 = u128_accum_mul c128 N_C_1 (ucast p4);
          r1 = u128_to_u64 c128; c128 = u128_rshift64 c128;
          c128 = u128_accum_u64 c128 (p ! 2);
          c128 = u128_accum_u64 c128 (ucast p4);
          r2 = u128_to_u64 c128; c128 = u128_rshift64 c128;
          c128 = u128_accum_u64 c128 (p ! 3);
          r3 = u128_to_u64 c128
      in (\<lparr> d0 = r0, d1 = r1, d2 = r2, d3 = r3 \<rparr>, u128_hi_u64 c128))"

definition scalar_reduce_512 :: "u64 list \<Rightarrow> secp256k1_scalar" where
  "scalar_reduce_512 l =
     (let (m, m6) = fold_385 l;
          (p, p4) = fold_258 m m6;
          (r, c) = fold_256 p p4
      in scalar_reduce r (c + of_bool (scalar_check_overflow r)))"

definition scalar_mul :: "secp256k1_scalar \<Rightarrow> secp256k1_scalar \<Rightarrow> secp256k1_scalar" where
  "scalar_mul a b = scalar_reduce_512 (scalar_mul_512 a b)"

section \<open>Accumulator steps\<close>

fun aval :: "'c::len acc \<Rightarrow> nat" where
  "aval (c0, c1, c2) = unat c0 + 2 ^ 64 * (unat c1 + 2 ^ 64 * unat c2)"

lemma carry_add: "unat (x + y) + 2 ^ 64 * of_bool (x + y < y) = unat x + unat y" for x y :: u64
proof -
  have b: "unat x + unat y < 2 * 2 ^ 64" using unat_u64_less [of x] unat_u64_less [of y] by linarith
  have s: "unat (x + y) = (unat x + unat y) mod 2 ^ 64" by (simp add: unat_word_ariths(1))
  show ?thesis
  proof (cases "unat x + unat y < 2 ^ 64")
    case True
    then have "unat (x + y) = unat x + unat y" using s by simp
    then show ?thesis by (simp add: word_less_nat_alt)
  next
    case False
    then have "unat (x + y) = unat x + unat y - 2 ^ 64" using s b by (simp add: le_mod_geq)
    then show ?thesis using False b unat_u64_less [of x] by (simp add: word_less_nat_alt)
  qed
qed

lemma unat_hi_u64: "unat (u128_hi_u64 t) = unat t div 2 ^ 64"
proof -
  have "u128_hi_u64 t = u128_to_u64 (u128_rshift64 t)" by (simp add: u128_hi_u64_def u128_to_u64_def u128_rshift64_def)
  moreover have "unat t div 2 ^ 64 < 2 ^ 64" using unsigned_less [of t, where ?'a = nat] by (simp add: less_mult_imp_div_less)
  ultimately show ?thesis by (simp only: unat_to_u64 unat_rshift64 mod_less)
qed

lemma unat_product: "unat (a :: u64) * unat (b :: u64) \<le> (2 ^ 64 - 1) * (2 ^ 64 - 1)"
  using unat_u64_less [of a] unat_u64_less [of b] by (intro mult_le_mono) simp_all

lemma unat_u128_mul: "unat (u128_mul a b) = unat a * unat b"
  using unat_from_u64 [of a] unat_from_u64 [of b] unat_product [of a b] by (simp add: u128_mul_def u128_from_u64_def unat_word_ariths(2))

lemma u128_mul_parts: "unat (u128_to_u64 (u128_mul a b)) + 2 ^ 64 * unat (u128_hi_u64 (u128_mul a b)) = unat a * unat b"
  unfolding unat_to_u64 unat_hi_u64 unat_u128_mul by (rule mod_mult_div_eq)

lemma u128_hi_less: "unat (u128_hi_u64 (u128_mul a b)) < 2 ^ 64 - 1"
  unfolding unat_hi_u64 unat_u128_mul using unat_product [of a b] by (intro less_mult_imp_div_less) simp

lemma add_no_wrap: "unat x + unat y < 2 ^ LENGTH('c) \<Longrightarrow> unat (x + y) = unat x + unat y" for x y :: "'c::len word"
  by (simp add: unat_word_ariths(1))

lemma unat_add_bit:
  fixes x :: "'c::len word"
  assumes "unat x + of_bool P < 2 ^ LENGTH('c)"
  shows "unat (x + of_bool P) = unat x + of_bool P"
  using assms by (cases P) (simp_all add: unat_word_ariths(1))

text \<open>What both product macros do to the low limbs.\<close>

lemma muladd_low:
  assumes "t = u128_mul a b" "c0' = c0 + u128_to_u64 t" "th' = u128_hi_u64 t + of_bool (c0' < u128_to_u64 t)"
  shows "unat c0' + 2 ^ 64 * unat th' = unat c0 + unat a * unat b"
proof -
  have "unat th' = unat (u128_hi_u64 t) + of_bool (c0' < u128_to_u64 t)"
    unfolding assms(3) using u128_hi_less [of a b] assms(1) by (intro unat_add_bit) simp
  then show ?thesis
    using carry_add [of c0 "u128_to_u64 t"] u128_mul_parts [of a b] by (simp add: assms(1,2) algebra_simps)
qed

lemma top_limb:
  fixes c2 :: "'c::len word"
  assumes "unat c0 + 2 ^ 64 * (unat c1 + 2 ^ 64 * (unat c2 + of_bool P)) = v" "v < 2 ^ (128 + LENGTH('c))"
  shows "unat (c2 + of_bool P) = unat c2 + of_bool P"
proof (rule unat_add_bit)
  have "2 ^ 128 * (unat c2 + of_bool P) \<le> v" using assms(1) by (simp add: algebra_simps)
  also have "v < 2 ^ 128 * 2 ^ LENGTH('c)" using assms(2) by (simp add: power_add)
  finally show "unat c2 + of_bool P < 2 ^ LENGTH('c)" by simp
qed

lemma muladd_val:
  assumes "aval acc + unat a * unat b < 2 ^ (128 + LENGTH('c))"
  shows "aval (muladd a b acc) = aval (acc :: 'c::len acc) + unat a * unat b"
proof -
  obtain c0 c1 c2 where acc: "acc = (c0, c1, c2)" by (rule prod_cases3)
  define t c0' th' where "t = u128_mul a b" and "c0' = c0 + u128_to_u64 t" and "th' = u128_hi_u64 t + of_bool (c0' < u128_to_u64 t)"
  have low: "unat c0' + 2 ^ 64 * unat th' = unat c0 + unat a * unat b"
    by (rule muladd_low [OF t_def c0'_def th'_def])
  have "unat (c1 + th') + 2 ^ 64 * of_bool (c1 + th' < th') = unat c1 + unat th'" by (rule carry_add)
  with low have sum: "unat c0' + 2 ^ 64 * (unat (c1 + th') + 2 ^ 64 * (unat c2 + of_bool (c1 + th' < th'))) = aval acc + unat a * unat b"
    by (simp add: acc algebra_simps)
  then have "unat (c2 + of_bool (c1 + th' < th')) = unat c2 + of_bool (c1 + th' < th')" using assms by (rule top_limb)
  then show ?thesis using sum by (simp add: muladd_def acc t_def c0'_def th'_def Let_def)
qed

lemma aval_128: "aval (c0, c1, c2) < 2 ^ 128 \<Longrightarrow> unat c2 = 0"
  by (cases "unat c2") simp_all

lemma aval_64: "aval acc < 2 ^ 64 \<Longrightarrow> aval acc = unat (fst acc)"
proof -
  assume a: "aval acc < 2 ^ 64"
  obtain c0 c1 c2 where acc: "acc = (c0, c1, c2)" by (rule prod_cases3)
  have "2 ^ 64 * (unat c1 + 2 ^ 64 * unat c2) < 2 ^ 64 * 1" using a by (simp add: acc)
  then have "unat c1 + 2 ^ 64 * unat c2 < 1" by (rule mult_less_cancel1 [THEN iffD1, THEN conjunct2])
  then show ?thesis by (simp add: acc)
qed

lemma middle_limb:
  assumes "unat c0 + 2 ^ 64 * (unat c1 + unat x) < 2 ^ 128"
  shows "unat (c1 + x) = unat c1 + unat (x :: u64)"
proof (rule add_no_wrap)
  have "2 ^ 64 * (unat c1 + unat x) < 2 ^ 64 * 2 ^ 64" using assms by simp
  then show "unat c1 + unat x < 2 ^ LENGTH(64)" by simp
qed

lemma muladd_fast_val:
  assumes "aval acc + unat a * unat b < 2 ^ 128"
  shows "aval (muladd_fast a b acc) = aval acc + unat a * unat b"
proof -
  obtain c0 c1 c2 where acc: "acc = (c0, c1, c2)" by (rule prod_cases3)
  define t c0' th' where "t = u128_mul a b" and "c0' = c0 + u128_to_u64 t" and "th' = u128_hi_u64 t + of_bool (c0' < u128_to_u64 t)"
  have low: "unat c0' + 2 ^ 64 * unat th' = unat c0 + unat a * unat b"
    by (rule muladd_low [OF t_def c0'_def th'_def])
  have c2: "unat c2 = 0" using assms aval_128 [of c0 c1 c2] by (simp add: acc)
  then have sum: "unat c0' + 2 ^ 64 * (unat c1 + unat th') = aval acc + unat a * unat b" using low by (simp add: acc algebra_simps)
  then have "unat (c1 + th') = unat c1 + unat th'" using assms by (intro middle_limb [of c0']) simp
  then show ?thesis using sum c2 by (simp add: muladd_fast_def acc t_def c0'_def th'_def Let_def)
qed

lemma sumadd_val:
  assumes "aval acc + unat a < 2 ^ (128 + LENGTH('c))"
  shows "aval (sumadd a acc) = aval (acc :: 'c::len acc) + unat a"
proof -
  obtain c0 c1 c2 where acc: "acc = (c0, c1, c2)" by (rule prod_cases3)
  define ov :: u64 where "ov = of_bool (c0 + a < a)"
  have "unat (c0 + a) + 2 ^ 64 * unat ov = unat c0 + unat a" using carry_add [of c0 a] by (cases "c0 + a < a") (simp_all add: ov_def)
  moreover have "unat (c1 + ov) + 2 ^ 64 * of_bool (c1 + ov < ov) = unat c1 + unat ov" by (rule carry_add)
  ultimately have sum: "unat (c0 + a) + 2 ^ 64 * (unat (c1 + ov) + 2 ^ 64 * (unat c2 + of_bool (c1 + ov < ov))) = aval acc + unat a"
    by (simp add: acc algebra_simps)
  then have "unat (c2 + of_bool (c1 + ov < ov)) = unat c2 + of_bool (c1 + ov < ov)" using assms by (rule top_limb)
  then show ?thesis using sum by (simp add: sumadd_def acc ov_def Let_def)
qed

lemma sumadd_fast_val:
  assumes "aval acc + unat a < 2 ^ 128"
  shows "aval (sumadd_fast a acc) = aval acc + unat a"
proof -
  obtain c0 c1 c2 where acc: "acc = (c0, c1, c2)" by (rule prod_cases3)
  define ov :: u64 where "ov = of_bool (c0 + a < a)"
  have c2: "unat c2 = 0" using assms aval_128 [of c0 c1 c2] by (simp add: acc)
  have "unat (c0 + a) + 2 ^ 64 * unat ov = unat c0 + unat a" using carry_add [of c0 a] by (cases "c0 + a < a") (simp_all add: ov_def)
  then have sum: "unat (c0 + a) + 2 ^ 64 * (unat c1 + unat ov) = aval acc + unat a" using c2 by (simp add: acc algebra_simps)
  then have "unat (c1 + ov) = unat c1 + unat ov" using assms by (intro middle_limb [of "c0 + a"]) simp
  then show ?thesis using sum c2 by (simp add: sumadd_fast_def acc ov_def Let_def)
qed

lemma extract64_val:
  assumes "LENGTH('c) \<le> 64"
  shows "unat (fst (extract64 acc)) + 2 ^ 64 * aval (snd (extract64 acc)) = aval (acc :: 'c::len acc)"
proof -
  obtain c0 c1 c2 where acc: "acc = (c0, c1, c2)" by (rule prod_cases3)
  have "unat c2 < 2 ^ LENGTH('c)" by (rule unsigned_less)
  also have "(2 :: nat) ^ LENGTH('c) \<le> 2 ^ 64" using assms by (rule power_increasing) simp
  finally have "unat (ucast c2 :: u64) = unat c2" by (simp add: unsigned_ucast_eq take_bit_nat_eq_self)
  then show ?thesis by (simp add: extract64_def acc)
qed

lemma extract64_fast_val:
  "aval acc < 2 ^ 128 \<Longrightarrow> unat (fst (extract64_fast acc)) + 2 ^ 64 * aval (snd (extract64_fast acc)) = aval acc"
  using aval_128 by (cases acc rule: prod_cases3) (force simp: extract64_fast_def)

section \<open>Columns\<close>

text \<open>A column: products and summands added to an accumulator, then one limb split off.\<close>

type_synonym summand = "u64 + u64 \<times> u64"

fun add_one :: "'c::len acc \<Rightarrow> summand \<Rightarrow> 'c acc" where
  "add_one acc (Inl x) = sumadd x acc"
| "add_one acc (Inr p) = muladd (fst p) (snd p) acc"

fun one_val :: "summand \<Rightarrow> nat" where
  "one_val (Inl x) = unat x"
| "one_val (Inr p) = unat (fst p) * unat (snd p)"

abbreviation column :: "summand list \<Rightarrow> 'c::len acc \<Rightarrow> 'c acc" where
  "column ss acc \<equiv> foldl add_one acc ss"

abbreviation total :: "summand list \<Rightarrow> nat" where
  "total ss \<equiv> sum_list (map one_val ss)"

lemma one_val_less: "one_val s < 2 ^ 128"
proof (cases s)
  case (Inl x)
  then show ?thesis using unat_u64_less [of x] by simp
next
  case (Inr p)
  then show ?thesis using unat_product [of "fst p" "snd p"] by simp
qed

lemma add_one_val:
  "aval acc + one_val s < 2 ^ (128 + LENGTH('c)) \<Longrightarrow> aval (add_one acc s) = aval (acc :: 'c::len acc) + one_val s"
  by (cases s) (simp_all add: sumadd_val muladd_val)

lemma total_le: "total ss \<le> length ss * 2 ^ 128"
proof (induction ss)
  case (Cons s ss)
  then show ?case using one_val_less [of s] by simp
qed simp

lemma column_val:
  assumes "aval acc + length ss * 2 ^ 128 < 2 ^ (128 + LENGTH('c))"
  shows "aval (column ss acc) = aval (acc :: 'c::len acc) + total ss"
  using assms
proof (induction ss arbitrary: acc)
  case (Cons s ss)
  then have "aval (add_one acc s) = aval acc + one_val s" using one_val_less [of s] by (intro add_one_val) simp
  with Cons one_val_less [of s] show ?case by simp
qed simp

definition small :: "'c::len acc \<Rightarrow> bool" where
  "small acc \<longleftrightarrow> aval acc < 2 ^ 80"

lemma column_extract:
  assumes "aval acc < 2 ^ 100" "extract64 (column ss acc) = (l, acc')" "length ss \<le> 4" "3 \<le> LENGTH('c)" "LENGTH('c) \<le> 64"
  shows "unat l + 2 ^ 64 * aval acc' = aval acc + total ss" "small (acc' :: 'c::len acc)"
proof -
  have len: "length ss * 2 ^ 128 \<le> 4 * 2 ^ 128" using assms(3) by simp
  have "(2 :: nat) ^ (128 + 3) \<le> 2 ^ (128 + LENGTH('c))" using assms(4) by (intro power_increasing) simp_all
  then have "aval (column ss acc) = aval acc + total ss"
    using assms(1) len by (intro column_val) simp
  then show v: "unat l + 2 ^ 64 * aval acc' = aval acc + total ss"
    using extract64_val [OF assms(5), of "column ss acc"] assms(2) by simp
  have "2 ^ 64 * aval acc' < 2 ^ 64 * 2 ^ 80"
    using v assms(1) total_le [of ss] len by simp
  then show "small acc'" by (simp add: small_def)
qed

lemma small_100: "small acc \<Longrightarrow> aval acc < 2 ^ 100"
  by (simp add: small_def)

lemma fast_extract:
  assumes "aval acc + unat a * unat b < 2 ^ 128" "extract64_fast (muladd_fast a b acc) = (l, acc')"
  shows "unat l + 2 ^ 64 * aval acc' = aval acc + unat a * unat b" "small acc'"
proof -
  show v: "unat l + 2 ^ 64 * aval acc' = aval acc + unat a * unat b"
    using extract64_fast_val [of "muladd_fast a b acc"] muladd_fast_val [OF assms(1)] assms by simp
  with assms(1) show "small acc'" by (simp add: small_def)
qed

lemma sumadd_fast_100:
  assumes "small acc"
  shows "aval (sumadd_fast a acc) = aval acc + unat a" "aval (sumadd_fast a acc) < 2 ^ 100"
proof -
  show v: "aval (sumadd_fast a acc) = aval acc + unat a"
    using assms unat_u64_less [of a] by (intro sumadd_fast_val) (simp add: small_def)
  show "aval (sumadd_fast a acc) < 2 ^ 100" unfolding v using assms unat_u64_less [of a] by (simp add: small_def)
qed

section \<open>The product\<close>

lemma sval_mult:
  "sval a * sval b =
    unat (d0 a) * unat (d0 b) + 2 ^ 64 * (unat (d0 a) * unat (d1 b) + unat (d1 a) * unat (d0 b)) +
    2 ^ 128 * (unat (d0 a) * unat (d2 b) + unat (d1 a) * unat (d1 b) + unat (d2 a) * unat (d0 b)) +
    2 ^ 192 * (unat (d0 a) * unat (d3 b) + unat (d1 a) * unat (d2 b) + unat (d2 a) * unat (d1 b) + unat (d3 a) * unat (d0 b)) +
    2 ^ 256 * (unat (d1 a) * unat (d3 b) + unat (d2 a) * unat (d2 b) + unat (d3 a) * unat (d1 b)) +
    2 ^ 320 * (unat (d2 a) * unat (d3 b) + unat (d3 a) * unat (d2 b)) + 2 ^ 384 * (unat (d3 a) * unat (d3 b))"
  by (simp add: sval_def algebra_simps)

definition lval :: "u64 list \<Rightarrow> nat" where
  "lval ls = foldr (\<lambda>l v. unat l + 2 ^ 64 * v) ls 0"

lemma mul_512_spec: "length (scalar_mul_512 a b) = 8 \<and> lval (scalar_mul_512 a b) = sval a * sval b"
proof -
  obtain l0 A0 where x0: "extract64_fast (muladd_fast (d0 a) (d0 b) (0, 0, 0 :: u32)) = (l0, A0)" by (metis surj_pair)
  have "aval (0, 0, 0 :: u32) + unat (d0 a) * unat (d0 b) < 2 ^ 128" using unat_product [of "d0 a" "d0 b"] by simp
  note e0 = fast_extract [OF this x0]
  obtain l1 A1 where x1: "extract64 (column [Inr (d0 a, d1 b), Inr (d1 a, d0 b)] A0) = (l1, A1)" by (metis surj_pair)
  note e1 = column_extract [OF small_100 [OF e0(2)] x1]
  obtain l2 A2 where x2: "extract64 (column [Inr (d0 a, d2 b), Inr (d1 a, d1 b), Inr (d2 a, d0 b)] A1) = (l2, A2)" by (metis surj_pair)
  have "small A1" by (rule e1(2)) simp_all
  note e2 = column_extract [OF small_100 [OF this] x2]
  obtain l3 A3 where x3: "extract64 (column [Inr (d0 a, d3 b), Inr (d1 a, d2 b), Inr (d2 a, d1 b), Inr (d3 a, d0 b)] A2) = (l3, A3)" by (metis surj_pair)
  have "small A2" by (rule e2(2)) simp_all
  note e3 = column_extract [OF small_100 [OF this] x3]
  obtain l4 A4 where x4: "extract64 (column [Inr (d1 a, d3 b), Inr (d2 a, d2 b), Inr (d3 a, d1 b)] A3) = (l4, A4)" by (metis surj_pair)
  have "small A3" by (rule e3(2)) simp_all
  note e4 = column_extract [OF small_100 [OF this] x4]
  obtain l5 A5 where x5: "extract64 (column [Inr (d2 a, d3 b), Inr (d3 a, d2 b)] A4) = (l5, A5)" by (metis surj_pair)
  have "small A4" by (rule e4(2)) simp_all
  note e5 = column_extract [OF small_100 [OF this] x5]
  obtain l6 A6 where x6: "extract64_fast (muladd_fast (d3 a) (d3 b) A5) = (l6, A6)" by (metis surj_pair)
  have code: "scalar_mul_512 a b = [l0, l1, l2, l3, l4, l5, l6, fst A6]"
    using x0 x1 x2 x3 x4 x5 x6 by (simp add: scalar_mul_512_def)
  have low: "unat l0 + 2 ^ 64 * unat l1 + 2 ^ 128 * unat l2 + 2 ^ 192 * unat l3 + 2 ^ 256 * unat l4 + 2 ^ 320 * unat l5 +
      2 ^ 384 * (aval A5 + unat (d3 a) * unat (d3 b)) = sval a * sval b"
    unfolding sval_mult using e0(1) e1(1) e2(1) e3(1) e4(1) e5(1) by simp
  have "sval a * sval b < 2 ^ 256 * 2 ^ 256" using sval_less [of a] sval_less [of b] by (intro mult_strict_mono) simp_all
  then have "2 ^ 384 * (aval A5 + unat (d3 a) * unat (d3 b)) < 2 ^ 384 * 2 ^ 128" using low by simp
  then have b6: "aval A5 + unat (d3 a) * unat (d3 b) < 2 ^ 128" by simp
  note e6 = fast_extract [OF b6 x6]
  have "2 ^ 64 * aval A6 < 2 ^ 64 * 2 ^ 64" using e6(1) b6 by simp
  then have "aval A6 = unat (fst A6)" using aval_64 by simp
  then show ?thesis unfolding code lval_def using low e6(1) by simp
qed

section \<open>The reduction\<close>

lemma complement_limbs: "2 ^ 256 - order = unat N_C_0 + 2 ^ 64 * (unat N_C_1 + 2 ^ 64)"
  by (simp add: constants order_def)

lemma complement_product:
  "(2 ^ 256 - order) * (n0 + 2 ^ 64 * (n1 + 2 ^ 64 * (n2 + 2 ^ 64 * n3))) =
    n0 * unat N_C_0 + 2 ^ 64 * (n1 * unat N_C_0 + n0 * unat N_C_1) + 2 ^ 128 * (n2 * unat N_C_0 + n1 * unat N_C_1 + n0) +
    2 ^ 192 * (n3 * unat N_C_0 + n2 * unat N_C_1 + n1) + 2 ^ 256 * (n3 * unat N_C_1 + n2) + 2 ^ 320 * n3"
proof -
  have "(c0 + B * (c1 + B)) * (n0 + B * (n1 + B * (n2 + B * n3))) =
    n0 * c0 + B * (n1 * c0 + n0 * c1) + B ^ 2 * (n2 * c0 + n1 * c1 + n0) +
    B ^ 3 * (n3 * c0 + n2 * c1 + n1) + B ^ 4 * (n3 * c1 + n2) + B ^ 5 * n3" for B c0 c1 :: nat
    by (simp add: algebra_simps power_numeral_even power_numeral_odd power2_eq_square)
  from this [of "unat N_C_0" "2 ^ 64" "unat N_C_1"] show ?thesis unfolding complement_limbs by (simp add: power_mult [symmetric])
qed

lemma lval_4_less: "lval [a, b, c, d] < 2 ^ 256"
  using sval_less [of "\<lparr> d0 = a, d1 = b, d2 = c, d3 = d \<rparr>"] by (simp add: lval_def sval_def)

lemma complement_mult:
  assumes "x < 2 ^ 256"
  shows "(2 ^ 256 - order) * x + 2 ^ 256 \<le> 2 ^ 385"
proof -
  have "(2 ^ 256 - order) * x \<le> (2 ^ 256 - order) * (2 ^ 256 - 1)" using assms by (intro mult_le_mono2) simp
  moreover have "(2 ^ 256 - order) * (2 ^ 256 - 1) + 2 ^ 256 \<le> (2 :: nat) ^ 385" by (simp add: order_def)
  ultimately show ?thesis by (rule order_trans [OF add_right_mono])
qed

lemma unat_ucast_32: "unat (x :: u64) < 4 \<Longrightarrow> unat (ucast x :: u32) = unat x"
  by (simp add: unsigned_ucast_eq take_bit_nat_eq_self)

lemma fold_385_spec:
  assumes "l = [l0, l1, l2, l3, n0, n1, n2, n3]" "fold_385 l = (m, m6)"
  shows "\<exists>m0 m1 m2 m3 m4 m5. m = [m0, m1, m2, m3, m4, m5]" and "lval m + 2 ^ 384 * unat m6 = lval [l0, l1, l2, l3] + (2 ^ 256 - order) * lval [n0, n1, n2, n3]"
    and "unat m6 \<le> 1"
proof -
  obtain m0 A0 where x0: "extract64_fast (muladd_fast n0 N_C_0 (l0, 0, 0 :: u64)) = (m0, A0)" by (metis surj_pair)
  have "aval (l0, 0, 0 :: u64) + unat n0 * unat N_C_0 < 2 ^ 128" using unat_product [of n0 N_C_0] unat_u64_less [of l0] by simp
  note e0 = fast_extract [OF this x0]
  note s0 = sumadd_fast_100 [OF e0(2), of l1]
  obtain m1 A1 where x1: "extract64 (column [Inr (n1, N_C_0), Inr (n0, N_C_1)] (sumadd_fast l1 A0)) = (m1, A1)" by (metis surj_pair)
  note e1 = column_extract [OF s0(2) x1]
  obtain m2 A2 where x2: "extract64 (column [Inl l2, Inr (n2, N_C_0), Inr (n1, N_C_1), Inl n0] A1) = (m2, A2)" by (metis surj_pair)
  have "small A1" by (rule e1(2)) simp_all
  note e2 = column_extract [OF small_100 [OF this] x2]
  obtain m3 A3 where x3: "extract64 (column [Inl l3, Inr (n3, N_C_0), Inr (n2, N_C_1), Inl n1] A2) = (m3, A3)" by (metis surj_pair)
  have "small A2" by (rule e2(2)) simp_all
  note e3 = column_extract [OF small_100 [OF this] x3]
  obtain m4 A4 where x4: "extract64 (column [Inr (n3, N_C_1), Inl n2] A3) = (m4, A4)" by (metis surj_pair)
  have "small A3" by (rule e3(2)) simp_all
  note e4 = column_extract [OF small_100 [OF this] x4]
  have "small A4" by (rule e4(2)) simp_all
  note s5 = sumadd_fast_100 [OF this, of n3]
  obtain m5 A5 where x5: "extract64_fast (sumadd_fast n3 A4) = (m5, A5)" by (metis surj_pair)
  have e5: "unat m5 + 2 ^ 64 * aval A5 = aval A4 + unat n3"
    using extract64_fast_val [of "sumadd_fast n3 A4"] s5 x5 by simp
  have code: "m = [m0, m1, m2, m3, m4, m5]" "m6 = ucast (fst A5)"
    using assms x0 x1 x2 x3 x4 x5 by (simp_all add: fold_385_def)
  then show "\<exists>m0 m1 m2 m3 m4 m5. m = [m0, m1, m2, m3, m4, m5]" by blast
  have sum: "lval m + 2 ^ 384 * aval A5 = lval [l0, l1, l2, l3] + (2 ^ 256 - order) * lval [n0, n1, n2, n3]"
    using e0(1) s0(1) e1(1) e2(1) e3(1) e4(1) e5 complement_product [of "unat n0" "unat n1" "unat n2" "unat n3"]
    by (simp add: lval_def code(1))
  have "2 ^ 384 * aval A5 < 2 ^ 384 * 2"
    using sum lval_4_less [of l0 l1 l2 l3] complement_mult [OF lval_4_less [of n0 n1 n2 n3]] by simp
  then have "aval A5 < 2" by (rule mult_less_cancel1 [THEN iffD1, THEN conjunct2])
  moreover from this have "aval A5 = unat (fst A5)" by (intro aval_64) simp
  ultimately have "unat m6 = aval A5" "aval A5 \<le> 1" by (simp_all add: code(2) unat_ucast_32)
  then show "lval m + 2 ^ 384 * unat m6 = lval [l0, l1, l2, l3] + (2 ^ 256 - order) * lval [n0, n1, n2, n3]" "unat m6 \<le> 1" using sum by simp_all
qed

lemma fold_258_spec:
  assumes "m = [m0, m1, m2, m3, m4, m5]" "unat m6 \<le> 1" "fold_258 m m6 = (p, p4)"
    and high: "unat m4 + 2 ^ 64 * (unat m5 + 2 ^ 64 * unat m6) \<le> 2 ^ 256 - order"
  shows "\<exists>p0 p1 p2 p3. p = [p0, p1, p2, p3]"
    and "lval p + 2 ^ 256 * unat p4 = lval [m0, m1, m2, m3] + (2 ^ 256 - order) * (unat m4 + 2 ^ 64 * (unat m5 + 2 ^ 64 * unat m6))"
    and "unat p4 \<le> 2"
proof -
  have m6: "unat (ucast m6 :: u64) = unat m6" using assms(2) by (simp add: unsigned_ucast_eq take_bit_nat_eq_self)
  obtain p0 A0 where x0: "extract64_fast (muladd_fast m4 N_C_0 (m0, 0, 0 :: u64)) = (p0, A0)" by (metis surj_pair)
  have "aval (m0, 0, 0 :: u64) + unat m4 * unat N_C_0 < 2 ^ 128" using unat_product [of m4 N_C_0] unat_u64_less [of m0] by simp
  note e0 = fast_extract [OF this x0]
  note s0 = sumadd_fast_100 [OF e0(2), of m1]
  obtain p1 A1 where x1: "extract64 (column [Inr (m5, N_C_0), Inr (m4, N_C_1)] (sumadd_fast m1 A0)) = (p1, A1)" by (metis surj_pair)
  note e1 = column_extract [OF s0(2) x1]
  obtain p2 A2 where x2: "extract64 (column [Inl m2, Inr (ucast m6, N_C_0), Inr (m5, N_C_1), Inl m4] A1) = (p2, A2)" by (metis surj_pair)
  have "small A1" by (rule e1(2)) simp_all
  note e2 = column_extract [OF small_100 [OF this] x2]
  have "small A2" by (rule e2(2)) simp_all
  note s2 = sumadd_fast_100 [OF this, of m3]
  have small_product: "unat m6 * unat N_C_1 < 2 ^ 64" using assms(2) unat_u64_less [of N_C_1] by (cases "unat m6") simp_all
  have s3: "aval (muladd_fast (ucast m6) N_C_1 (sumadd_fast m3 A2)) = aval (sumadd_fast m3 A2) + unat m6 * unat N_C_1"
    using muladd_fast_val [of "sumadd_fast m3 A2" "ucast m6" N_C_1] s2(2) small_product by (simp add: m6)
  let ?A3 = "sumadd_fast m5 (muladd_fast (ucast m6) N_C_1 (sumadd_fast m3 A2))"
  have s4: "aval ?A3 = aval (muladd_fast (ucast m6) N_C_1 (sumadd_fast m3 A2)) + unat m5"
    using s3 s2(2) small_product unat_u64_less [of m5] by (intro sumadd_fast_val) simp
  then have b4: "aval ?A3 < 2 ^ 128" using s3 s2(2) small_product unat_u64_less [of m5] by simp
  obtain p3 A3 where x3: "extract64_fast ?A3 = (p3, A3)" by (metis surj_pair)
  have e3: "unat p3 + 2 ^ 64 * aval A3 = aval ?A3" using extract64_fast_val [OF b4] x3 by simp
  have code: "p = [p0, p1, p2, p3]" "p4 = ucast (fst A3 + ucast m6)"
    using assms(1,3) x0 x1 x2 x3 by (simp_all add: fold_258_def)
  then show "\<exists>p0 p1 p2 p3. p = [p0, p1, p2, p3]" by blast
  have sum: "lval p + 2 ^ 256 * (aval A3 + unat m6) = lval [m0, m1, m2, m3] + (2 ^ 256 - order) * (unat m4 + 2 ^ 64 * (unat m5 + 2 ^ 64 * unat m6))"
    using e0(1) s0(1) e1(1) e2(1) s2(1) s3 s4 e3 complement_product [of "unat m4" "unat m5" "unat m6" 0]
    by (simp add: lval_def code(1) m6)
  have "(2 ^ 256 - order) * (unat m4 + 2 ^ 64 * (unat m5 + 2 ^ 64 * unat m6)) \<le> (2 ^ 256 - order) * (2 ^ 256 - order)"
    using high by (rule mult_le_mono2)
  moreover have "(2 ^ 256 - order) * (2 ^ 256 - order) \<le> 2 ^ 256 * 2" by (simp add: order_def)
  ultimately have "2 ^ 256 * (aval A3 + unat m6) < 2 ^ 256 * 3"
    using sum lval_4_less [of m0 m1 m2 m3] by linarith
  then have q: "aval A3 + unat m6 < 3" by (rule mult_less_cancel1 [THEN iffD1, THEN conjunct2])
  then have "aval A3 = unat (fst A3)" by (intro aval_64) simp
  then have "unat (fst A3 + ucast m6) = aval A3 + unat m6" using q m6 by (simp add: unat_word_ariths(1))
  then have "unat p4 = aval A3 + unat m6" using q by (simp add: code(2) unat_ucast_32)
  then show "lval p + 2 ^ 256 * unat p4 = lval [m0, m1, m2, m3] + (2 ^ 256 - order) * (unat m4 + 2 ^ 64 * (unat m5 + 2 ^ 64 * unat m6))" "unat p4 \<le> 2"
    using sum q by simp_all
qed

lemma unat_accum_mul: "unat t + unat a * unat b < 2 ^ 128 \<Longrightarrow> unat (u128_accum_mul t a b) = unat t + unat a * unat b"
  using unat_u128_mul [of a b] by (simp add: u128_accum_mul_def u128_mul_def unat_word_ariths(1))

lemma limb_split: "unat t = v \<Longrightarrow> unat (u128_to_u64 t) + 2 ^ 64 * unat (u128_rshift64 t) = v"
  unfolding unat_to_u64 unat_rshift64 by simp

lemma fold_256_spec:
  assumes "p = [p0, p1, p2, p3]" "unat p4 \<le> 2" "fold_256 p p4 = (r, c)"
  shows "sval r + 2 ^ 256 * unat c = lval p + (2 ^ 256 - order) * unat p4"
proof -
  have p4: "unat (ucast p4 :: u64) = unat p4" using assms(2) by (simp add: unsigned_ucast_eq take_bit_nat_eq_self)
  have pr: "unat x * unat p4 < 2 ^ 66" for x :: u64
    using mult_le_mono [of "unat x" "2 ^ 64" "unat p4" 2] unat_u64_less [of x] assms(2) by simp
  define t0 where "t0 = u128_accum_mul (u128_from_u64 p0) N_C_0 (ucast p4)"
  have v0: "unat t0 = unat p0 + unat N_C_0 * unat p4"
    unfolding t0_def using pr [of N_C_0] unat_u64_less [of p0] by (subst unat_accum_mul) (simp_all add: unat_from_u64 p4)
  define t1 where "t1 = u128_accum_mul (u128_accum_u64 (u128_rshift64 t0) p1) N_C_1 (ucast p4)"
  have b0: "unat (u128_rshift64 t0) < 2 ^ 66" using limb_split [OF v0] pr [of N_C_0] unat_u64_less [of p0] by simp
  have v1: "unat t1 = unat (u128_rshift64 t0) + unat p1 + unat N_C_1 * unat p4"
    unfolding t1_def using b0 pr [of N_C_1] unat_u64_less [of p1] by (subst unat_accum_mul) (simp_all add: unat_accum p4)
  define t2 where "t2 = u128_accum_u64 (u128_accum_u64 (u128_rshift64 t1) p2) (ucast p4)"
  have b1: "unat (u128_rshift64 t1) < 2 ^ 66" using limb_split [OF v1] b0 pr [of N_C_1] unat_u64_less [of p1] by simp
  have v2: "unat t2 = unat (u128_rshift64 t1) + unat p2 + unat p4"
    unfolding t2_def using b1 unat_u64_less [of p2] by (simp add: unat_accum p4)
  define t3 where "t3 = u128_accum_u64 (u128_rshift64 t2) p3"
  have b2: "unat (u128_rshift64 t2) < 2 ^ 66" using limb_split [OF v2] b1 assms(2) unat_u64_less [of p2] by simp
  have v3: "unat t3 = unat (u128_rshift64 t2) + unat p3"
    unfolding t3_def using b2 unat_u64_less [of p3] by (simp add: unat_accum)
  have code: "r = \<lparr> d0 = u128_to_u64 t0, d1 = u128_to_u64 t1, d2 = u128_to_u64 t2, d3 = u128_to_u64 t3 \<rparr>" "c = u128_hi_u64 t3"
    using assms(1,3) by (simp_all add: fold_256_def t0_def t1_def t2_def t3_def Let_def)
  have "unat c = unat (u128_rshift64 t3)" by (simp add: code(2) unat_hi_u64 unat_rshift64)
  then show ?thesis
    unfolding complement_limbs assms(1) lval_def code(1)
    using limb_split [OF v0] limb_split [OF v1] limb_split [OF v2] limb_split [OF v3] by (simp add: sval_def algebra_simps)
qed

lemma fold_mod: "(x + 2 ^ 256 * y) mod order = (x + (2 ^ 256 - order) * y) mod order"
proof -
  have "x + 2 ^ 256 * y = x + (2 ^ 256 - order) * y + order * y"
    using order_bounds(2) by (simp add: add_mult_distrib [symmetric])
  then show ?thesis by (simp only: mod_mult_self2)
qed

lemma high_part_le:
  fixes B C h x y z :: nat
  assumes "x + B * h = y + C * z" "y < B" "z \<le> B"
  shows "h \<le> C"
proof -
  have "C * z \<le> C * B" using assms(3) by (rule mult_le_mono2)
  then have "B * h < B + C * B" using assms(1,2) by linarith
  then have "B * h < B * (C + 1)" by (simp add: mult.commute)
  then have "h < C + 1" by (rule mult_less_cancel1 [THEN iffD1, THEN conjunct2])
  then show ?thesis by simp
qed

lemma length_8_split:
  assumes "length l = 8"
  obtains l0 l1 l2 l3 n0 n1 n2 n3 where "l = [l0, l1, l2, l3, n0, n1, n2, n3]"
  using assms by (auto simp: numeral_eq_Suc length_Suc_conv)

lemma reduce_512_spec:
  assumes "length l = 8"
  shows "sval (scalar_reduce_512 l) = lval l mod order"
proof -
  obtain l0 l1 l2 l3 n0 n1 n2 n3 where l: "l = [l0, l1, l2, l3, n0, n1, n2, n3]" using assms by (rule length_8_split)
  obtain m m6 where f1: "fold_385 l = (m, m6)" by (metis surj_pair)
  note s1 = fold_385_spec [OF l f1]
  obtain m0 m1 m2 m3 m4 m5 where m: "m = [m0, m1, m2, m3, m4, m5]" using s1(1) by blast
  let ?h = "unat m4 + 2 ^ 64 * (unat m5 + 2 ^ 64 * unat m6)"
  have m_split: "lval m + 2 ^ 384 * unat m6 = lval [m0, m1, m2, m3] + 2 ^ 256 * ?h" by (simp add: m lval_def algebra_simps)
  have h: "?h \<le> 2 ^ 256 - order"
    by (rule high_part_le [OF trans [OF m_split [symmetric] s1(2)] lval_4_less less_imp_le [OF lval_4_less]])
  obtain p p4 where f2: "fold_258 m m6 = (p, p4)" by (metis surj_pair)
  note s2 = fold_258_spec [OF m s1(3) f2 h]
  obtain p0 p1 p2 p3 where p: "p = [p0, p1, p2, p3]" using s2(1) by blast
  obtain r c where f3: "fold_256 p p4 = (r, c)" by (metis surj_pair)
  note s3 = fold_256_spec [OF p s2(3) f3]
  have "(2 ^ 256 - order) * unat p4 \<le> (2 ^ 256 - order) * 2" using s2(3) by (rule mult_le_mono2)
  moreover have "2 ^ 256 + (2 ^ 256 - order) * 2 < 2 * order" by (simp add: order_def)
  ultimately have T: "lval p + (2 ^ 256 - order) * unat p4 < 2 * order"
    using lval_4_less [of p0 p1 p2 p3] unfolding p by linarith
  have "sval (scalar_reduce_512 l) = (lval p + (2 ^ 256 - order) * unat p4) mod order"
    using reduce_carry [OF s3 [symmetric] T] unfolding scalar_reduce_512_def f1 f2 f3 Let_def prod.case by (rule conjunct1)
  also have "\<dots> = (lval p + 2 ^ 256 * unat p4) mod order" by (rule fold_mod [symmetric])
  also have "\<dots> = (lval [m0, m1, m2, m3] + 2 ^ 256 * ?h) mod order" unfolding s2(2) by (rule fold_mod [symmetric])
  also have "\<dots> = (lval [l0, l1, l2, l3] + 2 ^ 256 * lval [n0, n1, n2, n3]) mod order"
    unfolding m_split [symmetric] s1(2) by (rule fold_mod [symmetric])
  also have "lval [l0, l1, l2, l3] + 2 ^ 256 * lval [n0, n1, n2, n3] = lval l" by (simp add: l lval_def algebra_simps)
  finally show ?thesis .
qed

lemma mul_spec: "sval (scalar_mul a b) = (sval a * sval b) mod order"
  using mul_512_spec [of a b] by (simp add: scalar_mul_def reduce_512_spec)

section \<open>Properties\<close>

text \<open>
  C21. Arithmetic modulo the group order (external/secp256k1/src/scalar_4x64_impl.h): on reduced scalars of four 64-bit limbs, addition with its 128-bit
  carries, the schoolbook product folded three times at 2^256, and negation compute the sum, product and negative modulo the order,
  without any intermediate overflow; the test for high values compares with half the order; the 32-byte form is the value in big-endian
  order and reads back without a reduction.
\<close>

theorem scalar_arithmetic:
  assumes "sval a < order" and "sval b < order"
  shows "sval (fst (scalar_add a b)) = (sval a + sval b) mod order \<and> sval (scalar_mul a b) = sval a * sval b mod order \<and>
    sval (scalar_negate a) = (order - sval a) mod order \<and> (scalar_is_high a \<longleftrightarrow> order div 2 < sval a) \<and>
    be_value (scalar_get_b32 a) = sval a \<and> scalar_set_b32 (scalar_get_b32 a) = (a, False)"
  using assms by (auto simp: add_spec mul_spec negate_spec is_high_iff be_value_get_b32 set_get_b32)

theorem scalar_arithmetic_witness:
  "sval (scalar_mul \<lparr> d0 = N_0 - 1, d1 = N_1, d2 = N_2, d3 = N_3 \<rparr> \<lparr> d0 = 2, d1 = 0, d2 = 0, d3 = 0 \<rparr>) = order - 2"
proof -
  let ?a = "\<lparr> d0 = N_0 - 1, d1 = N_1, d2 = N_2, d3 = N_3 \<rparr>" and ?b = "\<lparr> d0 = 2, d1 = 0, d2 = 0, d3 = 0 \<rparr>"
  have v: "sval ?a = order - 1" "sval ?b = 2" by (simp_all add: sval_def constants order_def)
  then have "sval ?a < order" "sval ?b < order" by (simp_all add: order_def)
  from scalar_arithmetic [OF this] have "sval (scalar_mul ?a ?b) = (order - 1) * 2 mod order" unfolding v by blast
  also have "\<dots> = order - 2" by (simp add: order_def)
  finally show ?thesis .
qed

end
