(* ===== verification/Field.thy ===== *)
theory Field
  imports Scalar_Mul
begin

unbundle bit_operations_syntax

text \<open>
  The field of the curve in the vendored curve library: \<open>src/external/secp256k1/src/field_5x52_impl.h\<close>, \<open>field_5x52_int128_impl.h\<close> and \<open>field_impl.h\<close>. An element is five
  limbs of 52 bits in 64-bit words that may hold more than 52 bits; how much more is the magnitude, which the library tracks only in its
  \<open>VERIFY\<close> build. Here the bounds are hypotheses and conclusions of the lemmas.
\<close>

section \<open>Elements\<close>

record secp256k1_fe =
  fe0 :: u64
  fe1 :: u64
  fe2 :: u64
  fe3 :: u64
  fe4 :: u64

definition M52 :: u64 where
  "M52 = 0xFFFFFFFFFFFFF"

definition u128_rshift :: "nat \<Rightarrow> u128 \<Rightarrow> u128" where
  "u128_rshift n t = drop_bit n t"

section \<open>Multiplication\<close>

definition fe_R :: u64 where
  "fe_R = 0x1000003D10"

text \<open>The five stages of \<open>secp256k1_fe_mul_inner\<close>.\<close>

definition mul_stage1 :: "secp256k1_fe \<Rightarrow> secp256k1_fe \<Rightarrow> u64 \<times> u64 \<times> u64 \<times> u128" where
  "mul_stage1 a b =
     (let d = u128_mul (fe0 a) (fe3 b);
          d = u128_accum_mul d (fe1 a) (fe2 b);
          d = u128_accum_mul d (fe2 a) (fe1 b);
          d = u128_accum_mul d (fe3 a) (fe0 b);
          c = u128_mul (fe4 a) (fe4 b);
          d = u128_accum_mul d fe_R (u128_to_u64 c); c = u128_rshift 64 c;
          t3 = u128_to_u64 d AND M52; d = u128_rshift 52 d;
          d = u128_accum_mul d (fe0 a) (fe4 b);
          d = u128_accum_mul d (fe1 a) (fe3 b);
          d = u128_accum_mul d (fe2 a) (fe2 b);
          d = u128_accum_mul d (fe3 a) (fe1 b);
          d = u128_accum_mul d (fe4 a) (fe0 b);
          d = u128_accum_mul d (push_bit 12 fe_R) (u128_to_u64 c);
          t4 = u128_to_u64 d AND M52; d = u128_rshift 52 d;
          tx = drop_bit 48 t4; t4 = t4 AND drop_bit 4 M52
      in (t3, t4, tx, d))"

definition mul_stage2 :: "secp256k1_fe \<Rightarrow> secp256k1_fe \<Rightarrow> u64 \<Rightarrow> u128 \<Rightarrow> u64 \<times> u128 \<times> u128" where
  "mul_stage2 a b tx d =
     (let c = u128_mul (fe0 a) (fe0 b);
          d = u128_accum_mul d (fe1 a) (fe4 b);
          d = u128_accum_mul d (fe2 a) (fe3 b);
          d = u128_accum_mul d (fe3 a) (fe2 b);
          d = u128_accum_mul d (fe4 a) (fe1 b);
          u0 = u128_to_u64 d AND M52; d = u128_rshift 52 d;
          u0 = push_bit 4 u0 OR tx;
          c = u128_accum_mul c u0 (drop_bit 4 fe_R);
          r0 = u128_to_u64 c AND M52; c = u128_rshift 52 c
      in (r0, c, d))"

definition mul_stage3 :: "secp256k1_fe \<Rightarrow> secp256k1_fe \<Rightarrow> u128 \<Rightarrow> u128 \<Rightarrow> u64 \<times> u128 \<times> u128" where
  "mul_stage3 a b c d =
     (let c = u128_accum_mul c (fe0 a) (fe1 b);
          c = u128_accum_mul c (fe1 a) (fe0 b);
          d = u128_accum_mul d (fe2 a) (fe4 b);
          d = u128_accum_mul d (fe3 a) (fe3 b);
          d = u128_accum_mul d (fe4 a) (fe2 b);
          c = u128_accum_mul c (u128_to_u64 d AND M52) fe_R; d = u128_rshift 52 d;
          r1 = u128_to_u64 c AND M52; c = u128_rshift 52 c
      in (r1, c, d))"

definition mul_stage4 :: "secp256k1_fe \<Rightarrow> secp256k1_fe \<Rightarrow> u128 \<Rightarrow> u128 \<Rightarrow> u64 \<times> u128 \<times> u128" where
  "mul_stage4 a b c d =
     (let c = u128_accum_mul c (fe0 a) (fe2 b);
          c = u128_accum_mul c (fe1 a) (fe1 b);
          c = u128_accum_mul c (fe2 a) (fe0 b);
          d = u128_accum_mul d (fe3 a) (fe4 b);
          d = u128_accum_mul d (fe4 a) (fe3 b);
          c = u128_accum_mul c fe_R (u128_to_u64 d); d = u128_rshift 64 d;
          r2 = u128_to_u64 c AND M52; c = u128_rshift 52 c
      in (r2, c, d))"

definition mul_stage5 :: "u64 \<Rightarrow> u64 \<Rightarrow> u128 \<Rightarrow> u128 \<Rightarrow> u64 \<times> u64" where
  "mul_stage5 t3 t4 c d =
     (let c = u128_accum_mul c (push_bit 12 fe_R) (u128_to_u64 d);
          c = u128_accum_u64 c t3;
          r3 = u128_to_u64 c AND M52; c = u128_rshift 52 c;
          r4 = u128_to_u64 c + t4
      in (r3, r4))"

definition fe_mul_inner :: "secp256k1_fe \<Rightarrow> secp256k1_fe \<Rightarrow> secp256k1_fe" where
  "fe_mul_inner a b =
     (let (t3, t4, tx, d) = mul_stage1 a b;
          (r0, c, d) = mul_stage2 a b tx d;
          (r1, c, d) = mul_stage3 a b c d;
          (r2, c, d) = mul_stage4 a b c d;
          (r3, r4) = mul_stage5 t3 t4 c d
      in \<lparr> fe0 = r0, fe1 = r1, fe2 = r2, fe3 = r3, fe4 = r4 \<rparr>)"

definition fe_impl_mul :: "secp256k1_fe \<Rightarrow> secp256k1_fe \<Rightarrow> secp256k1_fe" where
  "fe_impl_mul a b = fe_mul_inner a b"

text \<open>
  The stages of \<open>secp256k1_fe_sqr_inner\<close>. The source doubles \<open>a4\<close> after its first stage and \<open>a0\<close> after the second, in place; the last stage is
  that of the multiplication.
\<close>

definition sqr_stage1 :: "secp256k1_fe \<Rightarrow> u64 \<times> u64 \<times> u64 \<times> u128" where
  "sqr_stage1 a =
     (let d = u128_mul (fe0 a * 2) (fe3 a);
          d = u128_accum_mul d (fe1 a * 2) (fe2 a);
          c = u128_mul (fe4 a) (fe4 a);
          d = u128_accum_mul d fe_R (u128_to_u64 c); c = u128_rshift 64 c;
          t3 = u128_to_u64 d AND M52; d = u128_rshift 52 d;
          a4 = fe4 a * 2;
          d = u128_accum_mul d (fe0 a) a4;
          d = u128_accum_mul d (fe1 a * 2) (fe3 a);
          d = u128_accum_mul d (fe2 a) (fe2 a);
          d = u128_accum_mul d (push_bit 12 fe_R) (u128_to_u64 c);
          t4 = u128_to_u64 d AND M52; d = u128_rshift 52 d;
          tx = drop_bit 48 t4; t4 = t4 AND drop_bit 4 M52
      in (t3, t4, tx, d))"

definition sqr_stage2 :: "secp256k1_fe \<Rightarrow> u64 \<Rightarrow> u128 \<Rightarrow> u64 \<times> u128 \<times> u128" where
  "sqr_stage2 a tx d =
     (let a4 = fe4 a * 2;
          c = u128_mul (fe0 a) (fe0 a);
          d = u128_accum_mul d (fe1 a) a4;
          d = u128_accum_mul d (fe2 a * 2) (fe3 a);
          u0 = u128_to_u64 d AND M52; d = u128_rshift 52 d;
          u0 = push_bit 4 u0 OR tx;
          c = u128_accum_mul c u0 (drop_bit 4 fe_R);
          r0 = u128_to_u64 c AND M52; c = u128_rshift 52 c
      in (r0, c, d))"

definition sqr_stage3 :: "secp256k1_fe \<Rightarrow> u128 \<Rightarrow> u128 \<Rightarrow> u64 \<times> u128 \<times> u128" where
  "sqr_stage3 a c d =
     (let a4 = fe4 a * 2; a0 = fe0 a * 2;
          c = u128_accum_mul c a0 (fe1 a);
          d = u128_accum_mul d (fe2 a) a4;
          d = u128_accum_mul d (fe3 a) (fe3 a);
          c = u128_accum_mul c (u128_to_u64 d AND M52) fe_R; d = u128_rshift 52 d;
          r1 = u128_to_u64 c AND M52; c = u128_rshift 52 c
      in (r1, c, d))"

definition sqr_stage4 :: "secp256k1_fe \<Rightarrow> u128 \<Rightarrow> u128 \<Rightarrow> u64 \<times> u128 \<times> u128" where
  "sqr_stage4 a c d =
     (let a4 = fe4 a * 2; a0 = fe0 a * 2;
          c = u128_accum_mul c a0 (fe2 a);
          c = u128_accum_mul c (fe1 a) (fe1 a);
          d = u128_accum_mul d (fe3 a) a4;
          c = u128_accum_mul c fe_R (u128_to_u64 d); d = u128_rshift 64 d;
          r2 = u128_to_u64 c AND M52; c = u128_rshift 52 c
      in (r2, c, d))"

definition fe_sqr_inner :: "secp256k1_fe \<Rightarrow> secp256k1_fe" where
  "fe_sqr_inner a =
     (let (t3, t4, tx, d) = sqr_stage1 a;
          (r0, c, d) = sqr_stage2 a tx d;
          (r1, c, d) = sqr_stage3 a c d;
          (r2, c, d) = sqr_stage4 a c d;
          (r3, r4) = mul_stage5 t3 t4 c d
      in \<lparr> fe0 = r0, fe1 = r1, fe2 = r2, fe3 = r3, fe4 = r4 \<rparr>)"

definition fe_impl_sqr :: "secp256k1_fe \<Rightarrow> secp256k1_fe" where
  "fe_impl_sqr a = fe_sqr_inner a"

section \<open>Values and bounds\<close>

definition fval :: "secp256k1_fe \<Rightarrow> nat" where
  "fval a = unat (fe0 a) + 2 ^ 52 * (unat (fe1 a) + 2 ^ 52 * (unat (fe2 a) + 2 ^ 52 * (unat (fe3 a) + 2 ^ 52 * unat (fe4 a))))"

definition field_p :: nat where
  "field_p = 2 ^ 256 - 0x1000003D1"

text \<open>Magnitude \<open>m\<close>, as documented in \<open>field_5x52.h\<close>.\<close>

definition magnitude :: "nat \<Rightarrow> secp256k1_fe \<Rightarrow> bool" where
  "magnitude m a \<longleftrightarrow> unat (fe0 a) \<le> 2 * m * (2 ^ 52 - 1) \<and> unat (fe1 a) \<le> 2 * m * (2 ^ 52 - 1) \<and> unat (fe2 a) \<le> 2 * m * (2 ^ 52 - 1) \<and>
     unat (fe3 a) \<le> 2 * m * (2 ^ 52 - 1) \<and> unat (fe4 a) \<le> 2 * m * (2 ^ 48 - 1)"


lemma and_mask_mod: "unat (x AND mask k) = unat x mod 2 ^ k" for x :: "'a::len word"
  by (simp only: take_bit_eq_mask [symmetric] unsigned_take_bit_eq) (rule take_bit_eq_mod)

lemma M52_mask: "M52 = mask 52"
  by (simp add: M52_def mask_eq_exp_minus_1)

lemma unat_M52: "unat (x AND M52) = unat x mod 2 ^ 52"
  unfolding M52_mask by (rule and_mask_mod)

lemma mask_48: "0x0FFFFFFFFFFFF = (mask 48 :: u64)" "drop_bit 4 M52 = mask 48"
  by (simp_all add: M52_def mask_eq_exp_minus_1 drop_bit_eq_div)

lemma unat_M48: "unat (x AND 0x0FFFFFFFFFFFF :: u64) = unat x mod 2 ^ 48" "unat (x AND drop_bit 4 M52) = unat x mod 2 ^ 48"
  unfolding mask_48 by (rule and_mask_mod)+

lemma unat_low52: "unat (u128_to_u64 t AND M52) = unat t mod 2 ^ 52"
proof -
  have "unat t mod 2 ^ 64 mod 2 ^ 52 = unat t mod 2 ^ 52" by (rule mod_mod_cancel) (simp add: le_imp_power_dvd)
  then show ?thesis by (simp only: unat_M52 unat_to_u64)
qed

lemma unat_rshift: "unat (u128_rshift n t) = unat t div 2 ^ n"
proof -
  have "unat (drop_bit n t) = drop_bit n (unat t)" by (rule bit_eqI) (auto simp: bit_simps dest: bit_imp_le_length)
  then show ?thesis by (simp only: u128_rshift_def drop_bit_eq_div)
qed

lemma split52: "unat t = v \<Longrightarrow> unat (u128_to_u64 t AND M52) + 2 ^ 52 * unat (u128_rshift 52 t) = v"
  unfolding unat_low52 unat_rshift by simp

lemma split64: "unat t = v \<Longrightarrow> unat (u128_to_u64 t) + 2 ^ 64 * unat (u128_rshift 64 t) = v"
  unfolding unat_to_u64 unat_rshift by simp

lemma low52_less: "unat (u128_to_u64 t AND M52) < 2 ^ 52"
  unfolding unat_low52 by simp

text \<open>A column of products, accumulated into a 128-bit integer.\<close>

abbreviation accumulate :: "u128 \<Rightarrow> (u64 \<times> u64) list \<Rightarrow> u128" where
  "accumulate \<equiv> foldl (\<lambda>t (x, y). u128_accum_mul t x y)"

lemma accumulate_val:
  assumes "\<forall>(x, y) \<in> set ps. unat x * unat y < 2 ^ 120" "unat t + length ps * 2 ^ 120 \<le> 2 ^ 127"
  shows "unat (accumulate t ps) = unat t + (\<Sum>(x, y) \<leftarrow> ps. unat x * unat y)"
  using assms
proof (induction ps arbitrary: t)
  case (Cons p ps)
  obtain x y where p: "p = (x, y)" by (cases p)
  have small: "unat x * unat y < 2 ^ 120" using Cons.prems(1) p by auto
  have "unat (u128_accum_mul t x y) = unat t + unat x * unat y"
    using Cons.prems(2) small by (intro unat_accum_mul) (simp add: p)
  then show ?case using Cons.IH [of "u128_accum_mul t x y"] Cons.prems small p by auto
qed simp


lemma nat_bit_less: "b < 2 ^ k \<Longrightarrow> bit b n \<Longrightarrow> n < k" for b :: nat
  by (metis bit_take_bit_iff take_bit_nat_eq_self)

lemma push_or_nat: "b < 2 ^ k \<Longrightarrow> push_bit k a OR b = 2 ^ k * a + b" for a b :: nat
proof -
  assume "b < 2 ^ k"
  then have "push_bit k a OR b = push_bit k a + b"
    by (intro disjunctive_add [symmetric]) (auto simp: bit_push_bit_iff dest: nat_bit_less)
  then show ?thesis by (simp add: push_bit_eq_mult)
qed

lemma unat_push: "2 ^ k * unat x < 2 ^ 64 \<Longrightarrow> unat (push_bit k x) = 2 ^ k * unat x" for x :: u64
proof -
  assume *: "2 ^ k * unat x < 2 ^ 64"
  have "unat (push_bit k x) = (2 ^ k * unat x) mod 2 ^ LENGTH(64)"
    by (simp only: unsigned_push_bit_eq take_bit_eq_mod [where ?'a = nat] push_bit_eq_mult [where ?'a = nat] mult.commute)
  with * show ?thesis by simp
qed

lemma unat_push_or:
  fixes x y :: u64
  assumes "unat y < 2 ^ k" "2 ^ k * unat x < 2 ^ 64"
  shows "unat (push_bit k x OR y) = 2 ^ k * unat x + unat y"
proof -
  have "unat (push_bit k x OR y) = push_bit k (unat x) OR unat y"
    using unat_push [OF assms(2)] by (simp only: unsigned_or_eq) (simp add: push_bit_eq_mult [where ?'a = nat] mult.commute)
  then show ?thesis using push_or_nat [OF assms(1)] by simp
qed

section \<open>The product\<close>

text \<open>The bounds the multiplication asks of its arguments: 56 bits, and 52 for the top limb. Magnitude 8 gives them.\<close>

definition mul_ready :: "secp256k1_fe \<Rightarrow> bool" where
  "mul_ready a \<longleftrightarrow> unat (fe0 a) < 2 ^ 56 \<and> unat (fe1 a) < 2 ^ 56 \<and> unat (fe2 a) < 2 ^ 56 \<and> unat (fe3 a) < 2 ^ 56 \<and> unat (fe4 a) < 2 ^ 52"

lemma magnitude_8: "magnitude 8 a \<Longrightarrow> mul_ready a"
  by (simp add: magnitude_def mul_ready_def)

lemma product_less: "x < X \<Longrightarrow> y < Y \<Longrightarrow> x * y < X * Y" for x y :: nat
  by (rule mult_strict_mono) auto

lemma product_112: "x < 2 ^ 56 \<Longrightarrow> y < 2 ^ 56 \<Longrightarrow> x * y < 2 ^ 112" for x y :: nat
  using product_less [of x "2 ^ 56" y "2 ^ 56"] by simp

lemma product_108: "x < 2 ^ 56 \<Longrightarrow> y < 2 ^ 52 \<Longrightarrow> x * y < 2 ^ 108" "x < 2 ^ 52 \<Longrightarrow> y < 2 ^ 56 \<Longrightarrow> x * y < 2 ^ 108" for x y :: nat
  using product_less [of x "2 ^ 56" y "2 ^ 52"] product_less [of x "2 ^ 52" y "2 ^ 56"] by simp_all

lemma product_104: "x < 2 ^ 52 \<Longrightarrow> y < 2 ^ 52 \<Longrightarrow> x * y < 2 ^ 104" for x y :: nat
  using product_less [of x "2 ^ 52" y "2 ^ 52"] by simp

lemma limb_products:
  assumes "mul_ready a" "mul_ready b"
  shows "\<And>i j. i \<in> {fe0, fe1, fe2, fe3} \<Longrightarrow> j \<in> {fe0, fe1, fe2, fe3} \<Longrightarrow> unat (i a) * unat (j b) < 2 ^ 112"
    "\<And>i. i \<in> {fe0, fe1, fe2, fe3} \<Longrightarrow> unat (i a) * unat (fe4 b) < 2 ^ 108"
    "\<And>j. j \<in> {fe0, fe1, fe2, fe3} \<Longrightarrow> unat (fe4 a) * unat (j b) < 2 ^ 108"
    "unat (fe4 a) * unat (fe4 b) < 2 ^ 104"
  using assms by (auto simp: mul_ready_def intro: product_112 product_108 product_104 simp del: power_numeral)

lemma fe_R_vals: "unat fe_R = 0x1000003D10" "unat (push_bit 12 fe_R) = 2 ^ 12 * 0x1000003D10" "unat (drop_bit 4 fe_R) = 0x1000003D1"
  by (simp_all add: fe_R_def drop_bit_eq_div push_bit_eq_mult)


lemma stage1_spec:
  assumes "mul_ready a" "mul_ready b" "mul_stage1 a b = (t3, t4, tx, d')"
  obtains c\<^sub>l c\<^sub>h where
    "c\<^sub>l + 2 ^ 64 * c\<^sub>h = unat (fe4 a) * unat (fe4 b)"
    "unat t3 + 2 ^ 52 * (unat t4 + 2 ^ 48 * unat tx + 2 ^ 52 * unat d') =
       unat (fe0 a) * unat (fe3 b) + unat (fe1 a) * unat (fe2 b) + unat (fe2 a) * unat (fe1 b) + unat (fe3 a) * unat (fe0 b) + 0x1000003D10 * c\<^sub>l +
       2 ^ 52 * (unat (fe0 a) * unat (fe4 b) + unat (fe1 a) * unat (fe3 b) + unat (fe2 a) * unat (fe2 b) + unat (fe3 a) * unat (fe1 b) + unat (fe4 a) * unat (fe0 b)
         + 2 ^ 12 * 0x1000003D10 * c\<^sub>h)"
    "unat t3 < 2 ^ 52" "unat t4 < 2 ^ 48" "unat tx < 2 ^ 4" "unat d' < 2 ^ 64"
proof -
  define c where "c = u128_mul (fe4 a) (fe4 b)"
  define d1 where "d1 = accumulate 0 [(fe0 a, fe3 b), (fe1 a, fe2 b), (fe2 a, fe1 b), (fe3 a, fe0 b), (fe_R, u128_to_u64 c)]"
  define d2 where "d2 = accumulate (u128_rshift 52 d1) [(fe0 a, fe4 b), (fe1 a, fe3 b), (fe2 a, fe2 b), (fe3 a, fe1 b), (fe4 a, fe0 b),
    (push_bit 12 fe_R, u128_to_u64 (u128_rshift 64 c))]"
  define t where "t = u128_to_u64 d2 AND M52"
  note P = limb_products [OF assms(1,2)]
  have c: "unat (u128_to_u64 c) + 2 ^ 64 * unat (u128_rshift 64 c) = unat (fe4 a) * unat (fe4 b)"
    unfolding c_def by (rule split64) (rule unat_u128_mul)
  then have ch: "unat (u128_rshift 64 c) < 2 ^ 40" using P(4) by simp
  then have ch': "unat (u128_to_u64 (u128_rshift 64 c)) = unat (u128_rshift 64 c)" by (simp add: unat_to_u64)
  have cl: "unat (u128_to_u64 c) < 2 ^ 64" by (rule unat_u64_less)
  have d1: "unat d1 = unat (fe0 a) * unat (fe3 b) + unat (fe1 a) * unat (fe2 b) + unat (fe2 a) * unat (fe1 b) + unat (fe3 a) * unat (fe0 b) + 0x1000003D10 * unat (u128_to_u64 c)"
    unfolding d1_def using P(1) [of fe0 fe3] P(1) [of fe1 fe2] P(1) [of fe2 fe1] P(1) [of fe3 fe0] cl
    by (subst accumulate_val) (simp_all add: fe_R_vals)
  have d1_split: "unat (u128_to_u64 d1 AND M52) + 2 ^ 52 * unat (u128_rshift 52 d1) = unat d1" by (rule split52) simp
  have "unat d1 < 2 ^ 115" using d1 P(1) [of fe0 fe3] P(1) [of fe1 fe2] P(1) [of fe2 fe1] P(1) [of fe3 fe0] cl by simp
  then have d1_hi: "unat (u128_rshift 52 d1) < 2 ^ 63" using d1_split by simp
  have d2: "unat d2 = unat (u128_rshift 52 d1) + (unat (fe0 a) * unat (fe4 b) + unat (fe1 a) * unat (fe3 b) + unat (fe2 a) * unat (fe2 b) + unat (fe3 a) * unat (fe1 b)
      + unat (fe4 a) * unat (fe0 b) + 2 ^ 12 * 0x1000003D10 * unat (u128_rshift 64 c))"
    unfolding d2_def using P(2) [of fe0] P(1) [of fe1 fe3] P(1) [of fe2 fe2] P(1) [of fe3 fe1] P(3) [of fe0] ch d1_hi
    by (subst accumulate_val) (simp_all add: fe_R_vals ch')
  have d2_split: "unat t + 2 ^ 52 * unat (u128_rshift 52 d2) = unat d2" unfolding t_def by (rule split52) simp
  have "unat d2 < 2 ^ 116" using d2 P(2) [of fe0] P(1) [of fe1 fe3] P(1) [of fe2 fe2] P(1) [of fe3 fe1] P(3) [of fe0] ch d1_hi by simp
  then have d2_hi: "unat (u128_rshift 52 d2) < 2 ^ 64" using d2_split by simp
  have t: "unat t < 2 ^ 52" unfolding t_def by (rule low52_less)
  have t_split: "unat (t AND drop_bit 4 M52) + 2 ^ 48 * unat (drop_bit 48 t) = unat t" by (simp only: unat_M48 unat_drop_bit mod_mult_div_eq)
  have res: "t3 = u128_to_u64 d1 AND M52" "t4 = t AND drop_bit 4 M52" "tx = drop_bit 48 t" "d' = u128_rshift 52 d2"
    using assms(3) unfolding mul_stage1_def Let_def t_def d1_def d2_def c_def by (simp_all add: u128_accum_mul_def u128_mul_def)
  show thesis
  proof (rule that [OF c])
    show "unat t3 < 2 ^ 52" "unat d' < 2 ^ 64" unfolding res by (rule low52_less d2_hi)+
    show "unat t4 < 2 ^ 48" unfolding res unat_M48 by simp
    show "unat tx < 2 ^ 4" using t t_split unfolding res by simp
  qed (use d1 d2 d1_split d2_split t_split in \<open>simp add: res\<close>)
qed

lemma stage2_spec:
  assumes "mul_ready a" "mul_ready b" "unat tx < 2 ^ 4" "unat d < 2 ^ 64" "mul_stage2 a b tx d = (r0, c', d')"
  obtains u where
    "u + 2 ^ 52 * unat d' = unat d + (unat (fe1 a) * unat (fe4 b) + unat (fe2 a) * unat (fe3 b) + unat (fe3 a) * unat (fe2 b) + unat (fe4 a) * unat (fe1 b))"
    "unat r0 + 2 ^ 52 * unat c' = unat (fe0 a) * unat (fe0 b) + 0x1000003D1 * (2 ^ 4 * u + unat tx)"
    "unat r0 < 2 ^ 52" "unat c' < 2 ^ 61" "unat d' < 2 ^ 62"
proof -
  define e where "e = accumulate d [(fe1 a, fe4 b), (fe2 a, fe3 b), (fe3 a, fe2 b), (fe4 a, fe1 b)]"
  define u where "u = u128_to_u64 e AND M52"
  define u' where "u' = push_bit 4 u OR tx"
  define c where "c = accumulate 0 [(fe0 a, fe0 b), (u', drop_bit 4 fe_R)]"
  note P = limb_products [OF assms(1,2)]
  have e: "unat e = unat d + (unat (fe1 a) * unat (fe4 b) + unat (fe2 a) * unat (fe3 b) + unat (fe3 a) * unat (fe2 b) + unat (fe4 a) * unat (fe1 b))"
    unfolding e_def using P(2) [of fe1] P(1) [of fe2 fe3] P(1) [of fe3 fe2] P(3) [of fe1] assms(4)
    by (subst accumulate_val) simp_all
  have e_split: "unat u + 2 ^ 52 * unat (u128_rshift 52 e) = unat e" unfolding u_def by (rule split52) simp
  have u: "unat u < 2 ^ 52" unfolding u_def by (rule low52_less)
  have u': "unat u' = 2 ^ 4 * unat u + unat tx" unfolding u'_def using assms(3) u by (intro unat_push_or) simp_all
  have c: "unat c = unat (fe0 a) * unat (fe0 b) + 0x1000003D1 * (2 ^ 4 * unat u + unat tx)"
    unfolding c_def using P(1) [of fe0 fe0] u assms(3) by (subst accumulate_val) (simp_all add: fe_R_vals u')
  have c_split: "unat (u128_to_u64 c AND M52) + 2 ^ 52 * unat (u128_rshift 52 c) = unat c" by (rule split52) simp
  have res: "r0 = u128_to_u64 c AND M52" "c' = u128_rshift 52 c" "d' = u128_rshift 52 e"
    using assms(5) unfolding mul_stage2_def Let_def c_def u'_def u_def e_def by (simp_all add: u128_accum_mul_def u128_mul_def)
  show thesis
  proof (rule that [of "unat u"])
    show "unat r0 < 2 ^ 52" unfolding res by (rule low52_less)
    show "unat c' < 2 ^ 61" using c c_split P(1) [of fe0 fe0] u assms(3) unfolding res by simp
    show "unat d' < 2 ^ 62"
      using e e_split P(2) [of fe1] P(1) [of fe2 fe3] P(1) [of fe3 fe2] P(3) [of fe1] assms(4) unfolding res by simp
  qed (use e e_split c c_split in \<open>simp_all add: res\<close>)
qed

lemma stage3_spec:
  assumes "mul_ready a" "mul_ready b" "unat c < 2 ^ 61" "unat d < 2 ^ 62" "mul_stage3 a b c d = (r1, c', d')"
  obtains v where
    "v + 2 ^ 52 * unat d' = unat d + (unat (fe2 a) * unat (fe4 b) + unat (fe3 a) * unat (fe3 b) + unat (fe4 a) * unat (fe2 b))"
    "unat r1 + 2 ^ 52 * unat c' = unat c + (unat (fe0 a) * unat (fe1 b) + unat (fe1 a) * unat (fe0 b) + 0x1000003D10 * v)"
    "unat r1 < 2 ^ 52" "unat c' < 2 ^ 63" "unat d' < 2 ^ 62"
proof -
  define e where "e = accumulate d [(fe2 a, fe4 b), (fe3 a, fe3 b), (fe4 a, fe2 b)]"
  define v where "v = u128_to_u64 e AND M52"
  define f where "f = accumulate c [(fe0 a, fe1 b), (fe1 a, fe0 b), (v, fe_R)]"
  note P = limb_products [OF assms(1,2)]
  have e: "unat e = unat d + (unat (fe2 a) * unat (fe4 b) + unat (fe3 a) * unat (fe3 b) + unat (fe4 a) * unat (fe2 b))"
    unfolding e_def using P(2) [of fe2] P(1) [of fe3 fe3] P(3) [of fe2] assms(4) by (subst accumulate_val) simp_all
  have e_split: "unat v + 2 ^ 52 * unat (u128_rshift 52 e) = unat e" unfolding v_def by (rule split52) simp
  have v: "unat v < 2 ^ 52" unfolding v_def by (rule low52_less)
  have f: "unat f = unat c + (unat (fe0 a) * unat (fe1 b) + unat (fe1 a) * unat (fe0 b) + 0x1000003D10 * unat v)"
    unfolding f_def using P(1) [of fe0 fe1] P(1) [of fe1 fe0] v assms(3) by (subst accumulate_val) (simp_all add: fe_R_vals)
  have f_split: "unat (u128_to_u64 f AND M52) + 2 ^ 52 * unat (u128_rshift 52 f) = unat f" by (rule split52) simp
  have res: "r1 = u128_to_u64 f AND M52" "c' = u128_rshift 52 f" "d' = u128_rshift 52 e"
    using assms(5) unfolding mul_stage3_def Let_def f_def v_def e_def by simp_all
  show thesis
  proof (rule that [of "unat v"])
    show "unat r1 < 2 ^ 52" unfolding res by (rule low52_less)
    show "unat c' < 2 ^ 63" using f f_split P(1) [of fe0 fe1] P(1) [of fe1 fe0] v assms(3) unfolding res by simp
    show "unat d' < 2 ^ 62" using e e_split P(2) [of fe2] P(1) [of fe3 fe3] P(3) [of fe2] assms(4) unfolding res by simp
  qed (use e e_split f f_split in \<open>simp_all add: res\<close>)
qed

lemma stage4_spec:
  assumes "mul_ready a" "mul_ready b" "unat c < 2 ^ 63" "unat d < 2 ^ 62" "mul_stage4 a b c d = (r2, c', d')"
  obtains w where
    "w + 2 ^ 64 * unat d' = unat d + (unat (fe3 a) * unat (fe4 b) + unat (fe4 a) * unat (fe3 b))"
    "unat r2 + 2 ^ 52 * unat c' = unat c + (unat (fe0 a) * unat (fe2 b) + unat (fe1 a) * unat (fe1 b) + unat (fe2 a) * unat (fe0 b) + 0x1000003D10 * w)"
    "unat r2 < 2 ^ 52" "unat c' < 2 ^ 63" "unat d' < 2 ^ 50"
proof -
  define e where "e = accumulate d [(fe3 a, fe4 b), (fe4 a, fe3 b)]"
  define f where "f = accumulate c [(fe0 a, fe2 b), (fe1 a, fe1 b), (fe2 a, fe0 b), (fe_R, u128_to_u64 e)]"
  note P = limb_products [OF assms(1,2)]
  have e: "unat e = unat d + (unat (fe3 a) * unat (fe4 b) + unat (fe4 a) * unat (fe3 b))"
    unfolding e_def using P(2) [of fe3] P(3) [of fe3] assms(4) by (subst accumulate_val) simp_all
  have e_split: "unat (u128_to_u64 e) + 2 ^ 64 * unat (u128_rshift 64 e) = unat e" by (rule split64) simp
  have w: "unat (u128_to_u64 e) < 2 ^ 64" by (rule unat_u64_less)
  have f: "unat f = unat c + (unat (fe0 a) * unat (fe2 b) + unat (fe1 a) * unat (fe1 b) + unat (fe2 a) * unat (fe0 b) + 0x1000003D10 * unat (u128_to_u64 e))"
    unfolding f_def using P(1) [of fe0 fe2] P(1) [of fe1 fe1] P(1) [of fe2 fe0] w assms(3) by (subst accumulate_val) (simp_all add: fe_R_vals)
  have f_split: "unat (u128_to_u64 f AND M52) + 2 ^ 52 * unat (u128_rshift 52 f) = unat f" by (rule split52) simp
  have res: "r2 = u128_to_u64 f AND M52" "c' = u128_rshift 52 f" "d' = u128_rshift 64 e"
    using assms(5) unfolding mul_stage4_def Let_def f_def e_def by simp_all
  show thesis
  proof (rule that [of "unat (u128_to_u64 e)"])
    show "unat r2 < 2 ^ 52" unfolding res by (rule low52_less)
    show "unat c' < 2 ^ 63" using f f_split P(1) [of fe0 fe2] P(1) [of fe1 fe1] P(1) [of fe2 fe0] w assms(3) unfolding res by simp
    show "unat d' < 2 ^ 50" using e e_split P(2) [of fe3] P(3) [of fe3] assms(4) unfolding res by simp
  qed (use e e_split f f_split in \<open>simp_all add: res\<close>)
qed

lemma stage5_spec:
  assumes "unat t3 < 2 ^ 52" "unat t4 < 2 ^ 48" "unat c < 2 ^ 63" "unat d < 2 ^ 50" "mul_stage5 t3 t4 c d = (r3, r4)"
  shows "unat r3 + 2 ^ 52 * unat r4 = unat c + 2 ^ 12 * 0x1000003D10 * unat d + unat t3 + 2 ^ 52 * unat t4" "unat r3 < 2 ^ 52" "unat r4 < 2 ^ 48 + 2 ^ 47"
proof -
  define e where "e = u128_accum_u64 (u128_accum_mul c (push_bit 12 fe_R) (u128_to_u64 d)) t3"
  have "unat (u128_to_u64 d) = unat d" using assms(4) by (simp add: unat_to_u64)
  then have "unat (u128_accum_mul c (push_bit 12 fe_R) (u128_to_u64 d)) = unat c + 2 ^ 12 * 0x1000003D10 * unat d"
    using assms(3,4) by (subst unat_accum_mul) (simp_all add: fe_R_vals)
  then have e: "unat e = unat c + 2 ^ 12 * 0x1000003D10 * unat d + unat t3"
    unfolding e_def using assms(3,4) by (subst unat_accum) simp_all
  have e_split: "unat (u128_to_u64 e AND M52) + 2 ^ 52 * unat (u128_rshift 52 e) = unat e" by (rule split52) simp
  have hi: "unat (u128_rshift 52 e) < 2 ^ 47" using e e_split assms(1,3,4) by simp
  then have "unat (u128_to_u64 (u128_rshift 52 e)) = unat (u128_rshift 52 e)" by (simp add: unat_to_u64)
  then have r4: "unat (u128_to_u64 (u128_rshift 52 e) + t4) = unat (u128_rshift 52 e) + unat t4"
    using hi assms(2) by (subst add_no_wrap) simp_all
  have res: "r3 = u128_to_u64 e AND M52" "r4 = u128_to_u64 (u128_rshift 52 e) + t4"
    using assms(5) unfolding mul_stage5_def Let_def e_def by simp_all
  show "unat r3 + 2 ^ 52 * unat r4 = unat c + 2 ^ 12 * 0x1000003D10 * unat d + unat t3 + 2 ^ 52 * unat t4"
    using e e_split r4 unfolding res by simp
  show "unat r3 < 2 ^ 52" unfolding res by (rule low52_less)
  show "unat r4 < 2 ^ 48 + 2 ^ 47" using r4 hi assms(2) unfolding res by simp
qed

text \<open>The columns of the schoolbook product, and the identity behind the reduction: \<open>2\<^sup>2\<^sup>6\<^sup>0 - R = 16 p\<close>.\<close>

lemma fval_mult:
  "fval a * fval b =
     unat (fe0 a) * unat (fe0 b) +
     2 ^ 52 * (unat (fe0 a) * unat (fe1 b) + unat (fe1 a) * unat (fe0 b)) +
     2 ^ 104 * (unat (fe0 a) * unat (fe2 b) + unat (fe1 a) * unat (fe1 b) + unat (fe2 a) * unat (fe0 b)) +
     2 ^ 156 * (unat (fe0 a) * unat (fe3 b) + unat (fe1 a) * unat (fe2 b) + unat (fe2 a) * unat (fe1 b) + unat (fe3 a) * unat (fe0 b)) +
     2 ^ 208 * (unat (fe0 a) * unat (fe4 b) + unat (fe1 a) * unat (fe3 b) + unat (fe2 a) * unat (fe2 b) + unat (fe3 a) * unat (fe1 b) + unat (fe4 a) * unat (fe0 b)) +
     2 ^ 260 * (unat (fe1 a) * unat (fe4 b) + unat (fe2 a) * unat (fe3 b) + unat (fe3 a) * unat (fe2 b) + unat (fe4 a) * unat (fe1 b)) +
     2 ^ 312 * (unat (fe2 a) * unat (fe4 b) + unat (fe3 a) * unat (fe3 b) + unat (fe4 a) * unat (fe2 b)) +
     2 ^ 364 * (unat (fe3 a) * unat (fe4 b) + unat (fe4 a) * unat (fe3 b)) +
     2 ^ 416 * (unat (fe4 a) * unat (fe4 b))"
  unfolding fval_def by (simp add: algebra_simps)

lemma reduction_identity:
  fixes p0 :: nat
  assumes "cl + 2 ^ 64 * ch = p8"
    "t3 + 2 ^ 52 * (t4 + 2 ^ 48 * tx + 2 ^ 52 * e1) = p3 + 0x1000003D10 * cl + 2 ^ 52 * (p4 + 2 ^ 12 * 0x1000003D10 * ch)"
    "u + 2 ^ 52 * e2 = e1 + p5" "r0 + 2 ^ 52 * c2 = p0 + 0x1000003D1 * (2 ^ 4 * u + tx)"
    "v + 2 ^ 52 * e3 = e2 + p6" "r1 + 2 ^ 52 * c3 = c2 + (p1 + 0x1000003D10 * v)"
    "w + 2 ^ 64 * e4 = e3 + p7" "r2 + 2 ^ 52 * c4 = c3 + (p2 + 0x1000003D10 * w)"
    "r3 + 2 ^ 52 * r4 = c4 + 2 ^ 12 * 0x1000003D10 * e4 + t3 + 2 ^ 52 * t4"
  shows "r0 + 2 ^ 52 * (r1 + 2 ^ 52 * (r2 + 2 ^ 52 * (r3 + 2 ^ 52 * r4))) +
      field_p * (2 ^ 4 * u + tx + 2 ^ 4 * (2 ^ 156 * cl + 2 ^ 220 * ch + 2 ^ 52 * v + 2 ^ 104 * w + 2 ^ 168 * e4)) =
    p0 + 2 ^ 52 * p1 + 2 ^ 104 * p2 + 2 ^ 156 * p3 + 2 ^ 208 * p4 + 2 ^ 260 * p5 + 2 ^ 312 * p6 + 2 ^ 364 * p7 + 2 ^ 416 * p8"
  using assms unfolding field_p_def by simp


lemma mul_inner_spec:
  assumes "mul_ready a" "mul_ready b"
  shows "fval (fe_mul_inner a b) mod field_p = (fval a * fval b) mod field_p"
    "magnitude 1 (fe_mul_inner a b)"
proof -
  obtain t3 t4 tx e1 where s1: "mul_stage1 a b = (t3, t4, tx, e1)" by (metis prod_cases4)
  obtain r0 c2 e2 where s2: "mul_stage2 a b tx e1 = (r0, c2, e2)" by (metis prod_cases3)
  obtain r1 c3 e3 where s3: "mul_stage3 a b c2 e2 = (r1, c3, e3)" by (metis prod_cases3)
  obtain r2 c4 e4 where s4: "mul_stage4 a b c3 e3 = (r2, c4, e4)" by (metis prod_cases3)
  obtain r3 r4 where s5: "mul_stage5 t3 t4 c4 e4 = (r3, r4)" by (metis surj_pair)
  have r: "fe_mul_inner a b = \<lparr> fe0 = r0, fe1 = r1, fe2 = r2, fe3 = r3, fe4 = r4 \<rparr>"
    by (simp add: fe_mul_inner_def s1 s2 s3 s4 s5)
  obtain cl ch where S1: "cl + 2 ^ 64 * ch = unat (fe4 a) * unat (fe4 b)"
    "unat t3 + 2 ^ 52 * (unat t4 + 2 ^ 48 * unat tx + 2 ^ 52 * unat e1) =
       unat (fe0 a) * unat (fe3 b) + unat (fe1 a) * unat (fe2 b) + unat (fe2 a) * unat (fe1 b) + unat (fe3 a) * unat (fe0 b) + 0x1000003D10 * cl +
       2 ^ 52 * (unat (fe0 a) * unat (fe4 b) + unat (fe1 a) * unat (fe3 b) + unat (fe2 a) * unat (fe2 b) + unat (fe3 a) * unat (fe1 b) + unat (fe4 a) * unat (fe0 b)
         + 2 ^ 12 * 0x1000003D10 * ch)"
    and B1: "unat t3 < 2 ^ 52" "unat t4 < 2 ^ 48" "unat tx < 2 ^ 4" "unat e1 < 2 ^ 64"
    by (rule stage1_spec [OF assms s1])
  obtain u where S2: "u + 2 ^ 52 * unat e2 = unat e1 + (unat (fe1 a) * unat (fe4 b) + unat (fe2 a) * unat (fe3 b) + unat (fe3 a) * unat (fe2 b) + unat (fe4 a) * unat (fe1 b))"
    "unat r0 + 2 ^ 52 * unat c2 = unat (fe0 a) * unat (fe0 b) + 0x1000003D1 * (2 ^ 4 * u + unat tx)"
    and B2: "unat r0 < 2 ^ 52" "unat c2 < 2 ^ 61" "unat e2 < 2 ^ 62"
    by (rule stage2_spec [OF assms B1(3,4) s2])
  obtain v where S3: "v + 2 ^ 52 * unat e3 = unat e2 + (unat (fe2 a) * unat (fe4 b) + unat (fe3 a) * unat (fe3 b) + unat (fe4 a) * unat (fe2 b))"
    "unat r1 + 2 ^ 52 * unat c3 = unat c2 + (unat (fe0 a) * unat (fe1 b) + unat (fe1 a) * unat (fe0 b) + 0x1000003D10 * v)"
    and B3: "unat r1 < 2 ^ 52" "unat c3 < 2 ^ 63" "unat e3 < 2 ^ 62"
    by (rule stage3_spec [OF assms B2(2,3) s3])
  obtain w where S4: "w + 2 ^ 64 * unat e4 = unat e3 + (unat (fe3 a) * unat (fe4 b) + unat (fe4 a) * unat (fe3 b))"
    "unat r2 + 2 ^ 52 * unat c4 = unat c3 + (unat (fe0 a) * unat (fe2 b) + unat (fe1 a) * unat (fe1 b) + unat (fe2 a) * unat (fe0 b) + 0x1000003D10 * w)"
    and B4: "unat r2 < 2 ^ 52" "unat c4 < 2 ^ 63" "unat e4 < 2 ^ 50"
    by (rule stage4_spec [OF assms B3(2,3) s4])
  note S5 = stage5_spec [OF B1(1,2) B4(2,3) s5]
  have "fval (fe_mul_inner a b) +
      field_p * (2 ^ 4 * u + unat tx + 2 ^ 4 * (2 ^ 156 * cl + 2 ^ 220 * ch + 2 ^ 52 * v + 2 ^ 104 * w + 2 ^ 168 * unat e4)) = fval a * fval b"
    unfolding r fval_mult using reduction_identity [OF S1 S2 S3 S4 S5(1)] by (simp only: fval_def secp256k1_fe.simps)
  then show "fval (fe_mul_inner a b) mod field_p = (fval a * fval b) mod field_p" by (metis mod_mult_self2)
  show "magnitude 1 (fe_mul_inner a b)" using B2(1) B3(1) B4(1) S5(2,3) by (simp add: magnitude_def r)
qed

text \<open>Squaring computes the same limbs.\<close>

lemma ucast_double: "unat a < 2 ^ 56 \<Longrightarrow> (ucast (a * 2) :: u128) = ucast a + ucast a" for a :: u64
proof -
  assume "unat a < 2 ^ 56"
  then have "unat (a * 2) = unat a + unat a" by (simp add: unat_word_ariths(2))
  then show ?thesis by (metis of_nat_add of_nat_unat)
qed

lemma sqr_stages:
  assumes "mul_ready a"
  shows "sqr_stage1 a = mul_stage1 a a" "sqr_stage2 a tx d = mul_stage2 a a tx d" "sqr_stage3 a c d = mul_stage3 a a c d" "sqr_stage4 a c d = mul_stage4 a a c d"
proof -
  have D: "(ucast (fe0 a * 2) :: u128) = ucast (fe0 a) + ucast (fe0 a)" "(ucast (fe1 a * 2) :: u128) = ucast (fe1 a) + ucast (fe1 a)"
    "(ucast (fe2 a * 2) :: u128) = ucast (fe2 a) + ucast (fe2 a)" "(ucast (fe4 a * 2) :: u128) = ucast (fe4 a) + ucast (fe4 a)"
    using assms by (simp_all add: mul_ready_def ucast_double)
  let ?A = "\<lambda>d x y. u128_accum_mul d x y"
  have E1: "?A (u128_mul (fe0 a * 2) (fe3 a)) (fe1 a * 2) (fe2 a) = ?A (?A (?A (u128_mul (fe0 a) (fe3 a)) (fe1 a) (fe2 a)) (fe2 a) (fe1 a)) (fe3 a) (fe0 a)"
    by (simp only: u128_mul_def u128_accum_mul_def D) (simp add: algebra_simps)
  have E2: "?A (?A (?A d (fe0 a) (fe4 a * 2)) (fe1 a * 2) (fe3 a)) (fe2 a) (fe2 a) =
      ?A (?A (?A (?A (?A d (fe0 a) (fe4 a)) (fe1 a) (fe3 a)) (fe2 a) (fe2 a)) (fe3 a) (fe1 a)) (fe4 a) (fe0 a)" for d
    by (simp only: u128_mul_def u128_accum_mul_def D) (simp add: algebra_simps)
  show "sqr_stage1 a = mul_stage1 a a" unfolding sqr_stage1_def mul_stage1_def Let_def E1 E2 by (rule refl)
  have E3: "?A (?A d (fe1 a) (fe4 a * 2)) (fe2 a * 2) (fe3 a) = ?A (?A (?A (?A d (fe1 a) (fe4 a)) (fe2 a) (fe3 a)) (fe3 a) (fe2 a)) (fe4 a) (fe1 a)" for d
    by (simp only: u128_mul_def u128_accum_mul_def D) (simp add: algebra_simps)
  show "sqr_stage2 a tx d = mul_stage2 a a tx d" unfolding sqr_stage2_def mul_stage2_def Let_def E3 by (rule refl)
  have E4: "?A c (fe0 a * 2) (fe1 a) = ?A (?A c (fe0 a) (fe1 a)) (fe1 a) (fe0 a)"
    "?A (?A d (fe2 a) (fe4 a * 2)) (fe3 a) (fe3 a) = ?A (?A (?A d (fe2 a) (fe4 a)) (fe3 a) (fe3 a)) (fe4 a) (fe2 a)" for c d
    by (simp only: u128_mul_def u128_accum_mul_def D; simp add: algebra_simps)+
  show "sqr_stage3 a c d = mul_stage3 a a c d" unfolding sqr_stage3_def mul_stage3_def Let_def E4 by (rule refl)
  have E5: "?A (?A c (fe0 a * 2) (fe2 a)) (fe1 a) (fe1 a) = ?A (?A (?A c (fe0 a) (fe2 a)) (fe1 a) (fe1 a)) (fe2 a) (fe0 a)"
    "?A d (fe3 a) (fe4 a * 2) = ?A (?A d (fe3 a) (fe4 a)) (fe4 a) (fe3 a)" for c d
    by (simp only: u128_mul_def u128_accum_mul_def D; simp add: algebra_simps)+
  show "sqr_stage4 a c d = mul_stage4 a a c d" unfolding sqr_stage4_def mul_stage4_def Let_def E5 by (rule refl)
qed

lemma sqr_inner_eq: "mul_ready a \<Longrightarrow> fe_sqr_inner a = fe_mul_inner a a"
  by (simp add: fe_sqr_inner_def fe_mul_inner_def sqr_stages)

end
