(* ===== verification/Field_Ops.thy ===== *)
theory Field_Ops
  imports Field
begin

unbundle bit_operations_syntax

text \<open>
  The rest of the field of the curve (\<open>src/external/secp256k1/src/field_5x52_impl.h\<close>, \<open>field_impl.h\<close>): sums, negation, halving, normalisation, comparison,
  conversion to and from bytes and the storage format, and the square root. The \<open>int\<close> arguments of the source are taken after their conversion to
  \<open>uint64_t\<close>.
\<close>

section \<open>Linear operations\<close>

definition fe_impl_set_int :: "u64 \<Rightarrow> secp256k1_fe" where
  "fe_impl_set_int a = \<lparr> fe0 = a, fe1 = 0, fe2 = 0, fe3 = 0, fe4 = 0 \<rparr>"

definition fe_impl_is_zero :: "secp256k1_fe \<Rightarrow> bool" where
  "fe_impl_is_zero a \<longleftrightarrow> (fe0 a OR fe1 a OR fe2 a OR fe3 a OR fe4 a) = 0"

definition fe_impl_is_odd :: "secp256k1_fe \<Rightarrow> bool" where
  "fe_impl_is_odd a \<longleftrightarrow> fe0 a AND 1 \<noteq> 0"

definition fe_impl_cmp_var :: "secp256k1_fe \<Rightarrow> secp256k1_fe \<Rightarrow> int" where
  "fe_impl_cmp_var a b =
     (if fe4 a > fe4 b then 1 else if fe4 a < fe4 b then -1 else
      if fe3 a > fe3 b then 1 else if fe3 a < fe3 b then -1 else
      if fe2 a > fe2 b then 1 else if fe2 a < fe2 b then -1 else
      if fe1 a > fe1 b then 1 else if fe1 a < fe1 b then -1 else
      if fe0 a > fe0 b then 1 else if fe0 a < fe0 b then -1 else 0)"

definition fe_impl_negate_unchecked :: "secp256k1_fe \<Rightarrow> u64 \<Rightarrow> secp256k1_fe" where
  "fe_impl_negate_unchecked a m =
     \<lparr> fe0 = 0xFFFFEFFFFFC2F * 2 * (m + 1) - fe0 a, fe1 = 0xFFFFFFFFFFFFF * 2 * (m + 1) - fe1 a, fe2 = 0xFFFFFFFFFFFFF * 2 * (m + 1) - fe2 a,
       fe3 = 0xFFFFFFFFFFFFF * 2 * (m + 1) - fe3 a, fe4 = 0x0FFFFFFFFFFFF * 2 * (m + 1) - fe4 a \<rparr>"

definition fe_impl_mul_int_unchecked :: "secp256k1_fe \<Rightarrow> u64 \<Rightarrow> secp256k1_fe" where
  "fe_impl_mul_int_unchecked r a = \<lparr> fe0 = fe0 r * a, fe1 = fe1 r * a, fe2 = fe2 r * a, fe3 = fe3 r * a, fe4 = fe4 r * a \<rparr>"

definition fe_impl_add_int :: "secp256k1_fe \<Rightarrow> u64 \<Rightarrow> secp256k1_fe" where
  "fe_impl_add_int r a = r \<lparr> fe0 := fe0 r + a \<rparr>"

definition fe_impl_add :: "secp256k1_fe \<Rightarrow> secp256k1_fe \<Rightarrow> secp256k1_fe" where
  "fe_impl_add r a = \<lparr> fe0 = fe0 r + fe0 a, fe1 = fe1 r + fe1 a, fe2 = fe2 r + fe2 a, fe3 = fe3 r + fe3 a, fe4 = fe4 r + fe4 a \<rparr>"

definition fe_impl_cmov :: "secp256k1_fe \<Rightarrow> secp256k1_fe \<Rightarrow> bool \<Rightarrow> secp256k1_fe" where
  "fe_impl_cmov r a flag =
     (let mask0 = of_bool flag + NOT 0; mask1 = NOT mask0
      in \<lparr> fe0 = (fe0 r AND mask0) OR (fe0 a AND mask1), fe1 = (fe1 r AND mask0) OR (fe1 a AND mask1), fe2 = (fe2 r AND mask0) OR (fe2 a AND mask1),
           fe3 = (fe3 r AND mask0) OR (fe3 a AND mask1), fe4 = (fe4 r AND mask0) OR (fe4 a AND mask1) \<rparr>)"

definition fe_impl_half :: "secp256k1_fe \<Rightarrow> secp256k1_fe" where
  "fe_impl_half r =
     (let mask = drop_bit 12 (- (fe0 r AND 1));
          t0 = fe0 r + (0xFFFFEFFFFFC2F AND mask); t1 = fe1 r + mask; t2 = fe2 r + mask; t3 = fe3 r + mask; t4 = fe4 r + drop_bit 4 mask
      in \<lparr> fe0 = drop_bit 1 t0 + push_bit 51 (t1 AND 1), fe1 = drop_bit 1 t1 + push_bit 51 (t2 AND 1), fe2 = drop_bit 1 t2 + push_bit 51 (t3 AND 1),
           fe3 = drop_bit 1 t3 + push_bit 51 (t4 AND 1), fe4 = drop_bit 1 t4 \<rparr>)"

section \<open>Normalisation\<close>

text \<open>The four lines every variant has: each limb keeps 52 bits and passes the rest to the next.\<close>

definition fe_carry :: "secp256k1_fe \<Rightarrow> secp256k1_fe" where
  "fe_carry r =
     (let t0 = fe0 r; t1 = fe1 r; t2 = fe2 r; t3 = fe3 r; t4 = fe4 r;
          t1 = t1 + drop_bit 52 t0; t0 = t0 AND M52;
          t2 = t2 + drop_bit 52 t1; t1 = t1 AND M52;
          t3 = t3 + drop_bit 52 t2; t2 = t2 AND M52;
          t4 = t4 + drop_bit 52 t3; t3 = t3 AND M52
      in \<lparr> fe0 = t0, fe1 = t1, fe2 = t2, fe3 = t3, fe4 = t4 \<rparr>)"

text \<open>The first pass folds what is above 256 bits into the bottom limb.\<close>

definition fe_impl_normalize_weak :: "secp256k1_fe \<Rightarrow> secp256k1_fe" where
  "fe_impl_normalize_weak r =
     (let x = drop_bit 48 (fe4 r) in fe_carry (r \<lparr> fe0 := fe0 r + x * 0x1000003D1, fe4 := fe4 r AND 0x0FFFFFFFFFFFF \<rparr>))"

text \<open>The test after the first pass: is the value the characteristic or more?\<close>

definition fe_final_test :: "secp256k1_fe \<Rightarrow> u64" where
  "fe_final_test t =
     (let m = fe1 t AND fe2 t AND fe3 t
      in drop_bit 48 (fe4 t) OR of_bool (fe4 t = 0x0FFFFFFFFFFFF \<and> m = 0xFFFFFFFFFFFFF \<and> fe0 t \<ge> 0xFFFFEFFFFFC2F))"

definition fe_final_pass :: "u64 \<Rightarrow> secp256k1_fe \<Rightarrow> secp256k1_fe" where
  "fe_final_pass x t = (let r = fe_carry (t \<lparr> fe0 := fe0 t + x * 0x1000003D1 \<rparr>) in r \<lparr> fe4 := fe4 r AND 0x0FFFFFFFFFFFF \<rparr>)"

definition fe_impl_normalize :: "secp256k1_fe \<Rightarrow> secp256k1_fe" where
  "fe_impl_normalize r = (let t = fe_impl_normalize_weak r in fe_final_pass (fe_final_test t) t)"

definition fe_impl_normalize_var :: "secp256k1_fe \<Rightarrow> secp256k1_fe" where
  "fe_impl_normalize_var r = (let t = fe_impl_normalize_weak r in if fe_final_test t \<noteq> 0 then fe_final_pass 1 t else t)"

definition fe_impl_normalizes_to_zero :: "secp256k1_fe \<Rightarrow> bool" where
  "fe_impl_normalizes_to_zero r =
     (let t = fe_impl_normalize_weak r;
          z0 = fe0 t OR fe1 t OR fe2 t OR fe3 t OR fe4 t;
          z1 = (fe0 t XOR 0x1000003D0) AND fe1 t AND fe2 t AND fe3 t AND (fe4 t XOR 0xF000000000000)
      in z0 = 0 \<or> z1 = 0xFFFFFFFFFFFFF)"

text \<open>The variant with an early exit.\<close>

definition fe_impl_normalizes_to_zero_var :: "secp256k1_fe \<Rightarrow> bool" where
  "fe_impl_normalizes_to_zero_var r =
     (let t0 = fe0 r; t4 = fe4 r;
          x = drop_bit 48 t4;
          t0 = t0 + x * 0x1000003D1;
          z0 = t0 AND 0xFFFFFFFFFFFFF;
          z1 = z0 XOR 0x1000003D0 in
      if z0 \<noteq> 0 \<and> z1 \<noteq> 0xFFFFFFFFFFFFF then False
      else
        let t1 = fe1 r; t2 = fe2 r; t3 = fe3 r;
            t4 = t4 AND 0x0FFFFFFFFFFFF;
            t1 = t1 + drop_bit 52 t0;
            t2 = t2 + drop_bit 52 t1; t1 = t1 AND 0xFFFFFFFFFFFFF; z0 = z0 OR t1; z1 = z1 AND t1;
            t3 = t3 + drop_bit 52 t2; t2 = t2 AND 0xFFFFFFFFFFFFF; z0 = z0 OR t2; z1 = z1 AND t2;
            t4 = t4 + drop_bit 52 t3; t3 = t3 AND 0xFFFFFFFFFFFFF; z0 = z0 OR t3; z1 = z1 AND t3;
            z0 = z0 OR t4; z1 = z1 AND (t4 XOR 0xF000000000000)
        in z0 = 0 \<or> z1 = 0xFFFFFFFFFFFFF)"

section \<open>Normalised elements\<close>

definition fe_tidy :: "secp256k1_fe \<Rightarrow> bool" where
  "fe_tidy a \<longleftrightarrow> unat (fe0 a) < 2 ^ 52 \<and> unat (fe1 a) < 2 ^ 52 \<and> unat (fe2 a) < 2 ^ 52 \<and> unat (fe3 a) < 2 ^ 52"

definition fe_normal :: "secp256k1_fe \<Rightarrow> bool" where
  "fe_normal a \<longleftrightarrow> fe_tidy a \<and> fval a < field_p"

lemma fval_eq_iff: "fe_tidy a \<Longrightarrow> fe_tidy b \<Longrightarrow> fval a = fval b \<longleftrightarrow> a = b"
  unfolding fval_def fe_tidy_def by (simp only: limb_eq unat_inject) (cases a; cases b; auto)

lemma fval_le:
  "fe_tidy a \<Longrightarrow> fe_tidy b \<Longrightarrow> fval a \<le> fval b \<longleftrightarrow>
    fe4 a < fe4 b \<or> fe4 a = fe4 b \<and> (fe3 a < fe3 b \<or> fe3 a = fe3 b \<and> (fe2 a < fe2 b \<or> fe2 a = fe2 b \<and> (fe1 a < fe1 b \<or> fe1 a = fe1 b \<and> fe0 a \<le> fe0 b)))"
  unfolding fval_def fe_tidy_def by (simp only: limb_le limb_less limb_eq unat_inject word_less_nat_alt word_le_nat_alt) blast

lemma carry52:
  assumes "unat t0 < 2 ^ 59" "unat t1 < 2 ^ 58 + 2 ^ 57"
  shows "unat (t0 AND M52) + 2 ^ 52 * unat (t1 + drop_bit 52 t0) = unat t0 + 2 ^ 52 * unat t1"
    "unat (t0 AND M52) < 2 ^ 52" "unat (t1 + drop_bit 52 t0) < 2 ^ 59" "unat (t1 + drop_bit 52 t0) \<le> unat t1 + 2 ^ 7"
proof -
  have hi: "unat (drop_bit 52 t0) < 2 ^ 7" unfolding unat_drop_bit using assms(1) by simp
  then have sum: "unat (t1 + drop_bit 52 t0) = unat t1 + unat (drop_bit 52 t0)" using assms(2) by (intro add_no_wrap) simp
  show "unat (t0 AND M52) + 2 ^ 52 * unat (t1 + drop_bit 52 t0) = unat t0 + 2 ^ 52 * unat t1"
    unfolding sum unat_M52 unat_drop_bit by (simp add: algebra_simps)
  show "unat (t0 AND M52) < 2 ^ 52" unfolding unat_M52 by simp
  show "unat (t1 + drop_bit 52 t0) < 2 ^ 59" "unat (t1 + drop_bit 52 t0) \<le> unat t1 + 2 ^ 7" unfolding sum using hi assms(2) by simp_all
qed

lemma carry_spec:
  assumes "unat (fe0 r) < 2 ^ 59" "unat (fe1 r) < 2 ^ 58 + 2 ^ 57" "unat (fe2 r) < 2 ^ 58 + 2 ^ 57" "unat (fe3 r) < 2 ^ 58 + 2 ^ 57" "unat (fe4 r) < 2 ^ 58"
  shows "fval (fe_carry r) = fval r" "fe_tidy (fe_carry r)" "unat (fe4 (fe_carry r)) \<le> unat (fe4 r) + 2 ^ 7"
proof -
  define t1 t2 t3 t4 where "t1 = fe1 r + drop_bit 52 (fe0 r)" and "t2 = fe2 r + drop_bit 52 t1" and "t3 = fe3 r + drop_bit 52 t2"
    and "t4 = fe4 r + drop_bit 52 t3"
  have r: "fe_carry r = \<lparr> fe0 = fe0 r AND M52, fe1 = t1 AND M52, fe2 = t2 AND M52, fe3 = t3 AND M52, fe4 = t4 \<rparr>"
    unfolding fe_carry_def Let_def t1_def t2_def t3_def t4_def by (rule refl)
  have big: "unat (fe4 r) < 2 ^ 58 + 2 ^ 57" using assms(5) by simp
  note c1 = carry52 [OF assms(1,2), folded t1_def]
  note c2 = carry52 [OF c1(3) assms(3), folded t2_def]
  note c3 = carry52 [OF c2(3) assms(4), folded t3_def]
  note c4 = carry52 [OF c3(3) big, folded t4_def]
  show "fval (fe_carry r) = fval r" unfolding fval_def r using c1(1) c2(1) c3(1) c4(1) by simp
  show "fe_tidy (fe_carry r)" unfolding fe_tidy_def r using c1(2) c2(2) c3(2) c4(2) by simp
  show "unat (fe4 (fe_carry r)) \<le> unat (fe4 r) + 2 ^ 7" using c4(4) unfolding r by simp
qed

lemma weak_spec:
  assumes "magnitude 32 r"
  shows "fval (fe_impl_normalize_weak r) + field_p * (unat (fe4 r) div 2 ^ 48) = fval r" "fe_tidy (fe_impl_normalize_weak r)"
    "unat (fe4 (fe_impl_normalize_weak r)) < 2 ^ 48 + 2 ^ 7"
proof -
  define x where "x = drop_bit 48 (fe4 r)"
  define s where "s = r \<lparr> fe0 := fe0 r + x * 0x1000003D1, fe4 := fe4 r AND 0x0FFFFFFFFFFFF \<rparr>"
  have x: "unat x = unat (fe4 r) div 2 ^ 48" unfolding x_def by (rule unat_drop_bit)
  have "unat (fe4 r) < 2 ^ 48 * 2 ^ 6" using assms by (simp add: magnitude_def)
  then have x_small: "unat x < 2 ^ 6" unfolding x by (rule less_mult_imp_div_less [OF order.strict_trans2]) simp
  then have "unat (x * 0x1000003D1) = unat x * 0x1000003D1" by (simp add: unat_word_ariths(2))
  then have s0: "unat (fe0 r + x * 0x1000003D1) = unat (fe0 r) + unat x * 0x1000003D1"
    using assms x_small by (subst add_no_wrap) (simp_all add: magnitude_def)
  have "fe4 s = fe4 r AND 0x0FFFFFFFFFFFF" by (simp add: s_def)
  then have s4: "unat (fe4 s) = unat (fe4 r) mod 2 ^ 48" by (simp only: unat_M48)
  have C: "unat (fe0 s) < 2 ^ 59" "unat (fe1 s) < 2 ^ 58 + 2 ^ 57" "unat (fe2 s) < 2 ^ 58 + 2 ^ 57" "unat (fe3 s) < 2 ^ 58 + 2 ^ 57" "unat (fe4 s) < 2 ^ 58"
    using assms s0 s4 x_small mod_less_divisor [of "2 ^ 48" "unat (fe4 r)"] by (simp_all add: magnitude_def s_def)
  have w: "fe_impl_normalize_weak r = fe_carry s" unfolding fe_impl_normalize_weak_def Let_def s_def x_def by (rule refl)
  have "fval s + field_p * unat x = fval r"
  proof -
    have "unat (fe4 s) + 2 ^ 48 * unat x = unat (fe4 r)" unfolding s4 x by simp
    then show ?thesis using s0 by (simp add: fval_def field_p_def s_def)
  qed
  then show "fval (fe_impl_normalize_weak r) + field_p * (unat (fe4 r) div 2 ^ 48) = fval r" unfolding w carry_spec(1) [OF C] x .
  show "fe_tidy (fe_impl_normalize_weak r)" unfolding w by (rule carry_spec(2) [OF C])
  show "unat (fe4 (fe_impl_normalize_weak r)) < 2 ^ 48 + 2 ^ 7"
    using carry_spec(3) [OF C] mod_less_divisor [of "2 ^ 48" "unat (fe4 r)"] unfolding w s4 by simp
qed

text \<open>The characteristic as an element; the test after the first pass compares with it.\<close>

definition fe_p :: secp256k1_fe where
  "fe_p = \<lparr> fe0 = 0xFFFFEFFFFFC2F, fe1 = 0xFFFFFFFFFFFFF, fe2 = 0xFFFFFFFFFFFFF, fe3 = 0xFFFFFFFFFFFFF, fe4 = 0x0FFFFFFFFFFFF \<rparr>"

lemma fe_p_facts: "fe_tidy fe_p" "fval fe_p = field_p"
  by (simp_all add: fe_p_def fe_tidy_def fval_def field_p_def)

lemma and_52: "unat x < 2 ^ 52 \<Longrightarrow> x AND M52 = x"
  by (rule word_unat_eq_iff [THEN iffD2]) (simp only: unat_M52 mod_less)

lemma and_eq_M52: "unat x < 2 ^ 52 \<Longrightarrow> x AND y = M52 \<longleftrightarrow> x = M52 \<and> y AND M52 = M52"
  by (metis and.assoc and.commute and.idem and_52)

lemma le_M52: "unat x < 2 ^ 52 \<Longrightarrow> x \<le> M52"
  by (simp add: word_le_nat_alt M52_def)

lemma drop_bit_0_iff: "drop_bit 48 x = 0 \<longleftrightarrow> unat x < 2 ^ 48" for x :: u64
  by (metis div_eq_0_iff unat_drop_bit unat_eq_0 power_not_zero zero_neq_numeral)

lemma final_test_iff:
  assumes "fe_tidy t" "unat (fe4 t) < 2 ^ 48 + 2 ^ 7"
  shows "fe_final_test t = of_bool (field_p \<le> fval t)"
proof (cases "unat (fe4 t) < 2 ^ 48")
  case True
  have M: "(0xFFFFFFFFFFFFF :: u64) = M52" by (simp add: M52_def)
  have "fe4 t \<le> 0x0FFFFFFFFFFFF" using True by (simp add: word_le_nat_alt)
  moreover have "fe1 t \<le> M52" "fe2 t \<le> M52" "fe3 t \<le> M52" using assms(1) by (simp_all only: fe_tidy_def le_M52)
  moreover have "fe1 t AND fe2 t AND fe3 t = M52 \<longleftrightarrow> fe1 t = M52 \<and> fe2 t = M52 \<and> fe3 t = M52"
    using assms(1) by (simp add: fe_tidy_def and_eq_M52 and.assoc and_52 del: power_numeral)
  ultimately have "field_p \<le> fval t \<longleftrightarrow> fe4 t = 0x0FFFFFFFFFFFF \<and> fe1 t AND fe2 t AND fe3 t = M52 \<and> fe0 t \<ge> 0xFFFFEFFFFFC2F"
    unfolding fe_p_facts(2) [symmetric] fval_le [OF fe_p_facts(1) assms(1)] by (auto simp: fe_p_def M not_less)
  then show ?thesis using True by (simp add: fe_final_test_def Let_def drop_bit_0_iff M)
next
  case False
  then have "unat (drop_bit 48 (fe4 t)) = 1" unfolding unat_drop_bit using assms(2) by (intro div_nat_eqI) simp_all
  then have "drop_bit 48 (fe4 t) = 1" by (metis unat_1 word_unat_eq_iff)
  moreover have "fe4 t \<noteq> 0x0FFFFFFFFFFFF" using False by auto
  moreover have "field_p \<le> fval t" using False by (simp add: fval_def field_p_def)
  ultimately show ?thesis by (simp add: fe_final_test_def)
qed

lemma fval_less: "fe_tidy t \<Longrightarrow> unat (fe4 t) < n \<Longrightarrow> fval t < 2 ^ 208 * n"
  by (simp add: fe_tidy_def fval_def)

lemma final_pass_spec:
  assumes "fe_tidy t" "unat (fe4 t) < 2 ^ 48 + 2 ^ 7" "x \<le> 1"
  shows "fval (fe_final_pass x t) = (fval t + unat x * 0x1000003D1) mod 2 ^ 256" "fe_tidy (fe_final_pass x t)"
proof -
  define s where "s = t \<lparr> fe0 := fe0 t + x * 0x1000003D1 \<rparr>"
  have x: "unat x \<le> 1" using assms(3) by (simp add: word_le_nat_alt)
  then have "unat (x * 0x1000003D1) = unat x * 0x1000003D1" by (simp add: unat_word_ariths(2))
  then have s0: "unat (fe0 t + x * 0x1000003D1) = unat (fe0 t) + unat x * 0x1000003D1"
    using assms(1) x by (subst add_no_wrap) (simp_all add: fe_tidy_def)
  have C: "unat (fe0 s) < 2 ^ 59" "unat (fe1 s) < 2 ^ 58 + 2 ^ 57" "unat (fe2 s) < 2 ^ 58 + 2 ^ 57" "unat (fe3 s) < 2 ^ 58 + 2 ^ 57" "unat (fe4 s) < 2 ^ 58"
    using assms(1,2) s0 x by (simp_all add: fe_tidy_def s_def)
  have p: "fe_final_pass x t = (fe_carry s) \<lparr> fe4 := fe4 (fe_carry s) AND 0x0FFFFFFFFFFFF \<rparr>"
    unfolding fe_final_pass_def Let_def s_def by (rule refl)
  show tidy: "fe_tidy (fe_final_pass x t)" using carry_spec(2) [OF C] unfolding p by (simp add: fe_tidy_def)
  have "fe4 (fe_final_pass x t) = fe4 (fe_carry s) AND 0x0FFFFFFFFFFFF" unfolding p by simp
  then have "unat (fe4 (fe_final_pass x t)) = unat (fe4 (fe_carry s)) mod 2 ^ 48" by (simp only: unat_M48)
  then have top: "unat (fe4 (fe_final_pass x t)) + 2 ^ 48 * (unat (fe4 (fe_carry s)) div 2 ^ 48) = unat (fe4 (fe_carry s))"
    "unat (fe4 (fe_final_pass x t)) < 2 ^ 48" by (simp_all only: mod_mult_div_eq) simp
  have "fe0 (fe_final_pass x t) = fe0 (fe_carry s)" "fe1 (fe_final_pass x t) = fe1 (fe_carry s)" "fe2 (fe_final_pass x t) = fe2 (fe_carry s)"
    "fe3 (fe_final_pass x t) = fe3 (fe_carry s)" unfolding p by simp_all
  then have "fval (fe_final_pass x t) + 2 ^ 256 * (unat (fe4 (fe_carry s)) div 2 ^ 48) = fval (fe_carry s)"
    using top(1) unfolding fval_def by simp
  moreover have "fval (fe_final_pass x t) < 2 ^ 256" using fval_less [OF tidy top(2)] by simp
  ultimately have "fval (fe_final_pass x t) = fval (fe_carry s) mod 2 ^ 256" by (metis mod_less mod_mult_self2)
  also have "fval (fe_carry s) = fval t + unat x * 0x1000003D1" unfolding carry_spec(1) [OF C] using s0 by (simp add: fval_def s_def)
  finally show "fval (fe_final_pass x t) = (fval t + unat x * 0x1000003D1) mod 2 ^ 256" .
qed


lemma field_p_vals: "field_p + 0x1000003D1 = 2 ^ 256" "2 ^ 208 * (2 ^ 48 + 2 ^ 7) < 2 * field_p" "0 < field_p"
  by (simp_all add: field_p_def)

lemma weak_less: "magnitude 32 r \<Longrightarrow> fval (fe_impl_normalize_weak r) < 2 * field_p"
  using fval_less [OF weak_spec(2,3)] field_p_vals(2) by (meson order.strict_trans)

lemma weak_mod: "magnitude 32 r \<Longrightarrow> fval (fe_impl_normalize_weak r) mod field_p = fval r mod field_p"
  by (metis weak_spec(1) mod_mult_self2)

lemma normalize_spec:
  assumes "magnitude 32 r"
  shows "fval (fe_impl_normalize r) = fval r mod field_p" "fe_normal (fe_impl_normalize r)"
proof -
  let ?t = "fe_impl_normalize_weak r"
  define x where "x = fe_final_test ?t"
  have x: "x = of_bool (field_p \<le> fval ?t)" unfolding x_def by (rule final_test_iff [OF weak_spec(2,3) [OF assms]])
  then have "x \<le> 1" by simp
  note F = final_pass_spec [OF weak_spec(2,3) [OF assms] this]
  have n: "fe_impl_normalize r = fe_final_pass x ?t" by (simp add: fe_impl_normalize_def Let_def x_def)
  have "fval (fe_impl_normalize r) = fval ?t mod field_p"
  proof (cases "field_p \<le> fval ?t")
    case True
    then obtain k where k: "fval ?t = field_p + k" using le_Suc_ex by blast
    then have "k < field_p" using weak_less [OF assms] by simp
    moreover have "fval (fe_impl_normalize r) = (k + 2 ^ 256) mod 2 ^ 256" unfolding n F(1) field_p_vals(1) [symmetric] using True k by (simp add: x ac_simps)
    ultimately show ?thesis using field_p_vals(1) k by simp
  next
    case False
    then have "fval ?t < 2 ^ 256" using field_p_vals(1) by linarith
    then show ?thesis using F(1) False by (simp add: n x)
  qed
  then show *: "fval (fe_impl_normalize r) = fval r mod field_p" using weak_mod [OF assms] by simp
  show "fe_normal (fe_impl_normalize r)" unfolding fe_normal_def * unfolding n using F(2) field_p_vals(3) by simp
qed

lemma normalize_var_eq:
  assumes "magnitude 32 r"
  shows "fe_impl_normalize_var r = fe_impl_normalize r"
proof -
  let ?t = "fe_impl_normalize_weak r"
  have x: "fe_final_test ?t = of_bool (field_p \<le> fval ?t)" by (rule final_test_iff [OF weak_spec(2,3) [OF assms]])
  have "fe_final_pass 0 ?t = ?t" if "fval ?t < field_p"
  proof -
    have "fval ?t < 2 ^ 256" using that field_p_vals(1) by linarith
    then show ?thesis using final_pass_spec [OF weak_spec(2,3) [OF assms], of 0] weak_spec(2) [OF assms] fval_eq_iff by auto
  qed
  then show ?thesis by (simp add: fe_impl_normalize_var_def fe_impl_normalize_def Let_def x not_le)
qed

lemma fval_0_iff: "fval t = 0 \<longleftrightarrow> (fe0 t OR fe1 t OR fe2 t OR fe3 t OR fe4 t) = 0"
  by (auto simp: fval_def or_eq_0_iff unat_eq_0)

lemma xor_eq_iff: "x XOR c = m \<longleftrightarrow> x = m XOR c" for x c m :: u64
  by (auto simp: bit_eq_iff bit_xor_iff)

lemma unat_xor_less: "unat x < 2 ^ k \<Longrightarrow> unat y < 2 ^ k \<Longrightarrow> unat (x XOR y) < 2 ^ k" for x y :: u64
  unfolding unsigned_xor_eq take_bit_nat_eq_self_iff [symmetric] by (simp add: take_bit_xor)

lemma fval_p_iff:
  assumes "fe_tidy t" "unat (fe4 t) < 2 ^ 52"
  shows "fval t = field_p \<longleftrightarrow> (fe0 t XOR 0x1000003D0) AND fe1 t AND fe2 t AND fe3 t AND (fe4 t XOR 0xF000000000000) = M52"
proof -
  have "unat (fe0 t XOR 0x1000003D0) < 2 ^ 52" "unat (fe4 t XOR 0xF000000000000) < 2 ^ 52"
    using assms by (intro unat_xor_less; simp add: fe_tidy_def)+
  moreover have "fe0 t XOR 0x1000003D0 = M52 \<longleftrightarrow> fe0 t = 0xFFFFEFFFFFC2F" "fe4 t XOR 0xF000000000000 = M52 \<longleftrightarrow> fe4 t = 0x0FFFFFFFFFFFF"
    by (simp_all add: xor_eq_iff M52_def)
  moreover have "fval t = field_p \<longleftrightarrow> t = fe_p" using fval_eq_iff [OF assms(1) fe_p_facts(1)] fe_p_facts(2) by simp
  ultimately show ?thesis
    using assms(1) by (cases t) (auto simp: fe_p_def fe_tidy_def and_eq_M52 and.assoc and_52 M52_def [symmetric] simp del: power_numeral)
qed

lemma normalizes_to_zero_spec:
  assumes "magnitude 32 r"
  shows "fe_impl_normalizes_to_zero r \<longleftrightarrow> fval r mod field_p = 0"
proof -
  let ?t = "fe_impl_normalize_weak r"
  have "unat (fe4 ?t) < 2 ^ 52" using weak_spec(3) [OF assms] by simp
  then have "fe_impl_normalizes_to_zero r \<longleftrightarrow> fval ?t = 0 \<or> fval ?t = field_p"
    using fval_p_iff [OF weak_spec(2) [OF assms]] by (simp add: fe_impl_normalizes_to_zero_def Let_def fval_0_iff M52_def)
  also have "\<dots> \<longleftrightarrow> fval ?t mod field_p = 0"
    using weak_less [OF assms] by (cases "fval ?t < field_p") (auto simp: mod_if)
  finally show ?thesis using weak_mod [OF assms] by simp
qed

lemma normalizes_to_zero_var_eq: "fe_impl_normalizes_to_zero_var r = fe_impl_normalizes_to_zero r"
proof -
  let ?x = "fe0 r + drop_bit 48 (fe4 r) * 0x1000003D1"
  have M: "(0xFFFFFFFFFFFFF :: u64) = M52" by (simp add: M52_def)
  have "unat (?x AND M52 XOR 0x1000003D0) < 2 ^ 52" by (intro unat_xor_less) (simp_all add: unat_M52)
  then have "?x AND M52 XOR 0x1000003D0 \<noteq> M52 \<Longrightarrow> (?x AND M52 XOR 0x1000003D0) AND y \<noteq> M52" for y by (simp add: and_eq_M52)
  then show ?thesis
    unfolding fe_impl_normalizes_to_zero_var_def fe_impl_normalizes_to_zero_def fe_impl_normalize_weak_def fe_carry_def Let_def M
    by (auto simp: or_eq_0_iff and.assoc or.assoc)
qed

section \<open>Linear operations on values\<close>

lemma magnitudeI:
  assumes "unat (fe0 a) \<le> m * 9007199254740990" "unat (fe1 a) \<le> m * 9007199254740990" "unat (fe2 a) \<le> m * 9007199254740990"
    "unat (fe3 a) \<le> m * 9007199254740990" "unat (fe4 a) \<le> m * 562949953421310"
  shows "magnitude m a"
  using assms by (simp add: magnitude_def)

lemma magnitudeD:
  assumes "magnitude m a"
  shows "unat (fe0 a) \<le> m * 9007199254740990" "unat (fe1 a) \<le> m * 9007199254740990" "unat (fe2 a) \<le> m * 9007199254740990"
    "unat (fe3 a) \<le> m * 9007199254740990" "unat (fe4 a) \<le> m * 562949953421310"
  using assms by (simp_all add: magnitude_def)

lemma magnitude_mono: "magnitude m a \<Longrightarrow> m \<le> n \<Longrightarrow> magnitude n a"
  unfolding magnitude_def by (meson le_trans mult_le_mono1 mult_le_mono2)

lemma add_spec_fe:
  assumes "magnitude m a" "magnitude n b" "m + n \<le> 32"
  shows "fval (fe_impl_add a b) = fval a + fval b" "magnitude (m + n) (fe_impl_add a b)"
proof -
  note A = magnitudeD [OF assms(1)] and B = magnitudeD [OF assms(2)]
  have "unat (fe0 a + fe0 b) = unat (fe0 a) + unat (fe0 b)" "unat (fe1 a + fe1 b) = unat (fe1 a) + unat (fe1 b)" "unat (fe2 a + fe2 b) = unat (fe2 a) + unat (fe2 b)"
    "unat (fe3 a + fe3 b) = unat (fe3 a) + unat (fe3 b)" "unat (fe4 a + fe4 b) = unat (fe4 a) + unat (fe4 b)"
    using A B assms(3) by (intro add_no_wrap; simp)+
  then show "fval (fe_impl_add a b) = fval a + fval b" "magnitude (m + n) (fe_impl_add a b)"
    using A B by (simp_all add: fe_impl_add_def fval_def magnitude_def algebra_simps)
qed

lemma unat_mult_small: "unat x * unat y < 2 ^ 64 \<Longrightarrow> unat (x * y) = unat x * unat y" for x y :: u64
  by (simp add: unat_word_ariths(2))

lemma scaled_limb:
  fixes x k :: u64
  assumes "unat x \<le> m * c" "m * unat k \<le> 32" "32 * c < 2 ^ 64"
  shows "unat (x * k) = unat x * unat k \<and> unat x * unat k \<le> m * unat k * c"
proof -
  have le: "unat x * unat k \<le> m * unat k * c" using mult_le_mono1 [OF assms(1), of "unat k"] by (simp add: ac_simps)
  also have "\<dots> \<le> 32 * c" using assms(2) by (rule mult_le_mono1)
  finally show ?thesis using unat_mult_small [of x k] le assms(3) by simp
qed

lemma mul_int_spec:
  assumes "magnitude m a" "m * unat k \<le> 32"
  shows "fval (fe_impl_mul_int_unchecked a k) = fval a * unat k" "magnitude (m * unat k) (fe_impl_mul_int_unchecked a k)"
proof -
  note A = magnitudeD [OF assms(1), THEN scaled_limb, OF assms(2)]
  then show "fval (fe_impl_mul_int_unchecked a k) = fval a * unat k" "magnitude (m * unat k) (fe_impl_mul_int_unchecked a k)"
    by (simp_all add: fe_impl_mul_int_unchecked_def fval_def magnitude_def algebra_simps)
qed

lemma add_int_spec:
  assumes "magnitude m a" "m \<le> 31" "unat k \<le> 0x7FFF"
  shows "fval (fe_impl_add_int a k) = fval a + unat k" "magnitude (m + 1) (fe_impl_add_int a k)"
proof -
  note A = magnitudeD [OF assms(1)]
  have "unat (fe0 a + k) = unat (fe0 a) + unat k" using A assms(2,3) by (intro add_no_wrap) simp
  then show "fval (fe_impl_add_int a k) = fval a + unat k" "magnitude (m + 1) (fe_impl_add_int a k)"
    using A assms(3) by (simp_all add: fe_impl_add_int_def fval_def magnitude_def)
qed

lemma unat_sub_small: "y \<le> x \<Longrightarrow> unat (x - y) + unat y = unat x" for x y :: u64
  by (simp add: unat_sub word_le_nat_alt)

lemma negate_spec_fe:
  assumes "magnitude m a" "m \<le> 31" "unat k = m"
  shows "fval (fe_impl_negate_unchecked a k) + fval a = 2 * (m + 1) * field_p" "magnitude (m + 1) (fe_impl_negate_unchecked a k)"
proof -
  note A = magnitudeD [OF assms(1)]
  have "unat (k + 1) = m + 1" using assms(2,3) by (subst add_no_wrap) simp_all
  then have P: "unat (0xFFFFEFFFFFC2F * 2 * (k + 1)) = 9007190664804446 * (m + 1)" "unat (0xFFFFFFFFFFFFF * 2 * (k + 1)) = 9007199254740990 * (m + 1)"
    "unat (0x0FFFFFFFFFFFF * 2 * (k + 1)) = 562949953421310 * (m + 1)"
    using assms(2) by (subst unat_mult_small; simp)+
  have "unat (0xFFFFEFFFFFC2F * 2 * (k + 1) - fe0 a) + unat (fe0 a) = 9007190664804446 * (m + 1)"
    "unat (0xFFFFFFFFFFFFF * 2 * (k + 1) - fe1 a) + unat (fe1 a) = 9007199254740990 * (m + 1)"
    "unat (0xFFFFFFFFFFFFF * 2 * (k + 1) - fe2 a) + unat (fe2 a) = 9007199254740990 * (m + 1)"
    "unat (0xFFFFFFFFFFFFF * 2 * (k + 1) - fe3 a) + unat (fe3 a) = 9007199254740990 * (m + 1)"
    "unat (0x0FFFFFFFFFFFF * 2 * (k + 1) - fe4 a) + unat (fe4 a) = 562949953421310 * (m + 1)"
    unfolding P [symmetric] using A assms(2) by (intro unat_sub_small; simp only: word_le_nat_alt P; simp)+
  then show "fval (fe_impl_negate_unchecked a k) + fval a = 2 * (m + 1) * field_p" "magnitude (m + 1) (fe_impl_negate_unchecked a k)"
    by (simp_all add: fe_impl_negate_unchecked_def fval_def magnitude_def field_p_def)
qed

lemma set_int_spec_fe: "fval (fe_impl_set_int k) = unat k" "unat k \<le> 0x7FFF \<Longrightarrow> fe_normal (fe_impl_set_int k)"
  by (simp_all add: fe_impl_set_int_def fval_def fe_normal_def fe_tidy_def field_p_def)

lemma cmov_spec_fe: "fe_impl_cmov r a flag = (if flag then a else r)"
  by (cases r; cases a; simp add: fe_impl_cmov_def)

lemma cmp_var_spec:
  assumes "fe_tidy a" "fe_tidy b"
  shows "fe_impl_cmp_var a b = (if fval a < fval b then -1 else if fval b < fval a then 1 else 0)"
  using fval_le [OF assms] fval_le [OF assms(2,1)] unfolding not_le [symmetric] fe_impl_cmp_var_def by auto

lemma is_odd_spec: "fe_impl_is_odd a \<longleftrightarrow> odd (fval a)"
proof -
  have "fe_impl_is_odd a \<longleftrightarrow> odd (unat (fe0 a))" by (simp add: fe_impl_is_odd_def and_one_eq odd_iff_mod_2_eq_one unat_arith_simps unat_mod)
  then show ?thesis by (simp add: fval_def)
qed

lemma is_zero_spec: "fe_impl_is_zero a \<longleftrightarrow> fval a = 0"
  by (simp add: fe_impl_is_zero_def fval_0_iff)

text \<open>Halving: add the characteristic when the value is odd, then shift.\<close>

lemma half_limb:
  fixes t u :: u64
  assumes "unat t < 2 ^ 60"
  shows "unat (drop_bit 1 t + push_bit 51 (u AND 1)) = unat t div 2 + 2 ^ 51 * (unat u mod 2)"
proof -
  have "unat (u AND 1) = unat u mod 2" by (simp add: and_one_eq unat_mod)
  moreover from this have "unat (push_bit 51 (u AND 1)) = 2 ^ 51 * unat (u AND 1)" by (intro unat_push) simp
  ultimately show ?thesis using assms by (subst add_no_wrap) (simp_all add: unat_drop_bit)
qed

lemma half_identity:
  fixes x0 :: nat
  assumes "x0 = 2 * q0" "x1 = b1 + 2 * q1" "x2 = b2 + 2 * q2" "x3 = b3 + 2 * q3" "x4 = b4 + 2 * q4"
  shows "2 * (q0 + 2 ^ 51 * b1 + 2 ^ 52 * (q1 + 2 ^ 51 * b2 + 2 ^ 52 * (q2 + 2 ^ 51 * b3 + 2 ^ 52 * (q3 + 2 ^ 51 * b4 + 2 ^ 52 * q4)))) =
    x0 + 2 ^ 52 * (x1 + 2 ^ 52 * (x2 + 2 ^ 52 * (x3 + 2 ^ 52 * x4)))"
  unfolding assms by simp

lemma half_bound:
  fixes x b :: nat
  assumes "x \<le> m * 9007199254740990 + 4503599627370495"
  shows "x div 2 + 2 ^ 51 * (b mod 2) \<le> (m div 2 + 1) * 9007199254740990"
proof -
  have "m \<le> 2 * (m div 2) + 1" "b mod 2 \<le> 1" by simp_all
  moreover have "x div 2 \<le> m * 4503599627370495 + 2251799813685247" using assms by (simp add: div_le_mono [of x, THEN order_trans])
  ultimately show ?thesis by simp
qed

lemma half_bound_top:
  fixes x :: nat
  assumes "x \<le> m * 562949953421310 + 281474976710655"
  shows "x div 2 \<le> (m div 2 + 1) * 562949953421310"
proof -
  have "m \<le> 2 * (m div 2) + 1" by simp
  moreover have "x div 2 \<le> m * 281474976710655 + 140737488355327" using assms by (simp add: div_le_mono [of x, THEN order_trans])
  ultimately show ?thesis by simp
qed

lemma unat_add_le: "unat (x + y) \<le> unat x + unat y" for x y :: u64
  by (simp add: unat_word_ariths(1))

definition fe_half_sum :: "secp256k1_fe \<Rightarrow> secp256k1_fe" where
  "fe_half_sum r = (if odd (fval r) then fe_impl_add r fe_p else r)"

lemma half_sum_limbs:
  assumes "magnitude m r"
  shows "unat (fe0 (fe_half_sum r)) \<le> m * 9007199254740990 + 4503599627370495" "unat (fe1 (fe_half_sum r)) \<le> m * 9007199254740990 + 4503599627370495"
    "unat (fe2 (fe_half_sum r)) \<le> m * 9007199254740990 + 4503599627370495" "unat (fe3 (fe_half_sum r)) \<le> m * 9007199254740990 + 4503599627370495"
    "unat (fe4 (fe_half_sum r)) \<le> m * 562949953421310 + 281474976710655"
  using magnitudeD [OF assms] unat_add_le [of "fe0 r" "fe0 fe_p"] unat_add_le [of "fe1 r" "fe1 fe_p"] unat_add_le [of "fe2 r" "fe2 fe_p"]
    unat_add_le [of "fe3 r" "fe3 fe_p"] unat_add_le [of "fe4 r" "fe4 fe_p"]
  by (simp_all add: fe_half_sum_def fe_impl_add_def fe_p_def)

lemma half_unfold:
  "fe_impl_half r = (let t = fe_half_sum r in
     \<lparr> fe0 = drop_bit 1 (fe0 t) + push_bit 51 (fe1 t AND 1), fe1 = drop_bit 1 (fe1 t) + push_bit 51 (fe2 t AND 1), fe2 = drop_bit 1 (fe2 t) + push_bit 51 (fe3 t AND 1),
       fe3 = drop_bit 1 (fe3 t) + push_bit 51 (fe4 t AND 1), fe4 = drop_bit 1 (fe4 t) \<rparr>)"
proof (cases "odd (fval r)")
  case True
  then have "fe0 r AND 1 = 1" using is_odd_spec [of r] by (simp add: fe_impl_is_odd_def and_one_eq mod_2_eq_odd)
  moreover have "drop_bit 12 (- 1 :: u64) = 0xFFFFFFFFFFFFF" by (simp add: drop_bit_eq_div)
  ultimately show ?thesis using True
    by (simp add: fe_impl_half_def fe_half_sum_def fe_impl_add_def fe_p_def Let_def drop_bit_eq_div)
next
  case False
  then have "fe0 r AND 1 = 0" using is_odd_spec [of r] by (simp add: fe_impl_is_odd_def)
  then show ?thesis using False by (simp add: fe_impl_half_def fe_half_sum_def Let_def)
qed

lemma half_spec:
  assumes "magnitude m r" "m \<le> 31"
  shows "2 * fval (fe_impl_half r) = fval r + (if odd (fval r) then field_p else 0)" "magnitude (m div 2 + 1) (fe_impl_half r)"
proof -
  define t where "t = fe_half_sum r"
  have p: "magnitude 1 fe_p" by (simp add: magnitude_def fe_p_def)
  have v: "fval t = fval r + (if odd (fval r) then field_p else 0)"
    using add_spec_fe(1) [OF assms(1) p] assms(2) fe_p_facts(2) by (simp add: t_def fe_half_sum_def)
  have "odd field_p" by (simp add: field_p_def)
  then have "even (fval t)" using v by simp
  then have even: "even (unat (fe0 t))" by (simp add: fval_def)
  have L: "unat (fe0 t) \<le> m * 9007199254740990 + 4503599627370495" "unat (fe1 t) \<le> m * 9007199254740990 + 4503599627370495"
    "unat (fe2 t) \<le> m * 9007199254740990 + 4503599627370495" "unat (fe3 t) \<le> m * 9007199254740990 + 4503599627370495"
    "unat (fe4 t) \<le> m * 562949953421310 + 281474976710655"
    unfolding t_def by (rule half_sum_limbs [OF assms(1)])+
  then have "unat (fe0 t) < 2 ^ 60" "unat (fe1 t) < 2 ^ 60" "unat (fe2 t) < 2 ^ 60" "unat (fe3 t) < 2 ^ 60" using assms(2) by simp_all
  note H = this [THEN half_limb]
  have h: "fe_impl_half r =
     \<lparr> fe0 = drop_bit 1 (fe0 t) + push_bit 51 (fe1 t AND 1), fe1 = drop_bit 1 (fe1 t) + push_bit 51 (fe2 t AND 1), fe2 = drop_bit 1 (fe2 t) + push_bit 51 (fe3 t AND 1),
       fe3 = drop_bit 1 (fe3 t) + push_bit 51 (fe4 t AND 1), fe4 = drop_bit 1 (fe4 t) \<rparr>"
    unfolding half_unfold Let_def t_def by (rule refl)
  have "unat (fe0 t) = 2 * (unat (fe0 t) div 2)" "unat (fe1 t) = unat (fe1 t) mod 2 + 2 * (unat (fe1 t) div 2)"
    "unat (fe2 t) = unat (fe2 t) mod 2 + 2 * (unat (fe2 t) div 2)" "unat (fe3 t) = unat (fe3 t) mod 2 + 2 * (unat (fe3 t) div 2)"
    "unat (fe4 t) = unat (fe4 t) mod 2 + 2 * (unat (fe4 t) div 2)" using even by simp_all
  from half_identity [OF this] have "2 * fval (fe_impl_half r) = fval t"
    unfolding h fval_def secp256k1_fe.simps H unat_drop_bit power_one_right .
  then show "2 * fval (fe_impl_half r) = fval r + (if odd (fval r) then field_p else 0)" unfolding v .
  show "magnitude (m div 2 + 1) (fe_impl_half r)"
    by (rule magnitudeI) (simp_all only: h secp256k1_fe.simps H unat_drop_bit power_one_right half_bound [OF L(1)] half_bound [OF L(2)]
      half_bound [OF L(3)] half_bound [OF L(4)] half_bound_top [OF L(5)])
qed

end
