(* ===== verification/Field_Bytes.thy ===== *)
theory Field_Bytes
  imports Field_Ops
begin

unbundle bit_operations_syntax

text \<open>
  Field elements as bytes and in the storage format (\<open>src/external/secp256k1/src/field_5x52_impl.h\<close>).
\<close>

section \<open>Conversions\<close>

definition fe_impl_set_b32_mod :: "bytes \<Rightarrow> secp256k1_fe" where
  "fe_impl_set_b32_mod a =
     \<lparr> fe0 = ((((((ucast (a ! 31) OR push_bit 8 (ucast (a ! 30))) OR push_bit 16 (ucast (a ! 29))) OR push_bit 24 (ucast (a ! 28))) OR push_bit 32 (ucast (a ! 27)))
         OR push_bit 40 (ucast (a ! 26))) OR push_bit 48 (ucast ((a ! 25) AND 0xF))),
       fe1 = ((((((ucast (drop_bit 4 (a ! 25) AND 0xF) OR push_bit 4 (ucast (a ! 24))) OR push_bit 12 (ucast (a ! 23))) OR push_bit 20 (ucast (a ! 22))) OR push_bit 28 (ucast (a ! 21)))
         OR push_bit 36 (ucast (a ! 20))) OR push_bit 44 (ucast (a ! 19))),
       fe2 = ((((((ucast (a ! 18) OR push_bit 8 (ucast (a ! 17))) OR push_bit 16 (ucast (a ! 16))) OR push_bit 24 (ucast (a ! 15))) OR push_bit 32 (ucast (a ! 14)))
         OR push_bit 40 (ucast (a ! 13))) OR push_bit 48 (ucast ((a ! 12) AND 0xF))),
       fe3 = ((((((ucast (drop_bit 4 (a ! 12) AND 0xF) OR push_bit 4 (ucast (a ! 11))) OR push_bit 12 (ucast (a ! 10))) OR push_bit 20 (ucast (a ! 9))) OR push_bit 28 (ucast (a ! 8)))
         OR push_bit 36 (ucast (a ! 7))) OR push_bit 44 (ucast (a ! 6))),
       fe4 = ((((ucast (a ! 5) OR push_bit 8 (ucast (a ! 4))) OR push_bit 16 (ucast (a ! 3))) OR push_bit 24 (ucast (a ! 2))) OR push_bit 32 (ucast (a ! 1)))
         OR push_bit 40 (ucast (a ! 0)) \<rparr>"

definition fe_impl_set_b32_limit :: "bytes \<Rightarrow> secp256k1_fe \<times> bool" where
  "fe_impl_set_b32_limit a =
     (let r = fe_impl_set_b32_mod a
      in (r, \<not> (fe4 r = 0x0FFFFFFFFFFFF \<and> fe3 r AND fe2 r AND fe1 r = 0xFFFFFFFFFFFFF \<and> fe0 r \<ge> 0xFFFFEFFFFFC2F)))"

definition low_byte :: "u64 \<Rightarrow> byte" where
  "low_byte x = ucast (x AND 0xFF)"

definition fe_impl_get_b32 :: "secp256k1_fe \<Rightarrow> bytes" where
  "fe_impl_get_b32 a =
     [low_byte (drop_bit 40 (fe4 a)), low_byte (drop_bit 32 (fe4 a)), low_byte (drop_bit 24 (fe4 a)), low_byte (drop_bit 16 (fe4 a)), low_byte (drop_bit 8 (fe4 a)),
      low_byte (fe4 a),
      low_byte (drop_bit 44 (fe3 a)), low_byte (drop_bit 36 (fe3 a)), low_byte (drop_bit 28 (fe3 a)), low_byte (drop_bit 20 (fe3 a)), low_byte (drop_bit 12 (fe3 a)),
      low_byte (drop_bit 4 (fe3 a)), ucast ((drop_bit 48 (fe2 a) AND 0xF) OR push_bit 4 (fe3 a AND 0xF)),
      low_byte (drop_bit 40 (fe2 a)), low_byte (drop_bit 32 (fe2 a)), low_byte (drop_bit 24 (fe2 a)), low_byte (drop_bit 16 (fe2 a)), low_byte (drop_bit 8 (fe2 a)),
      low_byte (fe2 a),
      low_byte (drop_bit 44 (fe1 a)), low_byte (drop_bit 36 (fe1 a)), low_byte (drop_bit 28 (fe1 a)), low_byte (drop_bit 20 (fe1 a)), low_byte (drop_bit 12 (fe1 a)),
      low_byte (drop_bit 4 (fe1 a)), ucast ((drop_bit 48 (fe0 a) AND 0xF) OR push_bit 4 (fe1 a AND 0xF)),
      low_byte (drop_bit 40 (fe0 a)), low_byte (drop_bit 32 (fe0 a)), low_byte (drop_bit 24 (fe0 a)), low_byte (drop_bit 16 (fe0 a)), low_byte (drop_bit 8 (fe0 a)),
      low_byte (fe0 a)]"

record secp256k1_fe_storage =
  st0 :: u64
  st1 :: u64
  st2 :: u64
  st3 :: u64

definition fe_storage_cmov :: "secp256k1_fe_storage \<Rightarrow> secp256k1_fe_storage \<Rightarrow> bool \<Rightarrow> secp256k1_fe_storage" where
  "fe_storage_cmov r a flag =
     (let mask0 = of_bool flag + NOT 0; mask1 = NOT mask0
      in \<lparr> st0 = (st0 r AND mask0) OR (st0 a AND mask1), st1 = (st1 r AND mask0) OR (st1 a AND mask1), st2 = (st2 r AND mask0) OR (st2 a AND mask1),
           st3 = (st3 r AND mask0) OR (st3 a AND mask1) \<rparr>)"

definition fe_impl_to_storage :: "secp256k1_fe \<Rightarrow> secp256k1_fe_storage" where
  "fe_impl_to_storage a =
     \<lparr> st0 = fe0 a OR push_bit 52 (fe1 a), st1 = drop_bit 12 (fe1 a) OR push_bit 40 (fe2 a), st2 = drop_bit 24 (fe2 a) OR push_bit 28 (fe3 a),
       st3 = drop_bit 36 (fe3 a) OR push_bit 16 (fe4 a) \<rparr>"

definition fe_impl_from_storage :: "secp256k1_fe_storage \<Rightarrow> secp256k1_fe" where
  "fe_impl_from_storage a =
     \<lparr> fe0 = st0 a AND M52, fe1 = drop_bit 52 (st0 a) OR (push_bit 12 (st1 a) AND M52), fe2 = drop_bit 40 (st1 a) OR (push_bit 24 (st2 a) AND M52),
       fe3 = drop_bit 28 (st2 a) OR (push_bit 36 (st3 a) AND M52), fe4 = drop_bit 16 (st3 a) \<rparr>"

section \<open>Values of conversions\<close>

lemma unat_push_mod:
  fixes x :: u64
  assumes "k \<le> 64"
  shows "unat (push_bit k x) = 2 ^ k * (unat x mod 2 ^ (64 - k))"
proof -
  have "unat (push_bit k x) = push_bit k (take_bit (64 - k) (unat x))" by (simp only: unsigned_push_bit_eq take_bit_push_bit) simp
  then show ?thesis by (simp only: take_bit_eq_mod push_bit_eq_mult mult.commute)
qed

lemma unat_or_push:
  fixes x y :: u64
  assumes "unat x < 2 ^ k" "k \<le> 64"
  shows "unat (x OR push_bit k y) = unat x + 2 ^ k * (unat y mod 2 ^ (64 - k))"
proof -
  have "unat (x OR push_bit k y) = push_bit k (unat y mod 2 ^ (64 - k)) OR unat x"
    using unat_push_mod [OF assms(2), of y] by (simp only: unsigned_or_eq) (simp add: push_bit_eq_mult [where ?'a = nat] ac_simps)
  then show ?thesis using push_or_nat [OF assms(1)] by simp
qed

lemma or_step:
  fixes x y :: u64
  assumes "unat x = v \<and> v < 2 ^ k" "unat y = u \<and> u < 2 ^ w" "K = k + w" "K \<le> 64"
  shows "unat (x OR push_bit k y) = v + 2 ^ k * u \<and> v + 2 ^ k * u < 2 ^ K"
proof -
  have "2 ^ w \<le> (2 :: nat) ^ (64 - k)" using assms(3,4) by (intro power_increasing) simp_all
  then have "u mod 2 ^ (64 - k) = u" using assms(2) by (metis mod_less less_le_trans)
  then have "unat (x OR push_bit k y) = v + 2 ^ k * u" using unat_or_push [of x k y] assms by simp
  moreover have "v + 2 ^ k * u < 2 ^ k * (u + 1)" using assms(1) by simp
  moreover have "2 ^ k * (u + 1) \<le> 2 ^ k * 2 ^ w" using assms(2) by (intro mult_le_mono2) simp
  ultimately show ?thesis by (simp add: assms(3) power_add)
qed

lemmas or_byte = or_step [where w = 8] and or_nibble = or_step [where w = 4]

lemma ucast_byte: "unat (ucast b :: u64) = unat b \<and> unat b < 2 ^ 8" for b :: byte
  using unsigned_less [of b, where ?'a = nat] by (simp add: unsigned_ucast_eq take_bit_nat_eq_self)

lemma ucast_nibble:
  fixes b :: byte
  shows "unat (ucast (b AND 0xF) :: u64) = unat b mod 16 \<and> unat b mod 16 < 2 ^ 4"
    "unat (ucast (drop_bit 4 b AND 0xF) :: u64) = unat b div 16 \<and> unat b div 16 < 2 ^ 4"
proof -
  have m: "unat (x AND 0xF) = unat x mod 16" for x :: byte using and_mask_mod [of x 4] by (simp add: mask_eq_exp_minus_1)
  then show "unat (ucast (b AND 0xF) :: u64) = unat b mod 16 \<and> unat b mod 16 < 2 ^ 4" by (simp only: ucast_byte) simp
  have "unat (drop_bit 4 b) = drop_bit 4 (unat b)" by (rule bit_eqI) (auto simp: bit_simps dest: bit_imp_le_length)
  moreover have "unat b div 16 < 16" using unsigned_less [of b, where ?'a = nat] by (simp add: less_mult_imp_div_less)
  ultimately show "unat (ucast (drop_bit 4 b AND 0xF) :: u64) = unat b div 16 \<and> unat b div 16 < 2 ^ 4"
    by (simp only: ucast_byte m) (simp add: drop_bit_eq_div)
qed

lemma low_limb:
  fixes b0 :: byte
  shows "unat (((((((ucast b0 OR push_bit 8 (ucast b1)) OR push_bit 16 (ucast b2)) OR push_bit 24 (ucast b3)) OR push_bit 32 (ucast b4))
         OR push_bit 40 (ucast b5)) OR push_bit 48 (ucast (b6 AND 0xF))) :: u64) =
    unat b0 + 2 ^ 8 * unat (b1 :: byte) + 2 ^ 16 * unat (b2 :: byte) + 2 ^ 24 * unat (b3 :: byte) + 2 ^ 32 * unat (b4 :: byte) + 2 ^ 40 * unat (b5 :: byte)
      + 2 ^ 48 * (unat (b6 :: byte) mod 16) \<and>
    unat b0 + 2 ^ 8 * unat b1 + 2 ^ 16 * unat b2 + 2 ^ 24 * unat b3 + 2 ^ 32 * unat b4 + 2 ^ 40 * unat b5 + 2 ^ 48 * (unat b6 mod 16) < 2 ^ 52"
  by (rule or_nibble, (rule or_byte)+) (rule ucast_byte ucast_nibble | simp)+

lemma high_limb:
  fixes b0 :: byte
  shows "unat (((((((ucast (drop_bit 4 b0 AND 0xF) OR push_bit 4 (ucast b1)) OR push_bit 12 (ucast b2)) OR push_bit 20 (ucast b3)) OR push_bit 28 (ucast b4))
         OR push_bit 36 (ucast b5)) OR push_bit 44 (ucast b6)) :: u64) =
    unat b0 div 16 + 2 ^ 4 * unat (b1 :: byte) + 2 ^ 12 * unat (b2 :: byte) + 2 ^ 20 * unat (b3 :: byte) + 2 ^ 28 * unat (b4 :: byte) + 2 ^ 36 * unat (b5 :: byte)
      + 2 ^ 44 * unat (b6 :: byte) \<and>
    unat b0 div 16 + 2 ^ 4 * unat b1 + 2 ^ 12 * unat b2 + 2 ^ 20 * unat b3 + 2 ^ 28 * unat b4 + 2 ^ 36 * unat b5 + 2 ^ 44 * unat b6 < 2 ^ 52"
  by (rule or_byte)+ (rule ucast_byte ucast_nibble | simp)+

lemma top_bytes:
  fixes b0 :: byte
  shows "unat ((((((ucast b0 OR push_bit 8 (ucast b1)) OR push_bit 16 (ucast b2)) OR push_bit 24 (ucast b3)) OR push_bit 32 (ucast b4)) OR push_bit 40 (ucast b5)) :: u64) =
    unat b0 + 2 ^ 8 * unat (b1 :: byte) + 2 ^ 16 * unat (b2 :: byte) + 2 ^ 24 * unat (b3 :: byte) + 2 ^ 32 * unat (b4 :: byte) + 2 ^ 40 * unat (b5 :: byte) \<and>
    unat b0 + 2 ^ 8 * unat b1 + 2 ^ 16 * unat b2 + 2 ^ 24 * unat b3 + 2 ^ 32 * unat b4 + 2 ^ 40 * unat b5 < 2 ^ 48"
  by (rule or_byte)+ (rule ucast_byte | simp)+

lemma be_value_32:
  assumes "length a = 32"
  shows "be_value a =
    (unat (a ! 31) + 2 ^ 8 * unat (a ! 30) + 2 ^ 16 * unat (a ! 29) + 2 ^ 24 * unat (a ! 28) + 2 ^ 32 * unat (a ! 27) + 2 ^ 40 * unat (a ! 26) + 2 ^ 48 * unat (a ! 25)) +
    2 ^ 56 * (unat (a ! 24) + 2 ^ 8 * unat (a ! 23) + 2 ^ 16 * unat (a ! 22) + 2 ^ 24 * unat (a ! 21) + 2 ^ 32 * unat (a ! 20) + 2 ^ 40 * unat (a ! 19)) +
    2 ^ 104 * (unat (a ! 18) + 2 ^ 8 * unat (a ! 17) + 2 ^ 16 * unat (a ! 16) + 2 ^ 24 * unat (a ! 15) + 2 ^ 32 * unat (a ! 14) + 2 ^ 40 * unat (a ! 13) + 2 ^ 48 * unat (a ! 12)) +
    2 ^ 160 * (unat (a ! 11) + 2 ^ 8 * unat (a ! 10) + 2 ^ 16 * unat (a ! 9) + 2 ^ 24 * unat (a ! 8) + 2 ^ 32 * unat (a ! 7) + 2 ^ 40 * unat (a ! 6)) +
    2 ^ 208 * (unat (a ! 5) + 2 ^ 8 * unat (a ! 4) + 2 ^ 16 * unat (a ! 3) + 2 ^ 24 * unat (a ! 2) + 2 ^ 32 * unat (a ! 1) + 2 ^ 40 * unat (a ! 0))"
proof -
  have "[0..<32] = 0 # 1 # [2..<32]" by (simp add: upt_conv_Cons)
  moreover have "be_value a = be_value (map ((!) a) [0..<32])" using map_nth [of a] assms by simp
  ultimately show ?thesis by (simp add: be_value_Cons)
qed

lemma set_b32_mod_spec:
  assumes "length a = 32"
  shows "fval (fe_impl_set_b32_mod a) = be_value a" "fe_tidy (fe_impl_set_b32_mod a)" "unat (fe4 (fe_impl_set_b32_mod a)) < 2 ^ 48"
proof -
  note L = low_limb [of "a ! 31" "a ! 30" "a ! 29" "a ! 28" "a ! 27" "a ! 26" "a ! 25"]
    high_limb [of "a ! 25" "a ! 24" "a ! 23" "a ! 22" "a ! 21" "a ! 20" "a ! 19"]
    low_limb [of "a ! 18" "a ! 17" "a ! 16" "a ! 15" "a ! 14" "a ! 13" "a ! 12"]
    high_limb [of "a ! 12" "a ! 11" "a ! 10" "a ! 9" "a ! 8" "a ! 7" "a ! 6"]
    top_bytes [of "a ! 5" "a ! 4" "a ! 3" "a ! 2" "a ! 1" "a ! 0"]
  note V = L [THEN conjunct1] and B = L [THEN conjunct2]
  define r q r' q' where R: "r = unat (a ! 25) mod 16" "q = unat (a ! 25) div 16" "r' = unat (a ! 12) mod 16" "q' = unat (a ! 12) div 16"
  have "unat (a ! 25) = r + 16 * q" "unat (a ! 12) = r' + 16 * q'" unfolding R by simp_all
  then show "fval (fe_impl_set_b32_mod a) = be_value a"
    unfolding fval_def fe_impl_set_b32_mod_def secp256k1_fe.simps V be_value_32 [OF assms] R [symmetric] by simp
  show "fe_tidy (fe_impl_set_b32_mod a)" unfolding fe_tidy_def fe_impl_set_b32_mod_def secp256k1_fe.simps V using B by blast
  show "unat (fe4 (fe_impl_set_b32_mod a)) < 2 ^ 48" unfolding fe_impl_set_b32_mod_def secp256k1_fe.simps V by (rule B)
qed

lemma set_b32_limit_spec:
  assumes "length a = 32"
  shows "fe_impl_set_b32_limit a = (fe_impl_set_b32_mod a, be_value a < field_p)"
proof -
  let ?r = "fe_impl_set_b32_mod a"
  note S = set_b32_mod_spec [OF assms]
  have "drop_bit 48 (fe4 ?r) = 0" using S(3) by (simp only: drop_bit_0_iff)
  moreover have "unat (fe4 ?r) < 2 ^ 48 + 2 ^ 7" using S(3) by simp
  ultimately have "fe4 ?r = 0x0FFFFFFFFFFFF \<and> fe1 ?r AND fe2 ?r AND fe3 ?r = 0xFFFFFFFFFFFFF \<and> fe0 ?r \<ge> 0xFFFFEFFFFFC2F \<longleftrightarrow> field_p \<le> fval ?r"
    using final_test_iff [OF S(2)] by (simp add: fe_final_test_def Let_def of_bool_eq_iff)
  then show ?thesis unfolding fe_impl_set_b32_limit_def Let_def S(1) by (simp add: ac_simps not_le)
qed


lemma unat_low_byte: "unat (low_byte x) = unat x mod 256"
proof -
  have "low_byte x = ucast (take_bit 8 x)" by (simp add: low_byte_def take_bit_eq_mask mask_eq_exp_minus_1)
  then have "unat (low_byte x) = take_bit 8 (take_bit 8 (unat x))" by (simp add: unsigned_ucast_eq unsigned_take_bit_eq)
  then show ?thesis by (simp add: take_bit_eq_mod)
qed

lemma digits6:
  fixes n :: nat
  assumes "n < 2 ^ 48"
  shows "n mod 256 + 2 ^ 8 * (n div 2 ^ 8 mod 256) + 2 ^ 16 * (n div 2 ^ 16 mod 256) + 2 ^ 24 * (n div 2 ^ 24 mod 256) + 2 ^ 32 * (n div 2 ^ 32 mod 256)
    + 2 ^ 40 * (n div 2 ^ 40 mod 256) = n"
  using be_value_digits [of n 6] assms by (simp add: upt_rec be_value_Cons unsigned_of_nat take_bit_eq_mod)

lemma low_pair_digits:
  fixes n :: nat
  assumes "n < 2 ^ 52"
  shows "n mod 256 + 2 ^ 8 * (n div 2 ^ 8 mod 256) + 2 ^ 16 * (n div 2 ^ 16 mod 256) + 2 ^ 24 * (n div 2 ^ 24 mod 256) + 2 ^ 32 * (n div 2 ^ 32 mod 256)
    + 2 ^ 40 * (n div 2 ^ 40 mod 256) + 2 ^ 48 * (n div 2 ^ 48) = n"
proof -
  have "n div 2 ^ 48 < 16" using assms by (simp add: less_mult_imp_div_less)
  then show ?thesis using be_value_digits [of n 7] assms by (simp add: upt_rec be_value_Cons unsigned_of_nat take_bit_eq_mod)
qed

lemma high_pair_digits:
  fixes n :: nat
  assumes "n < 2 ^ 52"
  shows "n mod 16 + 2 ^ 4 * (n div 2 ^ 4 mod 256 + 2 ^ 8 * (n div 2 ^ 12 mod 256) + 2 ^ 16 * (n div 2 ^ 20 mod 256) + 2 ^ 24 * (n div 2 ^ 28 mod 256)
    + 2 ^ 32 * (n div 2 ^ 36 mod 256) + 2 ^ 40 * (n div 2 ^ 44 mod 256)) = n"
proof -
  have "n div 16 < 2 ^ 48" using assms by (simp add: less_mult_imp_div_less)
  from digits6 [OF this] show ?thesis by (simp add: div_mult2_eq [symmetric])
qed

lemma unat_join_byte:
  fixes x y :: u64
  assumes "unat x < 2 ^ 52"
  shows "unat (ucast ((drop_bit 48 x AND 0xF) OR push_bit 4 (y AND 0xF)) :: byte) = unat x div 2 ^ 48 + 16 * (unat y mod 16)"
proof -
  have m: "unat (z AND 0xF) = unat z mod 16" for z :: u64 using and_mask_mod [of z 4] by (simp add: mask_eq_exp_minus_1)
  have small: "unat x div 2 ^ 48 < 16" using assms by (simp add: less_mult_imp_div_less)
  let ?z = "(drop_bit 48 x AND 0xF) OR push_bit 4 (y AND 0xF)"
  have "unat ?z = unat (drop_bit 48 x AND 0xF) + 2 ^ 4 * (unat (y AND 0xF) mod 2 ^ (64 - 4))"
    by (rule unat_or_push) (simp_all add: m)
  also have "\<dots> = unat x div 2 ^ 48 + 16 * (unat y mod 16)"
    using small mod_less_divisor [of 16 "unat y"] by (simp only: m unat_drop_bit) simp
  finally have z: "unat ?z = unat x div 2 ^ 48 + 16 * (unat y mod 16)" .
  have "unat y mod 16 \<le> 15" using mod_less_divisor [of 16 "unat y"] by linarith
  then have "unat ?z < 256" unfolding z using small by linarith
  moreover have "unat (ucast ?z :: byte) = unat ?z mod 256" by (simp only: unsigned_ucast_eq take_bit_eq_mod) simp
  ultimately show ?thesis using z by simp
qed

lemma length_fe_impl_get_b32 [simp]: "length (fe_impl_get_b32 a) = 32"
  by (simp add: fe_impl_get_b32_def)

lemma get_b32_nth:
  shows
    "fe_impl_get_b32 a ! 0 = low_byte (drop_bit 40 (fe4 a))" "fe_impl_get_b32 a ! 1 = low_byte (drop_bit 32 (fe4 a))"
    "fe_impl_get_b32 a ! 2 = low_byte (drop_bit 24 (fe4 a))" "fe_impl_get_b32 a ! 3 = low_byte (drop_bit 16 (fe4 a))"
    "fe_impl_get_b32 a ! 4 = low_byte (drop_bit 8 (fe4 a))" "fe_impl_get_b32 a ! 5 = low_byte (fe4 a)"
    "fe_impl_get_b32 a ! 6 = low_byte (drop_bit 44 (fe3 a))" "fe_impl_get_b32 a ! 7 = low_byte (drop_bit 36 (fe3 a))"
    "fe_impl_get_b32 a ! 8 = low_byte (drop_bit 28 (fe3 a))" "fe_impl_get_b32 a ! 9 = low_byte (drop_bit 20 (fe3 a))"
    "fe_impl_get_b32 a ! 10 = low_byte (drop_bit 12 (fe3 a))" "fe_impl_get_b32 a ! 11 = low_byte (drop_bit 4 (fe3 a))"
    "fe_impl_get_b32 a ! 12 = ucast ((drop_bit 48 (fe2 a) AND 0xF) OR push_bit 4 (fe3 a AND 0xF))" "fe_impl_get_b32 a ! 13 = low_byte (drop_bit 40 (fe2 a))"
    "fe_impl_get_b32 a ! 14 = low_byte (drop_bit 32 (fe2 a))" "fe_impl_get_b32 a ! 15 = low_byte (drop_bit 24 (fe2 a))"
    "fe_impl_get_b32 a ! 16 = low_byte (drop_bit 16 (fe2 a))" "fe_impl_get_b32 a ! 17 = low_byte (drop_bit 8 (fe2 a))"
    "fe_impl_get_b32 a ! 18 = low_byte (fe2 a)" "fe_impl_get_b32 a ! 19 = low_byte (drop_bit 44 (fe1 a))"
    "fe_impl_get_b32 a ! 20 = low_byte (drop_bit 36 (fe1 a))" "fe_impl_get_b32 a ! 21 = low_byte (drop_bit 28 (fe1 a))"
    "fe_impl_get_b32 a ! 22 = low_byte (drop_bit 20 (fe1 a))" "fe_impl_get_b32 a ! 23 = low_byte (drop_bit 12 (fe1 a))"
    "fe_impl_get_b32 a ! 24 = low_byte (drop_bit 4 (fe1 a))" "fe_impl_get_b32 a ! 25 = ucast ((drop_bit 48 (fe0 a) AND 0xF) OR push_bit 4 (fe1 a AND 0xF))"
    "fe_impl_get_b32 a ! 26 = low_byte (drop_bit 40 (fe0 a))" "fe_impl_get_b32 a ! 27 = low_byte (drop_bit 32 (fe0 a))"
    "fe_impl_get_b32 a ! 28 = low_byte (drop_bit 24 (fe0 a))" "fe_impl_get_b32 a ! 29 = low_byte (drop_bit 16 (fe0 a))"
    "fe_impl_get_b32 a ! 30 = low_byte (drop_bit 8 (fe0 a))" "fe_impl_get_b32 a ! 31 = low_byte (fe0 a)"
  by (simp_all add: fe_impl_get_b32_def)

lemma bytes_identity:
  fixes x0 :: nat
  assumes "A + 2 ^ 48 * u = x0" "v + 2 ^ 4 * B = x1" "A' + 2 ^ 48 * u' = x2" "v' + 2 ^ 4 * B' = x3"
  shows "A + 2 ^ 48 * (u + 16 * v) + 2 ^ 56 * B + 2 ^ 104 * (A' + 2 ^ 48 * (u' + 16 * v')) + 2 ^ 160 * B' + 2 ^ 208 * x4 =
    x0 + 2 ^ 52 * (x1 + 2 ^ 52 * (x2 + 2 ^ 52 * (x3 + 2 ^ 52 * x4)))"
  unfolding assms [symmetric] by simp

lemma be_value_get_b32_fe:
  assumes "fe_tidy a" "unat (fe4 a) < 2 ^ 48"
  shows "be_value (fe_impl_get_b32 a) = fval a"
proof -
  have B: "unat (fe0 a) < 2 ^ 52" "unat (fe1 a) < 2 ^ 52" "unat (fe2 a) < 2 ^ 52" "unat (fe3 a) < 2 ^ 52" using assms(1) by (simp_all only: fe_tidy_def)
  note D = low_pair_digits [OF B(1)] high_pair_digits [OF B(2)] low_pair_digits [OF B(3)] high_pair_digits [OF B(4)] digits6 [OF assms(2)]
  have "be_value (fe_impl_get_b32 a) =
    (unat (fe0 a) mod 256 + 2 ^ 8 * (unat (fe0 a) div 2 ^ 8 mod 256) + 2 ^ 16 * (unat (fe0 a) div 2 ^ 16 mod 256) + 2 ^ 24 * (unat (fe0 a) div 2 ^ 24 mod 256)
      + 2 ^ 32 * (unat (fe0 a) div 2 ^ 32 mod 256) + 2 ^ 40 * (unat (fe0 a) div 2 ^ 40 mod 256) + 2 ^ 48 * (unat (fe0 a) div 2 ^ 48 + 16 * (unat (fe1 a) mod 16))) +
    2 ^ 56 * (unat (fe1 a) div 2 ^ 4 mod 256 + 2 ^ 8 * (unat (fe1 a) div 2 ^ 12 mod 256) + 2 ^ 16 * (unat (fe1 a) div 2 ^ 20 mod 256)
      + 2 ^ 24 * (unat (fe1 a) div 2 ^ 28 mod 256) + 2 ^ 32 * (unat (fe1 a) div 2 ^ 36 mod 256) + 2 ^ 40 * (unat (fe1 a) div 2 ^ 44 mod 256)) +
    2 ^ 104 * (unat (fe2 a) mod 256 + 2 ^ 8 * (unat (fe2 a) div 2 ^ 8 mod 256) + 2 ^ 16 * (unat (fe2 a) div 2 ^ 16 mod 256) + 2 ^ 24 * (unat (fe2 a) div 2 ^ 24 mod 256)
      + 2 ^ 32 * (unat (fe2 a) div 2 ^ 32 mod 256) + 2 ^ 40 * (unat (fe2 a) div 2 ^ 40 mod 256) + 2 ^ 48 * (unat (fe2 a) div 2 ^ 48 + 16 * (unat (fe3 a) mod 16))) +
    2 ^ 160 * (unat (fe3 a) div 2 ^ 4 mod 256 + 2 ^ 8 * (unat (fe3 a) div 2 ^ 12 mod 256) + 2 ^ 16 * (unat (fe3 a) div 2 ^ 20 mod 256)
      + 2 ^ 24 * (unat (fe3 a) div 2 ^ 28 mod 256) + 2 ^ 32 * (unat (fe3 a) div 2 ^ 36 mod 256) + 2 ^ 40 * (unat (fe3 a) div 2 ^ 44 mod 256)) +
    2 ^ 208 * (unat (fe4 a) mod 256 + 2 ^ 8 * (unat (fe4 a) div 2 ^ 8 mod 256) + 2 ^ 16 * (unat (fe4 a) div 2 ^ 16 mod 256) + 2 ^ 24 * (unat (fe4 a) div 2 ^ 24 mod 256)
      + 2 ^ 32 * (unat (fe4 a) div 2 ^ 32 mod 256) + 2 ^ 40 * (unat (fe4 a) div 2 ^ 40 mod 256))"
    unfolding be_value_32 [OF length_fe_impl_get_b32] get_b32_nth unat_join_byte [OF B(1)] unat_join_byte [OF B(3)] unat_low_byte unat_drop_bit by (rule refl)
  also have "\<dots> = fval a" unfolding fval_def using bytes_identity [OF D(1-4)] unfolding D(5) .
  finally show ?thesis .
qed

lemma fe_normal_top: "fe_normal a \<Longrightarrow> unat (fe4 a) < 2 ^ 48"
  unfolding fe_normal_def fval_def field_p_def by simp

lemma fe_normalD: "fe_normal a \<Longrightarrow> fe_tidy a" "fe_normal a \<Longrightarrow> fval a < field_p" "fe_normal a \<Longrightarrow> magnitude 1 a"
  using fe_normal_top [of a] by (simp_all add: fe_normal_def fe_tidy_def magnitude_def)

lemma set_get_b32_fe: "fe_normal a \<Longrightarrow> fe_impl_set_b32_mod (fe_impl_get_b32 a) = a"
  using set_b32_mod_spec [of "fe_impl_get_b32 a"] be_value_get_b32_fe [of a] fe_normal_top [of a] fe_normalD(1) [of a] by (simp add: fval_eq_iff [symmetric])

lemma get_set_b32_fe: "length b = 32 \<Longrightarrow> fe_impl_get_b32 (fe_impl_set_b32_mod b) = b"
  using set_b32_mod_spec [of b] be_value_get_b32_fe [of "fe_impl_set_b32_mod b"] by (intro be_value_inject) simp_all

section \<open>The storage format\<close>

definition stval :: "secp256k1_fe_storage \<Rightarrow> nat" where
  "stval a = unat (st0 a) + 2 ^ 64 * (unat (st1 a) + 2 ^ 64 * (unat (st2 a) + 2 ^ 64 * unat (st3 a)))"

lemma stval_eq_iff: "stval a = stval b \<longleftrightarrow> a = b"
  unfolding stval_def by (simp only: limb_eq unat_u64_less unat_inject) (cases a; cases b; auto)

lemma storage_cmov_spec: "fe_storage_cmov r a flag = (if flag then a else r)"
  by (cases r; cases a; simp add: fe_storage_cmov_def)

lemma storage_identity:
  fixes x0 :: nat
  assumes "x1 = l1 + 2 ^ 12 * h1" "x2 = l2 + 2 ^ 24 * h2" "x3 = l3 + 2 ^ 36 * h3"
  shows "x0 + 2 ^ 52 * l1 + 2 ^ 64 * (h1 + 2 ^ 40 * l2 + 2 ^ 64 * (h2 + 2 ^ 28 * l3 + 2 ^ 64 * (h3 + 2 ^ 16 * x4))) =
    x0 + 2 ^ 52 * (x1 + 2 ^ 52 * (x2 + 2 ^ 52 * (x3 + 2 ^ 52 * x4)))"
  unfolding assms by simp

lemma to_storage_spec:
  assumes "fe_tidy a" "unat (fe4 a) < 2 ^ 48"
  shows "stval (fe_impl_to_storage a) = fval a"
proof -
  have B: "unat (fe0 a) < 2 ^ 52" "unat (fe1 a) < 2 ^ 52" "unat (fe2 a) < 2 ^ 52" "unat (fe3 a) < 2 ^ 52" using assms(1) by (simp_all only: fe_tidy_def)
  have "unat (st0 (fe_impl_to_storage a)) = unat (fe0 a) + 2 ^ 52 * (unat (fe1 a) mod 2 ^ 12)"
    using unat_or_push [OF B(1), of "fe1 a"] by (simp add: fe_impl_to_storage_def)
  moreover have "unat (drop_bit 12 (fe1 a)) < 2 ^ 40" unfolding unat_drop_bit using B(2) by (simp add: less_mult_imp_div_less)
  then have "unat (st1 (fe_impl_to_storage a)) = unat (fe1 a) div 2 ^ 12 + 2 ^ 40 * (unat (fe2 a) mod 2 ^ 24)"
    using unat_or_push [of "drop_bit 12 (fe1 a)" 40 "fe2 a"] by (simp add: fe_impl_to_storage_def unat_drop_bit)
  moreover have "unat (drop_bit 24 (fe2 a)) < 2 ^ 28" unfolding unat_drop_bit using B(3) by (simp add: less_mult_imp_div_less)
  then have "unat (st2 (fe_impl_to_storage a)) = unat (fe2 a) div 2 ^ 24 + 2 ^ 28 * (unat (fe3 a) mod 2 ^ 36)"
    using unat_or_push [of "drop_bit 24 (fe2 a)" 28 "fe3 a"] by (simp add: fe_impl_to_storage_def unat_drop_bit)
  moreover have "unat (drop_bit 36 (fe3 a)) < 2 ^ 16" unfolding unat_drop_bit using B(4) by (simp add: less_mult_imp_div_less)
  then have "unat (st3 (fe_impl_to_storage a)) = unat (fe3 a) div 2 ^ 36 + 2 ^ 16 * unat (fe4 a)"
    using unat_or_push [of "drop_bit 36 (fe3 a)" 16 "fe4 a"] assms(2) by (simp add: fe_impl_to_storage_def unat_drop_bit)
  ultimately show ?thesis
    unfolding stval_def fval_def by (simp only: storage_identity [OF mod_mult_div_eq [symmetric] mod_mult_div_eq [symmetric] mod_mult_div_eq [symmetric]])
qed

lemma push_and_M52: "k \<le> 52 \<Longrightarrow> push_bit k x AND M52 = push_bit k (x AND mask (52 - k))" for x :: u64
  unfolding M52_mask by (rule bit_word_eqI) (auto simp: bit_simps)

lemma or_push_52:
  fixes x y :: u64
  assumes "unat x < 2 ^ k" "k \<le> 52"
  shows "unat (x OR (push_bit k y AND M52)) = unat x + 2 ^ k * (unat y mod 2 ^ (52 - k))"
proof -
  have "unat (y AND mask (52 - k)) = unat y mod 2 ^ (52 - k)" by (rule and_mask_mod)
  moreover have "(2 :: nat) ^ (52 - k) \<le> 2 ^ (64 - k)" by (rule power_increasing) simp_all
  then have "unat y mod 2 ^ (52 - k) < 2 ^ (64 - k)" using mod_less_divisor [of "2 ^ (52 - k)" "unat y"] by (meson less_le_trans zero_less_numeral zero_less_power)
  ultimately show ?thesis using unat_or_push [OF assms(1), of "y AND mask (52 - k)"] assms(2) by (simp add: push_and_M52)
qed

lemma storage_limb_less: "x < 2 ^ k \<Longrightarrow> K + k = 52 \<Longrightarrow> x + 2 ^ k * (y mod 2 ^ K) < 2 ^ 52" for x y :: nat
proof -
  assume *: "x < 2 ^ k" "K + k = 52"
  have "y mod 2 ^ K + 1 \<le> 2 ^ K" by (simp add: Suc_le_eq)
  then have "2 ^ k * (y mod 2 ^ K + 1) \<le> 2 ^ k * 2 ^ K" by (rule mult_le_mono2)
  also have "\<dots> = 2 ^ 52" using *(2) by (simp add: power_add [symmetric] add.commute)
  finally show ?thesis using *(1) by (simp add: algebra_simps)
qed

lemma from_storage_identity:
  fixes n0 :: nat
  assumes "n0 = l0 + 2 ^ 52 * h0" "n1 = l1 + 2 ^ 40 * h1" "n2 = l2 + 2 ^ 28 * h2" "n3 = l3 + 2 ^ 16 * h3"
  shows "l0 + 2 ^ 52 * (h0 + 2 ^ 12 * l1 + 2 ^ 52 * (h1 + 2 ^ 24 * l2 + 2 ^ 52 * (h2 + 2 ^ 36 * l3 + 2 ^ 52 * h3))) =
    n0 + 2 ^ 64 * (n1 + 2 ^ 64 * (n2 + 2 ^ 64 * n3))"
  unfolding assms by simp

lemma from_storage_spec: "fval (fe_impl_from_storage s) = stval s" "fe_tidy (fe_impl_from_storage s)" "unat (fe4 (fe_impl_from_storage s)) < 2 ^ 48"
proof -
  let ?f = "fe_impl_from_storage s"
  have D: "unat (drop_bit 52 (st0 s)) < 2 ^ 12" "unat (drop_bit 40 (st1 s)) < 2 ^ 24" "unat (drop_bit 28 (st2 s)) < 2 ^ 36"
    unfolding unat_drop_bit using unat_u64_less [of "st0 s"] unat_u64_less [of "st1 s"] unat_u64_less [of "st2 s"] by (simp_all add: less_mult_imp_div_less)
  have V: "unat (fe0 ?f) = unat (st0 s) mod 2 ^ 52" "unat (fe1 ?f) = unat (st0 s) div 2 ^ 52 + 2 ^ 12 * (unat (st1 s) mod 2 ^ 40)"
    "unat (fe2 ?f) = unat (st1 s) div 2 ^ 40 + 2 ^ 24 * (unat (st2 s) mod 2 ^ 28)" "unat (fe3 ?f) = unat (st2 s) div 2 ^ 28 + 2 ^ 36 * (unat (st3 s) mod 2 ^ 16)"
    "unat (fe4 ?f) = unat (st3 s) div 2 ^ 16"
    using or_push_52 [OF D(1), of "st1 s"] or_push_52 [OF D(2), of "st2 s"] or_push_52 [OF D(3), of "st3 s"]
    by (simp_all add: fe_impl_from_storage_def unat_M52 unat_drop_bit)
  show "fval ?f = stval s" unfolding fval_def V stval_def
    by (rule from_storage_identity [OF mod_mult_div_eq [symmetric] mod_mult_div_eq [symmetric] mod_mult_div_eq [symmetric] mod_mult_div_eq [symmetric]])
  show "fe_tidy ?f" unfolding fe_tidy_def V using D [unfolded unat_drop_bit] by (intro conjI storage_limb_less) simp_all
  show "unat (fe4 ?f) < 2 ^ 48" unfolding V using unat_u64_less [of "st3 s"] by (simp add: less_mult_imp_div_less)
qed

lemma storage_roundtrip: "fe_normal a \<Longrightarrow> fe_impl_from_storage (fe_impl_to_storage a) = a" "fe_impl_to_storage (fe_impl_from_storage s) = s"
  using from_storage_spec [of "fe_impl_to_storage a"] to_storage_spec [of a] fe_normal_top [of a] fe_normalD(1) [of a] to_storage_spec [OF from_storage_spec(2,3), of s]
    from_storage_spec(1) [of s] by (simp_all add: fval_eq_iff [symmetric] stval_eq_iff [symmetric])

end
