(* ===== verification/Field_Sqrt.thy ===== *)
theory Field_Sqrt
  imports Field_Bytes
begin

text \<open>
  Equality and square roots in the field (\<open>src/external/secp256k1/src/field_impl.h\<close>). The square root is a power computed by an addition chain; the
  locale states what such a chain needs of its squaring and multiplication, and the field operations interpret it.
\<close>

section \<open>Definitions\<close>

definition fe_equal :: "secp256k1_fe \<Rightarrow> secp256k1_fe \<Rightarrow> bool" where
  "fe_equal a b = fe_impl_normalizes_to_zero (fe_impl_add (fe_impl_negate_unchecked a 1) b)"

text \<open>The square root the code computes, and whether it is one.\<close>

definition fe_sqrt :: "secp256k1_fe \<Rightarrow> secp256k1_fe \<times> bool" where
  "fe_sqrt a =
     (let x2 = fe_impl_mul (fe_impl_sqr a) a;
          x3 = fe_impl_mul (fe_impl_sqr x2) a;
          x6 = fe_impl_mul ((fe_impl_sqr ^^ 3) x3) x3;
          x9 = fe_impl_mul ((fe_impl_sqr ^^ 3) x6) x3;
          x11 = fe_impl_mul ((fe_impl_sqr ^^ 2) x9) x2;
          x22 = fe_impl_mul ((fe_impl_sqr ^^ 11) x11) x11;
          x44 = fe_impl_mul ((fe_impl_sqr ^^ 22) x22) x22;
          x88 = fe_impl_mul ((fe_impl_sqr ^^ 44) x44) x44;
          x176 = fe_impl_mul ((fe_impl_sqr ^^ 88) x88) x88;
          x220 = fe_impl_mul ((fe_impl_sqr ^^ 44) x176) x44;
          x223 = fe_impl_mul ((fe_impl_sqr ^^ 3) x220) x3;
          t1 = fe_impl_mul ((fe_impl_sqr ^^ 23) x223) x22;
          t1 = fe_impl_mul ((fe_impl_sqr ^^ 6) t1) x2;
          t1 = fe_impl_sqr t1;
          r = fe_impl_sqr t1;
          t1 = fe_impl_sqr r
      in (r, fe_equal t1 a))"

section \<open>Powers by squaring and multiplying\<close>

locale modular_multiplication =
  fixes modulus :: nat
    and val :: "'e \<Rightarrow> nat"
    and ready :: "'e \<Rightarrow> bool"
    and mult :: "'e \<Rightarrow> 'e \<Rightarrow> 'e"
    and square :: "'e \<Rightarrow> 'e"
  assumes mult_ready: "ready x \<Longrightarrow> ready y \<Longrightarrow> ready (mult x y)"
    and mult_val: "ready x \<Longrightarrow> ready y \<Longrightarrow> val (mult x y) mod modulus = (val x * val y) mod modulus"
    and square_mult: "ready x \<Longrightarrow> square x = mult x x"
begin

definition is_power :: "'e \<Rightarrow> nat \<Rightarrow> 'e \<Rightarrow> bool" where
  "is_power a e x \<longleftrightarrow> ready x \<and> val x mod modulus = val a ^ e mod modulus"

lemma is_power_self: "ready a \<Longrightarrow> is_power a 1 a"
  by (simp add: is_power_def)

lemma is_power_mult: "is_power a e x \<Longrightarrow> is_power a f y \<Longrightarrow> is_power a (e + f) (mult x y)"
  unfolding is_power_def power_add by (metis mult_ready mult_val mod_mult_eq)

lemma is_power_square: "is_power a e x \<Longrightarrow> is_power a (2 * e) (square x)"
  using is_power_mult [of a e x e x] square_mult [of x] by (simp add: is_power_def mult_2)

lemma is_power_squares: "is_power a e x \<Longrightarrow> is_power a (2 ^ n * e) ((square ^^ n) x)"
  by (induction n) (auto dest: is_power_square simp: mult.assoc)

lemma is_power_step: "is_power a e x \<Longrightarrow> is_power a f y \<Longrightarrow> g = 2 ^ n * e + f \<Longrightarrow> is_power a g (mult ((square ^^ n) x) y)"
  by (simp add: is_power_mult is_power_squares)

end

lemma magnitude_1_ready: "magnitude 1 a \<Longrightarrow> mul_ready a"
  by (rule magnitude_8) (erule magnitude_mono, simp)

interpretation fe: modular_multiplication field_p fval mul_ready fe_impl_mul fe_impl_sqr
  using mul_inner_spec by unfold_locales (simp_all add: fe_impl_mul_def fe_impl_sqr_def magnitude_1_ready [unfolded One_nat_def] sqr_inner_eq)

section \<open>Equality\<close>

lemma equal_spec:
  assumes "magnitude 1 a" "magnitude m b" "m \<le> 30"
  shows "fe_equal a b \<longleftrightarrow> fval a mod field_p = fval b mod field_p"
proof -
  let ?n = "fe_impl_negate_unchecked a 1"
  have n: "fval ?n + fval a = 4 * field_p" "magnitude 2 ?n" using negate_spec_fe [OF assms(1), of 1] by (simp_all add: numeral_2_eq_2)
  have s: "fval (fe_impl_add ?n b) = fval ?n + fval b" using add_spec_fe(1) [OF n(2) assms(2)] assms(3) by simp
  have "magnitude 32 (fe_impl_add ?n b)" by (rule magnitude_mono [OF add_spec_fe(2) [OF n(2) assms(2)]]) (use assms(3) in simp_all)
  then have "fe_equal a b \<longleftrightarrow> field_p dvd fval ?n + fval b" unfolding fe_equal_def by (simp add: normalizes_to_zero_spec s mod_eq_0_iff_dvd)
  also have "\<dots> \<longleftrightarrow> int field_p dvd int (fval b) - int (fval a)"
  proof -
    have "int (fval ?n + fval b) = int (fval b) - int (fval a) + 4 * int field_p" using n(1) by linarith
    then show ?thesis by (metis dvd_add_left_iff dvd_triv_right int_dvd_int_iff)
  qed
  also have "\<dots> \<longleftrightarrow> fval a mod field_p = fval b mod field_p"
    by (metis mod_eq_dvd_iff of_nat_eq_iff zmod_int)
  finally show ?thesis .
qed

section \<open>The square root\<close>

lemma sqrt_exponent: "(field_p + 1) div 4 = 2 * (2 * (2 ^ 6 * (2 ^ 23 * (2 ^ 223 - 1) + (2 ^ 22 - 1)) + 3))"
  by (simp add: field_p_def)

lemma sqrt_chain:
  assumes "mul_ready a"
  obtains t e where "fst (fe_sqrt a) = fe_impl_sqr t" "(field_p + 1) div 4 = 2 * e" "fe.is_power a e t"
proof -
  note step = fe.is_power_step
  have x1: "fe.is_power a 1 a" using assms by (rule fe.is_power_self)
  define x2 where "x2 = fe_impl_mul (fe_impl_sqr a) a"
  have x2: "fe.is_power a 3 x2" using step [OF x1 x1, of 3 1] by (simp add: x2_def)
  define x3 where "x3 = fe_impl_mul (fe_impl_sqr x2) a"
  have x3: "fe.is_power a 7 x3" using step [OF x2 x1, of 7 1] by (simp add: x3_def)
  define x6 where "x6 = fe_impl_mul ((fe_impl_sqr ^^ 3) x3) x3"
  have x6: "fe.is_power a 63 x6" unfolding x6_def by (rule step [OF x3 x3]) simp
  define x9 where "x9 = fe_impl_mul ((fe_impl_sqr ^^ 3) x6) x3"
  have x9: "fe.is_power a 511 x9" unfolding x9_def by (rule step [OF x6 x3]) simp
  define x11 where "x11 = fe_impl_mul ((fe_impl_sqr ^^ 2) x9) x2"
  have x11: "fe.is_power a (2 ^ 11 - 1) x11" unfolding x11_def by (rule step [OF x9 x2]) simp
  define x22 where "x22 = fe_impl_mul ((fe_impl_sqr ^^ 11) x11) x11"
  have x22: "fe.is_power a (2 ^ 22 - 1) x22" unfolding x22_def by (rule step [OF x11 x11]) simp
  define x44 where "x44 = fe_impl_mul ((fe_impl_sqr ^^ 22) x22) x22"
  have x44: "fe.is_power a (2 ^ 44 - 1) x44" unfolding x44_def by (rule step [OF x22 x22]) simp
  define x88 where "x88 = fe_impl_mul ((fe_impl_sqr ^^ 44) x44) x44"
  have x88: "fe.is_power a (2 ^ 88 - 1) x88" unfolding x88_def by (rule step [OF x44 x44]) simp
  define x176 where "x176 = fe_impl_mul ((fe_impl_sqr ^^ 88) x88) x88"
  have x176: "fe.is_power a (2 ^ 176 - 1) x176" unfolding x176_def by (rule step [OF x88 x88]) simp
  define x220 where "x220 = fe_impl_mul ((fe_impl_sqr ^^ 44) x176) x44"
  have x220: "fe.is_power a (2 ^ 220 - 1) x220" unfolding x220_def by (rule step [OF x176 x44]) simp
  define x223 where "x223 = fe_impl_mul ((fe_impl_sqr ^^ 3) x220) x3"
  have x223: "fe.is_power a (2 ^ 223 - 1) x223" unfolding x223_def by (rule step [OF x220 x3]) simp
  have "fe.is_power a (2 ^ 23 * (2 ^ 223 - 1) + (2 ^ 22 - 1)) (fe_impl_mul ((fe_impl_sqr ^^ 23) x223) x22)" by (rule step [OF x223 x22 refl])
  from step [OF this x2 refl, of 6] have t1: "fe.is_power a (2 ^ 6 * (2 ^ 23 * (2 ^ 223 - 1) + (2 ^ 22 - 1)) + 3)
      (fe_impl_mul ((fe_impl_sqr ^^ 6) (fe_impl_mul ((fe_impl_sqr ^^ 23) x223) x22)) x2)" .
  have "fst (fe_sqrt a) = fe_impl_sqr (fe_impl_sqr (fe_impl_mul ((fe_impl_sqr ^^ 6) (fe_impl_mul ((fe_impl_sqr ^^ 23) x223) x22)) x2))"
    unfolding fe_sqrt_def Let_def fst_conv x2_def x3_def x6_def x9_def x11_def x22_def x44_def x88_def x176_def x220_def x223_def by (rule refl)
  then show thesis using sqrt_exponent fe.is_power_square [OF t1] by (rule that)
qed

lemma sqrt_power:
  assumes "mul_ready a"
  shows "fe.is_power a ((field_p + 1) div 4) (fst (fe_sqrt a))"
  by (rule sqrt_chain [OF assms]) (simp add: fe.is_power_square)

lemma sqrt_is_square:
  assumes "mul_ready a"
  shows "\<exists>t. fst (fe_sqrt a) = fe_impl_sqr t \<and> mul_ready t"
  by (rule sqrt_chain [OF assms]) (auto simp: fe.is_power_def)

lemma sqrt_flag:
  assumes "magnitude 8 a"
  shows "snd (fe_sqrt a) \<longleftrightarrow> (fval (fst (fe_sqrt a)) * fval (fst (fe_sqrt a))) mod field_p = fval a mod field_p"
proof -
  let ?r = "fst (fe_sqrt a)"
  have "mul_ready ?r" using sqrt_power [OF magnitude_8 [OF assms]] by (simp add: fe.is_power_def)
  then have "magnitude 1 (fe_impl_sqr ?r)" "fval (fe_impl_sqr ?r) mod field_p = (fval ?r * fval ?r) mod field_p"
    using mul_inner_spec [of ?r ?r] by (simp_all add: fe_impl_sqr_def sqr_inner_eq)
  moreover have "snd (fe_sqrt a) = fe_equal (fe_impl_sqr ?r) a" by (simp add: fe_sqrt_def Let_def)
  ultimately show ?thesis using equal_spec [OF _ assms, of "fe_impl_sqr ?r"] by simp
qed

lemma sqrt_complete:
  assumes "magnitude 8 a" "(y * y) mod field_p = fval a mod field_p" "y ^ (field_p - 1) mod field_p = 1"
  shows "snd (fe_sqrt a)"
proof -
  let ?r = "fval (fst (fe_sqrt a))" and ?e = "(field_p + 1) div 4"
  have "?r mod field_p = fval a ^ ?e mod field_p" using sqrt_power [OF magnitude_8 [OF assms(1)]] by (simp add: fe.is_power_def)
  then have r: "?r mod field_p = (y * y) ^ ?e mod field_p" using assms(2) by (metis power_mod)
  have e: "?e + ?e + ?e + ?e = field_p - 1 + 2" by (simp add: field_p_def)
  have "(?r * ?r) mod field_p = ((y * y) ^ ?e * (y * y) ^ ?e) mod field_p" using r by (metis mod_mult_eq)
  also have "(y * y) ^ ?e * (y * y) ^ ?e = y ^ (?e + ?e + ?e + ?e)" by (simp add: power_add power_mult_distrib)
  also have "\<dots> = y ^ (field_p - 1) * (y * y)" unfolding e power_add by (simp add: power2_eq_square)
  also have "\<dots> mod field_p = (1 * (y * y)) mod field_p" using assms(3) by (metis mod_mult_left_eq)
  finally show ?thesis unfolding sqrt_flag [OF assms(1)] using assms(2) by simp
qed

section \<open>Properties\<close>

lemma mul_sqr_facts:
  assumes "magnitude 8 a" "magnitude 8 b"
  shows "magnitude 1 (fe_impl_mul a b)" "fval (fe_impl_mul a b) mod field_p = (fval a * fval b) mod field_p" "fe_impl_sqr a = fe_impl_mul a a"
  using mul_inner_spec [OF magnitude_8 [OF assms(1)] magnitude_8 [OF assms(2)]] magnitude_8 [OF assms(1)]
  by (simp_all add: fe_impl_mul_def fe_impl_sqr_def sqr_inner_eq)

lemma magnitude_1_32: "magnitude 1 a \<Longrightarrow> magnitude 32 a"
  by (erule magnitude_mono) simp

lemma magnitude_8_32: "magnitude 8 a \<Longrightarrow> magnitude 32 a"
  by (erule magnitude_mono) simp

text \<open>
  C22. The field code computes in the field: on arguments of magnitude 8, the normalised result of every operation is the result modulo the characteristic,
  in its unique representation; the variants with data-dependent time agree with the constant-time ones.
\<close>
theorem field_arithmetic:
  assumes "magnitude 8 a" "magnitude 8 b"
  shows "fval (fe_impl_normalize a) = fval a mod field_p \<and> fe_normal (fe_impl_normalize a) \<and> fe_impl_normalize_var a = fe_impl_normalize a \<and>
    fval (fe_impl_normalize (fe_impl_mul a b)) = (fval a * fval b) mod field_p \<and>
    fval (fe_impl_normalize (fe_impl_sqr a)) = (fval a * fval a) mod field_p \<and>
    fval (fe_impl_normalize (fe_impl_add a b)) = (fval a + fval b) mod field_p \<and>
    (fval (fe_impl_normalize (fe_impl_negate_unchecked a 8)) + fval a) mod field_p = 0 \<and>
    (2 * fval (fe_impl_normalize (fe_impl_half a))) mod field_p = fval a mod field_p \<and>
    (fe_impl_normalizes_to_zero a \<longleftrightarrow> fval a mod field_p = 0) \<and> fe_impl_normalizes_to_zero_var a = fe_impl_normalizes_to_zero a \<and>
    (fe_normal a \<and> fe_normal b \<longrightarrow> (fval a = fval b \<longleftrightarrow> a = b) \<and> fe_impl_cmp_var a b = (if fval a < fval b then -1 else if fval b < fval a then 1 else 0))"
proof -
  have a: "magnitude 32 a" using assms(1) by (rule magnitude_8_32)
  note N = normalize_spec(1) and M = magnitude_mono [of _ _ 32]
  have add: "fval (fe_impl_normalize (fe_impl_add a b)) = (fval a + fval b) mod field_p"
    using add_spec_fe [OF assms] by (simp add: N M)
  have neg: "(fval (fe_impl_normalize (fe_impl_negate_unchecked a 8)) + fval a) mod field_p = 0"
    using negate_spec_fe [OF assms(1), of 8] by (simp add: N M mod_add_left_eq)
  have half: "(2 * fval (fe_impl_normalize (fe_impl_half a))) mod field_p = fval a mod field_p"
    using half_spec [OF assms(1)] by (simp add: N M mod_mult_right_eq)
  show ?thesis
    using add neg half mul_sqr_facts [OF assms] mul_sqr_facts [OF assms(1,1)] normalize_spec [OF a] normalize_var_eq [OF a] normalizes_to_zero_spec [OF a]
      normalizes_to_zero_var_eq [of a] fval_eq_iff [of a b] cmp_var_spec [of a b]
    by (simp add: normalize_spec(1) [OF magnitude_1_32] fe_normal_def)
qed

theorem field_arithmetic_witness:
  "magnitude 8 fe_p \<and> magnitude 8 (fe_impl_set_int 7) \<and> fval (fe_impl_normalize fe_p) = 0 \<and>
    fval (fe_impl_normalize (fe_impl_add fe_p (fe_impl_set_int 7))) = 7 \<and> fval (fe_impl_normalize (fe_impl_sqr (fe_impl_set_int 7))) = 49"
proof -
  have m: "magnitude 8 fe_p" "magnitude 8 (fe_impl_set_int 7)" by (simp_all add: magnitude_def fe_p_def fe_impl_set_int_def)
  have v: "fval fe_p = field_p" "fval (fe_impl_set_int 7) = 7" by (simp_all add: fe_p_facts set_int_spec_fe)
  have "(field_p + 7) mod field_p = 7" "49 mod field_p = 49" by (simp_all add: field_p_def)
  then show ?thesis using field_arithmetic [OF m] field_arithmetic [OF m(2,1)] m v by simp
qed

text \<open>
  The magnitude bookkeeping of the library is sound: as long as the documented magnitudes stay within their limits no limb wraps, every operation acts on
  the values exactly as on integers (up to a multiple of the characteristic), and its result has the magnitude the wrappers of \<open>field_impl.h\<close> record.
\<close>
theorem field_magnitudes:
  assumes "magnitude m a" "magnitude n b" "unat k \<le> 0x7FFF" "unat c = m"
  shows "(m + n \<le> 32 \<longrightarrow> fval (fe_impl_add a b) = fval a + fval b \<and> magnitude (m + n) (fe_impl_add a b)) \<and>
    (m \<le> 31 \<longrightarrow> fval (fe_impl_add_int a k) = fval a + unat k \<and> magnitude (m + 1) (fe_impl_add_int a k)) \<and>
    (m * unat k \<le> 32 \<longrightarrow> fval (fe_impl_mul_int_unchecked a k) = fval a * unat k \<and> magnitude (m * unat k) (fe_impl_mul_int_unchecked a k)) \<and>
    (m \<le> 31 \<longrightarrow> fval (fe_impl_negate_unchecked a c) + fval a = 2 * (m + 1) * field_p \<and> magnitude (m + 1) (fe_impl_negate_unchecked a c)) \<and>
    (m \<le> 31 \<longrightarrow> 2 * fval (fe_impl_half a) = fval a + (if odd (fval a) then field_p else 0) \<and> magnitude (m div 2 + 1) (fe_impl_half a)) \<and>
    (m \<le> 8 \<and> n \<le> 8 \<longrightarrow> magnitude 1 (fe_impl_mul a b) \<and> magnitude 1 (fe_impl_sqr a)) \<and>
    (m \<le> 32 \<longrightarrow> magnitude 1 (fe_impl_normalize_weak a) \<and> magnitude 1 (fe_impl_normalize a))"
proof -
  have M: "magnitude 1 (fe_impl_mul a b) \<and> magnitude 1 (fe_impl_sqr a)" if "m \<le> 8 \<and> n \<le> 8"
    using mul_sqr_facts [of a b] mul_sqr_facts [of a a] magnitude_mono [OF assms(1), of 8] magnitude_mono [OF assms(2), of 8] that by simp
  have N: "magnitude 1 (fe_impl_normalize_weak a) \<and> magnitude 1 (fe_impl_normalize a)" if "m \<le> 32"
  proof -
    have "magnitude 32 a" by (rule magnitude_mono [OF assms(1) that])
    then show ?thesis using weak_spec(2,3) [of a] fe_normalD(3) [OF normalize_spec(2)] by (simp add: fe_tidy_def magnitude_def)
  qed
  show ?thesis
    using M N add_spec_fe [OF assms(1,2)] add_int_spec [OF assms(1) _ assms(3)] mul_int_spec [OF assms(1)] negate_spec_fe [OF assms(1) _ assms(4)] half_spec [OF assms(1)]
    by blast
qed

theorem field_magnitudes_witness:
  "magnitude 4 (fe_impl_set_int 9) \<and> magnitude 28 fe_p \<and> unat (2 :: u64) \<le> 0x7FFF \<and> unat (4 :: u64) = 4 \<and>
    fval (fe_impl_add (fe_impl_set_int 9) fe_p) = 9 + field_p \<and> 2 * fval (fe_impl_half (fe_impl_set_int 9)) = 9 + field_p"
proof -
  have m: "magnitude 4 (fe_impl_set_int 9)" "magnitude 28 fe_p" "unat (2 :: u64) \<le> 0x7FFF" "unat (4 :: u64) = 4"
    by (simp_all add: magnitude_def fe_p_def fe_impl_set_int_def)
  then show ?thesis using field_magnitudes [OF m] by (simp add: fe_p_facts set_int_spec_fe)
qed

lemma sqrt_facts:
  assumes "magnitude 8 a" "fe_sqrt a = (r, ok)"
  shows "magnitude 1 r" "fval r mod field_p = fval a ^ ((field_p + 1) div 4) mod field_p" "ok \<longleftrightarrow> (fval r * fval r) mod field_p = fval a mod field_p"
proof -
  obtain t where t: "r = fe_impl_sqr t" "mul_ready t" using sqrt_is_square [OF magnitude_8 [OF assms(1)]] assms(2) by auto
  then show "magnitude 1 r" using mul_inner_spec(2) [OF t(2,2)] by (simp add: fe_impl_sqr_def sqr_inner_eq)
  show "fval r mod field_p = fval a ^ ((field_p + 1) div 4) mod field_p" "ok \<longleftrightarrow> (fval r * fval r) mod field_p = fval a mod field_p"
    using sqrt_power [OF magnitude_8 [OF assms(1)]] sqrt_flag [OF assms(1)] assms(2) by (simp_all add: fe.is_power_def)
qed

text \<open>
  The square root: the addition chain raises its argument to the power \<open>(p + 1) / 4\<close>, the flag says whether the result squares to the argument, and it
  does whenever the argument has a root that satisfies Fermat's equation (every root does, the characteristic being prime).
\<close>
theorem field_sqrt:
  assumes "magnitude 8 a" "fe_sqrt a = (r, ok)"
  shows "magnitude 1 r \<and> fval r mod field_p = fval a ^ ((field_p + 1) div 4) mod field_p \<and>
    (ok \<longleftrightarrow> (fval r * fval r) mod field_p = fval a mod field_p) \<and>
    (\<forall>y. (y * y) mod field_p = fval a mod field_p \<and> y ^ (field_p - 1) mod field_p = 1 \<longrightarrow> ok)"
  using sqrt_facts [OF assms] sqrt_complete [OF assms(1)] assms(2) by (metis snd_conv)

theorem field_sqrt_witness:
  "magnitude 8 (fe_impl_set_int 1) \<and> snd (fe_sqrt (fe_impl_set_int 1)) \<and> fval (fst (fe_sqrt (fe_impl_set_int 1))) mod field_p = 1"
proof -
  have m: "magnitude 8 (fe_impl_set_int 1)" by (simp add: magnitude_def fe_impl_set_int_def)
  obtain r ok where s: "fe_sqrt (fe_impl_set_int 1) = (r, ok)" by fastforce
  have one: "1 mod field_p = 1" "fval (fe_impl_set_int 1) = 1" by (simp_all add: field_p_def set_int_spec_fe)
  have "fval r mod field_p = 1" "\<forall>y. (y * y) mod field_p = 1 \<and> y ^ (field_p - 1) mod field_p = 1 \<longrightarrow> ok"
    using field_sqrt [OF m s] unfolding one power_one by blast+
  then have "ok" using one(1) by (metis mult_1 power_one)
  with \<open>fval r mod field_p = 1\<close> show ?thesis using m s by simp
qed

end
