(* ===== verification/Sha256.thy ===== *)
theory Sha256
  imports Gambit_Prelude
begin

unbundle bit_operations_syntax

text \<open>
  SHA-256, HMAC and the deterministic nonce generator as the vendored curve library computes them: \<open>src/external/secp256k1/src/hash_impl.h\<close>, \<open>hash.h\<close>, the
  big-endian helpers of \<open>util.h\<close> and \<open>nonce_function_rfc6979\<close> of \<open>secp256k1.c\<close>. Signing in \<open>src/src/keys.cpp\<close> draws its nonces from here. The unrolled rounds
  are a fold over the round number: the eight working variables keep their places and the roles rotate, as the macro calls
  rotate their arguments. Erasing secrets with \<open>memclear\<close> has no result and is left out, as are the checks of the \<open>VERIFY\<close> build.
\<close>

section \<open>Big-endian words\<close>

definition read_be32 :: "bytes \<Rightarrow> u32" where
  "read_be32 p = push_bit 24 (ucast (p ! 0)) OR push_bit 16 (ucast (p ! 1)) OR push_bit 8 (ucast (p ! 2)) OR ucast (p ! 3)"

definition write_be32 :: "u32 \<Rightarrow> bytes" where
  "write_be32 x = [ucast (drop_bit 24 x), ucast (drop_bit 16 x), ucast (drop_bit 8 x), ucast x]"

section \<open>The transformation\<close>

definition Ch :: "u32 \<Rightarrow> u32 \<Rightarrow> u32 \<Rightarrow> u32" where
  "Ch x y z = z XOR (x AND (y XOR z))"

definition Maj :: "u32 \<Rightarrow> u32 \<Rightarrow> u32 \<Rightarrow> u32" where
  "Maj x y z = (x AND y) OR (z AND (x OR y))"

definition Sigma0 :: "u32 \<Rightarrow> u32" where
  "Sigma0 x = (drop_bit 2 x OR push_bit 30 x) XOR (drop_bit 13 x OR push_bit 19 x) XOR (drop_bit 22 x OR push_bit 10 x)"

definition Sigma1 :: "u32 \<Rightarrow> u32" where
  "Sigma1 x = (drop_bit 6 x OR push_bit 26 x) XOR (drop_bit 11 x OR push_bit 21 x) XOR (drop_bit 25 x OR push_bit 7 x)"

definition sigma0 :: "u32 \<Rightarrow> u32" where
  "sigma0 x = (drop_bit 7 x OR push_bit 25 x) XOR (drop_bit 18 x OR push_bit 14 x) XOR drop_bit 3 x"

definition sigma1 :: "u32 \<Rightarrow> u32" where
  "sigma1 x = (drop_bit 17 x OR push_bit 15 x) XOR (drop_bit 19 x OR push_bit 13 x) XOR drop_bit 10 x"

definition sha_K :: "u32 list" where
  "sha_K = concat [
     [0x428a2f98, 0x71374491, 0xb5c0fbcf, 0xe9b5dba5], [0x3956c25b, 0x59f111f1, 0x923f82a4, 0xab1c5ed5],
     [0xd807aa98, 0x12835b01, 0x243185be, 0x550c7dc3], [0x72be5d74, 0x80deb1fe, 0x9bdc06a7, 0xc19bf174],
     [0xe49b69c1, 0xefbe4786, 0x0fc19dc6, 0x240ca1cc], [0x2de92c6f, 0x4a7484aa, 0x5cb0a9dc, 0x76f988da],
     [0x983e5152, 0xa831c66d, 0xb00327c8, 0xbf597fc7], [0xc6e00bf3, 0xd5a79147, 0x06ca6351, 0x14292967],
     [0x27b70a85, 0x2e1b2138, 0x4d2c6dfc, 0x53380d13], [0x650a7354, 0x766a0abb, 0x81c2c92e, 0x92722c85],
     [0xa2bfe8a1, 0xa81a664b, 0xc24b8b70, 0xc76c51a3], [0xd192e819, 0xd6990624, 0xf40e3585, 0x106aa070],
     [0x19a4c116, 0x1e376c08, 0x2748774c, 0x34b0bcb5], [0x391c0cb3, 0x4ed8aa4a, 0x5b9cca4f, 0x682e6ff3],
     [0x748f82ee, 0x78a5636f, 0x84c87814, 0x8cc70208], [0x90befffa, 0xa4506ceb, 0xbef9a3f7, 0xc67178f2]]"

text \<open>In round \<open>i\<close> the variable with role \<open>j\<close> is the one in place \<open>(j - i) mod 8\<close>.\<close>

definition place :: "nat \<Rightarrow> nat \<Rightarrow> nat" where
  "place i j = (j + (8 - i mod 8)) mod 8"

definition Round :: "nat \<Rightarrow> u32 \<Rightarrow> u32 \<Rightarrow> u32 list \<Rightarrow> u32 list" where
  "Round i k w v =
     (let a = v ! place i 0; b = v ! place i 1; c = v ! place i 2; d = v ! place i 3;
          e = v ! place i 4; f = v ! place i 5; g = v ! place i 6; h = v ! place i 7;
          t1 = h + Sigma1 e + Ch e f g + k + w;
          t2 = Sigma0 a + Maj a b c
      in v[place i 3 := d + t1, place i 7 := t1 + t2])"

text \<open>The message words are kept in sixteen variables; the last two rounds do not store theirs.\<close>

definition transformStep :: "bytes \<Rightarrow> u32 list \<times> u32 list \<Rightarrow> nat \<Rightarrow> u32 list \<times> u32 list" where
  "transformStep buf vw i =
     (let (v, w) = vw;
          wi = (if i < 16 then read_be32 (drop (4 * i) buf)
                else w ! (i mod 16) + (sigma1 (w ! ((i + 14) mod 16)) + w ! ((i + 9) mod 16) + sigma0 (w ! ((i + 1) mod 16))))
      in (Round i (sha_K ! i) wi v, if i < 62 then w[i mod 16 := wi] else w))"

definition sha256_transform :: "u32 list \<Rightarrow> bytes \<Rightarrow> u32 list" where
  "sha256_transform s buf =
     (let (v, w) = foldl (transformStep buf) (s, replicate 16 0) [0..<64]
      in map2 (+) s v)"

section \<open>The hash object\<close>

record secp256k1_sha256 =
  sh_s :: "u32 list"
  sh_buf :: bytes
  sh_bytes :: u64

definition sha256_initialize :: "secp256k1_sha256 \<Rightarrow> secp256k1_sha256" where
  "sha256_initialize hash =
     hash \<lparr> sh_s := [0x6a09e667, 0xbb67ae85, 0x3c6ef372, 0xa54ff53a, 0x510e527f, 0x9b05688c, 0x1f83d9ab, 0x5be0cd19], sh_bytes := 0 \<rparr>"

text \<open>\<open>memcpy(buf + at, data, length data)\<close>.\<close>

definition copyInto :: "bytes \<Rightarrow> nat \<Rightarrow> bytes \<Rightarrow> bytes" where
  "copyInto buf at data = take at buf @ data @ drop (at + length data) buf"

function writeLoop :: "nat \<Rightarrow> bytes \<Rightarrow> u32 list \<Rightarrow> bytes \<Rightarrow> u32 list \<times> bytes" where
  "writeLoop bufsize buf s data =
     (if length data \<ge> 64 - bufsize then
        let chunk_len = 64 - bufsize; buf = copyInto buf bufsize (take chunk_len data)
        in writeLoop 0 buf (sha256_transform s buf) (drop chunk_len data)
      else (s, if length data > 0 then copyInto buf bufsize data else buf))"
  by pat_completeness auto

termination
  by (relation "measure (\<lambda>(bufsize, buf, s, data). length data + (if bufsize \<ge> 64 then 1 else 0))") auto

declare writeLoop.simps [simp del]

definition sha256_write :: "secp256k1_sha256 \<Rightarrow> bytes \<Rightarrow> secp256k1_sha256" where
  "sha256_write hash data =
     (let bufsize = unat (sh_bytes hash AND 0x3F);
          (s, buf) = writeLoop bufsize (sh_buf hash) (sh_s hash) data
      in hash \<lparr> sh_bytes := sh_bytes hash + word_of_nat (length data), sh_s := s, sh_buf := buf \<rparr>)"

definition sha256_finalize :: "secp256k1_sha256 \<Rightarrow> bytes \<times> secp256k1_sha256" where
  "sha256_finalize hash =
     (let pad = 0x80 # replicate 63 0;
          sizedesc = write_be32 (ucast (drop_bit 29 (sh_bytes hash))) @ write_be32 (ucast (push_bit 3 (sh_bytes hash)));
          hash = sha256_write hash (take (unat (1 + ((119 - (sh_bytes hash mod 64)) mod 64))) pad);
          hash = sha256_write hash sizedesc
      in (concat (map write_be32 (sh_s hash)), hash \<lparr> sh_s := replicate 8 0 \<rparr>))"

section \<open>HMAC\<close>

record secp256k1_hmac_sha256 =
  hm_inner :: secp256k1_sha256
  hm_outer :: secp256k1_sha256

definition hmac_sha256_initialize :: "secp256k1_hmac_sha256 \<Rightarrow> secp256k1_sha256 \<Rightarrow> bytes \<Rightarrow> secp256k1_hmac_sha256" where
  "hmac_sha256_initialize hash scratch key =
     (let rkey = (if length key \<le> 64 then key @ replicate (64 - length key) 0
                  else fst (sha256_finalize (sha256_write (sha256_initialize scratch) key)) @ replicate 32 0);
          outer = sha256_initialize (hm_outer hash);
          rkey = map (\<lambda>b. b XOR 0x5c) rkey;
          outer = sha256_write outer rkey;
          inner = sha256_initialize (hm_inner hash);
          rkey = map (\<lambda>b. b XOR (0x5c XOR 0x36)) rkey;
          inner = sha256_write inner rkey
      in hash \<lparr> hm_inner := inner, hm_outer := outer \<rparr>)"

definition hmac_sha256_write :: "secp256k1_hmac_sha256 \<Rightarrow> bytes \<Rightarrow> secp256k1_hmac_sha256" where
  "hmac_sha256_write hash data = hash \<lparr> hm_inner := sha256_write (hm_inner hash) data \<rparr>"

definition hmac_sha256_finalize :: "secp256k1_hmac_sha256 \<Rightarrow> bytes \<times> secp256k1_hmac_sha256" where
  "hmac_sha256_finalize hash =
     (let (temp, inner) = sha256_finalize (hm_inner hash);
          (out32, outer) = sha256_finalize (sha256_write (hm_outer hash) temp)
      in (out32, hash \<lparr> hm_inner := inner, hm_outer := outer \<rparr>))"

section \<open>The generator of RFC 6979\<close>

record secp256k1_rfc6979_hmac_sha256 =
  rng_v :: bytes
  rng_k :: bytes
  rng_retry :: bool

text \<open>
  One use of an HMAC object: initialise, write the parts, finalise. \<open>junk\<close> is what the object and the scratch hash object hold before.
\<close>

definition hmacCall :: "secp256k1_hmac_sha256 \<times> secp256k1_sha256 \<Rightarrow> bytes \<Rightarrow> bytes list \<Rightarrow> bytes" where
  "hmacCall junk key parts =
     fst (hmac_sha256_finalize (foldl hmac_sha256_write (hmac_sha256_initialize (fst junk) (snd junk) key) parts))"

definition rfc6979_initialize :: "secp256k1_hmac_sha256 \<times> secp256k1_sha256 \<Rightarrow> bytes \<Rightarrow> secp256k1_rfc6979_hmac_sha256" where
  "rfc6979_initialize junk key =
     (let v = replicate 32 0x01;
          k = replicate 32 0x00;
          k = hmacCall junk k [v, [0x00], key];
          v = hmacCall junk k [v];
          k = hmacCall junk k [v, [0x01], key];
          v = hmacCall junk k [v]
      in \<lparr> rng_v = v, rng_k = k, rng_retry = False \<rparr>)"

function generateLoop :: "secp256k1_hmac_sha256 \<times> secp256k1_sha256 \<Rightarrow> bytes \<Rightarrow> bytes \<Rightarrow> nat \<Rightarrow> bytes \<times> bytes" where
  "generateLoop junk k v outlen =
     (if outlen > 0 then
        let v = hmacCall junk k [v];
            now = (if outlen > 32 then 32 else outlen);
            (out, v') = generateLoop junk k v (outlen - now)
        in (take now v @ out, v')
      else ([], v))"
  by pat_completeness auto

termination
  by (relation "measure (\<lambda>(junk, k, v, outlen). outlen)") auto

declare generateLoop.simps [simp del]

definition rfc6979_generate :: "secp256k1_hmac_sha256 \<times> secp256k1_sha256 \<Rightarrow> nat \<Rightarrow> secp256k1_rfc6979_hmac_sha256 \<Rightarrow>
    bytes \<times> secp256k1_rfc6979_hmac_sha256" where
  "rfc6979_generate junk outlen rng =
     (let k = (if rng_retry rng then hmacCall junk (rng_k rng) [rng_v rng, [0x00]] else rng_k rng);
          v = (if rng_retry rng then hmacCall junk k [rng_v rng] else rng_v rng);
          (out, v) = generateLoop junk k v outlen
      in (out, rng \<lparr> rng_k := k, rng_v := v, rng_retry := True \<rparr>))"

end
