(* ===== verification/Sha256_Spec.thy ===== *)
theory Sha256_Spec
  imports Sha256
begin

unbundle bit_operations_syntax

text \<open>
  What the hash code must compute: SHA-256 of FIPS 180-4, HMAC of RFC 2104 and the generator of RFC 6979, written from the standards, and
  the proof that the object code of theory \<open>Sha256\<close> computes them whatever the pieces in which a message is written.
\<close>

section \<open>FIPS 180-4\<close>

definition spec_Ch :: "u32 \<Rightarrow> u32 \<Rightarrow> u32 \<Rightarrow> u32" where
  "spec_Ch x y z = (x AND y) XOR (NOT x AND z)"

definition spec_Maj :: "u32 \<Rightarrow> u32 \<Rightarrow> u32 \<Rightarrow> u32" where
  "spec_Maj x y z = (x AND y) XOR (x AND z) XOR (y AND z)"

definition spec_Sigma0 :: "u32 \<Rightarrow> u32" where
  "spec_Sigma0 x = word_rotr 2 x XOR word_rotr 13 x XOR word_rotr 22 x"

definition spec_Sigma1 :: "u32 \<Rightarrow> u32" where
  "spec_Sigma1 x = word_rotr 6 x XOR word_rotr 11 x XOR word_rotr 25 x"

definition spec_sigma0 :: "u32 \<Rightarrow> u32" where
  "spec_sigma0 x = word_rotr 7 x XOR word_rotr 18 x XOR drop_bit 3 x"

definition spec_sigma1 :: "u32 \<Rightarrow> u32" where
  "spec_sigma1 x = word_rotr 17 x XOR word_rotr 19 x XOR drop_bit 10 x"

text \<open>The first 32 bits of the fractional parts of the roots of the first primes.\<close>

definition primes64 :: "nat list" where
  "primes64 = [2, 3, 5, 7, 11, 13, 17, 19, 23, 29, 31, 37, 41, 43, 47, 53, 59, 61, 67, 71, 73, 79, 83, 89, 97, 101, 103, 107, 109, 113,
     127, 131, 137, 139, 149, 151, 157, 163, 167, 173, 179, 181, 191, 193, 197, 199, 211, 223, 227, 229, 233, 239, 241, 251, 257, 263,
     269, 271, 277, 281, 283, 293, 307, 311]"

definition root_bits :: "nat \<Rightarrow> nat \<Rightarrow> u32 \<Rightarrow> bool" where
  "root_bits n p x \<longleftrightarrow>
     (let i = length (filter (\<lambda>j. j ^ n \<le> p) [1, 2, 3, 4, 5, 6]); r = i * 2 ^ 32 + unat x
      in r ^ n \<le> p * 2 ^ (32 * n) \<and> p * 2 ^ (32 * n) < (r + 1) ^ n)"

fun spec_W :: "(nat \<Rightarrow> u32) \<Rightarrow> nat \<Rightarrow> u32" where
  "spec_W M t = (if t < 16 then M t else spec_sigma1 (spec_W M (t - 2)) + spec_W M (t - 7) + spec_sigma0 (spec_W M (t - 15)) + spec_W M (t - 16))"

declare spec_W.simps [simp del]

fun sha_round :: "u32 \<Rightarrow> u32 \<Rightarrow> u32 list \<Rightarrow> u32 list" where
  "sha_round K W [a, b, c, d, e, f, g, h] =
     (let T1 = h + spec_Sigma1 e + spec_Ch e f g + K + W; T2 = spec_Sigma0 a + spec_Maj a b c
      in [T1 + T2, a, b, c, d + T1, e, f, g])"
| "sha_round K W v = v"

definition spec_block :: "u32 list \<Rightarrow> bytes \<Rightarrow> u32 list" where
  "spec_block H b =
     (let M = (\<lambda>t. word_of_nat (be_value (take 4 (drop (4 * t) b))))
      in map2 (+) H (foldl (\<lambda>v t. sha_round (sha_K ! t) (spec_W M t) v) H [0..<64]))"

function blocks64 :: "bytes \<Rightarrow> bytes list" where
  "blocks64 m = (if length m < 64 then [] else take 64 m # blocks64 (drop 64 m))"
  by pat_completeness auto

termination
  by (relation "measure length") auto

declare blocks64.simps [simp del]

text \<open>Padding: a one bit, the least number of zero bits that leaves 64 bits free in the last block, and the length in bits.\<close>

definition spec_pad :: "bytes \<Rightarrow> bytes" where
  "spec_pad m = m @ 0x80 # replicate (nat ((55 - int (length m)) mod 64)) 0 @
     rev (map (\<lambda>i. word_of_nat (8 * length m div 256 ^ i)) [0..<8])"

definition spec_IV :: "u32 list" where
  "spec_IV = [0x6a09e667, 0xbb67ae85, 0x3c6ef372, 0xa54ff53a, 0x510e527f, 0x9b05688c, 0x1f83d9ab, 0x5be0cd19]"

definition spec_sha256 :: "bytes \<Rightarrow> bytes" where
  "spec_sha256 m = concat (map write_be32 (foldl spec_block spec_IV (blocks64 (spec_pad m))))"

lemma sha_K_roots: "list_all2 (root_bits 3) primes64 sha_K"
  unfolding primes64_def sha_K_def by (simp add: root_bits_def)

lemma spec_IV_roots: "list_all2 (root_bits 2) (take 8 primes64) spec_IV"
  unfolding primes64_def spec_IV_def by (simp add: root_bits_def)

section \<open>Rounds\<close>

lemma rotr_shifts: "0 < n \<Longrightarrow> n < 32 \<Longrightarrow> drop_bit n x OR push_bit (32 - n) x = word_rotr n (x :: u32)"
proof (rule bit_word_eqI)
  fix k
  assume n: "0 < n" "n < 32" and k: "k < LENGTH(32)"
  have "(k + n) mod 32 = (if k + n < 32 then k + n else k + n - 32)"
    using n k by (auto simp: mod_if)
  then have "bit (word_rotr n x) k = bit x (if k + n < 32 then k + n else k + n - 32)"
    using k by (simp only: bit_word_rotr_iff) simp
  moreover have "bit (drop_bit n x OR push_bit (32 - n) x) k = bit x (if k + n < 32 then k + n else k + n - 32)"
    using n k by (auto simp: bit_simps add.commute dest: bit_imp_le_length)
  ultimately show "bit (drop_bit n x OR push_bit (32 - n) x) k = bit (word_rotr n x) k" by simp
qed

lemma sigma_spec: "Sigma0 = spec_Sigma0" "Sigma1 = spec_Sigma1" "sigma0 = spec_sigma0" "sigma1 = spec_sigma1"
  using rotr_shifts [of 2] rotr_shifts [of 13] rotr_shifts [of 22] rotr_shifts [of 6] rotr_shifts [of 11] rotr_shifts [of 25]
    rotr_shifts [of 7] rotr_shifts [of 18] rotr_shifts [of 17] rotr_shifts [of 19]
  by (simp_all add: fun_eq_iff Sigma0_def spec_Sigma0_def Sigma1_def spec_Sigma1_def sigma0_def spec_sigma0_def sigma1_def spec_sigma1_def)

lemma Ch_spec: "Ch x y z = spec_Ch x y z"
  by (rule bit_word_eqI) (auto simp: Ch_def spec_Ch_def bit_simps)

lemma Maj_spec: "Maj x y z = spec_Maj x y z"
  by (rule bit_word_eqI) (auto simp: Maj_def spec_Maj_def bit_simps)

lemma length_8E:
  assumes "length v = 8"
  obtains a b c d e f g h where "v = [a, b, c, d, e, f, g, h]"
  using assms by (auto simp: numeral_eq_Suc length_Suc_conv)

lemma length_Round [simp]: "length (Round i k w v) = length v"
  by (simp add: Round_def Let_def)

text \<open>The roles, read from the rotated places, are the working variables of the standard.\<close>

definition roles :: "nat \<Rightarrow> u32 list \<Rightarrow> u32 list" where
  "roles i v = map (\<lambda>j. v ! place i j) [0, 1, 2, 3, 4, 5, 6, 7]"

lemma mod_8_cases:
  fixes i :: nat
  obtains "i mod 8 = 0" | "i mod 8 = 1" | "i mod 8 = 2" | "i mod 8 = 3" | "i mod 8 = 4" | "i mod 8 = 5" | "i mod 8 = 6" | "i mod 8 = 7"
  using mod_less_divisor [of 8 i] by linarith

lemma roles_Round:
  assumes "length v = 8"
  shows "roles (Suc i) (Round i k w v) = sha_round k w (roles i v)"
proof -
  obtain a b c d e f g h where v: "v = [a, b, c, d, e, f, g, h]" using assms by (rule length_8E)
  show ?thesis
    by (cases i rule: mod_8_cases)
      (simp_all add: v roles_def Round_def place_def mod_Suc Let_def sigma_spec Ch_spec Maj_spec)
qed

lemma roles_0: "length v = 8 \<Longrightarrow> roles 0 v = v" and roles_64: "length v = 8 \<Longrightarrow> roles 64 v = v"
  by (auto simp: roles_def place_def elim!: length_8E)

section \<open>Message words\<close>

lemma append_byte: "push_bit 8 v OR ucast b = v * 256 + ucast (b :: byte)" for v :: u32
proof -
  have "push_bit 8 v OR ucast b = push_bit 8 v + ucast b"
    by (rule disjunctive_add [symmetric]) (auto simp: bit_push_bit_iff bit_ucast_iff dest: bit_imp_le_length)
  then show ?thesis by (simp add: push_bit_eq_mult)
qed

lemma read_be32_value:
  assumes "length p \<ge> 4"
  shows "read_be32 p = word_of_nat (be_value (take 4 p))"
proof -
  obtain a b c d r where p: "p = a # b # c # d # r" using assms by (auto simp: numeral_eq_Suc Suc_le_length_iff)
  have "read_be32 p = push_bit 8 (push_bit 8 (push_bit 8 (ucast a) OR ucast b) OR ucast c) OR ucast d"
    by (simp add: p read_be32_def push_bit_or ac_simps or.assoc)
  also have "\<dots> = ((ucast a * 256 + ucast b) * 256 + ucast c) * 256 + ucast d" by (simp only: append_byte)
  also have "\<dots> = word_of_nat (be_value [a, b, c, d])"
    by (simp add: be_value_def)
  finally show ?thesis by (simp add: p)
qed

definition words_of :: "bytes \<Rightarrow> nat \<Rightarrow> u32" where
  "words_of b t = word_of_nat (be_value (take 4 (drop (4 * t) b)))"

text \<open>The sixteen variables hold the last sixteen words of the schedule.\<close>

definition window :: "bytes \<Rightarrow> nat \<Rightarrow> u32 list \<Rightarrow> bool" where
  "window b i w \<longleftrightarrow> length w = 16 \<and> (\<forall>t. t < i \<longrightarrow> t < 62 \<longrightarrow> i \<le> t + 16 \<longrightarrow> w ! (t mod 16) = spec_W (words_of b) t)"

lemma window_next:
  assumes "window b i w" "length b = 64" "i < 64"
  shows "(if i < 16 then read_be32 (drop (4 * i) b)
     else w ! (i mod 16) + (sigma1 (w ! ((i + 14) mod 16)) + w ! ((i + 9) mod 16) + sigma0 (w ! ((i + 1) mod 16)))) = spec_W (words_of b) i"
proof (cases "i < 16")
  case True
  then show ?thesis using assms(2) read_be32_value [of "drop (4 * i) b"] by (simp add: spec_W.simps words_of_def)
next
  case False
  have at: "w ! (t mod 16) = spec_W (words_of b) t" if "t < i" "t < 62" "i \<le> t + 16" for t
    using assms(1) that by (simp add: window_def)
  have j: "16 \<le> i" using False by simp
  have m: "i mod 16 = (i - 16) mod 16" "(i + 14) mod 16 = (i - 2) mod 16" "(i + 9) mod 16 = (i - 7) mod 16" "(i + 1) mod 16 = (i - 15) mod 16"
  proof -
    have s: "i = (i - 16) + 16" "i + 14 = (i - 2) + 16" "i + 9 = (i - 7) + 16" "i + 1 = (i - 15) + 16" using j by simp_all
    show "i mod 16 = (i - 16) mod 16" "(i + 14) mod 16 = (i - 2) mod 16" "(i + 9) mod 16 = (i - 7) mod 16" "(i + 1) mod 16 = (i - 15) mod 16"
      using mod_add_self2 [of "i - 16" 16] mod_add_self2 [of "i - 2" 16] mod_add_self2 [of "i - 7" 16] mod_add_self2 [of "i - 15" 16]
      by (simp_all only: s [symmetric])
  qed
  have e: "w ! ((i - 16) mod 16) = spec_W (words_of b) (i - 16)" "w ! ((i - 2) mod 16) = spec_W (words_of b) (i - 2)"
      "w ! ((i - 7) mod 16) = spec_W (words_of b) (i - 7)" "w ! ((i - 15) mod 16) = spec_W (words_of b) (i - 15)"
    using False assms(3) by (auto intro!: at)
  show ?thesis
    unfolding m e sigma_spec spec_W.simps [of "words_of b" i] using False by (simp only: if_False ac_simps)
qed

lemma window_store:
  assumes "window b i w" "x = spec_W (words_of b) i"
  shows "window b (Suc i) (if i < 62 then w[i mod 16 := x] else w)"
proof -
  have "i mod 16 \<noteq> t mod 16" if "t < i" "i \<le> 15 + t" for t
  proof
    assume "i mod 16 = t mod 16"
    then have "16 dvd i - t" using that(1) by (metis mod_eq_dvd_iff_nat less_imp_le)
    with that show False by (auto dest: dvd_imp_le)
  qed
  then show ?thesis using assms by (auto simp: window_def nth_list_update less_Suc_eq)
qed

lemma transform_rounds:
  assumes "length b = 64" "length s = 8" "i \<le> 64"
  shows "\<exists>v w. foldl (transformStep b) (s, replicate 16 0) [0..<i] = (v, w) \<and> length v = 8 \<and> window b i w \<and>
    roles i v = foldl (\<lambda>v t. sha_round (sha_K ! t) (spec_W (words_of b) t) v) s [0..<i]"
  using assms(3)
proof (induction i)
  case 0
  then show ?case using assms(2) by (simp add: window_def roles_0)
next
  case (Suc i)
  then obtain v w where vw: "foldl (transformStep b) (s, replicate 16 0) [0..<i] = (v, w)" "length v = 8" "window b i w"
      "roles i v = foldl (\<lambda>v t. sha_round (sha_K ! t) (spec_W (words_of b) t) v) s [0..<i]"
    by auto
  have "i < 64" using Suc.prems by simp
  note x = window_next [OF vw(3) assms(1) this]
  have "transformStep b (v, w) i = (Round i (sha_K ! i) (spec_W (words_of b) i) v, if i < 62 then w[i mod 16 := spec_W (words_of b) i] else w)"
    by (simp add: transformStep_def x Let_def)
  then show ?case using vw window_store [OF vw(3) refl] by (simp add: roles_Round)
qed

lemma transform_spec:
  assumes "length b = 64" "length s = 8"
  shows "sha256_transform s b = spec_block s b"
proof -
  obtain v w where vw: "foldl (transformStep b) (s, replicate 16 0) [0..<64] = (v, w)" "length v = 8"
      "roles 64 v = foldl (\<lambda>v t. sha_round (sha_K ! t) (spec_W (words_of b) t) v) s [0..<64]"
    using transform_rounds [OF assms, of 64] by auto
  have "v = foldl (\<lambda>v t. sha_round (sha_K ! t) (spec_W (words_of b) t) v) s [0..<64]"
    using vw(2,3) by (simp only: roles_64)
  then show ?thesis unfolding sha256_transform_def vw(1) spec_block_def Let_def words_of_def prod.case by simp
qed

section \<open>Writing in pieces\<close>

definition rest64 :: "bytes \<Rightarrow> bytes" where
  "rest64 m = drop (64 * (length m div 64)) m"

lemma length_rest64 [simp]: "length (rest64 m) = length m mod 64"
  by (simp add: rest64_def minus_mult_div_eq_mod)

lemma rest64_short [simp]: "length m < 64 \<Longrightarrow> rest64 m = m"
  by (simp add: rest64_def)

lemma rest64_full [simp]: "length x = 64 \<Longrightarrow> rest64 (x @ m) = rest64 m"
proof -
  assume x: "length x = 64"
  have "(64 + length m) div 64 = Suc (length m div 64)" using div_add_self1 [of 64 "length m"] by simp
  with x show ?thesis by (simp only: rest64_def length_append drop_append) simp
qed

lemma blocks64_short [simp]: "length m < 64 \<Longrightarrow> blocks64 m = []"
  by (simp add: blocks64.simps)

lemma blocks64_full [simp]: "length x = 64 \<Longrightarrow> blocks64 (x @ m) = x # blocks64 m"
  by (simp add: blocks64.simps [of "x @ m"])

lemma split_64:
  assumes "\<not> length a < 64"
  obtains x y where "a = x @ y" "length x = 64"
  using assms by (intro that [of "take 64 a" "drop 64 a"]) simp_all

lemma blocks64_append: "blocks64 (a @ b) = blocks64 a @ blocks64 (rest64 a @ b)"
proof (induction a rule: blocks64.induct)
  case (1 a)
  show ?case
  proof (cases "length a < 64")
    case False
    then obtain x y where a: "a = x @ y" "length x = 64" by (rule split_64)
    then show ?thesis using 1 [OF False] by simp
  qed simp
qed

lemma rest64_append: "rest64 (a @ b) = rest64 (rest64 a @ b)"
proof (induction a rule: blocks64.induct)
  case (1 a)
  show ?case
  proof (cases "length a < 64")
    case False
    then obtain x y where a: "a = x @ y" "length x = 64" by (rule split_64)
    then show ?thesis using 1 [OF False] by simp
  qed simp
qed

lemma length_sha_round: "length v = 8 \<Longrightarrow> length (sha_round k w v) = 8"
  by (erule length_8E) (simp add: Let_def)

lemma length_spec_block: "length s = 8 \<Longrightarrow> length (spec_block s b) = 8"
proof -
  assume "length s = 8"
  moreover from this have "length (foldl (\<lambda>v t. sha_round (f t) (g t) v) s ts) = 8" for f g and ts :: "nat list"
    by (induction ts rule: rev_induct) (simp_all add: length_sha_round)
  ultimately show ?thesis by (simp add: spec_block_def Let_def)
qed

lemma length_spec_blocks: "length s = 8 \<Longrightarrow> length (foldl spec_block s bs) = 8"
  by (induction bs rule: rev_induct) (simp_all add: length_spec_block)

lemma writeLoop_spec:
  assumes "length buf = 64" "length s = 8" "bufsize < 64"
  shows "\<exists>buf'. writeLoop bufsize buf s data = (foldl spec_block s (blocks64 (take bufsize buf @ data)), buf') \<and> length buf' = 64 \<and>
    take (length (take bufsize buf @ data) mod 64) buf' = rest64 (take bufsize buf @ data)"
  using assms
proof (induction bufsize buf s data rule: writeLoop.induct)
  case (1 bufsize buf s data)
  let ?n = "64 - bufsize" and ?r = "take bufsize buf"
  show ?case
  proof (cases "length data \<ge> ?n")
    case True
    let ?b = "copyInto buf bufsize (take ?n data)"
    have b: "?b = ?r @ take ?n data" "length ?b = 64" using True 1(2,4) by (simp_all add: copyInto_def)
    have split: "?r @ data = ?b @ drop ?n data" using b(1) by simp
    obtain buf' where IH: "writeLoop 0 ?b (sha256_transform s ?b) (drop ?n data) =
        (foldl spec_block (sha256_transform s ?b) (blocks64 (drop ?n data)), buf')" "length buf' = 64"
        "take (length (drop ?n data) mod 64) buf' = rest64 (drop ?n data)"
      using 1(1) [OF True refl refl] b(2) 1(3) transform_spec [OF b(2) 1(3)] by (auto simp: length_spec_block)
    have len: "length (?b @ drop ?n data) mod 64 = length (drop ?n data) mod 64"
      using b(2) mod_add_self1 [of 64 "length (drop ?n data)"] by (simp only: length_append)
    show ?thesis
      unfolding writeLoop.simps [of bufsize buf s data] split len
      using True IH b(2) transform_spec [OF b(2) 1(3)] by (simp add: Let_def)
  next
    case False
    then show ?thesis using 1(2,4) by (simp add: writeLoop.simps [of bufsize buf s data] copyInto_def)
  qed
qed

definition represents :: "secp256k1_sha256 \<Rightarrow> bytes \<Rightarrow> bool" where
  "represents hash m \<longleftrightarrow> sh_s hash = foldl spec_block spec_IV (blocks64 m) \<and> length (sh_buf hash) = 64 \<and>
     take (length m mod 64) (sh_buf hash) = rest64 m \<and> sh_bytes hash = word_of_nat (length m)"

lemma represents_initialize: "length (sh_buf hash) = 64 \<Longrightarrow> represents (sha256_initialize hash) []"
  by (simp add: represents_def sha256_initialize_def spec_IV_def)

lemma length_spec_IV [simp]: "length spec_IV = 8"
  by (simp add: spec_IV_def)

lemma low_six_bits: "unat (word_of_nat n AND 0x3F :: u64) = n mod 64"
proof -
  have "(word_of_nat n AND 0x3F :: u64) = take_bit 6 (word_of_nat n)"
    by (simp add: take_bit_eq_mask mask_eq_exp_minus_1)
  then show ?thesis by (simp add: unsigned_take_bit_eq unsigned_of_nat take_bit_take_bit) (simp add: take_bit_eq_mod)
qed

lemma represents_write:
  assumes "represents hash m"
  shows "represents (sha256_write hash data) (m @ data)"
proof -
  note h = assms [unfolded represents_def]
  obtain buf' where b: "writeLoop (length m mod 64) (sh_buf hash) (sh_s hash) data =
      (foldl spec_block (sh_s hash) (blocks64 (rest64 m @ data)), buf')" "length buf' = 64"
      "take (length (rest64 m @ data) mod 64) buf' = rest64 (rest64 m @ data)"
    using writeLoop_spec [of "sh_buf hash" "sh_s hash" "length m mod 64" data] h by (auto simp: length_spec_blocks)
  show ?thesis
    using h b by (simp add: represents_def sha256_write_def low_six_bits blocks64_append [of m data] rest64_append [of m data] mod_add_left_eq)
qed

section \<open>Padding\<close>

lemma pad_count: "(119 - n mod 64) mod 64 = nat ((55 - int n) mod 64)"
proof -
  have "n mod 64 \<le> 119" using mod_less_divisor [of 64 n] by linarith
  then have "int ((119 - n mod 64) mod 64) = (119 - int n mod 64) mod 64" by (simp add: of_nat_diff zmod_int)
  also have "\<dots> = (64 + (55 - int n)) mod 64" by (simp add: mod_diff_right_eq)
  also have "\<dots> = (55 - int n) mod 64" by (rule mod_add_self1)
  finally show ?thesis by linarith
qed

lemma unat_mod_64: "unat (word_of_nat n mod 64 :: u64) = n mod 64"
proof -
  have "(word_of_nat n mod 64 :: u64) = take_bit 6 (word_of_nat n)" by (simp add: take_bit_eq_mod)
  then show ?thesis by (simp add: unsigned_take_bit_eq unsigned_of_nat take_bit_take_bit) (simp add: take_bit_eq_mod)
qed

lemma pad_bytes:
  "take (unat (1 + ((119 - (word_of_nat n mod 64)) mod 64 :: u64))) (0x80 # replicate 63 0) = 0x80 # replicate (nat ((55 - int n) mod 64)) (0 :: byte)"
proof -
  let ?x = "word_of_nat n mod 64 :: u64"
  have "?x \<le> 119" using unat_mod_64 [of n] mod_less_divisor [of 64 n] by (simp add: word_le_nat_alt)
  then have "unat (119 - ?x) = 119 - n mod 64" using unat_mod_64 [of n] unat_sub [of ?x 119] by (simp only: unsigned_numeral) simp
  then have y: "unat ((119 - ?x) mod 64) = (119 - n mod 64) mod 64" by (simp add: unat_mod_distrib)
  moreover have "(119 - n mod 64) mod 64 < 64" by simp
  ultimately have "unat (1 + (119 - ?x) mod 64) = Suc ((119 - n mod 64) mod 64)"
    by (simp add: unat_word_ariths(1))
  then show ?thesis using \<open>(119 - n mod 64) mod 64 < 64\<close> by (simp add: pad_count min_def)
qed

lemma size_byte: "word_of_nat (8 * n div 256 ^ i) = (word_of_nat (drop_bit (8 * i) (push_bit 3 n)) :: byte)"
proof -
  have "(256 :: nat) ^ i = 2 ^ (8 * i)" by (simp add: power_mult)
  then show ?thesis by (simp only: drop_bit_eq_div push_bit_eq_mult) (simp add: mult.commute)
qed

lemma size_low:
  assumes "i < 4"
  shows "word_of_nat (8 * n div 256 ^ i) = (ucast (drop_bit (8 * i) (ucast (push_bit 3 (word_of_nat n :: u64)) :: u32)) :: byte)"
  unfolding size_byte
  by (rule bit_word_eqI) (use assms in \<open>auto simp: bit_simps\<close>)

lemma size_high:
  assumes "i < 4"
  shows "word_of_nat (8 * n div 256 ^ (4 + i)) = (ucast (drop_bit (8 * i) (ucast (drop_bit 29 (word_of_nat n :: u64)) :: u32)) :: byte)"
  unfolding size_byte
  by (rule bit_word_eqI) (use assms in \<open>auto simp: bit_simps algebra_simps\<close>)

lemma size_bytes:
  "write_be32 (ucast (drop_bit 29 (word_of_nat n :: u64))) @ write_be32 (ucast (push_bit 3 (word_of_nat n :: u64))) =
   rev (map (\<lambda>i. word_of_nat (8 * n div 256 ^ i)) [0..<8])"
  using size_low [of 0 n] size_low [of 1 n] size_low [of 2 n] size_low [of 3 n] size_high [of 0 n] size_high [of 1 n] size_high [of 2 n] size_high [of 3 n]
  by (simp add: write_be32_def upt_rec)

lemma finalize_spec:
  assumes "represents hash m"
  shows "fst (sha256_finalize hash) = spec_sha256 m"
proof -
  let ?pad = "0x80 # replicate (nat ((55 - int (length m)) mod 64)) (0 :: byte)" and ?size = "rev (map (\<lambda>i. word_of_nat (8 * length m div 256 ^ i)) [0..<8])"
  have "represents (sha256_write (sha256_write hash ?pad) ?size) (spec_pad m)"
    using represents_write [OF represents_write [OF assms, of ?pad], of ?size] by (simp only: spec_pad_def append.assoc append_Cons append_Nil)
  moreover have "sh_bytes hash = word_of_nat (length m)" using assms by (simp add: represents_def)
  ultimately show ?thesis
    unfolding sha256_finalize_def Let_def fst_conv spec_sha256_def by (simp only: pad_bytes size_bytes represents_def)
qed

lemma length_spec_sha256 [simp]: "length (spec_sha256 m) = 32"
proof -
  have "length (concat (map write_be32 s)) = 4 * length s" for s by (induction s) (simp_all add: write_be32_def)
  then show ?thesis by (simp add: spec_sha256_def length_spec_blocks)
qed

lemma represents_writes: "represents hash m \<Longrightarrow> represents (foldl sha256_write hash parts) (m @ concat parts)"
proof (induction parts arbitrary: hash m)
  case (Cons p ps)
  then show ?case using represents_write [of hash m p] Cons.IH [of "sha256_write hash p" "m @ p"] by simp
qed simp

section \<open>RFC 2104\<close>

definition spec_key :: "bytes \<Rightarrow> bytes" where
  "spec_key K = (if length K > 64 then spec_sha256 K @ replicate 32 0 else K @ replicate (64 - length K) 0)"

definition spec_hmac :: "bytes \<Rightarrow> bytes \<Rightarrow> bytes" where
  "spec_hmac K m = spec_sha256 (map (\<lambda>b. b XOR 0x5c) (spec_key K) @ spec_sha256 (map (\<lambda>b. b XOR 0x36) (spec_key K) @ m))"

text \<open>The C arrays of the objects have 64 bytes, whatever they hold.\<close>

definition buffers :: "secp256k1_hmac_sha256 \<times> secp256k1_sha256 \<Rightarrow> bool" where
  "buffers junk \<longleftrightarrow> length (sh_buf (hm_inner (fst junk))) = 64 \<and> length (sh_buf (hm_outer (fst junk))) = 64 \<and> length (sh_buf (snd junk)) = 64"

lemma sha256_one: "length (sh_buf hash) = 64 \<Longrightarrow> fst (sha256_finalize (sha256_write (sha256_initialize hash) m)) = spec_sha256 m"
  using finalize_spec [OF represents_write [OF represents_initialize, of hash m]] by simp

lemma hmac_initialize_spec:
  assumes "buffers junk"
  shows "represents (hm_inner (hmac_sha256_initialize (fst junk) (snd junk) key)) (map (\<lambda>b. b XOR 0x36) (spec_key key))"
    and "represents (hm_outer (hmac_sha256_initialize (fst junk) (snd junk) key)) (map (\<lambda>b. b XOR 0x5c) (spec_key key))"
proof -
  let ?rkey = "if length key \<le> 64 then key @ replicate (64 - length key) 0
      else fst (sha256_finalize (sha256_write (sha256_initialize (snd junk)) key)) @ replicate 32 0"
  have rkey: "?rkey = spec_key key" using assms by (simp add: spec_key_def buffers_def sha256_one)
  have "(b XOR 0x5c) XOR (0x5c XOR 0x36) = b XOR 0x36" for b :: byte by (simp add: xor.assoc [symmetric]) (simp add: xor.assoc)
  then have inner: "map (\<lambda>b. b XOR (0x5c XOR 0x36)) (map (\<lambda>b. b XOR 0x5c) ks) = map (\<lambda>b. b XOR 0x36) (ks :: bytes)" for ks by simp
  show "represents (hm_inner (hmac_sha256_initialize (fst junk) (snd junk) key)) (map (\<lambda>b. b XOR 0x36) (spec_key key))"
    "represents (hm_outer (hmac_sha256_initialize (fst junk) (snd junk) key)) (map (\<lambda>b. b XOR 0x5c) (spec_key key))"
    unfolding hmac_sha256_initialize_def Let_def rkey inner
    using assms represents_write [OF represents_initialize, of "hm_inner (fst junk)"] represents_write [OF represents_initialize, of "hm_outer (fst junk)"]
    by (simp_all add: buffers_def)
qed

lemma hmac_writes: "hm_inner (foldl hmac_sha256_write h parts) = foldl sha256_write (hm_inner h) parts"
  "hm_outer (foldl hmac_sha256_write h parts) = hm_outer h"
  by (induction parts arbitrary: h) (simp_all add: hmac_sha256_write_def)

lemma hmacCall_spec:
  assumes "buffers junk"
  shows "hmacCall junk key parts = spec_hmac key (concat parts)"
proof -
  let ?h = "hmac_sha256_initialize (fst junk) (snd junk) key"
  have "fst (sha256_finalize (foldl sha256_write (hm_inner ?h) parts)) = spec_sha256 (map (\<lambda>b. b XOR 0x36) (spec_key key) @ concat parts)"
    by (rule finalize_spec [OF represents_writes [OF hmac_initialize_spec(1) [OF assms]]])
  moreover have "fst (sha256_finalize (sha256_write (hm_outer ?h) m)) = spec_sha256 (map (\<lambda>b. b XOR 0x5c) (spec_key key) @ m)" for m
    by (rule finalize_spec [OF represents_write [OF hmac_initialize_spec(2) [OF assms]]])
  ultimately show ?thesis
    by (simp add: hmacCall_def hmac_sha256_finalize_def hmac_writes spec_hmac_def case_prod_unfold Let_def)
qed

section \<open>RFC 6979\<close>

text \<open>Section 3.2: steps b to g, and step h with one block per candidate, as \<open>T\<close> and the order have 256 bits.\<close>

definition spec_seed :: "bytes \<Rightarrow> bytes \<times> bytes" where
  "spec_seed x =
     (let V = replicate 32 0x01; K = replicate 32 0x00;
          K = spec_hmac K (V @ [0x00] @ x); V = spec_hmac K V;
          K = spec_hmac K (V @ [0x01] @ x); V = spec_hmac K V
      in (K, V))"

fun spec_state :: "bytes \<Rightarrow> nat \<Rightarrow> bytes \<times> bytes" where
  "spec_state x 0 = (let (K, V) = spec_seed x in (K, spec_hmac K V))"
| "spec_state x (Suc n) =
     (let (K, V) = spec_state x n; K = spec_hmac K (V @ [0x00]); V = spec_hmac K V in (K, spec_hmac K V))"

definition spec_candidate :: "bytes \<Rightarrow> nat \<Rightarrow> bytes" where
  "spec_candidate x n = snd (spec_state x n)"

fun drawn :: "secp256k1_hmac_sha256 \<times> secp256k1_sha256 \<Rightarrow> nat \<Rightarrow> secp256k1_rfc6979_hmac_sha256 \<Rightarrow> bytes \<times> secp256k1_rfc6979_hmac_sha256" where
  "drawn junk 0 rng = rfc6979_generate junk 32 rng"
| "drawn junk (Suc n) rng = rfc6979_generate junk 32 (snd (drawn junk n rng))"

lemma length_spec_hmac [simp]: "length (spec_hmac K m) = 32"
  by (simp add: spec_hmac_def)

lemma generate_32:
  assumes "buffers junk"
  shows "rfc6979_generate junk 32 rng =
    (let k = (if rng_retry rng then spec_hmac (rng_k rng) (rng_v rng @ [0x00]) else rng_k rng);
         v = (if rng_retry rng then spec_hmac k (rng_v rng) else rng_v rng)
     in (spec_hmac k v, \<lparr> rng_v = spec_hmac k v, rng_k = k, rng_retry = True \<rparr>))"
proof -
  have "generateLoop junk k v 32 = (spec_hmac k v, spec_hmac k v)" for k v
    by (simp add: generateLoop.simps [of junk k v] generateLoop.simps [of junk k _ 0] hmacCall_spec [OF assms] Let_def)
  then show ?thesis by (simp add: rfc6979_generate_def hmacCall_spec [OF assms] Let_def)
qed

lemma drawn_spec:
  assumes "buffers junk"
  shows "drawn junk n (rfc6979_initialize junk x) =
    (spec_candidate x n, \<lparr> rng_v = snd (spec_state x n), rng_k = fst (spec_state x n), rng_retry = True \<rparr>)"
proof (induction n)
  case 0
  then show ?case
    by (simp add: generate_32 [OF assms] rfc6979_initialize_def hmacCall_spec [OF assms] spec_candidate_def spec_seed_def Let_def)
next
  case (Suc n)
  then show ?case by (simp add: generate_32 [OF assms] spec_candidate_def case_prod_unfold Let_def)
qed

end
