(* ===== verification/Ecdsa.thy ===== *)
theory Ecdsa
  imports Keys Field_Sqrt Sha256_Spec
begin

unbundle bit_operations_syntax

text \<open>
  The signature code of the vendored curve library that \<open>src/src/keys.cpp\<close> calls: \<open>src/external/secp256k1/src/secp256k1.c\<close> (deterministic nonces, the
  signing loop, keys, plain signatures), \<open>ecdsa_impl.h\<close> (signing and verification equations), \<open>eckey_impl.h\<close> (public key formats) and
  \<open>modules/recovery/main_impl.h\<close> (recoverable signatures). Scalars are the limbs of \<open>Scalar\<close>, nonces come from the generator of \<open>Sha256\<close>. Below
  that, the arithmetic of curve points and the modular inverse are the parameter \<open>curve\<close>: points are abstract, and field elements
  (\<open>secp256k1_fe\<close>) are their values. Checks of pointers and of the context, and the clearing of secrets, are left out.
\<close>

section \<open>The curve below\<close>

record 'p curve =
  cv_ecmult_gen :: "secp256k1_scalar \<Rightarrow> 'p"
  cv_ecmult :: "'p \<Rightarrow> secp256k1_scalar \<Rightarrow> secp256k1_scalar \<Rightarrow> 'p"
  cv_is_infinity :: "'p \<Rightarrow> bool"
  cv_x :: "'p \<Rightarrow> nat"
  cv_y :: "'p \<Rightarrow> nat"
  cv_set_xo :: "nat \<Rightarrow> bool \<Rightarrow> 'p option"
  cv_set_xy :: "nat \<Rightarrow> nat \<Rightarrow> 'p option"
  cv_inverse :: "secp256k1_scalar \<Rightarrow> secp256k1_scalar"
  cv_to_bytes :: "'p \<Rightarrow> bytes"
  cv_from_bytes :: "bytes \<Rightarrow> 'p"

definition const_order_as_fe :: nat where
  "const_order_as_fe = 0xFFFFFFFFFFFFFFFFFFFFFFFFFFFFFFFEBAAEDCE6AF48A03BBFD25E8CD0364141"

definition const_p_minus_order :: nat where
  "const_p_minus_order = 0x14551231950B75FC4402DA1722FC9BAEE"

text \<open>\<open>secp256k1_fe_get_b32\<close> and \<open>secp256k1_fe_set_b32_limit\<close> on values.\<close>

definition fe_get_b32 :: "nat \<Rightarrow> bytes" where
  "fe_get_b32 x = map (\<lambda>i. word_of_nat (x div 256 ^ i)) (rev [0..<32])"

definition fe_set_b32_limit :: "bytes \<Rightarrow> nat option" where
  "fe_set_b32_limit b = (if be_value b < field_p then Some (be_value b) else None)"

section \<open>Nonces\<close>

type_synonym nonce_function = "bytes \<Rightarrow> bytes \<Rightarrow> bytes option \<Rightarrow> bytes option \<Rightarrow> u32 \<Rightarrow> bytes option"

text \<open>
  \<open>junk\<close> is what the hash objects on the stack hold before. (With the largest counter the C loop would never end; signing gets there only
  after that many rejected candidates.)
\<close>

definition nonce_function_rfc6979 :: "secp256k1_hmac_sha256 \<times> secp256k1_sha256 \<Rightarrow> nonce_function" where
  "nonce_function_rfc6979 junk msg32 key32 algo16 data counter =
     (let msg = fst (scalar_set_b32 msg32);
          msgmod32 = scalar_get_b32 msg;
          keydata = key32 @ msgmod32;
          keydata = (case data of None \<Rightarrow> keydata | Some d \<Rightarrow> keydata @ d);
          keydata = (case algo16 of None \<Rightarrow> keydata | Some a \<Rightarrow> keydata @ a);
          rng = rfc6979_initialize junk keydata
      in Some (fst (drawn junk (unat counter) rng)))"

section \<open>Signing\<close>

definition scalar_one :: secp256k1_scalar where
  "scalar_one = \<lparr> d0 = 1, d1 = 0, d2 = 0, d3 = 0 \<rparr>"

definition scalar_zero :: secp256k1_scalar where
  "scalar_zero = \<lparr> d0 = 0, d1 = 0, d2 = 0, d3 = 0 \<rparr>"

definition ecdsa_sig_sign :: "'p curve \<Rightarrow> secp256k1_scalar \<Rightarrow> secp256k1_scalar \<Rightarrow> secp256k1_scalar \<Rightarrow>
    bool \<times> secp256k1_scalar \<times> secp256k1_scalar \<times> nat" where
  "ecdsa_sig_sign C seckey message nonce =
     (let r = cv_ecmult_gen C nonce;
          b = fe_get_b32 (cv_x C r);
          (sigr, overflow) = scalar_set_b32 b;
          recid = push_bit 1 (of_bool overflow) OR of_bool (odd (cv_y C r));
          n = scalar_mul sigr seckey;
          n = fst (scalar_add n message);
          sigs = cv_inverse C nonce;
          sigs = scalar_mul sigs n;
          high = scalar_is_high sigs;
          sigs = fst (scalar_cond_negate sigs high);
          recid = recid XOR of_bool high
      in (\<not> scalar_is_zero sigr \<and> \<not> scalar_is_zero sigs, sigr, sigs, recid))"

text \<open>
  The loop of \<open>secp256k1_ecdsa_sign_inner\<close>; \<open>draw\<close> is the nonce function at the message and key. The result is \<open>ret\<close> and what \<open>r\<close>, \<open>s\<close> and
  \<open>recid\<close> hold when the loop is left.
\<close>

partial_function (option) signLoop :: "'p curve \<Rightarrow> (u32 \<Rightarrow> bytes option) \<Rightarrow> secp256k1_scalar \<Rightarrow> secp256k1_scalar \<Rightarrow>
    secp256k1_scalar \<times> secp256k1_scalar \<times> nat \<Rightarrow> u32 \<Rightarrow> (bool \<times> secp256k1_scalar \<times> secp256k1_scalar \<times> nat) option" where
  "signLoop C draw sec msg out cnt =
     (case draw cnt of
        None \<Rightarrow> Some (False, out)
      | Some nonce32 \<Rightarrow>
          let (non, is_nonce_valid) = scalar_set_b32_seckey nonce32 in
          if is_nonce_valid then
            let (ret, out) = ecdsa_sig_sign C sec msg non in
            if ret then Some (True, out) else signLoop C draw sec msg out (cnt + 1)
          else signLoop C draw sec msg out (cnt + 1))"

definition ecdsa_sign_inner :: "'p curve \<Rightarrow> nonce_function \<Rightarrow> nonce_function option \<Rightarrow> bytes \<Rightarrow> bytes \<Rightarrow> bytes option \<Rightarrow>
    (bool \<times> secp256k1_scalar \<times> secp256k1_scalar \<times> nat) option" where
  "ecdsa_sign_inner C nonce_function_default noncefp msg32 seckey noncedata =
     (let noncefp = (case noncefp of None \<Rightarrow> nonce_function_default | Some f \<Rightarrow> f);
          (sec, is_sec_valid) = scalar_set_b32_seckey seckey;
          sec = scalar_cmov sec scalar_one (\<not> is_sec_valid);
          msg = fst (scalar_set_b32 msg32)
      in case signLoop C (noncefp msg32 seckey None noncedata) sec msg (scalar_zero, scalar_zero, 0) 0 of
           None \<Rightarrow> None
         | Some (ret, r, s, recid) \<Rightarrow>
             let ret = (ret \<and> is_sec_valid)
             in Some (ret, scalar_cmov r scalar_zero (\<not> ret), scalar_cmov s scalar_zero (\<not> ret), if ret then recid else 0))"

section \<open>Signature objects\<close>

text \<open>The opaque objects hold the memory of the limbs, as the copies of a little-endian machine lay it out.\<close>

definition limb_image :: "u64 \<Rightarrow> bytes" where
  "limb_image x = rev (write_be64 x)"

definition limb_of_image :: "bytes \<Rightarrow> u64" where
  "limb_of_image b = read_be64 (rev (take 8 b))"

definition scalar_image :: "secp256k1_scalar \<Rightarrow> bytes" where
  "scalar_image a = limb_image (d0 a) @ limb_image (d1 a) @ limb_image (d2 a) @ limb_image (d3 a)"

definition scalar_of_image :: "bytes \<Rightarrow> secp256k1_scalar" where
  "scalar_of_image b = \<lparr> d0 = limb_of_image b, d1 = limb_of_image (drop 8 b), d2 = limb_of_image (drop 16 b), d3 = limb_of_image (drop 24 b) \<rparr>"

definition ecdsa_signature_save :: "secp256k1_scalar \<Rightarrow> secp256k1_scalar \<Rightarrow> bytes" where
  "ecdsa_signature_save r s = scalar_image r @ scalar_image s"

definition ecdsa_signature_load :: "bytes \<Rightarrow> secp256k1_scalar \<times> secp256k1_scalar" where
  "ecdsa_signature_load sig = (scalar_of_image sig, scalar_of_image (drop 32 sig))"

definition recoverable_signature_save :: "secp256k1_scalar \<Rightarrow> secp256k1_scalar \<Rightarrow> nat \<Rightarrow> bytes" where
  "recoverable_signature_save r s recid = scalar_image r @ scalar_image s @ [word_of_nat recid]"

definition recoverable_signature_load :: "bytes \<Rightarrow> secp256k1_scalar \<times> secp256k1_scalar \<times> nat" where
  "recoverable_signature_load sig = (scalar_of_image sig, scalar_of_image (drop 32 sig), unat (sig ! 64))"

definition secp_recoverable_parse_compact :: "bytes \<Rightarrow> nat \<Rightarrow> bytes option" where
  "secp_recoverable_parse_compact input64 recid =
     (if \<not> recid \<le> 3 then None
      else let (r, overflow) = scalar_set_b32 input64;
               ret = (\<not> overflow);
               (s, overflow) = scalar_set_b32 (drop 32 input64);
               ret = (ret \<and> \<not> overflow)
           in if ret then Some (recoverable_signature_save r s recid) else None)"

definition secp_recoverable_serialize_compact :: "bytes \<Rightarrow> bytes \<times> nat" where
  "secp_recoverable_serialize_compact sig =
     (let (r, s, recid) = recoverable_signature_load sig
      in (scalar_get_b32 r @ scalar_get_b32 s, recid))"

definition secp_ecdsa_sign_recoverable :: "'p curve \<Rightarrow> nonce_function \<Rightarrow> nonce_function option \<Rightarrow> bytes \<Rightarrow> bytes \<Rightarrow> bytes option \<Rightarrow>
    (bool \<times> bytes) option" where
  "secp_ecdsa_sign_recoverable C nonce_function_default noncefp msghash32 seckey noncedata =
     (case ecdsa_sign_inner C nonce_function_default noncefp msghash32 seckey noncedata of
        None \<Rightarrow> None
      | Some (ret, r, s, recid) \<Rightarrow> Some (ret, recoverable_signature_save r s recid))"

definition secp_signature_parse_compact :: "bytes \<Rightarrow> bytes option" where
  "secp_signature_parse_compact input64 =
     (let (r, overflow) = scalar_set_b32 input64;
          ret = (\<not> overflow);
          (s, overflow) = scalar_set_b32 (drop 32 input64);
          ret = (ret \<and> \<not> overflow)
      in if ret then Some (ecdsa_signature_save r s) else None)"

definition secp_signature_normalize :: "bytes \<Rightarrow> bytes \<times> bool" where
  "secp_signature_normalize sigin =
     (let (r, s) = ecdsa_signature_load sigin;
          ret = scalar_is_high s;
          s = (if ret then scalar_negate s else s)
      in (ecdsa_signature_save r s, ret))"

section \<open>Public keys\<close>

text \<open>An empty \<open>x\<close> coordinate marks a public key object that was never filled in.\<close>

definition pubkey_load :: "'p curve \<Rightarrow> bytes \<Rightarrow> 'p option" where
  "pubkey_load C pubkey = (let ge = cv_from_bytes C pubkey in if cv_x C ge = 0 then None else Some ge)"

definition pubkey_create_helper :: "'p curve \<Rightarrow> bytes \<Rightarrow> bool \<times> 'p" where
  "pubkey_create_helper C seckey =
     (let (seckey_scalar, ret) = scalar_set_b32_seckey seckey;
          seckey_scalar = scalar_cmov seckey_scalar scalar_one (\<not> ret)
      in (ret, cv_ecmult_gen C seckey_scalar))"

definition secp_ec_pubkey_create :: "'p curve \<Rightarrow> bytes \<Rightarrow> bytes option" where
  "secp_ec_pubkey_create C seckey =
     (let (ret, p) = pubkey_create_helper C seckey in if ret then Some (cv_to_bytes C p) else None)"

definition eckey_pubkey_serialize :: "'p curve \<Rightarrow> 'p \<Rightarrow> bool \<Rightarrow> bytes option" where
  "eckey_pubkey_serialize C elem compressed =
     (if cv_is_infinity C elem then None
      else if compressed then Some ((if odd (cv_y C elem) then 0x03 else 0x02) # fe_get_b32 (cv_x C elem))
      else Some (0x04 # fe_get_b32 (cv_x C elem) @ fe_get_b32 (cv_y C elem)))"

text \<open>The output buffer of 65 bytes is zeroed first and keeps the zeros when there is nothing to write.\<close>

definition secp_ec_pubkey_serialize :: "'p curve \<Rightarrow> bytes \<Rightarrow> bytes" where
  "secp_ec_pubkey_serialize C pubkey =
     (case pubkey_load C pubkey of
        None \<Rightarrow> replicate 65 0
      | Some Q \<Rightarrow> (case eckey_pubkey_serialize C Q False of None \<Rightarrow> replicate 65 0 | Some out \<Rightarrow> out))"

definition eckey_pubkey_parse :: "'p curve \<Rightarrow> bytes \<Rightarrow> 'p option" where
  "eckey_pubkey_parse C pub =
     (if length pub = 33 \<and> (pub ! 0 = 0x02 \<or> pub ! 0 = 0x03) then
        (case fe_set_b32_limit (drop 1 pub) of None \<Rightarrow> None | Some x \<Rightarrow> cv_set_xo C x (pub ! 0 = 0x03))
      else if length pub = 65 \<and> (pub ! 0 = 0x04 \<or> pub ! 0 = 0x06 \<or> pub ! 0 = 0x07) then
        (case (fe_set_b32_limit (take 32 (drop 1 pub)), fe_set_b32_limit (drop 33 pub)) of
           (Some x, Some y) \<Rightarrow>
             if (pub ! 0 = 0x06 \<or> pub ! 0 = 0x07) \<and> odd y \<noteq> (pub ! 0 = 0x07) then None else cv_set_xy C x y
         | _ \<Rightarrow> None)
      else None)"

definition secp_ec_pubkey_parse :: "'p curve \<Rightarrow> bytes \<Rightarrow> bytes option" where
  "secp_ec_pubkey_parse C input = map_option (cv_to_bytes C) (eckey_pubkey_parse C input)"

section \<open>Verification and recovery\<close>

definition ecdsa_sig_verify :: "'p curve \<Rightarrow> secp256k1_scalar \<Rightarrow> secp256k1_scalar \<Rightarrow> 'p \<Rightarrow> secp256k1_scalar \<Rightarrow> bool" where
  "ecdsa_sig_verify C sigr sigs pubkey message =
     (if scalar_is_zero sigr \<or> scalar_is_zero sigs then False
      else let sn = cv_inverse C sigs;
               u1 = scalar_mul sn message;
               u2 = scalar_mul sn sigr;
               pr = cv_ecmult C pubkey u2 u1 in
           if cv_is_infinity C pr then False
           else let xr = be_value (scalar_get_b32 sigr) in
           if cv_x C pr = xr then True
           else if xr \<ge> const_p_minus_order then False
           else cv_x C pr = (xr + const_order_as_fe) mod field_p)"

definition secp_ecdsa_verify :: "'p curve \<Rightarrow> bytes \<Rightarrow> bytes \<Rightarrow> bytes \<Rightarrow> bool" where
  "secp_ecdsa_verify C sig msghash32 pubkey =
     (let m = fst (scalar_set_b32 msghash32);
          (r, s) = ecdsa_signature_load sig
      in \<not> scalar_is_high s \<and> (case pubkey_load C pubkey of None \<Rightarrow> False | Some q \<Rightarrow> ecdsa_sig_verify C r s q m))"

definition ecdsa_sig_recover :: "'p curve \<Rightarrow> secp256k1_scalar \<Rightarrow> secp256k1_scalar \<Rightarrow> secp256k1_scalar \<Rightarrow> nat \<Rightarrow> 'p option" where
  "ecdsa_sig_recover C sigr sigs message recid =
     (if scalar_is_zero sigr \<or> scalar_is_zero sigs then None
      else let fx = be_value (scalar_get_b32 sigr) in
           if recid AND 2 \<noteq> 0 \<and> fx \<ge> const_p_minus_order then None
           else let fx = (if recid AND 2 \<noteq> 0 then (fx + const_order_as_fe) mod field_p else fx) in
           case cv_set_xo C fx (recid AND 1 \<noteq> 0) of
             None \<Rightarrow> None
           | Some x \<Rightarrow>
               let rn = cv_inverse C sigr;
                   u1 = scalar_mul rn message;
                   u1 = scalar_negate u1;
                   u2 = scalar_mul rn sigs;
                   q = cv_ecmult C x u2 u1
               in if cv_is_infinity C q then None else Some q)"

definition secp_ecdsa_recover :: "'p curve \<Rightarrow> bytes \<Rightarrow> bytes \<Rightarrow> bytes option" where
  "secp_ecdsa_recover C signature msghash32 =
     (let (r, s, recid) = recoverable_signature_load signature;
          m = fst (scalar_set_b32 msghash32)
      in map_option (cv_to_bytes C) (ecdsa_sig_recover C r s m recid))"

section \<open>What is asked of the curve\<close>

text \<open>
  \<open>multiple C k\<close> is \<open>k\<close> times the generator. Documented behaviour of the group code: \<open>ecmult\<close> adds a multiple of a point and a multiple of the generator; the
  multiples of the group order are the point at infinity; a point and its inverse share the \<open>x\<close> coordinate and have \<open>y\<close> coordinates of
  different parity; a point is found again from its \<open>x\<close> and the parity of its \<open>y\<close>, from both, and from its stored bytes.
  \<open>inverts_on\<close> asks the modular inverse to be one on a set of scalars.
\<close>

definition nat_scalar :: "nat \<Rightarrow> secp256k1_scalar" where
  "nat_scalar n = \<lparr> d0 = word_of_nat n, d1 = word_of_nat (n div 2 ^ 64), d2 = word_of_nat (n div 2 ^ 128), d3 = word_of_nat (n div 2 ^ 192) \<rparr>"

definition ival :: "secp256k1_scalar \<Rightarrow> int" where
  "ival a = int (sval a)"

definition multiple :: "'p curve \<Rightarrow> int \<Rightarrow> 'p" where
  "multiple C k = cv_ecmult_gen C (nat_scalar (nat (k mod int order)))"

definition group_laws :: "'p curve \<Rightarrow> bool" where
  "group_laws C \<longleftrightarrow>
     (\<forall>k a b. sval a < order \<longrightarrow> sval b < order \<longrightarrow> cv_ecmult C (multiple C k) a b = multiple C (ival a * k + ival b)) \<and>
     (\<forall>k. cv_is_infinity C (multiple C k) \<longleftrightarrow> int order dvd k)"

definition coordinate_laws :: "'p curve \<Rightarrow> bool" where
  "coordinate_laws C \<longleftrightarrow> (\<forall>k. \<not> int order dvd k \<longrightarrow>
     0 < cv_x C (multiple C k) \<and> cv_x C (multiple C k) < field_p \<and> cv_y C (multiple C k) < field_p \<and>
     cv_x C (multiple C (- k)) = cv_x C (multiple C k) \<and> odd (cv_y C (multiple C (- k))) \<noteq> odd (cv_y C (multiple C k)))"

definition encoding_laws :: "'p curve \<Rightarrow> bool" where
  "encoding_laws C \<longleftrightarrow> (\<forall>k. \<not> int order dvd k \<longrightarrow>
     cv_set_xo C (cv_x C (multiple C k)) (odd (cv_y C (multiple C k))) = Some (multiple C k) \<and>
     cv_set_xy C (cv_x C (multiple C k)) (cv_y C (multiple C k)) = Some (multiple C k) \<and>
     cv_from_bytes C (cv_to_bytes C (multiple C k)) = multiple C k)"

definition curve_laws :: "'p curve \<Rightarrow> bool" where
  "curve_laws C \<longleftrightarrow> group_laws C \<and> coordinate_laws C \<and> encoding_laws C"

definition inverts_on :: "'p curve \<Rightarrow> secp256k1_scalar set \<Rightarrow> bool" where
  "inverts_on C A \<longleftrightarrow> (\<forall>a \<in> A. 0 < sval a \<longrightarrow> sval a < order \<longrightarrow> sval (cv_inverse C a) < order \<and> sval a * sval (cv_inverse C a) mod order = 1)"

section \<open>Arithmetic modulo the order\<close>

definition congr :: "int \<Rightarrow> int \<Rightarrow> bool" where
  "congr a b \<longleftrightarrow> a mod int order = b mod int order"

lemma congr_refl [simp]: "congr a a"
  and congr_sym: "congr a b \<Longrightarrow> congr b a"
  and congr_trans [trans]: "congr a b \<Longrightarrow> congr b c \<Longrightarrow> congr a c"
  and congr_eq [trans]: "congr a b \<Longrightarrow> b = c \<Longrightarrow> congr a c"
  and eq_congr [trans]: "a = b \<Longrightarrow> congr b c \<Longrightarrow> congr a c"
  by (simp_all add: congr_def)

lemma congr_mult: "congr a b \<Longrightarrow> congr c d \<Longrightarrow> congr (a * c) (b * d)"
  unfolding congr_def by (rule mod_mult_cong)

lemma congr_add: "congr a b \<Longrightarrow> congr c d \<Longrightarrow> congr (a + c) (b + d)"
  unfolding congr_def by (rule mod_add_cong)

lemma congr_minus: "congr a b \<Longrightarrow> congr (- a) (- b)"
  using congr_mult [of "- 1" "- 1" a b] by simp

lemma congr_dvd: "congr a b \<Longrightarrow> int order dvd a \<longleftrightarrow> int order dvd b"
  by (simp add: congr_def dvd_eq_mod_eq_0)

lemma congr_multiple: "congr a b \<Longrightarrow> multiple C a = multiple C b"
  by (simp add: congr_def multiple_def)

lemma congr_mod: "congr (int (n mod order)) (int n)"
  by (simp add: congr_def zmod_int)

lemma congr_mul: "congr (ival (scalar_mul a b)) (ival a * ival b)"
  using congr_mod [of "sval a * sval b"] by (simp add: ival_def mul_spec)

lemma congr_sum: "sval a < order \<Longrightarrow> sval b < order \<Longrightarrow> congr (ival (fst (scalar_add a b))) (ival a + ival b)"
  using congr_mod [of "sval a + sval b"] by (simp add: ival_def add_spec)

lemma congr_order: "congr (int order + a) a"
  by (simp add: congr_def)

lemma congr_negate: "sval a < order \<Longrightarrow> congr (ival (scalar_negate a)) (- ival a)"
  using congr_order [of "- ival a"] by (auto simp: ival_def negate_spec of_nat_diff)

lemma congr_inverse:
  assumes "inverts_on C A" "a \<in> A" "0 < sval a" "sval a < order"
  shows "congr (ival a * ival (cv_inverse C a)) 1"
proof -
  have "sval a * sval (cv_inverse C a) mod order = 1" using assms by (auto simp: inverts_on_def)
  then have "int (sval a * sval (cv_inverse C a) mod order) = 1" by simp
  with congr_sym [OF congr_mod, of "sval a * sval (cv_inverse C a)"] show ?thesis by (simp add: ival_def)
qed

lemma mul_less: "sval (scalar_mul a b) < order"
  using order_bounds by (simp add: mul_spec)

lemma set_b32_less: "sval (fst (scalar_set_b32 b)) < order"
  using order_bounds by (simp add: scalar_set_b32_def Let_def reduce_once)

lemma not_dvd_ival: "0 < sval a \<Longrightarrow> sval a < order \<Longrightarrow> \<not> int order dvd ival a"
  by (auto simp: ival_def dest: nat_dvd_not_less)

lemma nat_scalar_sval: "nat_scalar (sval a) = a"
proof -
  have limb: "(x + 2 ^ 64 * y) div 2 ^ 64 = y" if "x < 2 ^ 64" for x y :: nat using that by simp
  have split: "n div 2 ^ 128 = n div 2 ^ 64 div 2 ^ 64" "n div 2 ^ 192 = n div 2 ^ 64 div 2 ^ 64 div 2 ^ 64" for n :: nat
    by (simp_all add: div_mult2_eq [symmetric])
  have low: "word_of_nat (x + 2 ^ 64 * y) = (word_of_nat x :: u64)" for x y
    unfolding word_of_nat_eq_iff by (simp add: take_bit_eq_mod)
  show ?thesis unfolding nat_scalar_def split sval_def limb [OF unat_u64_less] low by simp
qed

lemma seckeyD:
  assumes "scalar_set_b32_seckey b = (a, True)"
  shows "0 < sval a" "sval a < order"
  using assms set_b32_less [of b] by (auto simp: scalar_set_b32_seckey_def is_zero_iff case_prod_unfold Let_def)

section \<open>Signing\<close>

lemma be_value_fe_get_b32: "x < field_p \<Longrightarrow> be_value (fe_get_b32 x) = x"
  unfolding fe_get_b32_def be_value_digits by (simp add: field_p_def)

lemma length_fe_get_b32 [simp]: "length (fe_get_b32 x) = 32"
  by (simp add: fe_get_b32_def)

lemma ecmult_gen_multiple: "sval a < order \<Longrightarrow> cv_ecmult_gen C a = multiple C (ival a)"
  by (simp add: multiple_def ival_def nat_scalar_sval)

text \<open>
  What a signature says about its nonce \<open>k\<close>: up to the sign \<open>e\<close> that makes \<open>s\<close> low, \<open>s * k = z + r * d\<close> modulo the order, and the recovery id
  describes the point \<open>e * k * G\<close>.
\<close>

definition signs :: "'p curve \<Rightarrow> secp256k1_scalar \<Rightarrow> secp256k1_scalar \<Rightarrow> secp256k1_scalar \<Rightarrow> secp256k1_scalar \<times> secp256k1_scalar \<times> nat \<Rightarrow> bool" where
  "signs C sec msg non = (\<lambda>(r, s, recid). \<exists>k. (k = ival non \<or> k = - ival non) \<and> congr (ival s * k) (ival msg + ival r * ival sec) \<and>
     0 < sval r \<and> sval r = cv_x C (multiple C k) mod order \<and> 0 < sval s \<and> sval s \<le> order div 2 \<and>
     recid < 4 \<and> (recid AND 2 \<noteq> 0 \<longleftrightarrow> order \<le> cv_x C (multiple C k)) \<and> (recid AND 1 \<noteq> 0 \<longleftrightarrow> odd (cv_y C (multiple C k))))"

lemma recid_bits:
  fixes a b c :: bool
  defines "recid \<equiv> (push_bit 1 (of_bool a) OR of_bool b) XOR (of_bool c :: nat)"
  shows "recid < 4" "recid AND 2 \<noteq> 0 \<longleftrightarrow> a" "recid AND 1 \<noteq> 0 \<longleftrightarrow> b \<noteq> c"
  unfolding recid_def by (cases a; cases b; cases c; simp)+

lemma low_s:
  assumes "sval s < order"
  defines "t \<equiv> fst (scalar_cond_negate s (scalar_is_high s))"
  shows "sval t \<le> order div 2" "congr (ival t) (if scalar_is_high s then - ival s else ival s)"
  using assms congr_negate [of s] by (auto simp: t_def cond_negate_spec is_high_iff negate_spec)

lemma sig_sign_signs:
  assumes laws: "curve_laws C" and inv: "inverts_on C A" "non \<in> A" and non: "0 < sval non" "sval non < order" and "sval msg < order"
    and sign: "ecdsa_sig_sign C sec msg non = (True, out)"
  shows "signs C sec msg non out"
proof -
  let ?R = "multiple C (ival non)"
  let ?r = "fst (scalar_set_b32 (fe_get_b32 (cv_x C ?R)))" and ?over = "snd (scalar_set_b32 (fe_get_b32 (cv_x C ?R)))"
  let ?n = "fst (scalar_add (scalar_mul ?r sec) msg)"
  let ?t = "scalar_mul (cv_inverse C non) ?n"
  let ?high = "scalar_is_high ?t"
  let ?s = "fst (scalar_cond_negate ?t ?high)"
  let ?recid = "(push_bit 1 (of_bool ?over) OR of_bool (odd (cv_y C ?R))) XOR (of_bool ?high :: nat)"
  have out: "out = (?r, ?s, ?recid)" and pos: "0 < sval ?r" "0 < sval ?s"
    using sign unfolding ecdsa_sig_sign_def ecmult_gen_multiple [OF non(2)] Let_def case_prod_unfold by (auto simp: is_zero_iff)
  define k where "k = (if ?high then - ival non else ival non)"
  have coords: "cv_x C ?R < field_p" "cv_x C (multiple C k) = cv_x C ?R" "odd (cv_y C (multiple C k)) \<longleftrightarrow> odd (cv_y C ?R) \<noteq> ?high"
    using laws not_dvd_ival [OF non] by (auto simp: curve_laws_def coordinate_laws_def k_def)
  have "congr (ival ?s) (if ?high then - ival ?t else ival ?t)" by (rule low_s(2) [OF mul_less])
  from congr_mult [OF this congr_refl, of k] have "congr (ival ?s * k) (ival ?t * ival non)" by (simp add: k_def split: if_splits)
  also have "congr \<dots> (ival (cv_inverse C non) * ival ?n * ival non)" by (intro congr_mult congr_mul congr_refl)
  also have "\<dots> = ival non * ival (cv_inverse C non) * ival ?n" by simp
  also have "congr \<dots> (1 * ival ?n)" by (intro congr_mult congr_inverse [OF inv non] congr_refl)
  also have "congr \<dots> (ival (scalar_mul ?r sec) + ival msg)" using congr_sum [OF mul_less assms(6), of ?r sec] by simp
  also have "congr \<dots> (ival ?r * ival sec + ival msg)" by (intro congr_add congr_mul congr_refl)
  also have "\<dots> = ival msg + ival ?r * ival sec" by simp
  finally have eq: "congr (ival ?s * k) (ival msg + ival ?r * ival sec)" .
  have r: "sval ?r = cv_x C (multiple C k) mod order" "?over \<longleftrightarrow> order \<le> cv_x C (multiple C k)"
    using set_b32_spec [of "fe_get_b32 (cv_x C ?R)"] coords by (simp_all add: be_value_fe_get_b32)
  have "k = ival non \<or> k = - ival non" by (simp add: k_def)
  then show ?thesis
    unfolding out signs_def prod.case using eq pos r(1) low_s(1) [OF mul_less, of "cv_inverse C non" ?n]
      recid_bits [of ?over "odd (cv_y C ?R)" ?high] r(2) coords(3) by (intro exI [of _ k]) simp
qed

section \<open>Verification and recovery\<close>

lemma field_bounds: "field_p = order + const_p_minus_order" "field_p < 2 * order" "const_order_as_fe = order"
  by (simp_all add: field_p_def order_def const_p_minus_order_def const_order_as_fe_def)

lemma signsE:
  assumes "signs C sec msg non (r, s, recid)" "curve_laws C" "0 < sval non" "sval non < order"
  obtains k where "\<not> int order dvd k" "congr (ival s * k) (ival msg + ival r * ival sec)"
    "0 < sval r" "sval r < order" "0 < sval s" "sval s < order" "\<not> scalar_is_high s" "recid < 4"
    "sval r = cv_x C (multiple C k) mod order" "cv_x C (multiple C k) < field_p"
    "recid AND 2 \<noteq> 0 \<longleftrightarrow> order \<le> cv_x C (multiple C k)" "recid AND 1 \<noteq> 0 \<longleftrightarrow> odd (cv_y C (multiple C k))"
proof -
  from assms(1) obtain k where k: "k = ival non \<or> k = - ival non" "congr (ival s * k) (ival msg + ival r * ival sec)"
    "0 < sval r" "sval r = cv_x C (multiple C k) mod order" "0 < sval s" "sval s \<le> order div 2" "recid < 4"
    "recid AND 2 \<noteq> 0 \<longleftrightarrow> order \<le> cv_x C (multiple C k)" "recid AND 1 \<noteq> 0 \<longleftrightarrow> odd (cv_y C (multiple C k))"
    unfolding signs_def prod.case by blast
  moreover have dvd: "\<not> int order dvd k" using k(1) not_dvd_ival [OF assms(3,4)] by auto
  moreover have "cv_x C (multiple C k) < field_p" using dvd assms(2) by (simp add: curve_laws_def coordinate_laws_def)
  moreover have "sval r < order" "sval s < order" "\<not> scalar_is_high s"
    using k order_bounds by (simp_all add: is_high_iff)
  ultimately show thesis using that by blast
qed

text \<open>The \<open>x\<close> coordinate is \<open>r\<close> or, in the rare case, \<open>r\<close> plus the order.\<close>

lemma x_of_r:
  assumes "r = x mod order" "x < field_p"
  shows "x < order \<Longrightarrow> r = x" "order \<le> x \<Longrightarrow> \<not> const_p_minus_order \<le> r \<and> (r + const_order_as_fe) mod field_p = x"
proof -
  show "x < order \<Longrightarrow> r = x" using assms by simp
  assume "order \<le> x"
  moreover from this have "r = x - order" using assms field_bounds by (simp add: le_mod_geq)
  ultimately show "\<not> const_p_minus_order \<le> r \<and> (r + const_order_as_fe) mod field_p = x" using assms field_bounds by simp
qed

lemma verify_signs:
  assumes "curve_laws C" "inverts_on C A" "s \<in> A" "0 < sval non" "sval non < order" "sval msg < order"
    and "signs C sec msg non (r, s, recid)"
  shows "ecdsa_sig_verify C r s (multiple C (ival sec)) msg"
  using assms(7,1,4,5)
proof (cases rule: signsE)
  case (1 k)
  let ?n = "cv_inverse C s"
  let ?u = "scalar_mul ?n msg" and ?v = "scalar_mul ?n r"
  have "congr (ival ?v * ival sec + ival ?u) (ival ?n * ival r * ival sec + ival ?n * ival msg)"
    by (intro congr_add congr_mult congr_mul congr_refl)
  also have "\<dots> = ival ?n * (ival msg + ival r * ival sec)" by (simp add: algebra_simps)
  also have "congr \<dots> (ival ?n * (ival s * k))" by (intro congr_mult congr_refl congr_sym [OF 1(2)])
  also have "\<dots> = ival s * ival ?n * k" by simp
  also have "congr \<dots> (1 * k)" by (intro congr_mult congr_inverse [OF assms(2,3) 1(5,6)] congr_refl)
  finally have "congr (ival ?v * ival sec + ival ?u) k" by simp
  then have pr: "cv_ecmult C (multiple C (ival sec)) ?v ?u = multiple C k"
    using assms(1) congr_multiple by (simp add: curve_laws_def group_laws_def mul_less)
  have "\<not> cv_is_infinity C (multiple C k)" using assms(1) 1(1) by (simp add: curve_laws_def group_laws_def)
  then show ?thesis
    using 1(3,5) x_of_r [OF 1(9,10)] by (cases "cv_x C (multiple C k) < order")
      (simp_all add: ecdsa_sig_verify_def is_zero_iff be_value_get_b32 pr Let_def not_less)
qed

lemma recover_signs:
  assumes "curve_laws C" "inverts_on C A" "r \<in> A" "0 < sval non" "sval non < order" "sval msg < order"
    and "0 < sval sec" "sval sec < order" and "signs C sec msg non (r, s, recid)"
  shows "ecdsa_sig_recover C r s msg recid = Some (multiple C (ival sec))"
  using assms(9,1,4,5)
proof (cases rule: signsE)
  case (1 k)
  let ?n = "cv_inverse C r"
  let ?u = "scalar_negate (scalar_mul ?n msg)" and ?v = "scalar_mul ?n s"
  have "congr (ival ?v * k + ival ?u) (ival ?n * ival s * k + - (ival ?n * ival msg))"
    by (intro congr_add congr_mult congr_mul congr_refl congr_trans [OF congr_negate [OF mul_less]] congr_minus)
  also have "\<dots> = ival ?n * (ival s * k) + - (ival ?n * ival msg)" by simp
  also have "congr \<dots> (ival ?n * (ival msg + ival r * ival sec) + - (ival ?n * ival msg))"
    by (intro congr_add congr_mult congr_refl 1(2))
  also have "\<dots> = ival r * ival ?n * ival sec" by (simp add: algebra_simps)
  also have "congr \<dots> (1 * ival sec)" by (intro congr_mult congr_inverse [OF assms(2,3) 1(3,4)] congr_refl)
  finally have "congr (ival ?v * k + ival ?u) (ival sec)" by simp
  moreover have "sval ?u < order" using mul_less [of ?n msg] by (simp add: negate_spec)
  ultimately have q: "cv_ecmult C (multiple C k) ?v ?u = multiple C (ival sec)"
    using assms(1) congr_multiple by (simp add: curve_laws_def group_laws_def mul_less)
  have "\<not> cv_is_infinity C (multiple C (ival sec))" using assms(1) not_dvd_ival [OF assms(7,8)] by (simp add: curve_laws_def group_laws_def)
  moreover have "cv_set_xo C (cv_x C (multiple C k)) (odd (cv_y C (multiple C k))) = Some (multiple C k)"
    using assms(1) 1(1) by (simp add: curve_laws_def encoding_laws_def)
  ultimately show ?thesis
    using 1(3,5) x_of_r [OF 1(9,10)] unfolding ecdsa_sig_recover_def be_value_get_b32 1(11,12)
    by (cases "cv_x C (multiple C k) < order") (simp_all add: is_zero_iff q Let_def not_less not_le)
qed

section \<open>Objects\<close>

lemma limb_round: "limb_of_image (limb_image x @ b) = x"
  by (rule unat_inject [THEN iffD1]) (simp add: limb_of_image_def limb_image_def read_be64_value be_value_write_be64)

lemma length_limb_image [simp]: "length (limb_image x) = 8"
  by (simp add: limb_image_def)

lemma scalar_round: "scalar_of_image (scalar_image a @ b) = a"
  by (simp add: scalar_of_image_def scalar_image_def limb_round)

lemma length_scalar_image [simp]: "length (scalar_image a) = 32"
  by (simp add: scalar_image_def)

lemma signature_round: "ecdsa_signature_load (ecdsa_signature_save r s) = (r, s)"
  using scalar_round [of s "[]"] by (simp add: ecdsa_signature_load_def ecdsa_signature_save_def scalar_round)

lemma recoverable_round: "recid < 4 \<Longrightarrow> recoverable_signature_load (recoverable_signature_save r s recid) = (r, s, recid)"
  by (simp add: recoverable_signature_load_def recoverable_signature_save_def scalar_round nth_append unsigned_of_nat take_bit_eq_mod)

lemma set_b32_append:
  assumes "length a = 32"
  shows "scalar_set_b32 (a @ b) = scalar_set_b32 a"
proof -
  have "read_be64 (p @ b) = read_be64 p" if "length p \<ge> 8" for p
    using that by (cases "p = []") (simp_all add: read_be64_def nth_append)
  then show ?thesis using assms by (simp add: scalar_set_b32_def)
qed

lemma parse_compact:
  assumes "sval r < order" "sval s < order"
  shows "recid < 4 \<Longrightarrow> secp_recoverable_parse_compact (scalar_get_b32 r @ scalar_get_b32 s) recid = Some (recoverable_signature_save r s recid)"
    and "secp_signature_parse_compact (scalar_get_b32 r @ scalar_get_b32 s) = Some (ecdsa_signature_save r s)"
  using assms by (simp_all add: secp_recoverable_parse_compact_def secp_signature_parse_compact_def set_b32_append set_get_b32)

section \<open>The signing loop\<close>

definition accepts :: "'p curve \<Rightarrow> secp256k1_scalar \<Rightarrow> secp256k1_scalar \<Rightarrow> bytes \<Rightarrow> bool" where
  "accepts C sec msg nonce32 \<longleftrightarrow> (case scalar_set_b32_seckey nonce32 of (non, ok) \<Rightarrow> ok \<and> fst (ecdsa_sig_sign C sec msg non))"

definition signed_with :: "'p curve \<Rightarrow> secp256k1_scalar \<Rightarrow> secp256k1_scalar \<Rightarrow> bytes \<Rightarrow> secp256k1_scalar \<times> secp256k1_scalar \<times> nat" where
  "signed_with C sec msg nonce32 = snd (ecdsa_sig_sign C sec msg (fst (scalar_set_b32_seckey nonce32)))"

lemma signLoop_unfold:
  "signLoop C draw sec msg out cnt =
    (case draw cnt of
       None \<Rightarrow> Some (False, out)
     | Some b \<Rightarrow> if accepts C sec msg b then Some (True, signed_with C sec msg b)
         else signLoop C draw sec msg (if snd (scalar_set_b32_seckey b) then signed_with C sec msg b else out) (cnt + 1))"
  by (subst signLoop.simps) (simp add: accepts_def signed_with_def split_def Let_def split: option.split)

lemma signLoop_first:
  assumes "\<And>i. i < n \<Longrightarrow> \<exists>b. draw (word_of_nat i) = Some b \<and> \<not> accepts C sec msg b"
    and "draw (word_of_nat n) = Some b" "accepts C sec msg b" and "m \<le> n"
  shows "signLoop C draw sec msg out (word_of_nat m) = Some (True, signed_with C sec msg b)"
  using assms(4,1)
proof (induction m arbitrary: out rule: inc_induct)
  case base
  with assms(2,3) show ?case by (simp add: signLoop_unfold [of C draw])
next
  case (step m)
  then obtain b' where "draw (word_of_nat m) = Some b'" "\<not> accepts C sec msg b'" by blast
  with step show ?case by (subst signLoop_unfold) (simp add: add.commute)
qed

lemma signLoop_result:
  assumes "signLoop C draw sec msg out cnt = Some (True, res)"
  shows "\<exists>c b. draw c = Some b \<and> accepts C sec msg b \<and> res = signed_with C sec msg b"
proof -
  have "fst y \<longrightarrow> (\<exists>c b. draw c = Some b \<and> accepts C sec msg b \<and> snd y = signed_with C sec msg b)"
    if "signLoop C draw sec msg out cnt = Some y" for y
  proof (rule signLoop.raw_induct [OF _ that])
    fix loop and C :: "'a curve" and draw sec msg out cnt y
    assume IH: "\<And>C draw sec msg out cnt y. loop C draw sec msg out cnt = Some y \<Longrightarrow>
        fst y \<longrightarrow> (\<exists>c b. draw c = Some b \<and> accepts C sec msg b \<and> snd y = signed_with C sec msg b)"
      and body: "(case draw cnt of
        None \<Rightarrow> Some (False, out)
      | Some nonce32 \<Rightarrow>
          let (non, is_nonce_valid) = scalar_set_b32_seckey nonce32 in
          if is_nonce_valid then
            let (ret, out) = ecdsa_sig_sign C sec msg non in
            if ret then Some (True, out) else loop C draw sec msg out (cnt + 1)
          else loop C draw sec msg out (cnt + 1)) = Some y"
    show "fst y \<longrightarrow> (\<exists>c b. draw c = Some b \<and> accepts C sec msg b \<and> snd y = signed_with C sec msg b)"
    proof (cases "draw cnt")
      case None
      with body show ?thesis by auto
    next
      case (Some b)
      obtain non ok where b: "scalar_set_b32_seckey b = (non, ok)" by force
      obtain ret out' where sig: "ecdsa_sig_sign C sec msg non = (ret, out')" by (metis surj_pair)
      show ?thesis
      proof (cases "ok \<and> ret")
        case True
        with body Some b sig have "y = (True, out')" by simp
        moreover have "accepts C sec msg b" "signed_with C sec msg b = out'"
          using True b sig by (simp_all add: accepts_def signed_with_def)
        ultimately show ?thesis using Some by auto
      next
        case False
        with body Some b sig obtain o' where "loop C draw sec msg o' (cnt + 1) = Some y" by (auto split: if_splits)
        with IH show ?thesis by blast
      qed
    qed
  qed
  from this [OF assms] show ?thesis by simp
qed

lemma signLoop_iff:
  fixes cand :: "nat \<Rightarrow> bytes"
  assumes "\<And>c. draw c = Some (cand (unat c))"
  shows "signLoop C draw sec msg out 0 = Some (True, res) \<longleftrightarrow>
    (\<exists>n < 2 ^ 32. accepts C sec msg (cand n) \<and> (\<forall>i < n. \<not> accepts C sec msg (cand i)) \<and> res = signed_with C sec msg (cand n))"
proof -
  have draw: "draw (word_of_nat i) = Some (cand i)" if "i < 2 ^ 32" for i
    using that by (simp add: assms unsigned_of_nat take_bit_eq_mod)
  have first: "signLoop C draw sec msg out 0 = Some (True, signed_with C sec msg (cand n))"
    if "n < 2 ^ 32" "accepts C sec msg (cand n)" "\<forall>i < n. \<not> accepts C sec msg (cand i)" for n
  proof -
    have "\<exists>b. draw (word_of_nat i) = Some b \<and> \<not> accepts C sec msg b" if "i < n" for i
      using draw [of i] \<open>n < 2 ^ 32\<close> \<open>\<forall>i < n. _ i\<close> that by simp
    from signLoop_first [of n draw C sec msg "cand n", OF this draw [OF that(1)] that(2), of 0 out] show ?thesis by simp
  qed
  show ?thesis
  proof
    assume L: "signLoop C draw sec msg out 0 = Some (True, res)"
    from signLoop_result [OF L] obtain c b where "draw c = Some b" "accepts C sec msg b" by blast
    then have c: "accepts C sec msg (cand (unat c))" by (simp add: assms)
    define n where "n = (LEAST i. accepts C sec msg (cand i))"
    have "n \<le> unat c" unfolding n_def using c by (rule Least_le)
    also have "unat c < 2 ^ 32" using unsigned_less [of c, where ?'a = nat] by simp
    finally have n: "n < 2 ^ 32" "accepts C sec msg (cand n)" "\<forall>i < n. \<not> accepts C sec msg (cand i)"
      unfolding n_def using LeastI [of "\<lambda>i. accepts C sec msg (cand i)", OF c] not_less_Least by blast+
    from first [OF n] L have "res = signed_with C sec msg (cand n)" by simp
    with n show "\<exists>n < 2 ^ 32. accepts C sec msg (cand n) \<and> (\<forall>i < n. \<not> accepts C sec msg (cand i)) \<and> res = signed_with C sec msg (cand n)"
      by blast
  qed (use first in blast)
qed

lemma sign_innerE:
  assumes "ecdsa_sign_inner C dflt noncefp msg32 seckey data = Some (True, r, s, recid)"
  obtains sec b non where "scalar_set_b32_seckey seckey = (sec, True)" "scalar_set_b32_seckey b = (non, True)"
    "\<exists>c. (case noncefp of None \<Rightarrow> dflt | Some f \<Rightarrow> f) msg32 seckey None data c = Some b"
    "ecdsa_sig_sign C sec (fst (scalar_set_b32 msg32)) non = (True, r, s, recid)"
proof -
  obtain sec ok where sec: "scalar_set_b32_seckey seckey = (sec, ok)" by force
  let ?draw = "(case noncefp of None \<Rightarrow> dflt | Some f \<Rightarrow> f) msg32 seckey None data" and ?msg = "fst (scalar_set_b32 msg32)"
  have ok and loop: "signLoop C ?draw sec ?msg (scalar_zero, scalar_zero, 0) 0 = Some (True, r, s, recid)"
    using assms by (auto simp: ecdsa_sign_inner_def sec cmov_spec Let_def split: option.splits if_splits)
  from signLoop_result [OF loop] obtain c b where b: "?draw c = Some b" "accepts C sec ?msg b" "(r, s, recid) = signed_with C sec ?msg b" by blast
  obtain non where "scalar_set_b32_seckey b = (non, True)" "fst (ecdsa_sig_sign C sec ?msg non)"
    using b(2) by (auto simp: accepts_def split: prod.splits)
  moreover from this b(3) have "ecdsa_sig_sign C sec ?msg non = (True, r, s, recid)" by (simp add: signed_with_def prod_eq_iff)
  ultimately show thesis using that [of sec b non] sec b(1) \<open>ok\<close> by auto
qed

end
