(* ===== verification/Ecdsa_Keys.thy ===== *)
theory Ecdsa_Keys
  imports Ecdsa
begin

text \<open>
  What the signature code of the vendored curve library promises to \<open>src/src/keys.cpp\<close>: the record \<open>curve_secp\<close> fills the interface of \<open>Keys\<close> with the models of the
  C functions, and the documented behaviour that \<open>Keys\<close> assumes of the library is proved of them, from the laws of the curve where it
  depends on them.
\<close>

section \<open>Ranges\<close>

lemma sig_sign_range:
  assumes "ecdsa_sig_sign C sec msg non = (ret, r, s, recid)"
  shows "sval r < order" "sval s < order" "recid < 4"
proof -
  from assms show "sval r < order" unfolding ecdsa_sig_sign_def Let_def case_prod_unfold using set_b32_less by auto
  from assms show "recid < 4" unfolding ecdsa_sig_sign_def Let_def case_prod_unfold using recid_bits(1) by auto
  from assms obtain t where "sval t < order" "s = fst (scalar_cond_negate t (scalar_is_high t))"
    unfolding ecdsa_sig_sign_def Let_def case_prod_unfold using mul_less by auto
  then show "sval s < order" using low_s(1) [of t] order_bounds(1) by simp
qed

lemma sign_recoverableE:
  assumes "secp_ecdsa_sign_recoverable C dflt noncefp msg key data = Some (True, rs)"
  obtains sec b non r s recid where "scalar_set_b32_seckey key = (sec, True)" "scalar_set_b32_seckey b = (non, True)"
    "\<exists>c. (case noncefp of None \<Rightarrow> dflt | Some f \<Rightarrow> f) msg key None data c = Some b"
    "ecdsa_sig_sign C sec (fst (scalar_set_b32 msg)) non = (True, r, s, recid)" "rs = recoverable_signature_save r s recid"
proof -
  from assms obtain r s recid where inner: "ecdsa_sign_inner C dflt noncefp msg key data = Some (True, r, s, recid)"
    and rs: "rs = recoverable_signature_save r s recid"
    by (auto simp: secp_ecdsa_sign_recoverable_def split: option.splits)
  show thesis by (rule sign_innerE [OF inner]) (rule that, assumption+, rule rs)
qed

lemma sign_recoverable_format:
  assumes "secp_ecdsa_sign_recoverable C dflt noncefp msg key data = Some (True, rs)"
  obtains r s recid where "recoverable_signature_load rs = (r, s, recid)" "recid < 4" "sval r < order" "sval s < order"
    "secp_recoverable_serialize_compact rs = (scalar_get_b32 r @ scalar_get_b32 s, recid)"
    "secp_recoverable_parse_compact (scalar_get_b32 r @ scalar_get_b32 s) recid = Some rs"
  using assms
proof (cases rule: sign_recoverableE)
  case (1 sec b non r s recid)
  note range = sig_sign_range [OF 1(4)]
  show thesis
    by (rule that [of r s recid])
      (use range 1(5) in \<open>simp_all add: recoverable_round secp_recoverable_serialize_compact_def parse_compact\<close>)
qed

lemma sign_recoverable_correct:
  assumes "curve_laws C" "inverts_on C A"
    and nonces: "\<And>c b. (case noncefp of None \<Rightarrow> dflt | Some f \<Rightarrow> f) msg key None data c = Some b \<Longrightarrow> fst (scalar_set_b32 b) \<in> A"
    and sign: "secp_ecdsa_sign_recoverable C dflt noncefp msg key data = Some (True, rs)"
    and load: "recoverable_signature_load rs = (r, s, recid)" "r \<in> A" "s \<in> A"
  shows "\<exists>pk sg. secp_ec_pubkey_create C key = Some pk \<and> secp_ecdsa_recover C rs msg = Some pk \<and>
    secp_signature_parse_compact (scalar_get_b32 r @ scalar_get_b32 s) = Some sg \<and> secp_signature_normalize sg = (sg, False) \<and>
    secp_ecdsa_verify C sg msg pk"
  using sign
proof (cases rule: sign_recoverableE)
  case (1 sec b non r' s' recid')
  note range = sig_sign_range [OF 1(4)]
  have eq: "r' = r" "s' = s" "recid' = recid" using load(1) 1(5) range by (simp_all add: recoverable_round)
  note non = seckeyD [OF 1(2)] and sec = seckeyD [OF 1(1)]
  let ?msg = "fst (scalar_set_b32 msg)"
  have "non \<in> A" using nonces 1(2,3) by (fastforce simp: scalar_set_b32_seckey_def case_prod_unfold Let_def)
  then have signs: "signs C sec ?msg non (r, s, recid)"
    using sig_sign_signs [OF assms(1,2) _ non set_b32_less] 1(4) eq by simp
  have create: "secp_ec_pubkey_create C key = Some (cv_to_bytes C (multiple C (ival sec)))"
    using sec by (simp add: secp_ec_pubkey_create_def pubkey_create_helper_def 1(1) cmov_spec ecmult_gen_multiple)
  have stored: "pubkey_load C (cv_to_bytes C (multiple C (ival sec))) = Some (multiple C (ival sec))"
    using assms(1) not_dvd_ival [OF sec] by (simp add: pubkey_load_def curve_laws_def coordinate_laws_def encoding_laws_def Let_def)
  have "secp_ecdsa_recover C rs msg = Some (cv_to_bytes C (multiple C (ival sec)))"
    using recover_signs [OF assms(1,2) load(2) non set_b32_less sec signs] load(1) by (simp add: secp_ecdsa_recover_def)
  moreover have "\<not> scalar_is_high s" using signs assms(1) non by (rule signsE)
  moreover have "ecdsa_sig_verify C r s (multiple C (ival sec)) ?msg"
    by (rule verify_signs [OF assms(1,2) load(3) non set_b32_less signs])
  ultimately show ?thesis
    using create stored range eq
    by (simp add: parse_compact secp_signature_normalize_def secp_ecdsa_verify_def signature_round)
qed

section \<open>The library interface\<close>

text \<open>
  \<open>KeyPair\<close> calls the signing function with the default nonce function and without extra data. A signing loop that never ends is a
  call without result; the interface has no value for it and lists it with the failures.
\<close>

definition curve_secp :: "'p curve \<Rightarrow> secp256k1_hmac_sha256 \<times> secp256k1_sha256 \<Rightarrow> secp256k1" where
  "curve_secp C junk = \<lparr>
     ec_seckey_verify = secp_ec_seckey_verify,
     ec_pubkey_create = secp_ec_pubkey_create C,
     ec_pubkey_serialize = secp_ec_pubkey_serialize C,
     ec_pubkey_parse = secp_ec_pubkey_parse C,
     ecdsa_sign_recoverable = (\<lambda>msg key. case secp_ecdsa_sign_recoverable C (nonce_function_rfc6979 junk) None msg key None of
         Some (True, sig) \<Rightarrow> Some sig | _ \<Rightarrow> None),
     recoverable_serialize_compact = secp_recoverable_serialize_compact,
     recoverable_parse_compact = secp_recoverable_parse_compact,
     ecdsa_recover = secp_ecdsa_recover C,
     ecdsa_signature_parse_compact = secp_signature_parse_compact,
     ecdsa_signature_normalize = (\<lambda>sig. fst (secp_signature_normalize sig)),
     ecdsa_verify = secp_ecdsa_verify C \<rparr>"

lemma curve_sign_iff:
  "ecdsa_sign_recoverable (curve_secp C junk) msg key = Some rs \<longleftrightarrow>
    secp_ecdsa_sign_recoverable C (nonce_function_rfc6979 junk) None msg key None = Some (True, rs)"
  by (auto simp: curve_secp_def split: option.split prod.split bool.split)

text \<open>The hypotheses of \<open>Keys\<close> that rest on the group, for a library whose curve keeps its laws and whose modular inverse is one.\<close>

lemma curve_contract:
  assumes "curve_laws C" "inverts_on C UNIV"
  shows "recover_signed (curve_secp C junk)" and "verify_signed (curve_secp C junk)" and "pubkey_reparse (curve_secp C junk)"
proof -
  have signed: "\<exists>sg. secp_ecdsa_recover C rs h = Some pk \<and>
      secp_signature_parse_compact (fst (secp_recoverable_serialize_compact rs)) = Some sg \<and>
      fst (secp_signature_normalize sg) = sg \<and> secp_ecdsa_verify C sg h pk"
    if create: "secp_ec_pubkey_create C k = Some pk" and sign: "ecdsa_sign_recoverable (curve_secp C junk) h k = Some rs" for h k pk rs
  proof -
    note s = sign [unfolded curve_sign_iff]
    obtain r s recid where "recoverable_signature_load rs = (r, s, recid)"
      "secp_recoverable_serialize_compact rs = (scalar_get_b32 r @ scalar_get_b32 s, recid)"
      using s by (rule sign_recoverable_format)
    with sign_recoverable_correct [OF assms _ s, of r s recid] create show ?thesis by auto
  qed
  from signed show "recover_signed (curve_secp C junk)" by (simp add: recover_signed_def) (fastforce simp: curve_secp_def)
  from signed show "verify_signed (curve_secp C junk)" by (simp add: verify_signed_def) (fastforce simp: curve_secp_def)
  show "pubkey_reparse (curve_secp C junk)"
    unfolding pubkey_reparse_def
  proof (intro allI impI)
    fix k pk
    assume "ec_pubkey_create (curve_secp C junk) k = Some pk"
    then obtain sec where sec: "scalar_set_b32_seckey k = (sec, True)" and pk: "pk = cv_to_bytes C (multiple C (ival sec))"
      by (auto simp: curve_secp_def secp_ec_pubkey_create_def pubkey_create_helper_def cmov_spec ecmult_gen_multiple
          dest: seckeyD(2) split: prod.splits if_splits)
    let ?P = "multiple C (ival sec)"
    have laws: "\<not> cv_is_infinity C ?P" "0 < cv_x C ?P" "cv_x C ?P < field_p" "cv_y C ?P < field_p" "cv_set_xy C (cv_x C ?P) (cv_y C ?P) = Some ?P"
      "cv_from_bytes C (cv_to_bytes C ?P) = ?P"
      using assms(1) not_dvd_ival [OF seckeyD [OF sec]]
      by (simp_all add: curve_laws_def group_laws_def coordinate_laws_def encoding_laws_def)
    then show "hd (ec_pubkey_serialize (curve_secp C junk) pk) = 0x04 \<and>
        ec_pubkey_parse (curve_secp C junk) (ec_pubkey_serialize (curve_secp C junk) pk) = Some pk"
      by (simp add: pk curve_secp_def secp_ec_pubkey_serialize_def pubkey_load_def Let_def eckey_pubkey_serialize_def secp_ec_pubkey_parse_def
          eckey_pubkey_parse_def fe_set_b32_limit_def be_value_fe_get_b32)
  qed
qed

section \<open>A small instance\<close>

text \<open>
  Numbers modulo the order in place of points (no cryptography), with an inverse for 1 and 2: it keeps the laws of the curve.
\<close>

definition residue_curve :: "nat curve" where
  "residue_curve = \<lparr>
     cv_ecmult_gen = sval,
     cv_ecmult = (\<lambda>p a b. (sval a * p + sval b) mod order),
     cv_is_infinity = (\<lambda>p. p = 0),
     cv_x = (\<lambda>p. min p (order - p)),
     cv_y = (\<lambda>p. if p \<le> order div 2 then 2 else 1),
     cv_set_xo = (\<lambda>x odd. Some (if odd then order - x else x)),
     cv_set_xy = (\<lambda>x y. Some (if y = 1 then order - x else x)),
     cv_inverse = (\<lambda>a. if a = nat_scalar 2 then nat_scalar ((order + 1) div 2) else a),
     cv_to_bytes = (\<lambda>p. scalar_get_b32 (nat_scalar p)),
     cv_from_bytes = be_value \<rparr>"

lemma sval_nat_scalar:
  assumes "n < 2 ^ 256"
  shows "sval (nat_scalar n) = n"
proof -
  have u: "unat (word_of_nat m :: u64) = m mod 2 ^ 64" for m by (simp add: unsigned_of_nat take_bit_eq_mod)
  have div: "n div 2 ^ 128 = n div 2 ^ 64 div 2 ^ 64" "n div 2 ^ 192 = n div 2 ^ 64 div 2 ^ 64 div 2 ^ 64"
    by (simp_all add: div_mult2_eq [symmetric])
  have small: "n div 2 ^ 64 div 2 ^ 64 div 2 ^ 64 mod 2 ^ 64 = n div 2 ^ 64 div 2 ^ 64 div 2 ^ 64"
    using assms by (simp add: div_mult2_eq [symmetric] less_mult_imp_div_less)
  have join: "a mod 2 ^ 64 + 2 ^ 64 * (a div 2 ^ 64) = a" for a :: nat by (rule mod_mult_div_eq)
  show ?thesis unfolding sval_def nat_scalar_def secp256k1_scalar.select_convs u div small join by (rule refl)
qed

lemma residue_multiple: "multiple residue_curve k = nat (k mod int order)"
proof -
  have "nat (k mod int order) < order" using order_bounds(1) by (simp add: nat_less_iff)
  then have "nat (k mod int order) < 2 ^ 256" using order_bounds(2) by (rule less_trans)
  then show ?thesis by (simp add: multiple_def residue_curve_def sval_nat_scalar)
qed

lemma residue_inverse:
  assumes "\<not> int order dvd k"
  shows "0 < nat (k mod int order)" "nat (k mod int order) < order" "nat (- k mod int order) = order - nat (k mod int order)"
proof -
  let ?m = "k mod int order"
  have "?m \<noteq> 0" using assms by (simp add: dvd_eq_mod_eq_0)
  moreover have "0 \<le> ?m" and m2: "?m < int order" using order_bounds(1) by simp_all
  ultimately have m: "0 < ?m" "?m < int order" by linarith+
  then show "0 < nat ?m" "nat ?m < order" by auto
  have "- k mod int order = int order - ?m" using m(1) by (simp add: zmod_zminus1_eq_if)
  then show "nat (- k mod int order) = order - nat ?m" using m by simp
qed

lemma residue_laws: "curve_laws residue_curve"
proof -
  have odd: "order = 2 * (order div 2) + 1" and big: "order < field_p" by (simp_all add: order_def field_p_def)
  have "group_laws residue_curve"
    unfolding group_laws_def residue_multiple
  proof (intro conjI allI impI)
    fix k a b
    let ?p = "nat (k mod int order)"
    have "0 \<le> k mod int order" using order_bounds(1) by simp
    moreover have "congr (ival a * (k mod int order) + ival b) (ival a * k + ival b)"
      by (intro congr_add congr_mult congr_refl) (simp add: congr_def)
    ultimately have "int (sval a * ?p + sval b) mod int order = (ival a * k + ival b) mod int order" by (simp add: ival_def congr_def)
    then have "int ((sval a * ?p + sval b) mod order) = (ival a * k + ival b) mod int order" by (simp only: zmod_int)
    then have "(sval a * ?p + sval b) mod order = nat ((ival a * k + ival b) mod int order)" by (metis nat_int)
    then show "cv_ecmult residue_curve ?p a b = nat ((ival a * k + ival b) mod int order)" by (simp add: residue_curve_def)
    have "?p = 0 \<longleftrightarrow> k mod int order = 0" using \<open>0 \<le> k mod int order\<close> by simp
    then show "cv_is_infinity residue_curve ?p \<longleftrightarrow> int order dvd k" by (simp add: residue_curve_def dvd_eq_mod_eq_0)
  qed
  moreover have "coordinate_laws residue_curve"
    unfolding coordinate_laws_def residue_multiple
  proof (intro allI impI)
    fix k assume "\<not> int order dvd k"
    note r = residue_inverse [OF this]
    show "0 < cv_x residue_curve (nat (k mod int order)) \<and> cv_x residue_curve (nat (k mod int order)) < field_p \<and>
        cv_y residue_curve (nat (k mod int order)) < field_p \<and>
        cv_x residue_curve (nat (- k mod int order)) = cv_x residue_curve (nat (k mod int order)) \<and>
        odd (cv_y residue_curve (nat (- k mod int order))) \<noteq> odd (cv_y residue_curve (nat (k mod int order)))"
      unfolding r(3) using r(1,2) odd big by (simp add: residue_curve_def min_def) linarith
  qed
  moreover have "encoding_laws residue_curve"
    unfolding encoding_laws_def residue_multiple
  proof (intro allI impI)
    fix k assume "\<not> int order dvd k"
    note r = residue_inverse [OF this]
    have "nat (k mod int order) < 2 ^ 256" using r(2) order_bounds(2) by (rule less_trans)
    then have "be_value (scalar_get_b32 (nat_scalar (nat (k mod int order)))) = nat (k mod int order)"
      unfolding be_value_get_b32 by (rule sval_nat_scalar)
    then show "cv_set_xo residue_curve (cv_x residue_curve (nat (k mod int order))) (odd (cv_y residue_curve (nat (k mod int order)))) =
          Some (nat (k mod int order)) \<and>
        cv_set_xy residue_curve (cv_x residue_curve (nat (k mod int order))) (cv_y residue_curve (nat (k mod int order))) =
          Some (nat (k mod int order)) \<and>
        cv_from_bytes residue_curve (cv_to_bytes residue_curve (nat (k mod int order))) = nat (k mod int order)"
      using r(1,2) odd by (simp add: residue_curve_def min_def) linarith
  qed
  ultimately show ?thesis by (simp add: curve_laws_def)
qed

lemma sval_12 [simp]: "sval scalar_one = 1" "sval (nat_scalar 2) = 2"
proof -
  show "sval scalar_one = 1" by (simp add: scalar_one_def sval_def)
  show "sval (nat_scalar 2) = 2" by (rule sval_nat_scalar) simp
qed

lemma one_two [simp]: "scalar_one \<noteq> nat_scalar 2"
  using sval_12 by force

lemma residue_inverts: "inverts_on residue_curve {scalar_one, nat_scalar 2}"
proof -
  have "sval (nat_scalar ((order + 1) div 2)) = (order + 1) div 2" by (rule sval_nat_scalar) (simp add: order_def)
  then show ?thesis by (simp add: inverts_on_def residue_curve_def) (simp add: order_def)
qed

definition one32 :: bytes where
  "one32 = scalar_get_b32 scalar_one"

lemma one32: "scalar_set_b32 one32 = (scalar_one, False)" "scalar_set_b32_seckey one32 = (scalar_one, True)" "length one32 = 32"
proof -
  show one: "scalar_set_b32 one32 = (scalar_one, False)"
    unfolding one32_def by (rule set_get_b32) (simp add: sval_12 order_def)
  show "scalar_set_b32_seckey one32 = (scalar_one, True)"
    by (simp add: scalar_set_b32_seckey_def one is_zero_iff sval_12)
  show "length one32 = 32" by (simp add: one32_def)
qed

text \<open>Message 1 signed with key 1 and nonce 1.\<close>

lemma residue_signature: "ecdsa_sig_sign residue_curve scalar_one scalar_one scalar_one = (True, scalar_one, nat_scalar 2, 0)"
proof -
  have big: "2 < order" "1 < order" "(1 :: nat) \<le> order div 2" "(2 :: nat) \<le> order div 2" "(1 :: nat) \<le> order - 1" by (simp_all add: order_def)
  have "fe_get_b32 1 = one32"
    by (rule be_value_inject) (simp_all add: be_value_fe_get_b32 field_p_def one32_def be_value_get_b32)
  moreover have "scalar_mul scalar_one scalar_one = scalar_one" "scalar_mul scalar_one (nat_scalar 2) = nat_scalar 2"
    by (rule sval_eqD; use big in \<open>simp add: mul_spec sval_12\<close>)+
  moreover have "fst (scalar_add scalar_one scalar_one) = nat_scalar 2"
    by (rule sval_eqD) (use big in \<open>simp add: add_spec sval_12\<close>)
  ultimately show ?thesis using big
    by (simp add: ecdsa_sig_sign_def residue_curve_def sval_12 one32(1) is_high_iff is_zero_iff cond_negate_spec min_def Let_def)
qed

section \<open>Properties\<close>

text \<open>
  C18. Signatures of the vendored library (external/secp256k1/src/ecdsa_impl.h, secp256k1.c, modules/recovery/main_impl.h): over any curve that keeps
  its laws, and with a modular inverse that inverts the nonces drawn and the two halves of the signature, whatever the signing call
  returns as a success is a recoverable signature that serialises to 64 bytes and an id below 4 and parses back, from which the
  public key of the signing key is recovered, and which, read as a plain signature, is already in low form and verifies under that
  key. Any nonce function may be used.
\<close>

theorem ecdsa_correct:
  assumes "curve_laws C" and "inverts_on C A"
    and "\<forall>c b. noncefp msg key None data c = Some b \<longrightarrow> fst (scalar_set_b32 b) \<in> A"
    and "secp_ecdsa_sign_recoverable C dflt (Some noncefp) msg key data = Some (True, rs)"
    and "recoverable_signature_load rs = (r, s, recid)" and "r \<in> A" and "s \<in> A"
  shows "\<exists>c pk sg. secp_recoverable_serialize_compact rs = (c, recid) \<and> length c = 64 \<and> recid < 4 \<and>
    secp_recoverable_parse_compact c recid = Some rs \<and>
    secp_ec_pubkey_create C key = Some pk \<and> secp_ecdsa_recover C rs msg = Some pk \<and>
    secp_signature_parse_compact c = Some sg \<and> secp_signature_normalize sg = (sg, False) \<and> secp_ecdsa_verify C sg msg pk"
proof -
  obtain pk sg where "secp_ec_pubkey_create C key = Some pk" "secp_ecdsa_recover C rs msg = Some pk"
    "secp_signature_parse_compact (scalar_get_b32 r @ scalar_get_b32 s) = Some sg" "secp_signature_normalize sg = (sg, False)"
    "secp_ecdsa_verify C sg msg pk"
    using sign_recoverable_correct [OF assms(1,2) _ assms(4,5,6,7)] assms(3) by auto
  with sign_recoverable_format [OF assms(4)] assms(5) show ?thesis by fastforce
qed

theorem ecdsa_correct_witness:
  "\<exists>rs pk. secp_ecdsa_sign_recoverable residue_curve (\<lambda>_ _ _ _ _. None) (Some (\<lambda>_ _ _ _ _. Some one32)) one32 one32 None = Some (True, rs) \<and>
    secp_ec_pubkey_create residue_curve one32 = Some pk \<and> secp_ecdsa_recover residue_curve rs one32 = Some pk"
proof -
  let ?rs = "recoverable_signature_save scalar_one (nat_scalar 2) 0"
  have sign: "secp_ecdsa_sign_recoverable residue_curve (\<lambda>_ _ _ _ _. None) (Some (\<lambda>_ _ _ _ _. Some one32)) one32 one32 None = Some (True, ?rs)"
    by (simp add: secp_ecdsa_sign_recoverable_def ecdsa_sign_inner_def one32 cmov_spec signLoop_unfold [of residue_curve]
        accepts_def signed_with_def residue_signature Let_def)
  have load: "recoverable_signature_load ?rs = (scalar_one, nat_scalar 2, 0)" by (rule recoverable_round) simp
  from ecdsa_correct [OF residue_laws residue_inverts _ sign load] show ?thesis using sign by (auto simp: one32)
qed

text \<open>The candidates RFC 6979 derives from a key and a message, and the first that signing can use.\<close>

definition nonce_candidate :: "bytes \<Rightarrow> bytes \<Rightarrow> nat \<Rightarrow> bytes" where
  "nonce_candidate key msg n = spec_candidate (key @ scalar_get_b32 (fst (scalar_set_b32 msg))) n"

definition first_candidate :: "'p curve \<Rightarrow> bytes \<Rightarrow> bytes \<Rightarrow> nat \<Rightarrow> bool" where
  "first_candidate C key msg n \<longleftrightarrow>
     (let d = fst (scalar_set_b32 key); z = fst (scalar_set_b32 msg)
      in accepts C d z (nonce_candidate key msg n) \<and> (\<forall>i < n. \<not> accepts C d z (nonce_candidate key msg i)))"


definition sample_junk :: "secp256k1_hmac_sha256 \<times> secp256k1_sha256" where
  "sample_junk = (let h = \<lparr> sh_s = replicate 8 3, sh_buf = replicate 64 5, sh_bytes = 9 \<rparr> in (\<lparr> hm_inner = h, hm_outer = h \<rparr>, h))"


text \<open>
  C27. The library behind \<open>KeyPair\<close> (src/keys.cpp with external/secp256k1): for every curve the interface of the modelled C code keeps the formats
  \<open>keys.cpp\<close> relies on: recoverable signatures serialise to 64 bytes and an id below 4 and parse back, public keys serialise to 65
  bytes, every accepted private key has a public key, and the accepted 32-byte private keys are exactly the numbers from 1 to the group
  order minus 1.
\<close>

theorem library_formats:
  "compact_format (curve_secp C junk) \<and> serialize_65 (curve_secp C junk) \<and> pubkey_exists (curve_secp C junk) \<and>
    (length k = 32 \<longrightarrow> (ec_seckey_verify (curve_secp C junk) k \<longleftrightarrow> 1 \<le> be_value k \<and> be_value k \<le> order - 1))"
proof (intro conjI impI)
  show "compact_format (curve_secp C junk)"
    unfolding compact_format_def curve_sign_iff
  proof (intro allI impI)
    fix h k rs c recid
    assume sign: "secp_ecdsa_sign_recoverable C (nonce_function_rfc6979 junk) None h k None = Some (True, rs)"
      and "recoverable_serialize_compact (curve_secp C junk) rs = (c, recid)"
    then show "length c = 64 \<and> recid < 4 \<and> recoverable_parse_compact (curve_secp C junk) c recid = Some rs"
      by (auto simp: curve_secp_def elim!: sign_recoverable_format)
  qed
  show "serialize_65 (curve_secp C junk)"
    by (auto simp: serialize_65_def curve_secp_def secp_ec_pubkey_serialize_def eckey_pubkey_serialize_def split: option.split)
  show "pubkey_exists (curve_secp C junk)"
    by (auto simp: pubkey_exists_def curve_secp_def secp_ec_pubkey_create_def pubkey_create_helper_def secp_ec_seckey_verify_def split: prod.splits)
  assume "length k = 32"
  then show "ec_seckey_verify (curve_secp C junk) k \<longleftrightarrow> 1 \<le> be_value k \<and> be_value k \<le> order - 1"
    using order_bounds(1) by (auto simp: curve_secp_def seckey_iff)
qed

theorem library_formats_witness:
  "length one32 = 32 \<and> ec_seckey_verify (curve_secp residue_curve sample_junk) one32"
  using library_formats [of residue_curve sample_junk one32] one32(3)
  by (simp add: one32_def be_value_get_b32 order_def)

section \<open>Field elements in keys and signatures\<close>

text \<open>
  The conversions of field elements, on limbs, implement the ones on values that keys and signatures use: writing gives the 32 big-endian bytes of the
  value, reading accepts exactly the values below the characteristic and gives a normalised element, and both round trips hold, as do those through the
  storage format.
\<close>
theorem field_encodings:
  assumes "fe_normal a" "length b = 32"
  shows "fe_impl_get_b32 a = fe_get_b32 (fval a) \<and> fe_impl_set_b32_limit (fe_impl_get_b32 a) = (a, True) \<and>
    fe_set_b32_limit b = (case fe_impl_set_b32_limit b of (r, ok) \<Rightarrow> if ok then Some (fval r) else None) \<and>
    (snd (fe_impl_set_b32_limit b) \<longrightarrow> fe_normal (fst (fe_impl_set_b32_limit b)) \<and> fe_impl_get_b32 (fst (fe_impl_set_b32_limit b)) = b) \<and>
    fe_impl_from_storage (fe_impl_to_storage a) = a \<and> stval (fe_impl_to_storage a) = fval a"
proof -
  have v: "be_value (fe_impl_get_b32 a) = fval a" using be_value_get_b32_fe [OF fe_normalD(1) fe_normal_top] assms(1) by blast
  have "fe_impl_get_b32 a = fe_get_b32 (fval a)" by (rule be_value_inject) (simp_all add: v be_value_fe_get_b32 fe_normalD(2) [OF assms(1)])
  moreover have "fe_impl_set_b32_limit (fe_impl_get_b32 a) = (a, True)"
    by (simp add: set_b32_limit_spec set_get_b32_fe [OF assms(1)] v fe_normalD(2) [OF assms(1)])
  ultimately show ?thesis
    using set_b32_mod_spec [OF assms(2)] get_set_b32_fe [OF assms(2)] storage_roundtrip(1) [OF assms(1)] to_storage_spec [OF fe_normalD(1) fe_normal_top] assms(1)
    by (simp add: set_b32_limit_spec [OF assms(2)] fe_set_b32_limit_def fe_normal_def)
qed

lemma be_value_ones: "be_value (replicate n 0xFF) + 1 = 256 ^ n"
  by (induction n) (simp_all add: be_value_Cons)

theorem field_encodings_witness:
  "fe_normal (fe_impl_set_int 5) \<and> fe_impl_set_b32_limit (fe_impl_get_b32 (fe_impl_set_int 5)) = (fe_impl_set_int 5, True) \<and>
    \<not> snd (fe_impl_set_b32_limit (replicate 32 0xFF))"
proof -
  have n: "fe_normal (fe_impl_set_int 5)" "length (replicate 32 (0xFF :: byte)) = 32" by (simp_all add: set_int_spec_fe)
  have "\<not> be_value (replicate 32 0xFF) < field_p" using be_value_ones [of 32] by (simp add: field_p_def)
  then have "fe_set_b32_limit (replicate 32 0xFF) = None" by (simp add: fe_set_b32_limit_def)
  then show ?thesis using field_encodings [OF n] n by (simp split: prod.splits if_splits)
qed

end
