(* ===== verification/Sha256_Digest.thy ===== *)
theory Sha256_Digest
  imports Sha256_Spec
begin

text \<open>
  The hash functions of the vendored curve library against their standards, with a digest computed by the model of the C code.
\<close>

section \<open>Properties\<close>

text \<open>
  C20. SHA-256 (external/secp256k1/src/hash_impl.h:31-159): whatever garbage the object held before, and in whatever pieces a message is written, the unrolled
  rounds with their sixteen rolling message words, the partly filled buffer and the final padding compute SHA-256 of FIPS 180-4
  of the whole message. The round constants are those of the standard.
\<close>

theorem sha256_refines_fips180:
  assumes "length (sh_buf junk) = 64"
  shows "fst (sha256_finalize (foldl sha256_write (sha256_initialize junk) parts)) = spec_sha256 (concat parts) \<and>
    list_all2 (root_bits 3) primes64 sha_K \<and> list_all2 (root_bits 2) (take 8 primes64) (sh_s (sha256_initialize junk))"
  using finalize_spec [OF represents_writes [OF represents_initialize [OF assms], of parts]] sha_K_roots spec_IV_roots
  by (simp add: sha256_initialize_def spec_IV_def)

definition sample_object :: secp256k1_sha256 where
  "sample_object = \<lparr> sh_s = replicate 8 7, sh_buf = replicate 64 9, sh_bytes = 5 \<rparr>"

lemma sample_digest: "fst (sha256_finalize (foldl sha256_write (sha256_initialize sample_object) [[0x61], [0x62, 0x63]])) =
  [0xba, 0x78, 0x16, 0xbf, 0x8f, 0x01, 0xcf, 0xea, 0x41, 0x41, 0x40, 0xde, 0x5d, 0xae, 0x22, 0x23,
   0xb0, 0x03, 0x61, 0xa3, 0x96, 0x17, 0x7a, 0x9c, 0xb4, 0x10, 0xff, 0x61, 0xf2, 0x00, 0x15, 0xad]"
  by code_simp

theorem sha256_refines_fips180_witness:
  "length (sh_buf sample_object) = 64 \<and> spec_sha256 [0x61, 0x62, 0x63] =
    [0xba, 0x78, 0x16, 0xbf, 0x8f, 0x01, 0xcf, 0xea, 0x41, 0x41, 0x40, 0xde, 0x5d, 0xae, 0x22, 0x23,
     0xb0, 0x03, 0x61, 0xa3, 0x96, 0x17, 0x7a, 0x9c, 0xb4, 0x10, 0xff, 0x61, 0xf2, 0x00, 0x15, 0xad]"
proof
  show l: "length (sh_buf sample_object) = 64" by (simp add: sample_object_def)
  from sha256_refines_fips180 [OF l, of "[[0x61], [0x62, 0x63]]"]
  have "fst (sha256_finalize (foldl sha256_write (sha256_initialize sample_object) [[0x61], [0x62, 0x63]])) = spec_sha256 [0x61, 0x62, 0x63]"
    by simp
  then show "spec_sha256 [0x61, 0x62, 0x63] =
    [0xba, 0x78, 0x16, 0xbf, 0x8f, 0x01, 0xcf, 0xea, 0x41, 0x41, 0x40, 0xde, 0x5d, 0xae, 0x22, 0x23,
     0xb0, 0x03, 0x61, 0xa3, 0x96, 0x17, 0x7a, 0x9c, 0xb4, 0x10, 0xff, 0x61, 0xf2, 0x00, 0x15, 0xad]"
    by (simp only: sample_digest)
qed

end
