(* ===== verification/Fp.thy ===== *)
theory Fp
  imports Field_Sqrt
begin

text \<open>
  The residues modulo the characteristic of the curve's field, as a commutative ring, and the ring element a field element of the library stands for.
  The operations of \<open>Field\<close> and \<open>Field_Ops\<close> are homomorphisms within their magnitudes; formulas over points are then checked in the ring.
\<close>

typedef fp = "{0..<int field_p}" morphisms rep_fp abs_fp
proof
  show "0 \<in> {0..<int field_p}" using field_p_vals(3) by simp
qed

setup_lifting type_definition_fp

lemma field_p_int: "0 < int field_p" "1 < int field_p"
  by (simp_all add: field_p_def)

instantiation fp :: comm_ring_1
begin

lift_definition zero_fp :: fp is 0 using field_p_int by simp

lift_definition one_fp :: fp is 1 using field_p_int by simp

lift_definition plus_fp :: "fp \<Rightarrow> fp \<Rightarrow> fp" is "\<lambda>x y. (x + y) mod int field_p" using field_p_int by simp

lift_definition minus_fp :: "fp \<Rightarrow> fp \<Rightarrow> fp" is "\<lambda>x y. (x - y) mod int field_p" using field_p_int by simp

lift_definition uminus_fp :: "fp \<Rightarrow> fp" is "\<lambda>x. (- x) mod int field_p" using field_p_int by simp

lift_definition times_fp :: "fp \<Rightarrow> fp \<Rightarrow> fp" is "\<lambda>x y. (x * y) mod int field_p" using field_p_int by simp

instance
proof
  fix a b c :: fp
  show "a * b * c = a * (b * c)" by transfer (simp add: mod_simps mult.assoc)
  show "a * b = b * a" by transfer (simp add: mult.commute)
  show "1 * a = a" by transfer simp
  show "a + b + c = a + (b + c)" by transfer (simp add: mod_simps add.assoc)
  show "a + b = b + a" by transfer (simp add: add.commute)
  show "0 + a = a" by transfer simp
  show "- a + a = 0" by transfer (simp add: mod_simps)
  show "a - b = a + - b" by transfer (simp add: mod_simps)
  show "(a + b) * c = a * c + b * c" by transfer (simp add: mod_simps distrib_right)
  show "(0 :: fp) \<noteq> 1" by transfer simp
qed

end

lemma rep_of_nat: "rep_fp (of_nat n) = int n mod int field_p"
proof (induction n)
  case 0
  show ?case by (simp add: zero_fp.rep_eq)
next
  case (Suc n)
  then show ?case by (simp add: plus_fp.rep_eq one_fp.rep_eq mod_simps)
qed

lemma of_nat_fp_eq: "of_nat m = (of_nat n :: fp) \<longleftrightarrow> m mod field_p = n mod field_p"
  unfolding rep_fp_inject [symmetric] rep_of_nat by (metis of_nat_eq_iff zmod_int)

lemma of_nat_fp_p: "of_nat field_p = (0 :: fp)"
  using of_nat_fp_eq [of field_p 0] by simp

section \<open>What a field element stands for\<close>

definition fe_val :: "secp256k1_fe \<Rightarrow> fp" where
  "fe_val a = of_nat (fval a)"

lemma fe_val_eq: "fe_val a = fe_val b \<longleftrightarrow> fval a mod field_p = fval b mod field_p"
  unfolding fe_val_def by (rule of_nat_fp_eq)

lemma fe_val_0: "fe_val a = 0 \<longleftrightarrow> fval a mod field_p = 0"
  using of_nat_fp_eq [of "fval a" 0] by (simp add: fe_val_def)

named_theorems fe_hom \<open>the value of an operation, given the magnitudes of its arguments\<close>

named_theorems fe_mag \<open>the magnitude of an operation\<close>

lemma fe_val_mul [fe_hom]: "magnitude 8 a \<Longrightarrow> magnitude 8 b \<Longrightarrow> fe_val (fe_impl_mul a b) = fe_val a * fe_val b"
  using mul_sqr_facts(2) [of a b] of_nat_fp_eq [of "fval (fe_impl_mul a b)" "fval a * fval b"] by (simp add: fe_val_def)

lemma mag_mul [fe_mag]: "magnitude 8 a \<Longrightarrow> magnitude 8 b \<Longrightarrow> magnitude 1 (fe_impl_mul a b)"
  by (rule mul_sqr_facts(1))

lemma fe_val_sqr [fe_hom]: "magnitude 8 a \<Longrightarrow> fe_val (fe_impl_sqr a) = fe_val a * fe_val a"
  using mul_sqr_facts(3) [of a a] fe_val_mul [of a a] by simp

lemma mag_sqr [fe_mag]: "magnitude 8 a \<Longrightarrow> magnitude 1 (fe_impl_sqr a)"
  using mul_sqr_facts [of a a] by simp

lemma fe_val_add [fe_hom]: "magnitude m a \<Longrightarrow> magnitude n b \<Longrightarrow> m + n \<le> 32 \<Longrightarrow> fe_val (fe_impl_add a b) = fe_val a + fe_val b"
  using add_spec_fe(1) [of m a n b] by (simp add: fe_val_def)

lemma mag_add [fe_mag]: "magnitude m a \<Longrightarrow> magnitude n b \<Longrightarrow> m + n \<le> 32 \<Longrightarrow> magnitude (m + n) (fe_impl_add a b)"
  by (rule add_spec_fe(2))

lemma fe_val_negate [fe_hom]: "magnitude m a \<Longrightarrow> m \<le> 31 \<Longrightarrow> unat k = m \<Longrightarrow> fe_val (fe_impl_negate_unchecked a k) = - fe_val a"
proof -
  assume "magnitude m a" "m \<le> 31" "unat k = m"
  then have "of_nat (fval (fe_impl_negate_unchecked a k) + fval a) = (of_nat (2 * (m + 1) * field_p) :: fp)" using negate_spec_fe(1) by metis
  then show ?thesis by (simp add: fe_val_def of_nat_fp_p add_eq_0_iff2)
qed

lemma mag_negate [fe_mag]: "magnitude m a \<Longrightarrow> m \<le> 31 \<Longrightarrow> unat k = m \<Longrightarrow> magnitude (m + 1) (fe_impl_negate_unchecked a k)"
  by (rule negate_spec_fe(2))

lemma fe_val_mul_int [fe_hom]: "magnitude m a \<Longrightarrow> m * unat k \<le> 32 \<Longrightarrow> fe_val (fe_impl_mul_int_unchecked a k) = fe_val a * of_nat (unat k)"
  using mul_int_spec(1) [of m a k] by (simp add: fe_val_def)

lemma fe_val_add_int [fe_hom]: "magnitude m a \<Longrightarrow> m \<le> 31 \<Longrightarrow> unat k \<le> 0x7FFF \<Longrightarrow> fe_val (fe_impl_add_int a k) = fe_val a + of_nat (unat k)"
  using add_int_spec(1) [of m a k] by (simp add: fe_val_def)

lemma fe_val_half [fe_hom]: "magnitude m a \<Longrightarrow> m \<le> 31 \<Longrightarrow> 2 * fe_val (fe_impl_half a) = fe_val a"
proof -
  assume "magnitude m a" "m \<le> 31"
  then have "of_nat (2 * fval (fe_impl_half a)) = (of_nat (fval a + (if odd (fval a) then field_p else 0)) :: fp)" using half_spec(1) by metis
  then show ?thesis by (simp add: fe_val_def of_nat_fp_p split: if_splits)
qed

lemma fe_val_weak [fe_hom]: "magnitude 32 a \<Longrightarrow> fe_val (fe_impl_normalize_weak a) = fe_val a"
  unfolding fe_val_eq by (rule weak_mod)

lemma fe_val_normalize [fe_hom]: "magnitude 32 a \<Longrightarrow> fe_val (fe_impl_normalize a) = fe_val a"
  unfolding fe_val_eq using normalize_spec(1) by simp

lemma fe_val_set_int [fe_hom]: "fe_val (fe_impl_set_int k) = of_nat (unat k)"
  by (simp add: fe_val_def set_int_spec_fe)

lemma to_zero_iff: "magnitude 32 a \<Longrightarrow> fe_impl_normalizes_to_zero a \<longleftrightarrow> fe_val a = 0"
  unfolding fe_val_0 by (rule normalizes_to_zero_spec)

lemma to_zero_var_iff: "magnitude 32 a \<Longrightarrow> fe_impl_normalizes_to_zero_var a \<longleftrightarrow> fe_val a = 0"
  by (simp add: normalizes_to_zero_var_eq to_zero_iff)

lemma equal_iff: "magnitude 1 a \<Longrightarrow> magnitude m b \<Longrightarrow> m \<le> 30 \<Longrightarrow> fe_equal a b \<longleftrightarrow> fe_val a = fe_val b"
  unfolding fe_val_eq by (rule equal_spec)

lemma two_half: "2 * of_nat ((field_p + 1) div 2) = (1 :: fp)"
proof -
  have "2 * ((field_p + 1) div 2) = field_p + 1" by (simp add: field_p_def)
  then have "of_nat (2 * ((field_p + 1) div 2)) = (of_nat (field_p + 1) :: fp)" by metis
  then show ?thesis by (simp add: of_nat_fp_p)
qed

lemma two_cancel: "2 * x = 2 * y \<Longrightarrow> x = y" for x y :: fp
  by (metis mult.assoc mult.commute mult_1 two_half)

section \<open>Magnitude and value together\<close>

text \<open>\<open>fe_is m v a\<close>: the limbs of \<open>a\<close> stay within magnitude \<open>m\<close> and stand for \<open>v\<close>. One rule per operation; a formula of the library is run by chaining them.\<close>

definition fe_is :: "nat \<Rightarrow> fp \<Rightarrow> secp256k1_fe \<Rightarrow> bool" where
  "fe_is m v a \<longleftrightarrow> magnitude m a \<and> fe_val a = v"

lemma fe_is_mono: "fe_is m v a \<Longrightarrow> m \<le> n \<Longrightarrow> fe_is n v a"
  using magnitude_mono [of m a n] by (simp add: fe_is_def)

lemma fe_is_mul: "fe_is m v a \<Longrightarrow> fe_is n w b \<Longrightarrow> m \<le> 8 \<Longrightarrow> n \<le> 8 \<Longrightarrow> fe_is 1 (v * w) (fe_impl_mul a b)"
  using magnitude_mono [of m a 8] magnitude_mono [of n b 8] fe_val_mul [of a b] mag_mul [of a b] by (simp add: fe_is_def)

lemma fe_is_sqr: "fe_is m v a \<Longrightarrow> m \<le> 8 \<Longrightarrow> fe_is 1 (v * v) (fe_impl_sqr a)"
  using magnitude_mono [of m a 8] fe_val_sqr [of a] mag_sqr [of a] by (simp add: fe_is_def)

lemma fe_is_add: "fe_is m v a \<Longrightarrow> fe_is n w b \<Longrightarrow> k = m + n \<Longrightarrow> k \<le> 32 \<Longrightarrow> fe_is k (v + w) (fe_impl_add a b)"
  using fe_val_add [of m a n b] mag_add [of m a n b] by (simp add: fe_is_def)

lemma fe_is_neg: "fe_is m v a \<Longrightarrow> k = m + 1 \<Longrightarrow> k \<le> 32 \<Longrightarrow> unat c = m \<Longrightarrow> fe_is k (- v) (fe_impl_negate_unchecked a c)"
  using fe_val_negate [of m a c] mag_negate [of m a c] by (simp add: fe_is_def)

lemma fe_is_mul_int: "fe_is m v a \<Longrightarrow> k = m * unat c \<Longrightarrow> k \<le> 32 \<Longrightarrow> fe_is k (v * of_nat (unat c)) (fe_impl_mul_int_unchecked a c)"
  using fe_val_mul_int [of m a c] mul_int_spec(2) [of m a c] by (simp add: fe_is_def)

lemma fe_is_add_int: "fe_is m v a \<Longrightarrow> k = m + 1 \<Longrightarrow> k \<le> 32 \<Longrightarrow> unat c \<le> 0x7FFF \<Longrightarrow> fe_is k (v + of_nat (unat c)) (fe_impl_add_int a c)"
  using fe_val_add_int [of m a c] add_int_spec(2) [of m a c] by (simp add: fe_is_def)

lemma fe_is_half: "fe_is m (2 * v) a \<Longrightarrow> m \<le> 31 \<Longrightarrow> k = m div 2 + 1 \<Longrightarrow> fe_is k v (fe_impl_half a)"
  using fe_val_half [of m a] half_spec(2) [of m a] by (auto simp: fe_is_def dest: two_cancel)

lemma fe_is_weak: "fe_is m v a \<Longrightarrow> m \<le> 32 \<Longrightarrow> fe_is 1 v (fe_impl_normalize_weak a)"
proof -
  assume "fe_is m v a" "m \<le> 32"
  then have "magnitude 32 a" "fe_val a = v" by (auto simp: fe_is_def elim: magnitude_mono)
  then show ?thesis using weak_spec(2,3) [of a] fe_val_weak [of a] by (simp add: fe_is_def fe_tidy_def magnitude_def)
qed

lemma fe_is_normalize: "fe_is m v a \<Longrightarrow> m \<le> 32 \<Longrightarrow> fe_is 1 v (fe_impl_normalize a) \<and> fe_normal (fe_impl_normalize a)"
proof -
  assume "fe_is m v a" "m \<le> 32"
  then have "magnitude 32 a" "fe_val a = v" by (auto simp: fe_is_def elim: magnitude_mono)
  then show ?thesis using normalize_spec(2) [of a] fe_normalD(3) [of "fe_impl_normalize a"] fe_val_normalize [of a] by (simp add: fe_is_def)
qed

lemma fe_is_set_int: "unat c \<le> 0x7FFF \<Longrightarrow> fe_is 1 (of_nat (unat c)) (fe_impl_set_int c)"
  using fe_normalD(3) [OF set_int_spec_fe(2)] by (simp add: fe_is_def fe_val_set_int)

lemma fe_is_zero: "fe_is m v a \<Longrightarrow> m \<le> 32 \<Longrightarrow> fe_impl_normalizes_to_zero a \<longleftrightarrow> v = 0" "fe_is m v a \<Longrightarrow> m \<le> 32 \<Longrightarrow> fe_impl_normalizes_to_zero_var a \<longleftrightarrow> v = 0"
  using to_zero_iff [OF magnitude_mono [of m a 32]] to_zero_var_iff [OF magnitude_mono [of m a 32]] by (simp_all add: fe_is_def)

lemma fe_is_equal: "fe_is 1 v a \<Longrightarrow> fe_is m w b \<Longrightarrow> m \<le> 30 \<Longrightarrow> fe_equal a b \<longleftrightarrow> v = w"
  using equal_iff [of a m b] by (auto simp: fe_is_def)

end
