(* ===== verification/Group.thy ===== *)
theory Group
  imports Fp
begin

unbundle bit_operations_syntax

text \<open>
  Points of the curve in the vendored library: \<open>src/external/secp256k1/src/group.h\<close> and \<open>group_impl.h\<close>. The constant-time addition, doubling and the
  variable-time additions are the library's formulas step by step on limbs. Through an optional pointer \<open>rzr\<close> some of them also report the ratio of the
  \<open>z\<close> coordinates; the second component is what is stored there when the pointer is given. Checks of the \<open>VERIFY\<close> build are left out.
\<close>

section \<open>Points\<close>

record secp256k1_ge =
  ge_x :: secp256k1_fe
  ge_y :: secp256k1_fe
  ge_infinity :: bool

record secp256k1_gej =
  gj_x :: secp256k1_fe
  gj_y :: secp256k1_fe
  gj_z :: secp256k1_fe
  gj_infinity :: bool

record secp256k1_ge_storage =
  gs_x :: secp256k1_fe_storage
  gs_y :: secp256k1_fe_storage

definition SECP256K1_B :: u64 where
  "SECP256K1_B = 7"

definition ge_set_gej_zinv :: "secp256k1_gej \<Rightarrow> secp256k1_fe \<Rightarrow> secp256k1_ge" where
  "ge_set_gej_zinv a zi =
     (let zi2 = fe_impl_sqr zi; zi3 = fe_impl_mul zi2 zi
      in \<lparr> ge_x = fe_impl_mul (gj_x a) zi2, ge_y = fe_impl_mul (gj_y a) zi3, ge_infinity = gj_infinity a \<rparr>)"

definition ge_set_ge_zinv :: "secp256k1_ge \<Rightarrow> secp256k1_fe \<Rightarrow> secp256k1_ge" where
  "ge_set_ge_zinv a zi =
     (let zi2 = fe_impl_sqr zi; zi3 = fe_impl_mul zi2 zi
      in \<lparr> ge_x = fe_impl_mul (ge_x a) zi2, ge_y = fe_impl_mul (ge_y a) zi3, ge_infinity = ge_infinity a \<rparr>)"

definition ge_set_xy :: "secp256k1_fe \<Rightarrow> secp256k1_fe \<Rightarrow> secp256k1_ge" where
  "ge_set_xy x y = \<lparr> ge_x = x, ge_y = y, ge_infinity = False \<rparr>"

definition ge_neg :: "secp256k1_ge \<Rightarrow> secp256k1_ge" where
  "ge_neg a = a \<lparr> ge_y := fe_impl_negate_unchecked (fe_impl_normalize_weak (ge_y a)) 1 \<rparr>"

text \<open>The conversions to affine coordinates call the modular inverse, \<open>fe_inv\<close> here; they leave the Jacobian point rescaled.\<close>

definition ge_set_gej :: "(secp256k1_fe \<Rightarrow> secp256k1_fe) \<Rightarrow> secp256k1_gej \<Rightarrow> secp256k1_ge \<times> secp256k1_gej" where
  "ge_set_gej fe_inv a =
     (let z = fe_inv (gj_z a); z2 = fe_impl_sqr z; z3 = fe_impl_mul z z2;
          x = fe_impl_mul (gj_x a) z2; y = fe_impl_mul (gj_y a) z3
      in (\<lparr> ge_x = x, ge_y = y, ge_infinity = gj_infinity a \<rparr>, a \<lparr> gj_x := x, gj_y := y, gj_z := fe_impl_set_int 1 \<rparr>))"

definition ge_set_infinity :: secp256k1_ge where
  "ge_set_infinity = \<lparr> ge_x = fe_impl_set_int 0, ge_y = fe_impl_set_int 0, ge_infinity = True \<rparr>"

definition ge_set_gej_var :: "(secp256k1_fe \<Rightarrow> secp256k1_fe) \<Rightarrow> secp256k1_gej \<Rightarrow> secp256k1_ge \<times> secp256k1_gej" where
  "ge_set_gej_var fe_inv a =
     (if gj_infinity a then (ge_set_infinity, a)
      else
        let z = fe_inv (gj_z a); z2 = fe_impl_sqr z; z3 = fe_impl_mul z z2;
            x = fe_impl_mul (gj_x a) z2; y = fe_impl_mul (gj_y a) z3
        in (ge_set_xy x y, a \<lparr> gj_x := x, gj_y := y, gj_z := fe_impl_set_int 1 \<rparr>))"

definition gej_set_infinity :: secp256k1_gej where
  "gej_set_infinity = \<lparr> gj_x = fe_impl_set_int 0, gj_y = fe_impl_set_int 0, gj_z = fe_impl_set_int 0, gj_infinity = True \<rparr>"

definition ge_set_xo_var :: "secp256k1_fe \<Rightarrow> bool \<Rightarrow> secp256k1_ge \<times> bool" where
  "ge_set_xo_var x odd' =
     (let x2 = fe_impl_sqr x; x3 = fe_impl_mul x x2;
          x3 = fe_impl_add_int x3 SECP256K1_B;
          (y, ret) = fe_sqrt x3;
          y = fe_impl_normalize_var y;
          y = (if fe_impl_is_odd y \<noteq> odd' then fe_impl_negate_unchecked y 1 else y)
      in (\<lparr> ge_x = x, ge_y = y, ge_infinity = False \<rparr>, ret))"

definition gej_set_ge :: "secp256k1_ge \<Rightarrow> secp256k1_gej" where
  "gej_set_ge a = \<lparr> gj_x = ge_x a, gj_y = ge_y a, gj_z = fe_impl_set_int 1, gj_infinity = ge_infinity a \<rparr>"

definition ge_eq_var :: "secp256k1_ge \<Rightarrow> secp256k1_ge \<Rightarrow> bool" where
  "ge_eq_var a b =
     (if ge_infinity a \<noteq> ge_infinity b then False
      else if ge_infinity a then True
      else if \<not> fe_equal (fe_impl_normalize_weak (ge_x a)) (ge_x b) then False
      else if \<not> fe_equal (fe_impl_normalize_weak (ge_y a)) (ge_y b) then False
      else True)"

definition gej_eq_x_var :: "secp256k1_fe \<Rightarrow> secp256k1_gej \<Rightarrow> bool" where
  "gej_eq_x_var x a = fe_equal (fe_impl_mul (fe_impl_sqr (gj_z a)) x) (gj_x a)"

definition gej_neg :: "secp256k1_gej \<Rightarrow> secp256k1_gej" where
  "gej_neg a = a \<lparr> gj_y := fe_impl_negate_unchecked (fe_impl_normalize_weak (gj_y a)) 1 \<rparr>"

definition ge_is_valid_var :: "secp256k1_ge \<Rightarrow> bool" where
  "ge_is_valid_var a =
     (if ge_infinity a then False
      else fe_equal (fe_impl_sqr (ge_y a)) (fe_impl_add_int (fe_impl_mul (fe_impl_sqr (ge_x a)) (ge_x a)) SECP256K1_B))"

section \<open>Doubling and addition\<close>

definition gej_double :: "secp256k1_gej \<Rightarrow> secp256k1_gej" where
  "gej_double a =
     (let z3 = fe_impl_mul (gj_z a) (gj_y a);
          s = fe_impl_sqr (gj_y a);
          l = fe_impl_sqr (gj_x a);
          l = fe_impl_mul_int_unchecked l 3;
          l = fe_impl_half l;
          t = fe_impl_negate_unchecked s 1;
          t = fe_impl_mul t (gj_x a);
          x3 = fe_impl_sqr l;
          x3 = fe_impl_add x3 t;
          x3 = fe_impl_add x3 t;
          s = fe_impl_sqr s;
          t = fe_impl_add t x3;
          y3 = fe_impl_mul t l;
          y3 = fe_impl_add y3 s;
          y3 = fe_impl_negate_unchecked y3 2
      in \<lparr> gj_x = x3, gj_y = y3, gj_z = z3, gj_infinity = gj_infinity a \<rparr>)"

definition gej_double_var :: "secp256k1_gej \<Rightarrow> secp256k1_gej \<times> secp256k1_fe" where
  "gej_double_var a =
     (if gj_infinity a then (gej_set_infinity, fe_impl_set_int 1)
      else (gej_double a, fe_impl_normalize_weak (gj_y a)))"

text \<open>The end of the three variable-time additions, from the values \<open>u1\<close>, \<open>s1\<close>, \<open>h\<close>, \<open>i\<close> and the new \<open>z\<close> coordinate on.\<close>

definition gej_add_tail :: "secp256k1_fe \<Rightarrow> secp256k1_fe \<Rightarrow> secp256k1_fe \<Rightarrow> secp256k1_fe \<Rightarrow> secp256k1_fe \<Rightarrow> secp256k1_gej" where
  "gej_add_tail z3 u1 s1 h i =
     (let h2 = fe_impl_sqr h;
          h2 = fe_impl_negate_unchecked h2 1;
          h3 = fe_impl_mul h2 h;
          t = fe_impl_mul u1 h2;
          x3 = fe_impl_sqr i;
          x3 = fe_impl_add x3 h3;
          x3 = fe_impl_add x3 t;
          x3 = fe_impl_add x3 t;
          t = fe_impl_add t x3;
          y3 = fe_impl_mul t i;
          h3 = fe_impl_mul h3 s1;
          y3 = fe_impl_add y3 h3
      in \<lparr> gj_x = x3, gj_y = y3, gj_z = z3, gj_infinity = False \<rparr>)"

definition gej_add_var :: "secp256k1_gej \<Rightarrow> secp256k1_gej \<Rightarrow> secp256k1_gej \<times> secp256k1_fe option" where
  "gej_add_var a b =
     (if gj_infinity a then (b, None)
      else if gj_infinity b then (a, Some (fe_impl_set_int 1))
      else
        let z22 = fe_impl_sqr (gj_z b); z12 = fe_impl_sqr (gj_z a);
            u1 = fe_impl_mul (gj_x a) z22; u2 = fe_impl_mul (gj_x b) z12;
            s1 = fe_impl_mul (gj_y a) z22; s1 = fe_impl_mul s1 (gj_z b);
            s2 = fe_impl_mul (gj_y b) z12; s2 = fe_impl_mul s2 (gj_z a);
            h = fe_impl_add (fe_impl_negate_unchecked u1 1) u2;
            i = fe_impl_add (fe_impl_negate_unchecked s2 1) s1 in
        if fe_impl_normalizes_to_zero_var h then
          (if fe_impl_normalizes_to_zero_var i then map_prod id Some (gej_double_var a) else (gej_set_infinity, Some (fe_impl_set_int 0)))
        else
          let t = fe_impl_mul h (gj_z b); z3 = fe_impl_mul (gj_z a) t
          in (gej_add_tail z3 u1 s1 h i, Some t))"

definition gej_add_ge_var :: "secp256k1_gej \<Rightarrow> secp256k1_ge \<Rightarrow> secp256k1_gej \<times> secp256k1_fe option" where
  "gej_add_ge_var a b =
     (if gj_infinity a then (gej_set_ge b, None)
      else if ge_infinity b then (a, Some (fe_impl_set_int 1))
      else
        let z12 = fe_impl_sqr (gj_z a);
            u1 = gj_x a; u2 = fe_impl_mul (ge_x b) z12;
            s1 = gj_y a; s2 = fe_impl_mul (ge_y b) z12; s2 = fe_impl_mul s2 (gj_z a);
            h = fe_impl_add (fe_impl_negate_unchecked u1 4) u2;
            i = fe_impl_add (fe_impl_negate_unchecked s2 1) s1 in
        if fe_impl_normalizes_to_zero_var h then
          (if fe_impl_normalizes_to_zero_var i then map_prod id Some (gej_double_var a) else (gej_set_infinity, Some (fe_impl_set_int 0)))
        else (gej_add_tail (fe_impl_mul (gj_z a) h) u1 s1 h i, Some h))"

definition gej_add_zinv_var :: "secp256k1_gej \<Rightarrow> secp256k1_ge \<Rightarrow> secp256k1_fe \<Rightarrow> secp256k1_gej" where
  "gej_add_zinv_var a b bzinv =
     (if gj_infinity a then
        let bzinv2 = fe_impl_sqr bzinv; bzinv3 = fe_impl_mul bzinv2 bzinv
        in \<lparr> gj_x = fe_impl_mul (ge_x b) bzinv2, gj_y = fe_impl_mul (ge_y b) bzinv3, gj_z = fe_impl_set_int 1, gj_infinity = ge_infinity b \<rparr>
      else if ge_infinity b then a
      else
        let az = fe_impl_mul (gj_z a) bzinv;
            z12 = fe_impl_sqr az;
            u1 = gj_x a; u2 = fe_impl_mul (ge_x b) z12;
            s1 = gj_y a; s2 = fe_impl_mul (ge_y b) z12; s2 = fe_impl_mul s2 az;
            h = fe_impl_add (fe_impl_negate_unchecked u1 4) u2;
            i = fe_impl_add (fe_impl_negate_unchecked s2 1) s1 in
        if fe_impl_normalizes_to_zero_var h then
          (if fe_impl_normalizes_to_zero_var i then fst (gej_double_var a) else gej_set_infinity)
        else gej_add_tail (fe_impl_mul (gj_z a) h) u1 s1 h i)"

definition gej_add_ge :: "secp256k1_gej \<Rightarrow> secp256k1_ge \<Rightarrow> secp256k1_gej" where
  "gej_add_ge a b =
     (let zz = fe_impl_sqr (gj_z a);
          u1 = gj_x a; u2 = fe_impl_mul (ge_x b) zz;
          s1 = gj_y a; s2 = fe_impl_mul (ge_y b) zz; s2 = fe_impl_mul s2 (gj_z a);
          t = fe_impl_add u1 u2;
          m = fe_impl_add s1 s2;
          rr = fe_impl_sqr t;
          m_alt = fe_impl_negate_unchecked u2 1;
          tt = fe_impl_mul u1 m_alt;
          rr = fe_impl_add rr tt;
          degenerate = fe_impl_normalizes_to_zero m;
          rr_alt = fe_impl_mul_int_unchecked s1 2;
          m_alt = fe_impl_add m_alt u1;
          rr_alt = fe_impl_cmov rr_alt rr (\<not> degenerate);
          m_alt = fe_impl_cmov m_alt m (\<not> degenerate);
          n = fe_impl_sqr m_alt;
          q = fe_impl_negate_unchecked t 5;
          q = fe_impl_mul q n;
          n = fe_impl_sqr n;
          n = fe_impl_cmov n m degenerate;
          t = fe_impl_sqr rr_alt;
          z3 = fe_impl_mul (gj_z a) m_alt;
          t = fe_impl_add t q;
          x3 = t;
          t = fe_impl_mul_int_unchecked t 2;
          t = fe_impl_add t q;
          t = fe_impl_mul t rr_alt;
          t = fe_impl_add t n;
          y3 = fe_impl_negate_unchecked t 6;
          y3 = fe_impl_half y3;
          x3 = fe_impl_cmov x3 (ge_x b) (gj_infinity a);
          y3 = fe_impl_cmov y3 (ge_y b) (gj_infinity a);
          z3 = fe_impl_cmov z3 (fe_impl_set_int 1) (gj_infinity a)
      in \<lparr> gj_x = x3, gj_y = y3, gj_z = z3, gj_infinity = fe_impl_normalizes_to_zero z3 \<rparr>)"

definition gej_rescale :: "secp256k1_gej \<Rightarrow> secp256k1_fe \<Rightarrow> secp256k1_gej" where
  "gej_rescale r s =
     (let zz = fe_impl_sqr s
      in r \<lparr> gj_x := fe_impl_mul (gj_x r) zz, gj_y := fe_impl_mul (fe_impl_mul (gj_y r) zz) s, gj_z := fe_impl_mul (gj_z r) s \<rparr>)"

section \<open>Comparison by addition, storage and selection\<close>

definition gej_eq_var :: "secp256k1_gej \<Rightarrow> secp256k1_gej \<Rightarrow> bool" where
  "gej_eq_var a b = gj_infinity (fst (gej_add_var (gej_neg a) b))"

definition gej_eq_ge_var :: "secp256k1_gej \<Rightarrow> secp256k1_ge \<Rightarrow> bool" where
  "gej_eq_ge_var a b = gj_infinity (fst (gej_add_ge_var (gej_neg a) b))"

definition ge_to_storage :: "secp256k1_ge \<Rightarrow> secp256k1_ge_storage" where
  "ge_to_storage a = \<lparr> gs_x = fe_impl_to_storage (fe_impl_normalize (ge_x a)), gs_y = fe_impl_to_storage (fe_impl_normalize (ge_y a)) \<rparr>"

definition ge_from_storage :: "secp256k1_ge_storage \<Rightarrow> secp256k1_ge" where
  "ge_from_storage a = \<lparr> ge_x = fe_impl_from_storage (gs_x a), ge_y = fe_impl_from_storage (gs_y a), ge_infinity = False \<rparr>"

definition gej_cmov :: "secp256k1_gej \<Rightarrow> secp256k1_gej \<Rightarrow> bool \<Rightarrow> secp256k1_gej" where
  "gej_cmov r a flag =
     \<lparr> gj_x = fe_impl_cmov (gj_x r) (gj_x a) flag, gj_y = fe_impl_cmov (gj_y r) (gj_y a) flag, gj_z = fe_impl_cmov (gj_z r) (gj_z a) flag,
       gj_infinity = (gj_infinity r \<noteq> ((gj_infinity r \<noteq> gj_infinity a) \<and> flag)) \<rparr>"

definition ge_storage_cmov :: "secp256k1_ge_storage \<Rightarrow> secp256k1_ge_storage \<Rightarrow> bool \<Rightarrow> secp256k1_ge_storage" where
  "ge_storage_cmov r a flag = \<lparr> gs_x = fe_storage_cmov (gs_x r) (gs_x a) flag, gs_y = fe_storage_cmov (gs_y r) (gs_y a) flag \<rparr>"

section \<open>What points stand for\<close>

text \<open>Magnitudes of coordinates, as in \<open>group.h\<close>.\<close>

definition ge_ok :: "secp256k1_ge \<Rightarrow> bool" where
  "ge_ok a \<longleftrightarrow> magnitude 4 (ge_x a) \<and> magnitude 3 (ge_y a)"

definition gej_ok :: "secp256k1_gej \<Rightarrow> bool" where
  "gej_ok a \<longleftrightarrow> magnitude 4 (gj_x a) \<and> magnitude 4 (gj_y a) \<and> magnitude 1 (gj_z a)"

definition invertible :: "fp \<Rightarrow> bool" where
  "invertible x \<longleftrightarrow> x dvd 1"

datatype point = Inf | Aff fp fp

definition ge_is :: "secp256k1_ge \<Rightarrow> point \<Rightarrow> bool" where
  "ge_is a P \<longleftrightarrow> ge_ok a \<and> (case P of Inf \<Rightarrow> ge_infinity a | Aff x y \<Rightarrow> \<not> ge_infinity a \<and> fe_val (ge_x a) = x \<and> fe_val (ge_y a) = y)"

text \<open>Jacobian coordinates: \<open>x / z\<^sup>2\<close> and \<open>y / z\<^sup>3\<close> with an invertible \<open>z\<close>.\<close>

definition gej_is :: "secp256k1_gej \<Rightarrow> point \<Rightarrow> bool" where
  "gej_is a P \<longleftrightarrow> gej_ok a \<and> (case P of Inf \<Rightarrow> gj_infinity a
     | Aff x y \<Rightarrow> \<not> gj_infinity a \<and> invertible (fe_val (gj_z a)) \<and> fe_val (gj_x a) = x * fe_val (gj_z a) ^ 2 \<and> fe_val (gj_y a) = y * fe_val (gj_z a) ^ 3)"

text \<open>The group law, as a relation: slope of chord or tangent, third point, reflection. The slope is a witness, so no division is needed.\<close>

definition third_point :: "fp \<Rightarrow> fp \<Rightarrow> fp \<Rightarrow> fp \<Rightarrow> point" where
  "third_point l x1 y1 x2 = (let x3 = l\<^sup>2 - x1 - x2 in Aff x3 (l * (x1 - x3) - y1))"

inductive point_add :: "point \<Rightarrow> point \<Rightarrow> point \<Rightarrow> bool" where
  inf_left: "point_add Inf Q Q"
| inf_right: "point_add P Inf P"
| opposite: "y1 \<noteq> y2 \<Longrightarrow> point_add (Aff x y1) (Aff x y2) Inf"
| tangent: "invertible y \<Longrightarrow> 2 * y * l = 3 * x\<^sup>2 \<Longrightarrow> point_add (Aff x y) (Aff x y) (third_point l x y x)"
| chord: "invertible (x2 - x1) \<Longrightarrow> (x2 - x1) * l = y2 - y1 \<Longrightarrow> point_add (Aff x1 y1) (Aff x2 y2) (third_point l x1 y1 x2)"

end
