(* ===== verification/Group_Law.thy ===== *)
theory Group_Law
  imports Group
begin

text \<open>
  The point formulas of the library compute the group law: doubling, the variable-time additions and the constant-time addition, each run symbolically
  with the rules of \<open>Fp\<close> and compared with chord and tangent.
\<close>

section \<open>Representations\<close>

lemma invertible_mult: "invertible x \<Longrightarrow> invertible y \<Longrightarrow> invertible (x * y)"
  unfolding invertible_def using mult_dvd_mono [of x 1 y 1] by simp

lemma invertible_minus: "invertible (- x) \<longleftrightarrow> invertible x"
  by (simp add: invertible_def)

lemma invertible_cancel: "invertible z \<Longrightarrow> x * z = 0 \<Longrightarrow> x = 0"
  unfolding invertible_def dvd_def by (metis mult.assoc mult.commute mult_1 mult_zero_left)

lemma fe_is_conv: "fe_is m v a \<Longrightarrow> v = w \<Longrightarrow> m = n \<Longrightarrow> fe_is n w a"
  by simp

lemma gej_isE:
  assumes "gej_is a (Aff x y)"
  obtains z where "fe_is 4 (x * z ^ 2) (gj_x a)" "fe_is 4 (y * z ^ 3) (gj_y a)" "fe_is 1 z (gj_z a)" "invertible z" "\<not> gj_infinity a"
  using assms by (auto simp: gej_is_def gej_ok_def fe_is_def)

lemma gej_isI:
  assumes "fe_is l v (gj_x a)" "l \<le> 4" "fe_is m w (gj_y a)" "m \<le> 4" "fe_is 1 z (gj_z a)" "invertible z" "\<not> gj_infinity a" "v = x * z ^ 2" "w = y * z ^ 3"
  shows "gej_is a (Aff x y)"
  using assms fe_is_mono [OF assms(1,2)] fe_is_mono [OF assms(3,4)] by (simp add: gej_is_def gej_ok_def fe_is_def)

lemma ge_isE:
  assumes "ge_is a (Aff x y)"
  shows "fe_is 4 x (ge_x a)" "fe_is 3 y (ge_y a)" "\<not> ge_infinity a"
  using assms by (simp_all add: ge_is_def ge_ok_def fe_is_def)

lemma small_numbers: "unat (1 :: u64) = 1" "unat (2 :: u64) = 2" "unat (3 :: u64) = 3" "unat (4 :: u64) = 4" "unat (5 :: u64) = 5" "unat (6 :: u64) = 6" "unat (7 :: u64) = 7"
  by simp_all

lemma gej_infinity_is: "gej_is gej_set_infinity Inf"
  using fe_is_set_int [of 0] fe_is_mono [OF fe_is_set_int [of 0], of 4] by (simp add: gej_is_def gej_ok_def gej_set_infinity_def fe_is_def)

lemma gej_set_ge_is: "ge_is b P \<Longrightarrow> gej_is (gej_set_ge b) P"
  using fe_is_set_int [of 1] magnitude_mono [of 3 "ge_y b" 4]
  by (cases P) (auto simp: ge_is_def ge_ok_def gej_is_def gej_ok_def gej_set_ge_def fe_is_def invertible_def)

lemmas ring_norm = algebra_simps power2_eq_square power3_eq_cube power4_eq_xxxx

section \<open>Doubling\<close>

lemma double_is:
  assumes a: "gej_is a (Aff x y)" and y: "invertible y" and l: "2 * y * l = 3 * x\<^sup>2"
  shows "gej_is (gej_double a) (third_point l x y x)"
proof -
  obtain z where X: "fe_is 4 (x * z ^ 2) (gj_x a)" and Y: "fe_is 4 (y * z ^ 3) (gj_y a)" and Z: "fe_is 1 z (gj_z a)" and z: "invertible z" and fin: "\<not> gj_infinity a"
    using a by (rule gej_isE)
  let ?s = "fe_impl_sqr (gj_y a)" and ?l = "fe_impl_half (fe_impl_mul_int_unchecked (fe_impl_sqr (gj_x a)) 3)"
  let ?t = "fe_impl_mul (fe_impl_negate_unchecked ?s 1) (gj_x a)"
  define S where "S = (y * z ^ 3) * (y * z ^ 3)"
  define L where "L = y * l * z ^ 4"
  define T where "T = - S * (x * z ^ 2)"
  define X3 where "X3 = L * L + T + T"
  have z3: "fe_is 1 (z * (y * z ^ 3)) (fe_impl_mul (gj_z a) (gj_y a))" by (rule fe_is_mul [OF Z Y]) simp_all
  have s: "fe_is 1 S (fe_impl_sqr (gj_y a))" unfolding S_def by (rule fe_is_sqr [OF Y]) simp
  have "fe_is 3 (x * z ^ 2 * (x * z ^ 2) * of_nat (unat (3 :: u64))) (fe_impl_mul_int_unchecked (fe_impl_sqr (gj_x a)) 3)"
    by (rule fe_is_mul_int [OF fe_is_sqr [OF X]]) simp_all
  moreover have "x * z ^ 2 * (x * z ^ 2) * of_nat (unat (3 :: u64)) = 2 * L"
    using arg_cong [OF l, of "\<lambda>u. u * z ^ 4"] unfolding L_def small_numbers of_nat_numeral by (simp add: ring_norm)
  ultimately have l3: "fe_is 2 L (fe_impl_half (fe_impl_mul_int_unchecked (fe_impl_sqr (gj_x a)) 3))"
    by (intro fe_is_half [of 3]) simp_all
  have t: "fe_is 1 T (fe_impl_mul (fe_impl_negate_unchecked (fe_impl_sqr (gj_y a)) 1) (gj_x a))"
    unfolding T_def by (rule fe_is_mul [OF fe_is_neg [OF s refl] X]) simp_all
  have x3: "fe_is 3 X3 (fe_impl_add (fe_impl_add (fe_impl_sqr ?l) ?t) ?t)"
    unfolding X3_def by (rule fe_is_add [OF fe_is_add [OF fe_is_sqr [OF l3] t refl] t]) simp_all
  have y3: "fe_is 3 (- ((T + X3) * L + S * S))
      (fe_impl_negate_unchecked (fe_impl_add (fe_impl_mul (fe_impl_add ?t (fe_impl_add (fe_impl_add (fe_impl_sqr ?l) ?t) ?t)) ?l) (fe_impl_sqr ?s)) 2)"
    by (rule fe_is_neg [OF fe_is_add [OF fe_is_mul [OF fe_is_add [OF t x3 refl] l3] fe_is_sqr [OF s] refl]]) simp_all
  have d: "gej_double a = \<lparr> gj_x = fe_impl_add (fe_impl_add (fe_impl_sqr ?l) ?t) ?t,
      gj_y = fe_impl_negate_unchecked (fe_impl_add (fe_impl_mul (fe_impl_add ?t (fe_impl_add (fe_impl_add (fe_impl_sqr ?l) ?t) ?t)) ?l) (fe_impl_sqr ?s)) 2,
      gj_z = fe_impl_mul (gj_z a) (gj_y a), gj_infinity = gj_infinity a \<rparr>"
    unfolding gej_double_def Let_def by (rule refl)
  have "X3 = (l\<^sup>2 - x - x) * (z * (y * z ^ 3)) ^ 2" unfolding X3_def T_def S_def L_def by (simp add: ring_norm)
  moreover have "- ((T + X3) * L + S * S) = (l * (x - (l\<^sup>2 - x - x)) - y) * (z * (y * z ^ 3)) ^ 3" unfolding X3_def T_def S_def L_def by (simp add: ring_norm)
  moreover have "invertible (z * (y * z ^ 3))" using z y by (simp add: invertible_mult power3_eq_cube)
  ultimately show ?thesis unfolding third_point_def Let_def d using x3 y3 z3 fin by (intro gej_isI [of 3 X3 _ 3]) simp_all
qed

section \<open>Variable-time additions\<close>

lemma add_tail_is:
  assumes U: "fe_is 4 (x1 * w ^ 2) u1" and S: "fe_is 4 (y1 * w ^ 3) s1" and H: "fe_is 8 ((x2 - x1) * w ^ 2) h" and I: "fe_is 8 ((y1 - y2) * w ^ 3) i"
    and Z: "fe_is 1 ((x2 - x1) * w ^ 3) z3" and w: "invertible w" and d: "invertible (x2 - x1)" and l: "(x2 - x1) * l = y2 - y1"
  shows "gej_is (gej_add_tail z3 u1 s1 h i) (third_point l x1 y1 x2)"
proof -
  define H' I' where "H' = (x2 - x1) * w ^ 2" and "I' = - ((x2 - x1) * l * w ^ 3)"
  have i: "(y1 - y2) * w ^ 3 = I'" unfolding I'_def l by (simp add: algebra_simps)
  let ?h2 = "fe_impl_negate_unchecked (fe_impl_sqr h) 1"
  let ?h3 = "fe_impl_mul ?h2 h" and ?t = "fe_impl_mul u1 ?h2"
  let ?x = "fe_impl_add (fe_impl_add (fe_impl_add (fe_impl_sqr i) ?h3) ?t) ?t"
  define X where "X = I' * I' + - (H' * H') * H' + x1 * w ^ 2 * - (H' * H') + x1 * w ^ 2 * - (H' * H')"
  have h2: "fe_is 2 (- (H' * H')) ?h2" unfolding H'_def by (rule fe_is_neg [OF fe_is_sqr [OF H]]) simp_all
  have h3: "fe_is 1 (- (H' * H') * H') ?h3" using fe_is_mul [OF h2 H] by (simp add: H'_def)
  have t: "fe_is 1 (x1 * w ^ 2 * - (H' * H')) ?t" by (rule fe_is_mul [OF U h2]) simp_all
  have x: "fe_is 4 X ?x" unfolding X_def
    by (rule fe_is_add [OF fe_is_add [OF fe_is_add [OF fe_is_sqr [OF I [unfolded i]] h3 refl] t refl] t]) simp_all
  have y: "fe_is 2 ((x1 * w ^ 2 * - (H' * H') + X) * I' + - (H' * H') * H' * (y1 * w ^ 3)) (fe_impl_add (fe_impl_mul (fe_impl_add ?t ?x) i) (fe_impl_mul ?h3 s1))"
    by (rule fe_is_add [OF fe_is_mul [OF fe_is_add [OF t x refl] I [unfolded i]] fe_is_mul [OF h3 S]]) simp_all
  have r: "gej_add_tail z3 u1 s1 h i = \<lparr> gj_x = ?x, gj_y = fe_impl_add (fe_impl_mul (fe_impl_add ?t ?x) i) (fe_impl_mul ?h3 s1), gj_z = z3, gj_infinity = False \<rparr>"
    unfolding gej_add_tail_def Let_def by (rule refl)
  have "invertible ((x2 - x1) * w ^ 3)" using w d by (simp add: invertible_mult power3_eq_cube)
  moreover have "X = (l\<^sup>2 - x1 - x2) * ((x2 - x1) * w ^ 3) ^ 2" unfolding X_def H'_def I'_def by (simp add: ring_norm)
  moreover have "(x1 * w ^ 2 * - (H' * H') + X) * I' + - (H' * H') * H' * (y1 * w ^ 3) = (l * (x1 - (l\<^sup>2 - x1 - x2)) - y1) * ((x2 - x1) * w ^ 3) ^ 3"
    unfolding X_def H'_def I'_def by (simp add: ring_norm)
  ultimately show ?thesis unfolding third_point_def Let_def r using x y Z by (intro gej_isI [of 4 X _ 2]) simp_all
qed

inductive_cases point_add_affE: "point_add (Aff x1 y1) (Aff x2 y2) R"

lemma invertible_nonzero: "invertible x \<Longrightarrow> x \<noteq> 0"
  by (auto simp: invertible_def)

lemma double_var_is: "gej_is a (Aff x y) \<Longrightarrow> invertible y \<Longrightarrow> 2 * y * l = 3 * x\<^sup>2 \<Longrightarrow> gej_is (fst (gej_double_var a)) (third_point l x y x)"
  using double_is [of a x y l] by (simp add: gej_double_var_def gej_is_def)

text \<open>The common part: equal points are doubled, points with one abscissa cancel, the others are added.\<close>

lemma addition_is:
  assumes "point_add (Aff x1 y1) (Aff x2 y2) R" "gej_is a (Aff x1 y1)" "invertible w"
    and U: "fe_is 4 (x1 * w ^ 2) u1" and S: "fe_is 4 (y1 * w ^ 3) s1" and H: "fe_is 8 ((x2 - x1) * w ^ 2) h" and I: "fe_is 8 ((y1 - y2) * w ^ 3) i"
    and Z: "fe_is 1 ((x2 - x1) * w ^ 3) z3"
  shows "gej_is (if fe_impl_normalizes_to_zero_var h
      then if fe_impl_normalizes_to_zero_var i then fst (gej_double_var a) else gej_set_infinity
      else gej_add_tail z3 u1 s1 h i) R"
proof -
  have w: "invertible (w ^ 2)" "invertible (w ^ 3)" using assms(3) by (simp_all add: power2_eq_square power3_eq_cube invertible_mult)
  have h: "fe_impl_normalizes_to_zero_var h \<longleftrightarrow> x2 = x1" using fe_is_zero(2) [OF H] invertible_cancel [OF w(1), of "x2 - x1"] by auto
  have i: "fe_impl_normalizes_to_zero_var i \<longleftrightarrow> y1 = y2" using fe_is_zero(2) [OF I] invertible_cancel [OF w(2), of "y1 - y2"] by auto
  from assms(1) consider "x1 = x2" "y1 \<noteq> y2" "R = Inf"
    | l where "x1 = x2" "y1 = y2" "invertible y1" "2 * y1 * l = 3 * x1\<^sup>2" "R = third_point l x1 y1 x1"
    | l where "invertible (x2 - x1)" "(x2 - x1) * l = y2 - y1" "R = third_point l x1 y1 x2"
    by (rule point_add_affE) (auto simp: third_point_def)
  then show ?thesis
  proof cases
    case 1
    then show ?thesis using h i gej_infinity_is by simp
  next
    case 2
    then show ?thesis using h i double_var_is [OF assms(2)] by simp
  next
    case 3
    then show ?thesis using h add_tail_is [OF U S H I Z assms(3)] invertible_nonzero [of "x2 - x1"] by auto
  qed
qed

lemma point_add_inf: "point_add Inf Q R \<Longrightarrow> R = Q" "point_add P Inf R \<Longrightarrow> R = P"
  by (auto elim: point_add.cases)

lemma gej_is_inf: "gej_is a P \<Longrightarrow> gj_infinity a \<longleftrightarrow> P = Inf"
  by (cases P) (auto simp: gej_is_def)

lemma ge_is_inf: "ge_is a P \<Longrightarrow> ge_infinity a \<longleftrightarrow> P = Inf"
  by (cases P) (auto simp: ge_is_def)

lemma add_ge_var_is:
  assumes a: "gej_is a P" and b: "ge_is b Q" and R: "point_add P Q R"
  shows "gej_is (fst (gej_add_ge_var a b)) R"
proof (cases "P = Inf \<or> Q = Inf")
  case False
  then obtain x1 y1 x2 y2 where P: "P = Aff x1 y1" and Q: "Q = Aff x2 y2" by (metis point.exhaust)
  obtain z where X: "fe_is 4 (x1 * z ^ 2) (gj_x a)" and Y: "fe_is 4 (y1 * z ^ 3) (gj_y a)" and Z: "fe_is 1 z (gj_z a)" and z: "invertible z" and fa: "\<not> gj_infinity a"
    using a unfolding P by (rule gej_isE)
  note B = ge_isE [OF b [unfolded Q]]
  have zz: "fe_is 1 (z * z) (fe_impl_sqr (gj_z a))" by (rule fe_is_sqr [OF Z]) simp
  have h: "fe_is 6 (- (x1 * z ^ 2) + x2 * (z * z)) (fe_impl_add (fe_impl_negate_unchecked (gj_x a) 4) (fe_impl_mul (ge_x b) (fe_impl_sqr (gj_z a))))"
    by (rule fe_is_add [OF fe_is_neg [OF X refl] fe_is_mul [OF B(1) zz]]) simp_all
  have i: "fe_is 6 (- (y2 * (z * z) * z) + y1 * z ^ 3) (fe_impl_add (fe_impl_negate_unchecked (fe_impl_mul (fe_impl_mul (ge_y b) (fe_impl_sqr (gj_z a))) (gj_z a)) 1) (gj_y a))"
    by (rule fe_is_add [OF fe_is_neg [OF fe_is_mul [OF fe_is_mul [OF B(2) zz] Z] refl] Y]) simp_all
  have e: "- (x1 * z ^ 2) + x2 * (z * z) = (x2 - x1) * z ^ 2" "- (y2 * (z * z) * z) + y1 * z ^ 3 = (y1 - y2) * z ^ 3" by (simp_all add: ring_norm)
  have z3: "fe_is 1 ((x2 - x1) * z ^ 3) (fe_impl_mul (gj_z a) (fe_impl_add (fe_impl_negate_unchecked (gj_x a) 4) (fe_impl_mul (ge_x b) (fe_impl_sqr (gj_z a)))))"
    using fe_is_mul [OF Z h] unfolding e by (simp add: ring_norm)
  show ?thesis
    using addition_is [OF R [unfolded P Q] a [unfolded P] z X Y fe_is_mono [OF h [unfolded e], of 8] fe_is_mono [OF i [unfolded e], of 8] z3] fa B(3)
    by (simp add: gej_add_ge_var_def Let_def split: if_splits)
next
  case True
  then show ?thesis using a b gej_set_ge_is [OF b] point_add_inf [of _ R] R gej_is_inf [OF a] ge_is_inf [OF b] by (auto simp: gej_add_ge_var_def)
qed

lemma add_var_is:
  assumes a: "gej_is a P" and b: "gej_is b Q" and R: "point_add P Q R"
  shows "gej_is (fst (gej_add_var a b)) R"
proof (cases "P = Inf \<or> Q = Inf")
  case False
  then obtain x1 y1 x2 y2 where P: "P = Aff x1 y1" and Q: "Q = Aff x2 y2" by (metis point.exhaust)
  obtain z where X: "fe_is 4 (x1 * z ^ 2) (gj_x a)" and Y: "fe_is 4 (y1 * z ^ 3) (gj_y a)" and Z: "fe_is 1 z (gj_z a)" and z: "invertible z" and fa: "\<not> gj_infinity a"
    using a unfolding P by (rule gej_isE)
  obtain v where X': "fe_is 4 (x2 * v ^ 2) (gj_x b)" and Y': "fe_is 4 (y2 * v ^ 3) (gj_y b)" and V: "fe_is 1 v (gj_z b)" and v: "invertible v" and fb: "\<not> gj_infinity b"
    using b unfolding Q by (rule gej_isE)
  let ?u1 = "fe_impl_mul (gj_x a) (fe_impl_sqr (gj_z b))" and ?u2 = "fe_impl_mul (gj_x b) (fe_impl_sqr (gj_z a))"
  let ?s1 = "fe_impl_mul (fe_impl_mul (gj_y a) (fe_impl_sqr (gj_z b))) (gj_z b)" and ?s2 = "fe_impl_mul (fe_impl_mul (gj_y b) (fe_impl_sqr (gj_z a))) (gj_z a)"
  let ?h = "fe_impl_add (fe_impl_negate_unchecked ?u1 1) ?u2" and ?i = "fe_impl_add (fe_impl_negate_unchecked ?s2 1) ?s1"
  have zz: "fe_is 1 (z * z) (fe_impl_sqr (gj_z a))" and vv: "fe_is 1 (v * v) (fe_impl_sqr (gj_z b))" using fe_is_sqr [OF Z] fe_is_sqr [OF V] by simp_all
  have u1: "fe_is 1 (x1 * (z * v) ^ 2) ?u1" and u2: "fe_is 1 (x2 * (z * v) ^ 2) ?u2" using fe_is_mul [OF X vv] fe_is_mul [OF X' zz] by (simp_all add: ring_norm)
  have s1: "fe_is 1 (y1 * (z * v) ^ 3) ?s1" and s2: "fe_is 1 (y2 * (z * v) ^ 3) ?s2"
    using fe_is_mul [OF fe_is_mul [OF Y vv] V] fe_is_mul [OF fe_is_mul [OF Y' zz] Z] by (simp_all add: ring_norm)
  have h: "fe_is 3 ((x2 - x1) * (z * v) ^ 2) ?h" by (rule fe_is_conv [OF fe_is_add [OF fe_is_neg [OF u1 refl] u2 refl]]) (simp_all add: algebra_simps)
  have i: "fe_is 3 ((y1 - y2) * (z * v) ^ 3) ?i" by (rule fe_is_conv [OF fe_is_add [OF fe_is_neg [OF s2 refl] s1 refl]]) (simp_all add: algebra_simps)
  have z3: "fe_is 1 ((x2 - x1) * (z * v) ^ 3) (fe_impl_mul (gj_z a) (fe_impl_mul ?h (gj_z b)))"
    using fe_is_mul [OF Z fe_is_mul [OF h V]] by (simp add: ring_norm)
  show ?thesis
    using addition_is [OF R [unfolded P Q] a [unfolded P] invertible_mult [OF z v] fe_is_mono [OF u1, of 4] fe_is_mono [OF s1, of 4] fe_is_mono [OF h, of 8] fe_is_mono [OF i, of 8] z3] fa fb
    by (simp add: gej_add_var_def Let_def split: if_splits)
next
  case True
  then show ?thesis using a b point_add_inf [of _ R] R gej_is_inf [OF a] gej_is_inf [OF b] by (auto simp: gej_add_var_def)
qed

text \<open>Scaling the coordinates: the point a Jacobian triple with \<open>z = 1 / c\<close> stands for.\<close>

fun scale_point :: "fp \<Rightarrow> point \<Rightarrow> point" where
  "scale_point c Inf = Inf"
| "scale_point c (Aff x y) = Aff (x * c ^ 2) (y * c ^ 3)"

lemma add_zinv_var_is:
  assumes a: "gej_is a P" and b: "ge_is b B" and c: "fe_is 8 c bzinv" and R: "point_add P (scale_point c B) R"
  shows "gej_is (gej_add_zinv_var a b bzinv) R"
proof (cases "P = Inf \<or> B = Inf")
  case False
  then obtain x1 y1 x2 y2 where P: "P = Aff x1 y1" and B: "B = Aff x2 y2" by (metis point.exhaust)
  obtain z where X: "fe_is 4 (x1 * z ^ 2) (gj_x a)" and Y: "fe_is 4 (y1 * z ^ 3) (gj_y a)" and Z: "fe_is 1 z (gj_z a)" and z: "invertible z" and fa: "\<not> gj_infinity a"
    using a unfolding P by (rule gej_isE)
  note Q = ge_isE [OF b [unfolded B]]
  let ?az = "fe_impl_mul (gj_z a) bzinv"
  let ?h = "fe_impl_add (fe_impl_negate_unchecked (gj_x a) 4) (fe_impl_mul (ge_x b) (fe_impl_sqr ?az))"
  let ?i = "fe_impl_add (fe_impl_negate_unchecked (fe_impl_mul (fe_impl_mul (ge_y b) (fe_impl_sqr ?az)) ?az) 1) (gj_y a)"
  have az: "fe_is 1 (z * c) ?az" by (rule fe_is_mul [OF Z c]) simp_all
  have zz: "fe_is 1 (z * c * (z * c)) (fe_impl_sqr ?az)" by (rule fe_is_sqr [OF az]) simp
  have h: "fe_is 6 ((x2 * c ^ 2 - x1) * z ^ 2) ?h"
    by (rule fe_is_conv [OF fe_is_add [OF fe_is_neg [OF X refl] fe_is_mul [OF Q(1) zz] refl]]) (simp_all only: small_numbers, simp_all add: ring_norm)
  have i: "fe_is 6 ((y1 - y2 * c ^ 3) * z ^ 3) ?i"
    by (rule fe_is_conv [OF fe_is_add [OF fe_is_neg [OF fe_is_mul [OF fe_is_mul [OF Q(2) zz] az] refl] Y refl]]) (simp_all only: small_numbers, simp_all add: ring_norm)
  have z3: "fe_is 1 ((x2 * c ^ 2 - x1) * z ^ 3) (fe_impl_mul (gj_z a) ?h)" by (rule fe_is_conv [OF fe_is_mul [OF Z h]]) (simp_all add: ring_norm)
  show ?thesis
    using addition_is [OF R [unfolded P B scale_point.simps] a [unfolded P] z X Y fe_is_mono [OF h, of 8] fe_is_mono [OF i, of 8] z3] fa Q(3)
    by (simp add: gej_add_zinv_var_def Let_def split: if_splits)
next
  case True
  show ?thesis
  proof (cases "P = Inf")
    case True
    then have "R = scale_point c B" using R point_add_inf by simp
    moreover have "gej_is (gej_add_zinv_var a b bzinv) (scale_point c B)"
    proof (cases B)
      case Inf
      have "magnitude 4 (ge_x b)" "magnitude 3 (ge_y b)" using b by (simp_all add: ge_is_def ge_ok_def)
      then have *: "fe_is 4 (fe_val (ge_x b)) (ge_x b)" "fe_is 3 (fe_val (ge_y b)) (ge_y b)" by (simp_all add: fe_is_def)
      show ?thesis
        using fe_is_mul [OF *(1) fe_is_sqr [OF c]] fe_is_mul [OF *(2) fe_is_mul [OF fe_is_sqr [OF c] c]] fe_is_set_int [of 1] gej_is_inf [OF a] ge_is_inf [OF b] \<open>P = Inf\<close> Inf
        by (auto simp: gej_add_zinv_var_def Let_def gej_is_def gej_ok_def fe_is_def intro: magnitude_mono)
    next
      case (Aff x2 y2)
      note Q = ge_isE [OF b [unfolded Aff]]
      have x: "fe_is 1 (x2 * c ^ 2) (fe_impl_mul (ge_x b) (fe_impl_sqr bzinv))" by (rule fe_is_conv [OF fe_is_mul [OF Q(1) fe_is_sqr [OF c]]]) (simp_all add: ring_norm)
      have y: "fe_is 1 (y2 * c ^ 3) (fe_impl_mul (ge_y b) (fe_impl_mul (fe_impl_sqr bzinv) bzinv))"
        by (rule fe_is_conv [OF fe_is_mul [OF Q(2) fe_is_mul [OF fe_is_sqr [OF c] c]]]) (simp_all add: ring_norm)
      show ?thesis
        using x y fe_is_set_int [of 1] gej_is_inf [OF a] ge_is_inf [OF b] \<open>P = Inf\<close> unfolding Aff scale_point.simps
        by (intro gej_isI [of 1 "x2 * c\<^sup>2" _ 1 "y2 * c ^ 3" 1]) (auto simp: gej_add_zinv_var_def Let_def invertible_def)
    qed
    ultimately show ?thesis by simp
  next
    case False
    then have "R = P" using R \<open>P = Inf \<or> B = Inf\<close> point_add_inf by auto
    then show ?thesis using False \<open>P = Inf \<or> B = Inf\<close> a gej_is_inf [OF a] ge_is_inf [OF b] by (auto simp: gej_add_zinv_var_def)
  qed
qed

section \<open>The constant-time addition\<close>

definition on_curve :: "point \<Rightarrow> bool" where
  "on_curve P \<longleftrightarrow> (case P of Inf \<Rightarrow> True | Aff x y \<Rightarrow> y\<^sup>2 = x ^ 3 + 7)"

text \<open>From the numerator \<open>RA\<close> and denominator \<open>MA\<close> of the slope on, whichever expression they are.\<close>

definition add_ge_tail :: "secp256k1_fe \<Rightarrow> secp256k1_fe \<Rightarrow> secp256k1_fe \<Rightarrow> secp256k1_fe \<Rightarrow> secp256k1_fe \<Rightarrow> secp256k1_fe \<times> secp256k1_fe \<times> secp256k1_fe" where
  "add_ge_tail z t ra ma n =
     (let q = fe_impl_mul (fe_impl_negate_unchecked t 5) (fe_impl_sqr ma);
          x3 = fe_impl_add (fe_impl_sqr ra) q;
          y3 = fe_impl_add (fe_impl_mul (fe_impl_add (fe_impl_mul_int_unchecked x3 2) q) ra) n
      in (x3, fe_impl_half (fe_impl_negate_unchecked y3 6), fe_impl_mul z ma))"

lemma add_ge_tail_is:
  assumes Z: "fe_is 1 z zf" and T: "fe_is 5 ((x1 + x2) * z ^ 2) tf" and RA: "fe_is 8 (l * z * m) ra" and MA: "fe_is 6 m ma" and N: "fe_is 5 (m ^ 3 * (y1 + y2) * z ^ 3) n"
    and l: "(x2 - x1) * l = y2 - y1" and inv: "invertible z" "invertible m" and r: "add_ge_tail zf tf ra ma n = (x3, y3, z3)"
  shows "fe_is 1 (z * m) z3 \<and> gej_is \<lparr> gj_x = x3, gj_y = y3, gj_z = z3, gj_infinity = False \<rparr> (third_point l x1 y1 x2)"
proof -
  let ?q = "fe_impl_mul (fe_impl_negate_unchecked tf 5) (fe_impl_sqr ma)"
  define Q X where "Q = - ((x1 + x2) * z ^ 2) * (m * m)" and "X = l * z * m * (l * z * m) + Q"
  have q: "fe_is 1 Q ?q" unfolding Q_def by (rule fe_is_mul [OF fe_is_neg [OF T refl] fe_is_sqr [OF MA]]) simp_all
  have x: "fe_is 2 X (fe_impl_add (fe_impl_sqr ra) ?q)" unfolding X_def by (rule fe_is_add [OF fe_is_sqr [OF RA] q]) simp_all
  have x2: "fe_is 4 (X * 2) (fe_impl_mul_int_unchecked (fe_impl_add (fe_impl_sqr ra) ?q) 2)"
    by (rule fe_is_conv [OF fe_is_mul_int [OF x refl]]) simp_all
  have y: "fe_is 6 ((X * 2 + Q) * (l * z * m) + m ^ 3 * (y1 + y2) * z ^ 3)
      (fe_impl_add (fe_impl_mul (fe_impl_add (fe_impl_mul_int_unchecked (fe_impl_add (fe_impl_sqr ra) ?q) 2) ?q) ra) n)"
    by (rule fe_is_add [OF fe_is_mul [OF fe_is_add [OF x2 q refl] RA] N]) simp_all
  have e: "- ((X * 2 + Q) * (l * z * m) + m ^ 3 * (y1 + y2) * z ^ 3) = 2 * ((l * (x1 - (l\<^sup>2 - x1 - x2)) - y1) * (z * m) ^ 3)"
  proof -
    have y2: "y2 = y1 + (x2 - x1) * l" using l by simp
    show ?thesis unfolding X_def Q_def y2 by (simp add: ring_norm)
  qed
  have h: "fe_is 4 ((l * (x1 - (l\<^sup>2 - x1 - x2)) - y1) * (z * m) ^ 3) y3"
    using r fe_is_half [OF fe_is_conv [OF fe_is_neg [OF y refl] e refl]] by (auto simp: add_ge_tail_def Let_def)
  have z3: "fe_is 1 (z * m) z3" using r fe_is_mul [OF Z MA] by (auto simp: add_ge_tail_def Let_def)
  have x': "fe_is 2 X x3" using r x by (auto simp: add_ge_tail_def Let_def)
  have "X = (l\<^sup>2 - x1 - x2) * (z * m) ^ 2" unfolding X_def Q_def by (simp add: ring_norm)
  then show ?thesis using z3 x' h invertible_mult [OF inv] unfolding third_point_def Let_def by (intro conjI gej_isI [of 2 X _ 4]) simp_all
qed

lemma add_ge_tail_ok:
  assumes "fe_is 1 z zf" "fe_is 5 t tf" "fe_is 8 u ra" "fe_is 6 m ma" "fe_is 5 v n" "add_ge_tail zf tf ra ma n = (x3, y3, z3)"
  shows "magnitude 4 x3" "magnitude 4 y3" "fe_is 1 (z * m) z3"
proof -
  let ?q = "fe_impl_mul (fe_impl_negate_unchecked tf 5) (fe_impl_sqr ma)"
  have q: "fe_is 1 (- t * (m * m)) ?q" by (rule fe_is_mul [OF fe_is_neg [OF assms(2) refl] fe_is_sqr [OF assms(4)]]) simp_all
  have x: "fe_is 2 (u * u + - t * (m * m)) (fe_impl_add (fe_impl_sqr ra) ?q)" by (rule fe_is_add [OF fe_is_sqr [OF assms(3)] q]) simp_all
  have x2: "fe_is 4 ((u * u + - t * (m * m)) * 2) (fe_impl_mul_int_unchecked (fe_impl_add (fe_impl_sqr ra) ?q) 2)"
    by (rule fe_is_conv [OF fe_is_mul_int [OF x refl]]) simp_all
  have y: "fe_is 6 (((u * u + - t * (m * m)) * 2 + - t * (m * m)) * u + v)
      (fe_impl_add (fe_impl_mul (fe_impl_add (fe_impl_mul_int_unchecked (fe_impl_add (fe_impl_sqr ra) ?q) 2) ?q) ra) n)"
    by (rule fe_is_add [OF fe_is_mul [OF fe_is_add [OF x2 q refl] assms(3)] assms(5)]) simp_all
  have "fe_is 7 (- (((u * u + - t * (m * m)) * 2 + - t * (m * m)) * u + v))
      (fe_impl_negate_unchecked (fe_impl_add (fe_impl_mul (fe_impl_add (fe_impl_mul_int_unchecked (fe_impl_add (fe_impl_sqr ra) ?q) 2) ?q) ra) n) 6)"
    by (rule fe_is_neg [OF y]) simp_all
  then show "magnitude 4 y3" using assms(6) half_spec(2) [of 7] by (auto simp: add_ge_tail_def Let_def fe_is_def)
  show "magnitude 4 x3" using assms(6) fe_is_mono [OF x, of 4] by (auto simp: add_ge_tail_def Let_def fe_is_def)
  show "fe_is 1 (z * m) z3" using assms(6) fe_is_mul [OF assms(1,4)] by (auto simp: add_ge_tail_def Let_def)
qed

lemma add_ge_unfold:
  "gej_add_ge a b =
     (let u2 = fe_impl_mul (ge_x b) (fe_impl_sqr (gj_z a)); s2 = fe_impl_mul (fe_impl_mul (ge_y b) (fe_impl_sqr (gj_z a))) (gj_z a);
          t = fe_impl_add (gj_x a) u2; m = fe_impl_add (gj_y a) s2;
          d = fe_impl_normalizes_to_zero m;
          ra = (if d then fe_impl_mul_int_unchecked (gj_y a) 2 else fe_impl_add (fe_impl_sqr t) (fe_impl_mul (gj_x a) (fe_impl_negate_unchecked u2 1)));
          ma = (if d then fe_impl_add (fe_impl_negate_unchecked u2 1) (gj_x a) else m);
          n = (if d then m else fe_impl_sqr (fe_impl_sqr m));
          (x3, y3, z3) = add_ge_tail (gj_z a) t ra ma n
      in if gj_infinity a then \<lparr> gj_x = ge_x b, gj_y = ge_y b, gj_z = fe_impl_set_int 1, gj_infinity = fe_impl_normalizes_to_zero (fe_impl_set_int 1) \<rparr>
         else \<lparr> gj_x = x3, gj_y = y3, gj_z = z3, gj_infinity = fe_impl_normalizes_to_zero z3 \<rparr>)"
  by (simp add: gej_add_ge_def add_ge_tail_def Let_def cmov_spec_fe)

lemma slope_unified:
  fixes x1 :: fp
  assumes "invertible (x2 - x1)" "(x2 - x1) * l = y2 - y1" "y1\<^sup>2 = x1 ^ 3 + 7" "y2\<^sup>2 = x2 ^ 3 + 7"
  shows "x1\<^sup>2 + x1 * x2 + x2\<^sup>2 = l * (y1 + y2)"
proof -
  have "(x1\<^sup>2 + x1 * x2 + x2\<^sup>2 - l * (y1 + y2)) * (x2 - x1) = (x2 ^ 3 - x1 ^ 3) - (x2 - x1) * l * (y1 + y2)" by (simp add: ring_norm)
  also have "\<dots> = (x2 ^ 3 - x1 ^ 3) - (y2\<^sup>2 - y1\<^sup>2)" unfolding assms(2) by (simp add: ring_norm)
  also have "\<dots> = 0" unfolding assms(3,4) by simp
  finally have "x1\<^sup>2 + x1 * x2 + x2\<^sup>2 - l * (y1 + y2) = 0" by (rule invertible_cancel [OF assms(1)])
  then show ?thesis by simp
qed

lemma set_int_1_nonzero: "\<not> fe_impl_normalizes_to_zero (fe_impl_set_int 1)"
  using fe_is_zero(1) [OF fe_is_set_int [of 1]] by simp

lemma add_ge_inf:
  assumes "gj_infinity a" "ge_is b (Aff x y)"
  shows "gej_is (gej_add_ge a b) (Aff x y)"
proof -
  have "gej_add_ge a b = gej_set_ge b"
    using assms(1) ge_isE(3) [OF assms(2)] set_int_1_nonzero by (simp add: add_ge_unfold Let_def case_prod_unfold gej_set_ge_def)
  then show ?thesis using gej_set_ge_is [OF assms(2)] by simp
qed

lemma add_ge_tail_result:
  assumes "fe_is 1 z (gj_z a)" "fe_is 5 ((x1 + x2) * z ^ 2) tf" "fe_is 8 (l * z * m) ra" "fe_is 6 m ma" "fe_is 5 (m ^ 3 * (y1 + y2) * z ^ 3) n"
    "(x2 - x1) * l = y2 - y1" "invertible z" "invertible m" "add_ge_tail (gj_z a) tf ra ma n = (x3, y3, z3)"
  shows "gej_is \<lparr> gj_x = x3, gj_y = y3, gj_z = z3, gj_infinity = fe_impl_normalizes_to_zero z3 \<rparr> (third_point l x1 y1 x2)"
proof -
  note T = add_ge_tail_is [OF assms]
  have "\<not> fe_impl_normalizes_to_zero z3"
    using fe_is_zero(1) [OF T [THEN conjunct1]] invertible_nonzero [OF invertible_mult [OF assms(7,8)]] by simp
  then show ?thesis using T by simp
qed

abbreviation ag_u2 :: "secp256k1_gej \<Rightarrow> secp256k1_ge \<Rightarrow> secp256k1_fe" where
  "ag_u2 a b \<equiv> fe_impl_mul (ge_x b) (fe_impl_sqr (gj_z a))"

abbreviation ag_t :: "secp256k1_gej \<Rightarrow> secp256k1_ge \<Rightarrow> secp256k1_fe" where
  "ag_t a b \<equiv> fe_impl_add (gj_x a) (ag_u2 a b)"

abbreviation ag_m :: "secp256k1_gej \<Rightarrow> secp256k1_ge \<Rightarrow> secp256k1_fe" where
  "ag_m a b \<equiv> fe_impl_add (gj_y a) (fe_impl_mul (fe_impl_mul (ge_y b) (fe_impl_sqr (gj_z a))) (gj_z a))"

lemma add_ge_start:
  assumes a: "gej_is a (Aff x1 y1)" and b: "ge_is b (Aff x2 y2)"
  obtains z where "fe_is 4 (x1 * z ^ 2) (gj_x a)" "fe_is 4 (y1 * z ^ 3) (gj_y a)" "fe_is 1 z (gj_z a)" "invertible z" "\<not> gj_infinity a"
    "fe_is 5 ((x1 + x2) * z ^ 2) (ag_t a b)" "fe_is 5 ((y1 + y2) * z ^ 3) (ag_m a b)" "fe_is 2 (- (x2 * z ^ 2)) (fe_impl_negate_unchecked (ag_u2 a b) 1)"
    "fe_impl_normalizes_to_zero (ag_m a b) \<longleftrightarrow> y1 + y2 = 0"
proof -
  obtain z where X: "fe_is 4 (x1 * z ^ 2) (gj_x a)" and Y: "fe_is 4 (y1 * z ^ 3) (gj_y a)" and Z: "fe_is 1 z (gj_z a)" and z: "invertible z" and fa: "\<not> gj_infinity a"
    using a by (rule gej_isE)
  note B = ge_isE [OF b]
  have z3: "invertible (z ^ 3)" using z by (simp add: power3_eq_cube invertible_mult)
  have u2: "fe_is 1 (x2 * z ^ 2) (ag_u2 a b)" using fe_is_mul [OF B(1) fe_is_sqr [OF Z]] by (simp add: ring_norm)
  have s2: "fe_is 1 (y2 * z ^ 3) (fe_impl_mul (fe_impl_mul (ge_y b) (fe_impl_sqr (gj_z a))) (gj_z a))"
    using fe_is_mul [OF fe_is_mul [OF B(2) fe_is_sqr [OF Z]] Z] by (simp add: ring_norm)
  have t: "fe_is 5 ((x1 + x2) * z ^ 2) (ag_t a b)" by (rule fe_is_conv [OF fe_is_add [OF X u2 refl]]) (simp_all add: ring_norm)
  have m: "fe_is 5 ((y1 + y2) * z ^ 3) (ag_m a b)" by (rule fe_is_conv [OF fe_is_add [OF Y s2 refl]]) (simp_all add: ring_norm)
  have d: "fe_impl_normalizes_to_zero (ag_m a b) \<longleftrightarrow> y1 + y2 = 0" using fe_is_zero(1) [OF m] invertible_cancel [OF z3, of "y1 + y2"] by auto
  have mu: "fe_is 2 (- (x2 * z ^ 2)) (fe_impl_negate_unchecked (ag_u2 a b) 1)" by (rule fe_is_neg [OF u2]) simp_all
  show thesis by (rule that [OF X Y Z z fa t m mu d])
qed

lemma point_add_affD:
  assumes "point_add (Aff x1 y1) (Aff x2 y2) R"
  shows "x1 = x2 \<and> y1 \<noteq> y2 \<and> R = Inf \<or>
    (\<exists>l. (x2 - x1) * l = y2 - y1 \<and> R = third_point l x1 y1 x2 \<and> (x1 = x2 \<and> y1 = y2 \<and> invertible y1 \<and> 2 * y1 * l = 3 * x1\<^sup>2 \<or> invertible (x2 - x1)))"
  using assms by (rule point_add_affE) (auto simp: third_point_def)

lemma add_ge_degenerate:
  assumes a: "gej_is a (Aff x1 y1)" and b: "ge_is b (Aff x2 y2)" and R: "point_add (Aff x1 y1) (Aff x2 y2) R" and deg: "y1 + y2 = 0"
  shows "gej_is (gej_add_ge a b) R"
proof -
  obtain z where X: "fe_is 4 (x1 * z ^ 2) (gj_x a)" and Y: "fe_is 4 (y1 * z ^ 3) (gj_y a)" and Z: "fe_is 1 z (gj_z a)" and z: "invertible z" and fa: "\<not> gj_infinity a"
    and t: "fe_is 5 ((x1 + x2) * z ^ 2) (ag_t a b)" and m: "fe_is 5 ((y1 + y2) * z ^ 3) (ag_m a b)"
    and mu: "fe_is 2 (- (x2 * z ^ 2)) (fe_impl_negate_unchecked (ag_u2 a b) 1)" and d: "fe_impl_normalizes_to_zero (ag_m a b) \<longleftrightarrow> y1 + y2 = 0"
    using a b by (rule add_ge_start)
  let ?ra = "fe_impl_mul_int_unchecked (gj_y a) 2" and ?ma = "fe_impl_add (fe_impl_negate_unchecked (ag_u2 a b) 1) (gj_x a)"
  have ra: "fe_is 8 (y1 * z ^ 3 * 2) ?ra" by (rule fe_is_conv [OF fe_is_mul_int [OF Y refl]]) simp_all
  have ma: "fe_is 6 ((x1 - x2) * z ^ 2) ?ma" by (rule fe_is_conv [OF fe_is_add [OF mu X refl]]) (simp_all add: algebra_simps)
  obtain x3 y3 w3 where tl: "add_ge_tail (gj_z a) (ag_t a b) ?ra ?ma (ag_m a b) = (x3, y3, w3)" by (metis prod_cases3)
  have g: "gej_add_ge a b = \<lparr> gj_x = x3, gj_y = y3, gj_z = w3, gj_infinity = fe_impl_normalizes_to_zero w3 \<rparr>"
    using deg d fa tl by (simp add: add_ge_unfold Let_def)
  from point_add_affD [OF R] show ?thesis
  proof (elim disjE exE conjE)
    assume opp: "x1 = x2" "R = Inf"
    note ok = add_ge_tail_ok [OF Z t ra ma m tl]
    then show ?thesis using fe_is_zero(1) [OF ok(3)] opp by (simp add: g gej_is_def gej_ok_def fe_is_def)
  next
    fix l
    assume y: "y1 = y2" "invertible y1"
    have "2 * y1 = 2 * 0" using deg unfolding y(1) mult_2 by simp
    then have "y1 = 0" by (rule two_cancel)
    then show ?thesis using invertible_nonzero [OF y(2)] by simp
  next
    fix l
    assume l: "(x2 - x1) * l = y2 - y1" "R = third_point l x1 y1 x2" and inv: "invertible (x2 - x1)"
    have "l * z * ((x1 - x2) * z ^ 2) = - ((x2 - x1) * l) * z ^ 3" by (simp add: ring_norm)
    also have "\<dots> = (2 * y1 - (y1 + y2)) * z ^ 3" unfolding l(1) by (simp add: algebra_simps)
    finally have ra': "fe_is 8 (l * z * ((x1 - x2) * z ^ 2)) ?ra" by (intro fe_is_conv [OF ra]) (simp_all add: deg)
    have n: "fe_is 5 (((x1 - x2) * z ^ 2) ^ 3 * (y1 + y2) * z ^ 3) (ag_m a b)" using m by (simp add: deg)
    have "invertible ((x1 - x2) * z ^ 2)" using inv z invertible_minus [of "x2 - x1"] by (simp add: invertible_mult power2_eq_square)
    from add_ge_tail_result [OF Z t ra' ma n l(1) z this tl] show ?thesis by (simp add: g l(2))
  qed
qed


lemma add_ge_regular:
  assumes a: "gej_is a (Aff x1 y1)" and b: "ge_is b (Aff x2 y2)" and R: "point_add (Aff x1 y1) (Aff x2 y2) R"
    and curve: "y1\<^sup>2 = x1 ^ 3 + 7" "y2\<^sup>2 = x2 ^ 3 + 7" and inv: "invertible (y1 + y2)"
  shows "gej_is (gej_add_ge a b) R"
proof -
  obtain z where X: "fe_is 4 (x1 * z ^ 2) (gj_x a)" and Z: "fe_is 1 z (gj_z a)" and z: "invertible z" and fa: "\<not> gj_infinity a"
    and t: "fe_is 5 ((x1 + x2) * z ^ 2) (ag_t a b)" and m: "fe_is 5 ((y1 + y2) * z ^ 3) (ag_m a b)"
    and mu: "fe_is 2 (- (x2 * z ^ 2)) (fe_impl_negate_unchecked (ag_u2 a b) 1)" and d: "fe_impl_normalizes_to_zero (ag_m a b) \<longleftrightarrow> y1 + y2 = 0"
    using a b by (rule add_ge_start)
  let ?ra = "fe_impl_add (fe_impl_sqr (ag_t a b)) (fe_impl_mul (gj_x a) (fe_impl_negate_unchecked (ag_u2 a b) 1))"
  let ?n = "fe_impl_sqr (fe_impl_sqr (ag_m a b))"
  have ra: "fe_is 2 ((x1\<^sup>2 + x1 * x2 + x2\<^sup>2) * z ^ 4) ?ra"
    by (rule fe_is_conv [OF fe_is_add [OF fe_is_sqr [OF t] fe_is_mul [OF X mu] refl]]) (simp_all add: ring_norm)
  have n: "fe_is 5 (((y1 + y2) * z ^ 3) ^ 3 * (y1 + y2) * z ^ 3) ?n"
    using fe_is_mono [OF fe_is_conv [OF fe_is_sqr [OF fe_is_sqr [OF m]] _ refl], of "((y1 + y2) * z ^ 3) ^ 3 * (y1 + y2) * z ^ 3" 5] by (simp add: ring_norm)
  obtain x3 y3 w3 where tl: "add_ge_tail (gj_z a) (ag_t a b) ?ra (ag_m a b) ?n = (x3, y3, w3)" by (metis prod_cases3)
  have g: "gej_add_ge a b = \<lparr> gj_x = x3, gj_y = y3, gj_z = w3, gj_infinity = fe_impl_normalizes_to_zero w3 \<rparr>"
    using invertible_nonzero [OF inv] d fa tl by (simp add: add_ge_unfold Let_def)
  have "\<not> (x1 = x2 \<and> y1 \<noteq> y2)"
  proof
    assume *: "x1 = x2 \<and> y1 \<noteq> y2"
    have "(y1 - y2) * (y1 + y2) = y1\<^sup>2 - y2\<^sup>2" by (simp add: ring_norm)
    also have "\<dots> = 0" unfolding curve using * by simp
    finally show False using invertible_cancel [OF inv, of "y1 - y2"] * by simp
  qed
  with point_add_affD [OF R] obtain l where l: "(x2 - x1) * l = y2 - y1" "R = third_point l x1 y1 x2"
    and s: "x1 = x2 \<and> y1 = y2 \<and> 2 * y1 * l = 3 * x1\<^sup>2 \<or> invertible (x2 - x1)" by blast
  have sl: "x1\<^sup>2 + x1 * x2 + x2\<^sup>2 = l * (y1 + y2)"
    using s slope_unified [OF _ l(1) curve] by (auto simp: power2_eq_square mult.commute mult.left_commute algebra_simps)
  have ra': "fe_is 8 (l * z * ((y1 + y2) * z ^ 3)) ?ra" using fe_is_mono [OF ra, of 8] unfolding sl by (simp add: ring_norm)
  have "invertible ((y1 + y2) * z ^ 3)" using inv z by (simp add: invertible_mult power3_eq_cube)
  from add_ge_tail_result [OF Z t ra' fe_is_mono [OF m, of 6] n l(1) z this tl] show ?thesis by (simp add: g l(2))
qed

lemma add_ge_is:
  assumes "gej_is a P" "ge_is b (Aff x2 y2)" "point_add P (Aff x2 y2) R" "on_curve P" "on_curve (Aff x2 y2)"
    and dec: "case P of Inf \<Rightarrow> True | Aff x1 y1 \<Rightarrow> y1 + y2 = 0 \<or> invertible (y1 + y2)"
  shows "gej_is (gej_add_ge a b) R"
proof (cases P)
  case Inf
  then have "R = Aff x2 y2" "gj_infinity a" using assms(3) point_add_inf(1) gej_is_inf [OF assms(1)] by simp_all
  then show ?thesis using add_ge_inf [OF _ assms(2)] by simp
next
  case (Aff x1 y1)
  then show ?thesis using assms add_ge_degenerate [of a x1 y1 b x2 y2 R] add_ge_regular [of a x1 y1 b x2 y2 R] by (auto simp: on_curve_def)
qed

end
