(* ===== verification/Group_Points.thy ===== *)
theory Group_Points
  imports Group_Law
begin

text \<open>
  The other operations on points (negation, scaling, conversion, comparison, storage), decompression, and the properties of the point arithmetic.
\<close>

section \<open>Negation, scaling and conversion\<close>

fun neg_point :: "point \<Rightarrow> point" where
  "neg_point Inf = Inf"
| "neg_point (Aff x y) = Aff x (- y)"

lemma neg_coordinate:
  assumes "magnitude m y" "m \<le> 32"
  shows "fe_is 2 (- fe_val y) (fe_impl_negate_unchecked (fe_impl_normalize_weak y) 1)"
proof -
  have "fe_is m (fe_val y) y" using assms(1) by (simp add: fe_is_def)
  then show ?thesis by (intro fe_is_neg [OF fe_is_weak [OF _ assms(2)]]) simp_all
qed

lemma ge_neg_is: "ge_is a P \<Longrightarrow> ge_is (ge_neg a) (neg_point P)"
  using neg_coordinate [of 3 "ge_y a"] by (cases P) (auto simp: ge_is_def ge_ok_def ge_neg_def fe_is_def intro: magnitude_mono)

lemma gej_neg_is: "gej_is a P \<Longrightarrow> gej_is (gej_neg a) (neg_point P)"
  using neg_coordinate [of 4 "gj_y a"] by (cases P) (auto simp: gej_is_def gej_ok_def gej_neg_def fe_is_def intro: magnitude_mono)

lemma gej_rescale_is:
  assumes a: "gej_is a P" and s: "fe_is 8 c s" "invertible c"
  shows "gej_is (gej_rescale a s) P"
proof (cases P)
  case Inf
  have m: "fe_is 4 (fe_val (gj_x a)) (gj_x a)" "fe_is 4 (fe_val (gj_y a)) (gj_y a)" "fe_is 1 (fe_val (gj_z a)) (gj_z a)"
    using a by (simp_all add: gej_is_def gej_ok_def fe_is_def)
  show ?thesis
    using fe_is_mul [OF m(1) fe_is_sqr [OF s(1)]] fe_is_mul [OF fe_is_mul [OF m(2) fe_is_sqr [OF s(1)]] s(1)] fe_is_mul [OF m(3) s(1)] a Inf
    by (auto simp: gej_rescale_def Let_def gej_is_def gej_ok_def fe_is_def intro: magnitude_mono)
next
  case (Aff x y)
  obtain z where X: "fe_is 4 (x * z ^ 2) (gj_x a)" and Y: "fe_is 4 (y * z ^ 3) (gj_y a)" and Z: "fe_is 1 z (gj_z a)" and z: "invertible z" and fa: "\<not> gj_infinity a"
    using a unfolding Aff by (rule gej_isE)
  have "fe_is 1 (x * (z * c) ^ 2) (gj_x (gej_rescale a s))"
    unfolding gej_rescale_def Let_def using fe_is_mul [OF X fe_is_sqr [OF s(1)]] by (simp add: ring_norm)
  moreover have "fe_is 1 (y * (z * c) ^ 3) (gj_y (gej_rescale a s))"
    unfolding gej_rescale_def Let_def using fe_is_mul [OF fe_is_mul [OF Y fe_is_sqr [OF s(1)]] s(1)] by (simp add: ring_norm)
  moreover have "fe_is 1 (z * c) (gj_z (gej_rescale a s))" unfolding gej_rescale_def Let_def using fe_is_mul [OF Z s(1)] by simp
  ultimately show ?thesis unfolding Aff using invertible_mult [OF z s(2)] fa by (intro gej_isI [of 1 _ _ 1]) (simp_all add: gej_rescale_def Let_def)
qed

text \<open>The modular inverse is a parameter; what the conversion needs of it is that it inverts the \<open>z\<close> at hand.\<close>

lemma ge_set_gej_var_is:
  assumes a: "gej_is a P" and inv: "P \<noteq> Inf \<Longrightarrow> fe_is 1 v (fe_inv (gj_z a)) \<and> v * fe_val (gj_z a) = 1"
  shows "ge_is (fst (ge_set_gej_var fe_inv a)) P" "gej_is (snd (ge_set_gej_var fe_inv a)) P"
proof -
  have "ge_is (fst (ge_set_gej_var fe_inv a)) P \<and> gej_is (snd (ge_set_gej_var fe_inv a)) P"
  proof (cases P)
    case Inf
    have "ge_is ge_set_infinity Inf"
      using fe_is_mono [OF fe_is_set_int [of 0], of 4] fe_is_mono [OF fe_is_set_int [of 0], of 3] by (simp add: ge_is_def ge_ok_def ge_set_infinity_def fe_is_def)
    then show ?thesis using a Inf gej_is_inf [OF a] by (simp add: ge_set_gej_var_def)
  next
    case (Aff x y)
    obtain z where X: "fe_is 4 (x * z ^ 2) (gj_x a)" and Y: "fe_is 4 (y * z ^ 3) (gj_y a)" and Z: "fe_is 1 z (gj_z a)" and fa: "\<not> gj_infinity a"
      using a unfolding Aff by (rule gej_isE)
    have V: "fe_is 1 v (fe_inv (gj_z a))" and vz: "v * z = 1" using inv Z by (simp_all add: Aff fe_is_def)
    have x: "x * z ^ 2 * (v * v) = x * (v * z) ^ 2" "y * z ^ 3 * (v * (v * v)) = y * (v * z) ^ 3" by (simp_all add: ring_norm)
    have "fe_is 1 x (fe_impl_mul (gj_x a) (fe_impl_sqr (fe_inv (gj_z a))))"
      using fe_is_mul [OF X fe_is_sqr [OF V]] unfolding x vz by simp
    moreover have "fe_is 1 y (fe_impl_mul (gj_y a) (fe_impl_mul (fe_inv (gj_z a)) (fe_impl_sqr (fe_inv (gj_z a)))))"
      using fe_is_mul [OF Y fe_is_mul [OF V fe_is_sqr [OF V]]] unfolding x vz by simp
    ultimately show ?thesis
      using fa fe_is_set_int [of 1] unfolding Aff
      by (auto simp: ge_set_gej_var_def Let_def ge_set_xy_def ge_is_def ge_ok_def gej_is_def gej_ok_def fe_is_def invertible_def intro: magnitude_mono)
  qed
  then show "ge_is (fst (ge_set_gej_var fe_inv a)) P" "gej_is (snd (ge_set_gej_var fe_inv a)) P" by simp_all
qed

section \<open>Comparison and validity\<close>

lemma eq_x_var_iff:
  assumes "gej_is a (Aff x y)" "fe_is 8 v f"
  shows "gej_eq_x_var f a \<longleftrightarrow> v = x"
proof -
  obtain z where X: "fe_is 4 (x * z ^ 2) (gj_x a)" and Z: "fe_is 1 z (gj_z a)" and z: "invertible z" using assms(1) by (rule gej_isE)
  have "fe_is 1 (v * z ^ 2) (fe_impl_mul (fe_impl_sqr (gj_z a)) f)" using fe_is_mul [OF fe_is_sqr [OF Z] assms(2)] by (simp add: ring_norm)
  then have "gej_eq_x_var f a \<longleftrightarrow> v * z ^ 2 = x * z ^ 2" unfolding gej_eq_x_var_def using X by (rule fe_is_equal) simp
  also have "\<dots> \<longleftrightarrow> v = x"
    using invertible_cancel [of "z ^ 2" "v - x"] invertible_mult [OF z z] by (auto simp: power2_eq_square algebra_simps)
  finally show ?thesis .
qed

lemma is_valid_iff: "ge_is a (Aff x y) \<Longrightarrow> ge_is_valid_var a \<longleftrightarrow> on_curve (Aff x y)"
proof -
  assume "ge_is a (Aff x y)"
  note A = ge_isE [OF this]
  have "fe_is 2 (x * x * x + of_nat (unat SECP256K1_B)) (fe_impl_add_int (fe_impl_mul (fe_impl_sqr (ge_x a)) (ge_x a)) SECP256K1_B)"
    by (rule fe_is_add_int [OF fe_is_mul [OF fe_is_sqr [OF A(1)] A(1)]]) (simp_all add: SECP256K1_B_def)
  from fe_is_equal [OF fe_is_sqr [OF A(2)] this] show ?thesis
    using A(3) by (simp add: ge_is_valid_var_def on_curve_def SECP256K1_B_def power2_eq_square power3_eq_cube)
qed

lemma eq_var_iff:
  assumes "ge_is a P" "ge_is b Q"
  shows "ge_eq_var a b \<longleftrightarrow> P = Q"
proof (cases "P = Inf \<or> Q = Inf")
  case False
  then obtain x1 y1 x2 y2 where P: "P = Aff x1 y1" and Q: "Q = Aff x2 y2" by (metis point.exhaust)
  note A = ge_isE [OF assms(1) [unfolded P]] and B = ge_isE [OF assms(2) [unfolded Q]]
  show ?thesis using fe_is_equal [OF fe_is_weak [OF A(1)] B(1)] fe_is_equal [OF fe_is_weak [OF A(2)] B(2)] A(3) B(3) by (simp add: ge_eq_var_def P Q)
next
  case True
  then show ?thesis using ge_is_inf [OF assms(1)] ge_is_inf [OF assms(2)] by (auto simp: ge_eq_var_def)
qed

section \<open>Decompression\<close>

lemma field_p_odd: "odd field_p"
  by (simp add: field_p_def)

lemma adjust_parity:
  assumes "fe_normal y" "y' = (if fe_impl_is_odd y \<noteq> b then fe_impl_negate_unchecked y 1 else y)"
  shows "magnitude 2 y'" "fe_val y' = fe_val y \<or> fe_val y' = - fe_val y" "fe_val y' = 0 \<or> (odd (fval (fe_impl_normalize y')) \<longleftrightarrow> b)"
proof -
  have y: "fe_is 1 (fe_val y) y" using fe_normalD(3) [OF assms(1)] by (simp add: fe_is_def)
  have n: "fe_is 2 (- fe_val y) (fe_impl_negate_unchecked y 1)" by (rule fe_is_neg [OF y]) simp_all
  show m: "magnitude 2 y'" and "fe_val y' = fe_val y \<or> fe_val y' = - fe_val y"
    using n fe_is_mono [OF y, of 2] by (auto simp: assms(2) fe_is_def)
  have v: "fval (fe_impl_normalize y') = fval y' mod field_p" using m by (intro normalize_spec(1)) (erule magnitude_mono, simp)
  show "fe_val y' = 0 \<or> (odd (fval (fe_impl_normalize y')) \<longleftrightarrow> b)"
  proof (cases "fe_impl_is_odd y \<noteq> b")
    case False
    then show ?thesis using v fe_normalD(2) [OF assms(1)] is_odd_spec [of y] by (simp add: assms(2))
  next
    case True
    have s: "fval y' + fval y = 4 * field_p" using True negate_spec_fe(1) [OF fe_normalD(3) [OF assms(1)], of 1] by (simp add: assms(2))
    show ?thesis
    proof (cases "fval y = 0")
      case True
      then show ?thesis using s by (simp add: fe_val_0)
    next
      case False
      have "fval y' = (field_p - fval y) + 3 * field_p" using s fe_normalD(2) [OF assms(1)] by simp
      moreover have "field_p - fval y < field_p" using False field_p_vals(3) by simp
      ultimately have "fval (fe_impl_normalize y') = field_p - fval y" unfolding v by simp
      then show ?thesis using True fe_normalD(2) [OF assms(1)] is_odd_spec [of y] field_p_odd by auto
    qed
  qed
qed

lemma fe_val_square: "fe_val r * fe_val r = fe_val a \<longleftrightarrow> (fval r * fval r) mod field_p = fval a mod field_p"
  using of_nat_fp_eq [of "fval r * fval r" "fval a"] by (simp add: fe_val_def)

lemma set_xo_is:
  assumes x: "fe_is 4 x xf" and r: "ge_set_xo_var xf b = (g, ok)"
  obtains y where "ge_is g (Aff x y)" "ok \<longleftrightarrow> on_curve (Aff x y)" "y = 0 \<or> (odd (fval (fe_impl_normalize (ge_y g))) \<longleftrightarrow> b)"
proof -
  let ?c = "fe_impl_add_int (fe_impl_mul xf (fe_impl_sqr xf)) SECP256K1_B"
  have c: "fe_is 2 (x * (x * x) + of_nat (unat SECP256K1_B)) ?c"
    by (rule fe_is_add_int [OF fe_is_mul [OF x fe_is_sqr [OF x]]]) (simp_all add: SECP256K1_B_def)
  then have c8: "magnitude 8 ?c" by (auto simp: fe_is_def elim: magnitude_mono)
  obtain s where s: "fe_sqrt ?c = (s, ok)" using r by (auto simp: ge_set_xo_var_def Let_def split: prod.splits)
  have rel: "magnitude 1 s" "ok \<longleftrightarrow> fe_val s * fe_val s = fe_val ?c"
    using sqrt_facts [OF c8 s] by (simp_all add: fe_val_square)
  have s32: "magnitude 32 s" using rel(1) by (rule magnitude_1_32)
  let ?y = "fe_impl_normalize s"
  have g: "g = \<lparr> ge_x = xf, ge_y = (if fe_impl_is_odd ?y \<noteq> b then fe_impl_negate_unchecked ?y 1 else ?y), ge_infinity = False \<rparr>"
    using r unfolding ge_set_xo_var_def Let_def s prod.case normalize_var_eq [OF s32] by simp
  note P = adjust_parity [OF normalize_spec(2) [OF s32] refl, of b]
  have "fe_val (ge_y g) * fe_val (ge_y g) = fe_val s * fe_val s" using P(2) fe_val_normalize [OF s32] by (auto simp: g)
  then have "ok \<longleftrightarrow> on_curve (Aff x (fe_val (ge_y g)))"
    using rel(2) c by (simp add: on_curve_def fe_is_def SECP256K1_B_def power2_eq_square power3_eq_cube mult.assoc)
  moreover have "ge_is g (Aff x (fe_val (ge_y g)))" using x magnitude_mono [OF P(1), of 3] by (simp add: g ge_is_def ge_ok_def fe_is_def)
  ultimately show thesis using P(3) by (intro that) (simp_all add: g)
qed

section \<open>The generator\<close>

definition ge_const_g :: secp256k1_ge where
  "ge_const_g = \<lparr> ge_x = \<lparr> fe0 = 0x2815B16F81798, fe1 = 0xDB2DCE28D959F, fe2 = 0xE870B07029BFC, fe3 = 0xBBAC55A06295C, fe4 = 0x79BE667EF9DC \<rparr>,
     ge_y = \<lparr> fe0 = 0x7D08FFB10D4B8, fe1 = 0x48A68554199C4, fe2 = 0xE1108A8FD17B4, fe3 = 0xC4655DA4FBFC0, fe4 = 0x483ADA7726A3 \<rparr>, ge_infinity = False \<rparr>"

definition gx :: nat where "gx = 0x79BE667EF9DCBBAC55A06295CE870B07029BFCDB2DCE28D959F2815B16F81798"

definition gy :: nat where "gy = 0x483ADA7726A3C4655DA4FBFC0E1108A8FD17B448A68554199C47D08FFB10D4B8"

definition gl :: nat where "gl = 0xCB35B28428101A303EB9D1235992AC63F58857C2F631EE6936D3AEBBEDDCD1B1"

definition gi :: nat where "gi = 0x6FC6340C9DAE9A629BCF20238BE148D582AAC046A7B87A681F7D5DDA2ECF511D"

lemma g_is: "ge_is ge_const_g (Aff (of_nat gx) (of_nat gy))"
  by (simp add: ge_is_def ge_ok_def ge_const_g_def magnitude_def fe_val_def fval_def gx_def gy_def)

definition g2 :: nat where "g2 = 0x8550E7D238FCF3086BA9ADCF0FB52A9DE3652194D06CB5BB38D50229B854FC49"

lemma fp_eq_multiple: "m + field_p * k = n \<Longrightarrow> of_nat m = (of_nat n :: fp)"
  by (auto simp: of_nat_fp_p)

lemma g_on_curve: "on_curve (Aff (of_nat gx) (of_nat gy))"
proof -
  have "of_nat g2 = (of_nat (gx * gx) :: fp)" by (rule fp_eq_multiple [of _ "0x39E58A8055B6FB264B75EC8C646509784204AC15A8C24E05BABC9729E58090B9"]) (simp add: gx_def g2_def field_p_def)
  moreover have "of_nat (gy * gy) = (of_nat (g2 * gx + 7) :: fp)" by (rule fp_eq_multiple [of _ "0x2B053C94091B9594DBAB4C5874C6AA8C028D6914264752825AFB898C09855911"]) (simp add: gx_def gy_def g2_def field_p_def)
  ultimately show ?thesis by (simp add: on_curve_def power2_eq_square power3_eq_cube)
qed

lemma g_tangent: "point_add (Aff (of_nat gx) (of_nat gy)) (Aff (of_nat gx) (of_nat gy)) (third_point (of_nat gl) (of_nat gx) (of_nat gy) (of_nat gx))"
proof (rule tangent)
  have "of_nat 1 = (of_nat (gy * gi) :: fp)" by (rule fp_eq_multiple [of _ "0x1F8970EE2588B1CBB72AD72E39B0F2C37845381014C12891C13CA04D878303D9"]) (simp add: gy_def gi_def field_p_def)
  then have "(1 :: fp) = of_nat gy * of_nat gi" by simp
  then show "invertible (of_nat gy)" unfolding invertible_def by (rule dvdI)
  have "of_nat (2 * gy * gl) = (of_nat (3 * (gx * gx)) :: fp)" by (rule fp_eq_multiple [of _ "0x3B04FBED296CC1277F1659AB9A6F3FEBA665D74E98725EE2D39E827BC28878B0"]) (simp add: gx_def gy_def gl_def field_p_def)
  then show "2 * of_nat gy * of_nat gl = 3 * (of_nat gx :: fp)\<^sup>2" by (simp add: power2_eq_square)
qed

section \<open>Properties\<close>

lemma point_add_same: "point_add (Aff x y) (Aff x y) R \<Longrightarrow> invertible y \<and> (\<exists>l. 2 * y * l = 3 * x\<^sup>2 \<and> R = third_point l x y x)"
  by (erule point_add_affE) (auto simp: invertible_def)

text \<open>
  C23. The point formulas of the library compute the group law: from any representations of two points, all additions give a representation of their sum, with
  the flag for infinity set exactly there; the constant-time addition needs points of the curve and a finite second one.
\<close>
theorem point_addition:
  assumes "gej_is a P" "gej_is b Q" "ge_is c Q" "point_add P Q R"
  shows "gej_is (fst (gej_add_var a b)) R \<and> gej_is (fst (gej_add_ge_var a c)) R \<and> (gj_infinity (fst (gej_add_var a b)) \<longleftrightarrow> R = Inf) \<and>
    (\<forall>d B k f. ge_is d B \<and> fe_is 8 k f \<and> scale_point k B = Q \<longrightarrow> gej_is (gej_add_zinv_var a d f) R) \<and>
    (\<forall>x y. P = Aff x y \<and> Q = Aff x y \<longrightarrow> gej_is (gej_double a) R) \<and>
    (\<forall>x y. Q = Aff x y \<and> on_curve P \<and> on_curve Q \<and> (case P of Inf \<Rightarrow> True | Aff x' y' \<Rightarrow> y' + y = 0 \<or> invertible (y' + y)) \<longrightarrow> gej_is (gej_add_ge a c) R)"
proof (intro conjI allI impI)
  show v: "gej_is (fst (gej_add_var a b)) R" by (rule add_var_is [OF assms(1,2,4)])
  show "gej_is (fst (gej_add_ge_var a c)) R" by (rule add_ge_var_is [OF assms(1,3,4)])
  show "gj_infinity (fst (gej_add_var a b)) \<longleftrightarrow> R = Inf" by (rule gej_is_inf [OF v])
next
  fix d B k f
  assume "ge_is d B \<and> fe_is 8 k f \<and> scale_point k B = Q"
  then show "gej_is (gej_add_zinv_var a d f) R" using add_zinv_var_is [OF assms(1)] assms(4) by blast
next
  fix x y
  assume "P = Aff x y \<and> Q = Aff x y"
  then show "gej_is (gej_double a) R" using assms(1,4) point_add_same [of x y R] double_is [of a x y] by blast
next
  fix x y
  assume "Q = Aff x y \<and> on_curve P \<and> on_curve Q \<and> (case P of Inf \<Rightarrow> True | Aff x' y' \<Rightarrow> y' + y = 0 \<or> invertible (y' + y))"
  then show "gej_is (gej_add_ge a c) R" using add_ge_is [OF assms(1)] assms(3,4) by blast
qed

theorem point_addition_witness:
  "gej_is (gej_double (gej_set_ge ge_const_g)) (third_point (of_nat gl) (of_nat gx) (of_nat gy) (of_nat gx)) \<and>
   gej_is (fst (gej_add_ge_var (gej_set_ge ge_const_g) ge_const_g)) (third_point (of_nat gl) (of_nat gx) (of_nat gy) (of_nat gx))"
  using point_addition [OF gej_set_ge_is [OF g_is] gej_set_ge_is [OF g_is] g_is g_tangent] by blast

lemma of_nat_rep: "of_nat (nat (rep_fp w)) = w"
proof -
  have "rep_fp w \<in> {0..<int field_p}" by (rule rep_fp)
  then show ?thesis unfolding rep_fp_inject [symmetric] rep_of_nat by simp
qed

lemma set_xo_complete:
  assumes x: "fe_is 4 x xf" and w: "w\<^sup>2 = x ^ 3 + 7" "w ^ (field_p - 1) = 1"
  shows "snd (ge_set_xo_var xf b)"
proof -
  let ?c = "fe_impl_add_int (fe_impl_mul xf (fe_impl_sqr xf)) SECP256K1_B" and ?n = "nat (rep_fp w)"
  have c: "fe_is 2 (x * (x * x) + of_nat (unat SECP256K1_B)) ?c"
    by (rule fe_is_add_int [OF fe_is_mul [OF x fe_is_sqr [OF x]]]) (simp_all add: SECP256K1_B_def)
  have "of_nat (?n * ?n) = fe_val ?c" "of_nat (?n ^ (field_p - 1)) = (of_nat 1 :: fp)"
    using w c by (simp_all add: of_nat_rep fe_is_def SECP256K1_B_def power2_eq_square power3_eq_cube mult.assoc)
  then have "(?n * ?n) mod field_p = fval ?c mod field_p" "?n ^ (field_p - 1) mod field_p = 1 mod field_p"
    unfolding fe_val_def of_nat_fp_eq by simp_all
  moreover have "1 mod field_p = 1" by (simp add: field_p_def)
  moreover have "magnitude 8 ?c" using c by (auto simp: fe_is_def elim: magnitude_mono)
  ultimately have "snd (fe_sqrt ?c)" by (intro sqrt_complete) simp_all
  then show ?thesis by (simp add: ge_set_xo_var_def Let_def case_prod_unfold)
qed

text \<open>
  C24. Decompression of a point: the flag, the validity check and the curve equation agree, the ordinate has the parity asked for unless it is zero, and
  every abscissa with a root that satisfies Fermat's equation is accepted.
\<close>
theorem point_decompression:
  assumes "fe_is 4 x xf" "ge_set_xo_var xf b = (g, ok)"
  shows "\<exists>y. ge_is g (Aff x y) \<and> (ok \<longleftrightarrow> on_curve (Aff x y)) \<and> (ge_is_valid_var g \<longleftrightarrow> ok) \<and> (y = 0 \<or> (odd (fval (fe_impl_normalize (ge_y g))) \<longleftrightarrow> b)) \<and>
    (\<forall>w. w\<^sup>2 = x ^ 3 + 7 \<and> w ^ (field_p - 1) = 1 \<longrightarrow> ok)"
proof -
  obtain y where "ge_is g (Aff x y)" "ok \<longleftrightarrow> on_curve (Aff x y)" "y = 0 \<or> (odd (fval (fe_impl_normalize (ge_y g))) \<longleftrightarrow> b)"
    using assms by (rule set_xo_is)
  then show ?thesis using is_valid_iff [of g x y] set_xo_complete [OF assms(1), of _ b] assms(2) by auto
qed

definition unit_ordinate :: secp256k1_fe where
  "unit_ordinate = \<lparr> fe0 = 0xBCBCFAAAFF507, fe1 = 0x167653F6B2B24, fe2 = 0x33CE5A6E80D68, fe3 = 0xB5C135AB77413, fe4 = 0x1FE1E5EF3FCE \<rparr>"

lemma unit_ordinate_cube: "fe_val unit_ordinate ^ 3 + 7 = 1"
proof -
  let ?r = "0x1FE1E5EF3FCEB5C135AB7741333CE5A6E80D68167653F6B2B24BCBCFAAAFF507 :: nat" and ?q = "0x6FF6F417D673642E3B830D29025BE1C39D61781B41B7BAE151342CFF89DE4C1D :: nat"
  have v: "fe_val unit_ordinate = of_nat ?r" by (simp add: fe_val_def fval_def unit_ordinate_def)
  have "of_nat ?q = (of_nat (?r * ?r) :: fp)" by (rule fp_eq_multiple [of _ "0x3F87D05EE8821204DAA4B6E80EFAE6F2CBB739A52A8904516F73C78D496DE2C"]) (simp add: field_p_def)
  moreover have "of_nat 0 = (of_nat (?q * ?r + 6) :: fp)" by (rule fp_eq_multiple [of _ "0xDF1B42BF7BAD7EB786004ECDE058C9F27C1A2EDF57AB68CBA25A556C2FFCDFF"]) (simp add: field_p_def)
  ultimately have "of_nat ?r * of_nat ?r * of_nat ?r + 6 = (0 :: fp)" unfolding of_nat_mult of_nat_add by simp
  then have "fe_val unit_ordinate ^ 3 + 6 + 1 = 0 + 1" unfolding v power3_eq_cube by simp
  then show ?thesis by (simp add: add.assoc)
qed

theorem point_decompression_witness:
  "\<exists>g. ge_set_xo_var unit_ordinate True = (g, True) \<and> ge_is_valid_var g"
proof -
  have m: "fe_is 4 (fe_val unit_ordinate) unit_ordinate" by (simp add: fe_is_def magnitude_def unit_ordinate_def)
  obtain g ok where g: "ge_set_xo_var unit_ordinate True = (g, ok)" by fastforce
  have "ok \<and> ge_is_valid_var g" using point_decompression [OF m g] unit_ordinate_cube by (metis power_one)
  then show ?thesis using g by simp
qed

end
