(* ===== verification/Ecmult_Table.thy ===== *)
theory Ecmult_Table
  imports Group_Points
begin

text \<open>
  Tables of odd multiples for point multiplication, \<open>src/external/secp256k1/src/ecmult_impl.h\<close> and \<open>group_impl.h\<close>: the table holds affine points whose common
  denominator is kept apart. Arrays are lists updated in place, as the code fills the arrays its caller passes.
\<close>

section \<open>Operations\<close>

fun oddLoop :: "nat \<Rightarrow> nat \<Rightarrow> secp256k1_ge \<Rightarrow> secp256k1_gej \<Rightarrow> secp256k1_ge list \<Rightarrow> secp256k1_fe list \<Rightarrow> secp256k1_gej \<times> secp256k1_ge list \<times> secp256k1_fe list" where
  "oddLoop 0 i d_ge ai pre_a zr = (ai, pre_a, zr)"
| "oddLoop (Suc k) i d_ge ai pre_a zr =
     (let (ai, rzr) = gej_add_ge_var ai d_ge;
          zr = (case rzr of None \<Rightarrow> zr | Some f \<Rightarrow> zr[i := f]);
          pre_a = pre_a[i := ge_set_xy (gj_x ai) (gj_y ai)]
      in oddLoop k (i + 1) d_ge ai pre_a zr)"

definition ecmult_odd_multiples_table :: "nat \<Rightarrow> secp256k1_ge list \<Rightarrow> secp256k1_fe list \<Rightarrow> secp256k1_gej \<Rightarrow> secp256k1_ge list \<times> secp256k1_fe list \<times> secp256k1_fe" where
  "ecmult_odd_multiples_table n pre_a zr a =
     (let d = fst (gej_double_var a);
          d_ge = ge_set_xy (gj_x d) (gj_y d);
          pre_a = pre_a[0 := ge_set_gej_zinv a (gj_z d)];
          ai = (gej_set_ge (pre_a ! 0)) \<lparr> gj_z := gj_z a \<rparr>;
          zr = zr[0 := gj_z d];
          (ai, pre_a, zr) = oddLoop (n - 1) 1 d_ge ai pre_a zr
      in (pre_a, zr, fe_impl_mul (gj_z ai) (gj_z d)))"

fun globalzLoop :: "nat \<Rightarrow> nat \<Rightarrow> secp256k1_fe \<Rightarrow> secp256k1_fe list \<Rightarrow> secp256k1_ge list \<Rightarrow> secp256k1_ge list" where
  "globalzLoop len 0 zs zr a = a"
| "globalzLoop len (Suc i) zs zr a =
     (let zs = (if Suc i \<noteq> len - 1 then fe_impl_mul zs (zr ! Suc i) else zs)
      in globalzLoop len i zs zr (a[i := ge_set_ge_zinv (a ! i) zs]))"

definition ge_table_set_globalz :: "nat \<Rightarrow> secp256k1_ge list \<Rightarrow> secp256k1_fe list \<Rightarrow> secp256k1_ge list" where
  "ge_table_set_globalz len a zr =
     (if len > 0 then
        let i = len - 1; a = a[i := (a ! i) \<lparr> ge_y := fe_impl_normalize_weak (ge_y (a ! i)) \<rparr>]; zs = zr ! i
        in globalzLoop len i zs zr a
      else a)"

definition ecmult_table_get_ge :: "secp256k1_ge list \<Rightarrow> int \<Rightarrow> secp256k1_ge" where
  "ecmult_table_get_ge pre n =
     (if n > 0 then pre ! nat ((n - 1) div 2)
      else let r = pre ! nat ((- n - 1) div 2) in r \<lparr> ge_y := fe_impl_negate_unchecked (ge_y r) 1 \<rparr>)"

text \<open>The endomorphism multiplies abscissas by a cube root of unity; the tables for it share ordinates with the first table.\<close>

definition const_beta :: secp256k1_fe where
  "const_beta = \<lparr> fe0 = 0x96C28719501EE, fe1 = 0x7512F58995C13, fe2 = 0xC3434E99CF049, fe3 = 0x7106E64479EA, fe4 = 0x7AE96A2B657C \<rparr>"

definition ge_mul_lambda :: "secp256k1_ge \<Rightarrow> secp256k1_ge" where
  "ge_mul_lambda a = a \<lparr> ge_x := fe_impl_mul (ge_x a) const_beta \<rparr>"

definition ecmult_table_get_ge_lambda :: "secp256k1_ge list \<Rightarrow> secp256k1_fe list \<Rightarrow> int \<Rightarrow> secp256k1_ge" where
  "ecmult_table_get_ge_lambda pre x n =
     (if n > 0 then ge_set_xy (x ! nat ((n - 1) div 2)) (ge_y (pre ! nat ((n - 1) div 2)))
      else let r = ge_set_xy (x ! nat ((- n - 1) div 2)) (ge_y (pre ! nat ((- n - 1) div 2))) in r \<lparr> ge_y := fe_impl_negate_unchecked (ge_y r) 1 \<rparr>)"

definition ecmult_table_get_ge_storage :: "secp256k1_ge_storage list \<Rightarrow> int \<Rightarrow> secp256k1_ge" where
  "ecmult_table_get_ge_storage pre n =
     (if n > 0 then ge_from_storage (pre ! nat ((n - 1) div 2))
      else let r = ge_from_storage (pre ! nat ((- n - 1) div 2)) in r \<lparr> ge_y := fe_impl_negate_unchecked (ge_y r) 1 \<rparr>)"

section \<open>Isomorphic curves\<close>

lemma fe_self: "magnitude m a \<Longrightarrow> fe_is m (fe_val a) a"
  by (simp add: fe_is_def)

lemma fe_mag_of: "fe_is m v a \<Longrightarrow> m \<le> n \<Longrightarrow> magnitude n a"
  by (auto simp: fe_is_def elim: magnitude_mono)

lemma third_point_scale: "scale_point c (third_point l x1 y1 x2) = third_point (l * c) (x1 * c ^ 2) (y1 * c ^ 3) (x2 * c ^ 2)"
  by (simp add: third_point_def Let_def ring_norm)

lemma point_add_scale:
  assumes "invertible c" "point_add P Q R"
  shows "point_add (scale_point c P) (scale_point c Q) (scale_point c R)"
  using assms(2)
proof cases
  case (opposite y1 y2 x)
  have "y1 * c ^ 3 \<noteq> y2 * c ^ 3"
  proof
    assume "y1 * c ^ 3 = y2 * c ^ 3"
    then have "(y1 - y2) * c ^ 3 = 0" by (simp add: algebra_simps)
    then show False using invertible_cancel [of "c ^ 3" "y1 - y2"] assms(1) opposite by (simp add: power3_eq_cube invertible_mult)
  qed
  then show ?thesis using opposite by (simp add: point_add.opposite)
next
  case (tangent y l x)
  have "invertible (y * c ^ 3)" using tangent(4) assms(1) by (simp add: power3_eq_cube invertible_mult)
  moreover have "2 * (y * c ^ 3) * (l * c) = 3 * (x * c ^ 2)\<^sup>2" using arg_cong [OF tangent(5), of "\<lambda>u. u * c ^ 4"] by (simp add: ring_norm)
  ultimately show ?thesis using tangent by (simp add: third_point_scale point_add.tangent)
next
  case (chord x2 x1 l y2 y1)
  have "invertible ((x2 - x1) * c ^ 2)" using chord(4) assms(1) by (simp add: power2_eq_square invertible_mult)
  then have "invertible (x2 * c ^ 2 - x1 * c ^ 2)" by (simp add: algebra_simps)
  moreover have "(x2 * c ^ 2 - x1 * c ^ 2) * (l * c) = y2 * c ^ 3 - y1 * c ^ 3" using arg_cong [OF chord(5), of "\<lambda>u. u * c ^ 3"] by (simp add: ring_norm)
  ultimately show ?thesis using chord by (simp add: third_point_scale point_add.chord)
qed (simp_all add: point_add.inf_left point_add.inf_right)

section \<open>The endomorphism\<close>

definition beta_n :: nat where "beta_n = 0x7AE96A2B657C07106E64479EAC3434E99CF0497512F58995C1396C28719501EE"

definition beta_sq :: nat where "beta_sq = 0x851695D49A83F8EF919BB86153CBCB16630FB68AED0A766A3EC693D68E6AFA40"

abbreviation beta :: fp where
  "beta \<equiv> of_nat beta_n"

lemma beta_is: "fe_is 1 beta const_beta"
  by (simp add: fe_is_def magnitude_def fe_val_def fval_def const_beta_def beta_n_def)

lemma beta_cube: "beta ^ 3 = 1"
proof -
  have "of_nat beta_sq = (of_nat (beta_n * beta_n) :: fp)" by (rule fp_eq_multiple [of _ "0x3B034E03CBC0E9E67ADF9B678B2EA8201DD5EA436049FDC542A0960DD5579C3C"]) (simp add: beta_n_def beta_sq_def field_p_def)
  moreover have "of_nat 1 = (of_nat (beta_sq * beta_n) :: fp)" by (rule fp_eq_multiple [of _ "0x3FE61C2799BB1D29F384AC3721058CC97F1A5F31B2AB8BD07E98D61A9C3D65B1"]) (simp add: beta_n_def beta_sq_def field_p_def)
  ultimately show ?thesis by (simp add: power3_eq_cube)
qed

text \<open>It is an isomorphism of the curve with itself, so it respects the group law.\<close>

fun endo :: "point \<Rightarrow> point" where
  "endo Inf = Inf"
| "endo (Aff x y) = Aff (x * beta) y"

lemma endo_scale: "endo P = scale_point (beta ^ 2) P"
proof -
  have "(beta ^ 2) ^ 2 = beta * beta ^ 3" "(beta ^ 2) ^ 3 = beta ^ 3 * beta ^ 3" by (simp_all add: power2_eq_square power3_eq_cube mult_ac)
  then show ?thesis by (cases P) (simp_all add: beta_cube)
qed

lemma beta_invertible: "invertible (beta ^ 2)"
proof -
  have "1 = beta ^ 2 * beta" using beta_cube by (simp add: power3_eq_cube power2_eq_square)
  then show ?thesis unfolding invertible_def by (rule dvdI)
qed

lemma endo_add: "point_add P Q R \<Longrightarrow> point_add (endo P) (endo Q) (endo R)"
  unfolding endo_scale by (rule point_add_scale [OF beta_invertible])

lemma endo_on_curve: "on_curve P \<Longrightarrow> on_curve (endo P)"
  by (cases P) (simp_all add: on_curve_def power_mult_distrib beta_cube)

lemma endo_neg: "endo (neg_point P) = neg_point (endo P)"
  by (cases P) simp_all

lemma mul_lambda_is: "ge_is a P \<Longrightarrow> ge_is (ge_mul_lambda a) (endo P)"
proof -
  assume a: "ge_is a P"
  then have "fe_is 4 (fe_val (ge_x a)) (ge_x a)" by (simp add: ge_is_def ge_ok_def fe_self)
  from fe_is_mul [OF this beta_is] have x: "fe_is 1 (fe_val (ge_x a) * beta) (fe_impl_mul (ge_x a) const_beta)" by simp
  show ?thesis using a fe_mag_of [OF x, of 4] x by (cases P) (auto simp: ge_is_def ge_ok_def ge_mul_lambda_def fe_is_def)
qed

section \<open>Ratios of denominators\<close>

lemma double_y_magnitude:
  assumes "gej_ok a"
  shows "magnitude 3 (gj_y (gej_double a))"
proof -
  have x: "fe_is 4 (fe_val (gj_x a)) (gj_x a)" and y: "fe_is 4 (fe_val (gj_y a)) (gj_y a)" using assms by (simp_all add: gej_ok_def fe_self)
  let ?s = "fe_impl_sqr (gj_y a)" and ?l = "fe_impl_half (fe_impl_mul_int_unchecked (fe_impl_sqr (gj_x a)) 3)"
  let ?t = "fe_impl_mul (fe_impl_negate_unchecked ?s 1) (gj_x a)"
  have s: "magnitude 1 ?s" by (rule fe_mag_of [OF fe_is_sqr [OF y]]) simp_all
  have "fe_is 3 (fe_val (gj_x a) * fe_val (gj_x a) * of_nat (unat (3 :: u64))) (fe_impl_mul_int_unchecked (fe_impl_sqr (gj_x a)) 3)"
    by (rule fe_is_mul_int [OF fe_is_sqr [OF x]]) simp_all
  then have "magnitude 3 (fe_impl_mul_int_unchecked (fe_impl_sqr (gj_x a)) 3)" by (simp add: fe_is_def)
  then have "magnitude (3 div 2 + 1) ?l" by (rule half_spec(2)) simp
  then have l: "magnitude 2 ?l" by (rule magnitude_mono) simp
  have "fe_is 1 (- fe_val ?s * fe_val (gj_x a)) ?t" by (rule fe_is_mul [OF fe_is_neg [OF fe_self [OF s] refl] x]) simp_all
  note T = this and L = fe_self [OF l]
  have "magnitude 3 (fe_impl_negate_unchecked (fe_impl_add (fe_impl_mul (fe_impl_add ?t (fe_impl_add (fe_impl_add (fe_impl_sqr ?l) ?t) ?t)) ?l) (fe_impl_sqr ?s)) 2)"
    by (rule fe_mag_of [OF fe_is_neg [OF fe_is_add [OF fe_is_mul [OF fe_is_add [OF T fe_is_add [OF fe_is_add [OF fe_is_sqr [OF L] T refl] T refl] refl] L] fe_is_sqr [OF fe_self [OF s]] refl] refl]]) simp_all
  then show ?thesis by (simp add: gej_double_def Let_def)
qed

lemma tail_y_magnitude:
  assumes "magnitude 4 u1" "magnitude 4 s1" "magnitude 8 h" "magnitude 8 i"
  shows "magnitude 3 (gj_y (gej_add_tail z3 u1 s1 h i))"
proof -
  note U = fe_self [OF assms(1)] and S = fe_self [OF assms(2)] and H = fe_self [OF assms(3)] and I = fe_self [OF assms(4)]
  let ?h2 = "fe_impl_negate_unchecked (fe_impl_sqr h) 1"
  have h2: "fe_is 2 (- (fe_val h * fe_val h)) ?h2" by (rule fe_is_neg [OF fe_is_sqr [OF H]]) simp_all
  note h3 = fe_is_mul [OF h2 H, simplified] and t = fe_is_mul [OF U h2, simplified]
  have "magnitude 3 (fe_impl_add (fe_impl_mul (fe_impl_add (fe_impl_mul u1 ?h2) (fe_impl_add (fe_impl_add (fe_impl_add (fe_impl_sqr i) (fe_impl_mul ?h2 h)) (fe_impl_mul u1 ?h2)) (fe_impl_mul u1 ?h2))) i)
      (fe_impl_mul (fe_impl_mul ?h2 h) s1))"
    by (rule fe_mag_of [OF fe_is_add [OF fe_is_mul [OF fe_is_add [OF t fe_is_add [OF fe_is_add [OF fe_is_add [OF fe_is_sqr [OF I] h3 refl] t refl] t refl] refl] I] fe_is_mul [OF h3 S] refl]]) simp_all
  then show ?thesis by (simp add: gej_add_tail_def Let_def)
qed

text \<open>The ratio an addition reports: the new denominator is the old one times it, and the ordinate stays small enough for an affine point.\<close>

lemma add_ge_var_ratio:
  assumes a: "gej_ok a" "\<not> gj_infinity a" and b: "ge_ok b" "\<not> ge_infinity b" and r: "gej_add_ge_var a b = (r, q)" "\<not> gj_infinity r"
  obtains f where "q = Some f" "magnitude 8 f" "fe_val (gj_z r) = fe_val (gj_z a) * fe_val f" "magnitude 3 (gj_y r)"
proof -
  have X: "fe_is 4 (fe_val (gj_x a)) (gj_x a)" and Y: "fe_is 4 (fe_val (gj_y a)) (gj_y a)" and Z: "fe_is 1 (fe_val (gj_z a)) (gj_z a)"
    and BX: "fe_is 4 (fe_val (ge_x b)) (ge_x b)" and BY: "fe_is 3 (fe_val (ge_y b)) (ge_y b)"
    using a(1) b(1) by (simp_all add: gej_ok_def ge_ok_def fe_self)
  let ?zz = "fe_impl_sqr (gj_z a)"
  let ?h = "fe_impl_add (fe_impl_negate_unchecked (gj_x a) 4) (fe_impl_mul (ge_x b) ?zz)" and ?i = "fe_impl_add (fe_impl_negate_unchecked (fe_impl_mul (fe_impl_mul (ge_y b) ?zz) (gj_z a)) 1) (gj_y a)"
  have zz: "fe_is 1 (fe_val (gj_z a) * fe_val (gj_z a)) ?zz" by (rule fe_is_sqr [OF Z]) simp
  have h: "magnitude 8 ?h" by (rule fe_mag_of [OF fe_is_add [OF fe_is_neg [OF X refl] fe_is_mul [OF BX zz] refl]]) simp_all
  have i: "magnitude 8 ?i" by (rule fe_mag_of [OF fe_is_add [OF fe_is_neg [OF fe_is_mul [OF fe_is_mul [OF BY zz] Z] refl] Y refl]]) simp_all
  have code: "gej_add_ge_var a b = (if fe_impl_normalizes_to_zero_var ?h
      then if fe_impl_normalizes_to_zero_var ?i then (gej_double a, Some (fe_impl_normalize_weak (gj_y a))) else (gej_set_infinity, Some (fe_impl_set_int 0))
      else (gej_add_tail (fe_impl_mul (gj_z a) ?h) (gj_x a) (gj_y a) ?h ?i, Some ?h))"
    using a(2) b(2) by (simp add: gej_add_ge_var_def gej_double_var_def Let_def)
  consider "r = gej_double a" "q = Some (fe_impl_normalize_weak (gj_y a))" | "r = gej_add_tail (fe_impl_mul (gj_z a) ?h) (gj_x a) (gj_y a) ?h ?i" "q = Some ?h"
    using r unfolding code by (auto simp: gej_set_infinity_def split: if_splits)
  then show thesis
  proof cases
    case 1
    have w: "fe_is 1 (fe_val (gj_y a)) (fe_impl_normalize_weak (gj_y a))" by (rule fe_is_weak [OF Y]) simp
    have "fe_is 1 (fe_val (gj_z a) * fe_val (gj_y a)) (fe_impl_mul (gj_z a) (gj_y a))" by (rule fe_is_mul [OF Z Y]) simp_all
    then have "fe_val (gj_z r) = fe_val (gj_z a) * fe_val (fe_impl_normalize_weak (gj_y a))" using w 1(1) by (simp add: fe_is_def gej_double_def Let_def)
    then show thesis using that [OF 1(2)] fe_mag_of [OF w, of 8] double_y_magnitude [OF a(1)] 1(1) by simp
  next
    case 2
    have "fe_val (gj_z r) = fe_val (gj_z a) * fe_val ?h" using fe_is_mul [OF Z fe_self [OF h]] by (simp add: 2(1) gej_add_tail_def Let_def fe_is_def)
    moreover have "magnitude 3 (gj_y r)" unfolding 2(1) using a(1) h i by (intro tail_y_magnitude) (simp_all add: gej_ok_def)
    ultimately show thesis using that [OF 2(2) h] by blast
  qed
qed

section \<open>The table\<close>

text \<open>A table entry with its denominator \<open>z\<close>.\<close>

definition entry_is :: "secp256k1_ge \<Rightarrow> fp \<Rightarrow> point \<Rightarrow> bool" where
  "entry_is g z P \<longleftrightarrow> ge_ok g \<and> \<not> ge_infinity g \<and> invertible z \<and> (\<exists>x y. P = Aff x y \<and> fe_val (ge_x g) = x * z ^ 2 \<and> fe_val (ge_y g) = y * z ^ 3)"

lemma scale_inf: "scale_point c P = Inf \<longleftrightarrow> P = Inf"
  by (cases P) simp_all

lemma entry_of_jacobian:
  assumes "gej_is r (scale_point c P)" "P \<noteq> Inf" "magnitude 3 (gj_y r)" "invertible c"
  shows "entry_is (ge_set_xy (gj_x r) (gj_y r)) (fe_val (gj_z r) * c) P"
  using assms by (cases P) (auto simp: entry_is_def ge_set_xy_def ge_ok_def gej_is_def gej_ok_def invertible_mult power_mult_distrib mult_ac)

lemma oddLoop_length: "oddLoop k i d ai pre zr = (ai', pre', zr') \<Longrightarrow> length pre' = length pre \<and> length zr' = length zr"
  by (induction k i d ai pre zr rule: oddLoop.induct) (auto simp: Let_def split: prod.splits option.splits)

lemma oddLoop_spec:
  assumes "gej_is ai (scale_point c (Ps ! (i - 1)))" "ge_is d (scale_point c D)" "invertible c" "0 < i"
    and "\<And>j. i \<le> j \<Longrightarrow> j < i + k \<Longrightarrow> point_add (Ps ! (j - 1)) D (Ps ! j)" "\<And>j. i - 1 \<le> j \<Longrightarrow> j < i + k \<Longrightarrow> Ps ! j \<noteq> Inf" "D \<noteq> Inf"
    and "i + k \<le> length pre" "i + k \<le> length zr" "oddLoop k i d ai pre zr = (ai', pre', zr')"
  shows "gej_is ai' (scale_point c (Ps ! (i + k - 1))) \<and> (\<forall>j<i. pre' ! j = pre ! j \<and> zr' ! j = zr ! j) \<and>
    (\<exists>Z. Z (i - 1) = fe_val (gj_z ai) \<and> Z (i + k - 1) = fe_val (gj_z ai') \<and>
      (\<forall>j. i \<le> j \<and> j < i + k \<longrightarrow> magnitude 8 (zr' ! j) \<and> Z j = Z (j - 1) * fe_val (zr' ! j) \<and> entry_is (pre' ! j) (Z j * c) (Ps ! j)))"
  using assms
proof (induction k arbitrary: i ai pre zr)
  case 0
  then show ?case by (intro conjI exI [of _ "\<lambda>_. fe_val (gj_z ai)"]) auto
next
  case (Suc k)
  obtain r q where r: "gej_add_ge_var ai d = (r, q)" by fastforce
  have P: "Ps ! (i - 1) \<noteq> Inf" "Ps ! i \<noteq> Inf" "point_add (Ps ! (i - 1)) D (Ps ! i)" using Suc.prems(4-6) by simp_all
  have R: "gej_is r (scale_point c (Ps ! i))" using add_ge_var_is [OF Suc.prems(1,2) point_add_scale [OF Suc.prems(3) P(3)]] by (simp add: r)
  have fin: "\<not> gj_infinity ai" "\<not> ge_infinity d" "\<not> gj_infinity r" "gej_ok ai" "ge_ok d"
    using Suc.prems(1,2,7) P R by (auto simp: gej_is_inf ge_is_inf scale_inf) (simp_all add: gej_is_def ge_is_def)
  obtain f where f: "q = Some f" "magnitude 8 f" "fe_val (gj_z r) = fe_val (gj_z ai) * fe_val f" "magnitude 3 (gj_y r)"
    using add_ge_var_ratio [OF fin(4,1,5,2) r fin(3)] .
  let ?pre = "pre[i := ge_set_xy (gj_x r) (gj_y r)]" and ?zr = "zr[i := f]"
  have "oddLoop k (i + 1) d r ?pre ?zr = (ai', pre', zr')" using Suc.prems(10) by (simp add: r f(1))
  then have IH: "gej_is ai' (scale_point c (Ps ! (i + 1 + k - 1)))" "\<forall>j<i + 1. pre' ! j = ?pre ! j \<and> zr' ! j = ?zr ! j"
    and "\<exists>Z. Z (i + 1 - 1) = fe_val (gj_z r) \<and> Z (i + 1 + k - 1) = fe_val (gj_z ai') \<and>
      (\<forall>j. i + 1 \<le> j \<and> j < i + 1 + k \<longrightarrow> magnitude 8 (zr' ! j) \<and> Z j = Z (j - 1) * fe_val (zr' ! j) \<and> entry_is (pre' ! j) (Z j * c) (Ps ! j))"
    using Suc.IH [of r "i + 1" ?pre ?zr] Suc.prems(2-9) R by auto
  then obtain Z where Z: "Z i = fe_val (gj_z r)" "Z (i + k) = fe_val (gj_z ai')"
    "\<And>j. i + 1 \<le> j \<Longrightarrow> j < i + 1 + k \<Longrightarrow> magnitude 8 (zr' ! j) \<and> Z j = Z (j - 1) * fe_val (zr' ! j) \<and> entry_is (pre' ! j) (Z j * c) (Ps ! j)" by auto
  have at_i: "zr' ! i = f" "pre' ! i = ge_set_xy (gj_x r) (gj_y r)" using IH(2) Suc.prems(8,9) by simp_all
  define Y where "Y = Z(i - 1 := fe_val (gj_z ai))"
  have "magnitude 8 (zr' ! j) \<and> Y j = Y (j - 1) * fe_val (zr' ! j) \<and> entry_is (pre' ! j) (Y j * c) (Ps ! j)" if "i \<le> j" "j < i + Suc k" for j
  proof (cases "j = i")
    case True
    then show ?thesis using f Z(1) at_i Suc.prems(4) entry_of_jacobian [OF R P(2) f(4) Suc.prems(3)] by (auto simp: Y_def)
  next
    case False
    then show ?thesis using Z(3) [of j] that Suc.prems(4) by (auto simp: Y_def)
  qed
  moreover have "Y (i - 1) = fe_val (gj_z ai)" "Y (i + Suc k - 1) = fe_val (gj_z ai')" using Z(2) Suc.prems(4) by (auto simp: Y_def)
  moreover have "\<forall>j<i. pre' ! j = pre ! j \<and> zr' ! j = zr ! j" using IH(2) by simp
  moreover have "gej_is ai' (scale_point c (Ps ! (i + Suc k - 1)))" using IH(1) by simp
  ultimately show ?case by blast
qed

lemma zinv_coordinates:
  assumes "fe_is m v x" "fe_is k u y" "m \<le> 8" "k \<le> 8" "fe_is 8 c f"
  shows "fe_is 1 (v * c ^ 2) (fe_impl_mul x (fe_impl_sqr f))" "fe_is 1 (u * c ^ 3) (fe_impl_mul y (fe_impl_mul (fe_impl_sqr f) f))"
proof -
  have s: "fe_is 1 (c * c) (fe_impl_sqr f)" by (rule fe_is_sqr [OF assms(5)]) simp
  show "fe_is 1 (v * c ^ 2) (fe_impl_mul x (fe_impl_sqr f))" using fe_is_mul [OF assms(1) s assms(3)] by (simp add: power2_eq_square)
  show "fe_is 1 (u * c ^ 3) (fe_impl_mul y (fe_impl_mul (fe_impl_sqr f) f))" using fe_is_mul [OF assms(2) fe_is_mul [OF s assms(5)] assms(4)] by (simp add: power3_eq_cube mult.assoc)
qed

lemma table_start:
  assumes a: "gej_is a P" "P \<noteq> Inf" and D: "point_add P P D" "D \<noteq> Inf" and d: "d = fst (gej_double_var a)" and c: "c = fe_val (gj_z d)"
  shows "invertible c" "magnitude 1 (gj_z d)" "ge_is (ge_set_xy (gj_x d) (gj_y d)) (scale_point c D)"
    "gej_is ((gej_set_ge (ge_set_gej_zinv a (gj_z d))) \<lparr> gj_z := gj_z a \<rparr>) (scale_point c P)" "entry_is (ge_set_gej_zinv a (gj_z d)) (fe_val (gj_z a) * c) P"
proof -
  obtain x y where P: "P = Aff x y" using a(2) by (cases P) auto
  obtain x' y' where D': "D = Aff x' y'" using D(2) by (cases D) auto
  have fa: "\<not> gj_infinity a" "gej_ok a" using a gej_is_inf [OF a(1)] by (simp_all add: gej_is_def)
  have dd: "d = gej_double a" using fa(1) by (simp add: d gej_double_var_def)
  have isd: "gej_is d D" unfolding dd using a(1) D(1) point_add_same [of x y D] double_is [of a x y] by (auto simp: P)
  show inv: "invertible c" and m: "magnitude 1 (gj_z d)" using isd by (simp_all add: D' gej_is_def gej_ok_def c)
  have "magnitude 3 (gj_y d)" unfolding dd by (rule double_y_magnitude [OF fa(2)])
  then show "ge_is (ge_set_xy (gj_x d) (gj_y d)) (scale_point c D)" using isd by (simp add: D' gej_is_def gej_ok_def ge_is_def ge_ok_def ge_set_xy_def c)
  obtain z where X: "fe_is 4 (x * z ^ 2) (gj_x a)" and Y: "fe_is 4 (y * z ^ 3) (gj_y a)" and Z: "fe_is 1 z (gj_z a)" and z: "invertible z"
    using a(1) unfolding P by (rule gej_isE)
  have "fe_is 8 c (gj_z d)" using m by (auto simp: c fe_is_def elim: magnitude_mono)
  from zinv_coordinates [OF X Y _ _ this]
  have x0: "fe_is 1 (x * z ^ 2 * c ^ 2) (ge_x (ge_set_gej_zinv a (gj_z d)))" and y0: "fe_is 1 (y * z ^ 3 * c ^ 3) (ge_y (ge_set_gej_zinv a (gj_z d)))"
    by (simp_all add: ge_set_gej_zinv_def Let_def)
  show "gej_is ((gej_set_ge (ge_set_gej_zinv a (gj_z d))) \<lparr> gj_z := gj_z a \<rparr>) (scale_point c P)" unfolding P scale_point.simps
    by (rule gej_isI [of 1 "x * z ^ 2 * c ^ 2" _ 1 "y * z ^ 3 * c ^ 3" z]) (use x0 y0 Z z fa in \<open>simp_all add: gej_set_ge_def ge_set_gej_zinv_def Let_def\<close>)
  have "ge_ok (ge_set_gej_zinv a (gj_z d))" using fe_mag_of [OF x0, of 4] fe_mag_of [OF y0, of 3] by (simp add: ge_ok_def)
  then show "entry_is (ge_set_gej_zinv a (gj_z d)) (fe_val (gj_z a) * c) P"
    using x0 y0 Z fa(1) invertible_mult [OF z inv] by (simp add: entry_is_def P fe_is_def ge_set_gej_zinv_def Let_def power_mult_distrib mult_ac)
qed

lemma odd_table_spec:
  assumes "gej_is a (Ps ! 0)" "point_add (Ps ! 0) (Ps ! 0) D" "D \<noteq> Inf" "0 < n" "n \<le> length pre" "n \<le> length zr"
    and chain: "\<And>j. 1 \<le> j \<Longrightarrow> j < n \<Longrightarrow> point_add (Ps ! (j - 1)) D (Ps ! j)" "\<And>j. j < n \<Longrightarrow> Ps ! j \<noteq> Inf"
    and "ecmult_odd_multiples_table n pre zr a = (pre', zr', z)"
  obtains Z where "fe_is 1 (Z (n - 1)) z" "\<And>j. j < n \<Longrightarrow> entry_is (pre' ! j) (Z j) (Ps ! j)"
    "\<And>j. 1 \<le> j \<Longrightarrow> j < n \<Longrightarrow> magnitude 8 (zr' ! j) \<and> Z j = Z (j - 1) * fe_val (zr' ! j)"
proof -
  define d where "d = fst (gej_double_var a)"
  define c where "c = fe_val (gj_z d)"
  define ai where "ai = (gej_set_ge (ge_set_gej_zinv a (gj_z d))) \<lparr> gj_z := gj_z a \<rparr>"
  note S = table_start [OF assms(1) chain(2) [OF assms(4)] assms(2,3) d_def c_def, folded ai_def]
  let ?pre = "pre[0 := ge_set_gej_zinv a (gj_z d)]" and ?zr = "zr[0 := gj_z d]"
  have e: "?pre ! 0 = ge_set_gej_zinv a (gj_z d)" using assms(4,5) by (intro nth_list_update_eq) linarith
  then obtain ai' where l: "oddLoop (n - 1) 1 (ge_set_xy (gj_x d) (gj_y d)) ai ?pre ?zr = (ai', pre', zr')" and z: "z = fe_impl_mul (gj_z ai') (gj_z d)"
    using assms(9) by (cases "oddLoop (n - 1) 1 (ge_set_xy (gj_x d) (gj_y d)) ai ?pre ?zr") (auto simp: ecmult_odd_multiples_table_def Let_def d_def ai_def)
  have "gej_is ai' (scale_point c (Ps ! (n - 1)))" and first: "pre' ! 0 = ge_set_gej_zinv a (gj_z d)"
    and "\<exists>Z. Z 0 = fe_val (gj_z ai) \<and> Z (n - 1) = fe_val (gj_z ai') \<and>
      (\<forall>j. 1 \<le> j \<and> j < n \<longrightarrow> magnitude 8 (zr' ! j) \<and> Z j = Z (j - 1) * fe_val (zr' ! j) \<and> entry_is (pre' ! j) (Z j * c) (Ps ! j))"
    using oddLoop_spec [of ai c Ps 1 "ge_set_xy (gj_x d) (gj_y d)" D "n - 1" ?pre ?zr ai' pre' zr'] S assms(3-6) chain l e by simp_all
  then obtain Z where Z: "Z 0 = fe_val (gj_z a)" "Z (n - 1) = fe_val (gj_z ai')"
    "\<And>j. 1 \<le> j \<Longrightarrow> j < n \<Longrightarrow> magnitude 8 (zr' ! j) \<and> Z j = Z (j - 1) * fe_val (zr' ! j) \<and> entry_is (pre' ! j) (Z j * c) (Ps ! j)" by (auto simp: ai_def)
  show thesis
  proof (rule that [of "\<lambda>j. Z j * c"])
    have "magnitude 1 (gj_z ai')" using \<open>gej_is ai' _\<close> by (simp add: gej_is_def gej_ok_def)
    then show "fe_is 1 (Z (n - 1) * c) z" unfolding z Z(2) c_def using fe_is_mul [OF fe_self fe_self [OF S(2)], of 1 "gj_z ai'"] by simp
    show "entry_is (pre' ! j) (Z j * c) (Ps ! j)" if "j < n" for j
    proof (cases "j = 0")
      case False
      then have "1 \<le> j" by simp
      then show ?thesis using Z(3) that by blast
    qed (use Z(1) S(5) first in simp)
    show "magnitude 8 (zr' ! j) \<and> Z j * c = Z (j - 1) * c * fe_val (zr' ! j)" if "1 \<le> j" "j < n" for j
      using Z(3) [OF that] by (simp add: mult_ac)
  qed
qed

section \<open>One denominator for the whole table\<close>

lemma entry_rescale:
  assumes "entry_is g z P" "fe_is 8 c f" "z * c = w" "invertible w"
  shows "entry_is (ge_set_ge_zinv g f) w P" "magnitude 1 (ge_y (ge_set_ge_zinv g f))"
proof -
  obtain x y where P: "P = Aff x y" "fe_val (ge_x g) = x * z ^ 2" "fe_val (ge_y g) = y * z ^ 3" and g: "magnitude 4 (ge_x g)" "magnitude 3 (ge_y g)" "\<not> ge_infinity g"
    using assms(1) by (auto simp: entry_is_def ge_ok_def)
  note C = zinv_coordinates [OF fe_self [OF g(1)] fe_self [OF g(2)] _ _ assms(2)]
  have x: "fe_is 1 (x * w ^ 2) (ge_x (ge_set_ge_zinv g f))" and y: "fe_is 1 (y * w ^ 3) (ge_y (ge_set_ge_zinv g f))"
    using C by (simp_all add: ge_set_ge_zinv_def Let_def P(2,3) power_mult_distrib mult_ac flip: assms(3))
  show "magnitude 1 (ge_y (ge_set_ge_zinv g f))" using y by (simp add: fe_is_def)
  show "entry_is (ge_set_ge_zinv g f) w P"
    using x y g(3) assms(4) fe_mag_of [OF x, of 4] fe_mag_of [OF y, of 3] by (simp add: entry_is_def ge_ok_def P(1) fe_is_def ge_set_ge_zinv_def Let_def)
qed

lemma globalzLoop_spec:
  assumes "i < len" "length a = len" "invertible W" "Z (len - 1) = W"
    and "i = len - 1 \<Longrightarrow> zs = zr ! i" "i \<noteq> len - 1 \<Longrightarrow> magnitude 8 zs \<and> Z i * fe_val zs = W"
    and ratio: "\<And>j. 1 \<le> j \<Longrightarrow> j < len \<Longrightarrow> magnitude 8 (zr ! j) \<and> Z j = Z (j - 1) * fe_val (zr ! j)"
    and "\<And>j. j < i \<Longrightarrow> entry_is (a ! j) (Z j) (Ps ! j)" "\<And>j. i \<le> j \<Longrightarrow> j < len \<Longrightarrow> entry_is (a ! j) W (Ps ! j) \<and> magnitude 1 (ge_y (a ! j))"
  shows "\<forall>j<len. entry_is (globalzLoop len i zs zr a ! j) W (Ps ! j) \<and> magnitude 1 (ge_y (globalzLoop len i zs zr a ! j))"
  using assms(1,2,5,6,8,9)
proof (induction i arbitrary: zs a)
  case (Suc i)
  define f where "f = (if Suc i \<noteq> len - 1 then fe_impl_mul zs (zr ! Suc i) else zs)"
  note R = ratio [of "Suc i", simplified, OF Suc.prems(1)]
  have f: "magnitude 8 f" "Z i * fe_val f = W"
  proof -
    have "magnitude 8 f \<and> Z i * fe_val f = W"
    proof (cases "Suc i = len - 1")
      case True
      then show ?thesis using R Suc.prems(3) assms(4) by (simp add: f_def)
    next
      case False
      then have z: "magnitude 8 zs" "Z (Suc i) * fe_val zs = W" using Suc.prems(4) by simp_all
      have "fe_is 1 (fe_val zs * fe_val (zr ! Suc i)) (fe_impl_mul zs (zr ! Suc i))" using fe_is_mul [OF fe_self [OF z(1)] fe_self, of 8] R by simp
      then show ?thesis using z(2) R fe_mag_of [of 1 _ "fe_impl_mul zs (zr ! Suc i)" 8] False by (auto simp: f_def fe_is_def mult_ac)
    qed
    then show "magnitude 8 f" "Z i * fe_val f = W" by simp_all
  qed
  let ?a = "a[i := ge_set_ge_zinv (a ! i) f]"
  note E = entry_rescale [OF Suc.prems(5) [of i] fe_self [OF f(1)] f(2) assms(3)]
  have "\<forall>j<len. entry_is (globalzLoop len i f zr ?a ! j) W (Ps ! j) \<and> magnitude 1 (ge_y (globalzLoop len i f zr ?a ! j))"
  proof (rule Suc.IH)
    show "entry_is (?a ! j) W (Ps ! j) \<and> magnitude 1 (ge_y (?a ! j))" if "i \<le> j" "j < len" for j
      using that E Suc.prems(1,2) Suc.prems(6) [of j] by (cases "j = i") simp_all
  qed (use Suc.prems f in auto)
  then show ?case by (simp add: f_def Let_def)
qed simp

lemma globalz_spec:
  assumes "0 < len" "length a = len" "\<And>j. j < len \<Longrightarrow> entry_is (a ! j) (Z j) (Ps ! j)"
    "\<And>j. 1 \<le> j \<Longrightarrow> j < len \<Longrightarrow> magnitude 8 (zr ! j) \<and> Z j = Z (j - 1) * fe_val (zr ! j)"
  shows "\<forall>j<len. entry_is (ge_table_set_globalz len a zr ! j) (Z (len - 1)) (Ps ! j) \<and> magnitude 1 (ge_y (ge_table_set_globalz len a zr ! j))"
proof -
  define g where "g = a ! (len - 1)"
  have g: "entry_is g (Z (len - 1)) (Ps ! (len - 1))" using assms(1,3) by (simp add: g_def)
  let ?g = "g \<lparr> ge_y := fe_impl_normalize_weak (ge_y g) \<rparr>"
  have "fe_is 3 (fe_val (ge_y g)) (ge_y g)" using g by (simp add: entry_is_def ge_ok_def fe_self)
  then have w: "fe_is 1 (fe_val (ge_y g)) (ge_y ?g)" using fe_is_weak [of 3] by simp
  have last: "entry_is ?g (Z (len - 1)) (Ps ! (len - 1))" "magnitude 1 (ge_y ?g)" using g w fe_mag_of [OF w, of 3] by (auto simp: entry_is_def ge_ok_def fe_is_def)
  have inv: "invertible (Z (len - 1))" using g by (simp add: entry_is_def)
  have finished: "entry_is (a[len - 1 := ?g] ! j) (Z (len - 1)) (Ps ! j) \<and> magnitude 1 (ge_y (a[len - 1 := ?g] ! j))" if "len - 1 \<le> j" "j < len" for j
  proof -
    have "j = len - 1" using that by simp
    then show ?thesis using last assms(1,2) by simp
  qed
  have todo: "entry_is (a[len - 1 := ?g] ! j) (Z j) (Ps ! j)" if "j < len - 1" for j using assms(3) that by simp
  have "\<forall>j<len. entry_is (globalzLoop len (len - 1) (zr ! (len - 1)) zr (a[len - 1 := ?g]) ! j) (Z (len - 1)) (Ps ! j) \<and>
      magnitude 1 (ge_y (globalzLoop len (len - 1) (zr ! (len - 1)) zr (a[len - 1 := ?g]) ! j))"
    by (rule globalzLoop_spec [where Z = Z, OF _ _ inv refl _ _ assms(4) todo finished]) (use assms(1,2) in simp_all)
  then show ?thesis using assms(1) by (simp only: ge_table_set_globalz_def Let_def if_True g_def [symmetric])
qed

lemma entry_neg:
  assumes "entry_is g W P" "magnitude 1 (ge_y g)"
  shows "entry_is (g \<lparr> ge_y := fe_impl_negate_unchecked (ge_y g) 1 \<rparr>) W (neg_point P)"
proof -
  have n: "fe_is 2 (- fe_val (ge_y g)) (fe_impl_negate_unchecked (ge_y g) 1)" by (rule fe_is_neg [OF fe_self [OF assms(2)]]) simp_all
  then have "magnitude 3 (fe_impl_negate_unchecked (ge_y g) 1)" by (rule fe_mag_of) simp
  then show ?thesis using n assms(1) by (auto simp: entry_is_def ge_ok_def fe_is_def)
qed

lemma globalz_length: "length (ge_table_set_globalz len a zr) = length a"
proof -
  have "length (globalzLoop n i zs zr b) = length b" for n i zs b by (induction i arbitrary: zs b) (simp_all add: Let_def)
  then show ?thesis by (simp add: ge_table_set_globalz_def Let_def)
qed

lemma entry_jacobian: "entry_is e W P \<Longrightarrow> fe_is 1 W z \<Longrightarrow> gej_is \<lparr> gj_x = ge_x e, gj_y = ge_y e, gj_z = z, gj_infinity = ge_infinity e \<rparr> P"
  by (auto simp: entry_is_def gej_is_def gej_ok_def ge_ok_def fe_is_def elim: magnitude_mono)

lemma table_get_ge_is:
  assumes "entry_is (tab ! i) W P" "magnitude 1 (ge_y (tab ! i))" "i = nat ((\<bar>n\<bar> - 1) div 2)"
  shows "entry_is (ecmult_table_get_ge tab n) W (if n > 0 then P else neg_point P)"
  using assms(1) entry_neg [OF assms(1,2)] assms(3) by (cases "n > 0") (simp_all add: ecmult_table_get_ge_def Let_def)

text \<open>The multiples under the endomorphism: the same ordinates, abscissas times beta.\<close>

lemma table_get_ge_lambda_is:
  assumes "entry_is (tab ! i) W P" "magnitude 1 (ge_y (tab ! i))" "i = nat ((\<bar>n\<bar> - 1) div 2)" "xs ! i = fe_impl_mul (ge_x (tab ! i)) const_beta"
  shows "entry_is (ecmult_table_get_ge_lambda tab xs n) W (endo (if n > 0 then P else neg_point P))"
proof -
  let ?g = "ge_set_xy (xs ! i) (ge_y (tab ! i))"
  have x: "fe_is 1 (fe_val (ge_x (tab ! i)) * beta) (xs ! i)" using fe_is_mul [OF fe_self beta_is, of 4] assms(1,4) by (simp add: entry_is_def ge_ok_def)
  then have g: "entry_is ?g W (endo P)" "magnitude 1 (ge_y ?g)" using assms(1,2) fe_mag_of [OF x, of 4] by (auto simp: entry_is_def ge_ok_def ge_set_xy_def fe_is_def mult_ac)
  from entry_neg [OF g] g(1) assms(3) show ?thesis by (cases "n > 0") (simp_all add: ecmult_table_get_ge_lambda_def Let_def endo_neg)
qed

text \<open>Stored tables hold affine points: their denominator is one.\<close>

lemma table_get_ge_storage_is:
  assumes "i = nat ((\<bar>n\<bar> - 1) div 2)" "P = Aff (fe_val (ge_x (ge_from_storage (pre ! i)))) (fe_val (ge_y (ge_from_storage (pre ! i))))"
  shows "entry_is (ecmult_table_get_ge_storage pre n) 1 (if n > 0 then P else neg_point P)"
proof -
  let ?g = "ge_from_storage (pre ! i)"
  have "magnitude 1 (fe_impl_from_storage s)" for s using from_storage_spec(2,3) [of s] by (simp add: fe_tidy_def magnitude_def)
  then have "magnitude 1 (ge_x ?g)" "magnitude 1 (ge_y ?g)" by (simp_all add: ge_from_storage_def)
  then have g: "entry_is ?g 1 P" "magnitude 1 (ge_y ?g)"
    using magnitude_mono [of 1 "ge_x ?g" 4] magnitude_mono [of 1 "ge_y ?g" 3] by (simp_all add: entry_is_def ge_ok_def assms(2) invertible_def ge_from_storage_def)
  from entry_neg [OF g] g(1) assms(1) show ?thesis by (cases "n > 0") (simp_all add: ecmult_table_get_ge_storage_def Let_def)
qed

lemma table_entries:
  assumes "gej_is a (Ps ! 0)" "point_add (Ps ! 0) (Ps ! 0) D" "D \<noteq> Inf" "0 < n" "length pre = n" "length zr = n"
    "\<And>j. 1 \<le> j \<Longrightarrow> j < n \<Longrightarrow> point_add (Ps ! (j - 1)) D (Ps ! j)" "\<And>j. j < n \<Longrightarrow> Ps ! j \<noteq> Inf"
    "ecmult_odd_multiples_table n pre zr a = (pre', zr', z)"
  obtains W where "fe_is 1 W z" "length (ge_table_set_globalz n pre' zr') = n"
    "\<And>j. j < n \<Longrightarrow> entry_is (ge_table_set_globalz n pre' zr' ! j) W (Ps ! j) \<and> magnitude 1 (ge_y (ge_table_set_globalz n pre' zr' ! j))"
proof -
  obtain Z where Z: "fe_is 1 (Z (n - 1)) z" "\<And>j. j < n \<Longrightarrow> entry_is (pre' ! j) (Z j) (Ps ! j)"
    "\<And>j. 1 \<le> j \<Longrightarrow> j < n \<Longrightarrow> magnitude 8 (zr' ! j) \<and> Z j = Z (j - 1) * fe_val (zr' ! j)"
    by (rule odd_table_spec [of a Ps D n pre zr pre' zr' z]) (use assms in auto)
  have l: "length pre' = n" using assms(5,9) oddLoop_length by (auto simp: ecmult_odd_multiples_table_def Let_def split: prod.splits)
  show thesis using globalz_spec [of n pre' Z Ps zr'] l assms(4) Z by (intro that [of "Z (n - 1)"]) (auto simp: globalz_length)
qed

section \<open>The properties of the table\<close>

text \<open>Twice and three times the generator, for an instance.\<close>

definition twice_x :: nat where "twice_x = 0xC6047F9441ED7D6D3045406E95C07CD85C778E4B8CEF3CA7ABAC09B95C709EE5"

definition twice_y :: nat where "twice_y = 0x1AE168FEA63DC339A3C58419466CEAEEF7F632653266D0E1236431A950CFE52A"

definition triple_dx :: nat where "triple_dx = 0x4C4619154810C1C0DAA4DDD8C73971D159DB91705F2113CE51B9885E4578874D"

definition triple_slope :: nat where "triple_slope = 0x342119815C0F816F31F431A9FE98A6C76D11425ECAEAECF2D0EF6DEF197C56B0"

lemma twice_g: "third_point (of_nat gl) (of_nat gx) (of_nat gy) (of_nat gx) = Aff (of_nat twice_x) (of_nat twice_y)"
proof -
  have "of_nat (twice_x + 2 * gx) = (of_nat (gl * gl) :: fp)" by (rule fp_eq_multiple [of _ "0xA14E3460FEBE2C2316BFCCCC1B764790C3B7D9FF92663EA740240F16B583E774"]) (simp add: gx_def gl_def twice_x_def field_p_def)
  then have x: "(of_nat gl)\<^sup>2 - of_nat gx - of_nat gx = (of_nat twice_x :: fp)" by (simp add: power2_eq_square algebra_simps)
  have "of_nat (gl * gx) = (of_nat (twice_y + gy + gl * twice_x) :: fp)" by (rule fp_eq_multiple [of _ "0x3C8B95972F12B04B3CA25330B2BD449E8E938229D1FD14F76CAE42249CE0DC11"]) (simp add: gx_def gy_def gl_def twice_x_def twice_y_def field_p_def)
  then have "of_nat gl * (of_nat gx - of_nat twice_x) - of_nat gy = (of_nat twice_y :: fp)" by (simp add: algebra_simps)
  then show ?thesis by (simp add: third_point_def Let_def x)
qed

lemma triple_g: "point_add (Aff (of_nat gx) (of_nat gy)) (Aff (of_nat twice_x) (of_nat twice_y)) (third_point (of_nat triple_slope) (of_nat gx) (of_nat gy) (of_nat twice_x))"
proof (rule chord)
  have "of_nat twice_x = (of_nat (gx + triple_dx) :: fp)" by (rule fp_eq_multiple [of _ 0]) (simp add: gx_def twice_x_def triple_dx_def field_p_def)
  then have d: "of_nat twice_x - of_nat gx = (of_nat triple_dx :: fp)" by simp
  have "of_nat 1 = (of_nat (triple_dx * 0xAC946F7CD9CCEBB8D59803E73C7D12AA395B2EB7E59A8BA119742DF442FC6604) :: fp)" by (rule fp_eq_multiple [of _ "0x336B52986471C5C6349D7446A94FCEB080D8673C95B262786EBEB47C61B28C3D"]) (simp add: triple_dx_def field_p_def)
  then have "(1 :: fp) = of_nat triple_dx * of_nat 0xAC946F7CD9CCEBB8D59803E73C7D12AA395B2EB7E59A8BA119742DF442FC6604" by (simp only: of_nat_mult of_nat_1)
  then show "invertible (of_nat twice_x - of_nat gx)" unfolding d invertible_def by (rule dvdI)
  have "of_nat twice_y = (of_nat (gy + triple_dx * triple_slope) :: fp)" by (rule fp_eq_multiple [of _ "0xF8819BAF19538F6ABB328694DF01E7F3A13331AAE64135353DBFA72A8C09FE2"]) (simp add: gy_def twice_y_def triple_dx_def triple_slope_def field_p_def)
  then show "(of_nat twice_x - of_nat gx) * of_nat triple_slope = (of_nat twice_y - of_nat gy :: fp)" unfolding d by (simp add: algebra_simps)
qed

text \<open>
  The table of odd multiples: after the table is filled and brought to one denominator, an odd digit \<open>m\<close> selects an affine point that, with the reported
  denominator as third coordinate, represents the odd multiple of the digit's absolute value, negated for a negative digit; with the abscissas multiplied by
  beta the digit selects the image of that point under the endomorphism.
\<close>
theorem odd_multiples_table:
  assumes "gej_is a (Ps ! 0)" "point_add (Ps ! 0) (Ps ! 0) D" "D \<noteq> Inf" "0 < n" "length pre = n" "length zr = n"
    "\<forall>j. 1 \<le> j \<and> j < n \<longrightarrow> point_add (Ps ! (j - 1)) D (Ps ! j)" "\<forall>j<n. Ps ! j \<noteq> Inf"
    "ecmult_odd_multiples_table n pre zr a = (pre', zr', z)" "tab = ge_table_set_globalz n pre' zr'" "odd m" "\<bar>m\<bar> < 2 * int n"
    "P = Ps ! nat ((\<bar>m\<bar> - 1) div 2)" "e = ecmult_table_get_ge tab m" "e' = ecmult_table_get_ge_lambda tab (map (\<lambda>g. fe_impl_mul (ge_x g) const_beta) tab) m"
  shows "gej_is \<lparr> gj_x = ge_x e, gj_y = ge_y e, gj_z = z, gj_infinity = ge_infinity e \<rparr> (if m > 0 then P else neg_point P) \<and>
    gej_is \<lparr> gj_x = ge_x e', gj_y = ge_y e', gj_z = z, gj_infinity = ge_infinity e' \<rparr> (endo (if m > 0 then P else neg_point P))"
proof -
  let ?i = "nat ((\<bar>m\<bar> - 1) div 2)"
  obtain W where W: "fe_is 1 W z" "length tab = n" "\<And>j. j < n \<Longrightarrow> entry_is (tab ! j) W (Ps ! j) \<and> magnitude 1 (ge_y (tab ! j))"
    by (rule table_entries [of a Ps D n pre zr pre' zr' z, folded assms(10)]) (use assms(1-9) in auto)
  have i: "?i < n" using assms(4,11,12) by auto
  then have t: "entry_is (tab ! ?i) W P" "magnitude 1 (ge_y (tab ! ?i))" using W(3) by (simp_all add: assms(13))
  have "map (\<lambda>g. fe_impl_mul (ge_x g) const_beta) tab ! ?i = fe_impl_mul (ge_x (tab ! ?i)) const_beta" using i W(2) by simp
  note E = table_get_ge_is [OF t refl, folded assms(14)] table_get_ge_lambda_is [OF t refl this, folded assms(15)]
  show ?thesis using entry_jacobian [OF E(1) W(1)] entry_jacobian [OF E(2) W(1)] by blast
qed

theorem odd_multiples_table_witness:
  "\<exists>pre zr z e. ecmult_odd_multiples_table 2 [ge_set_infinity, ge_set_infinity] [fe_impl_set_int 0, fe_impl_set_int 0] (gej_set_ge ge_const_g) = (pre, zr, z) \<and>
     e = ecmult_table_get_ge (ge_table_set_globalz 2 pre zr) (- 3) \<and>
     gej_is \<lparr> gj_x = ge_x e, gj_y = ge_y e, gj_z = z, gj_infinity = ge_infinity e \<rparr> (neg_point (third_point (of_nat triple_slope) (of_nat gx) (of_nat gy) (of_nat twice_x)))"
proof -
  let ?G = "Aff (of_nat gx) (of_nat gy)" and ?D = "Aff (of_nat twice_x) (of_nat twice_y)" and ?T = "third_point (of_nat triple_slope) (of_nat gx) (of_nat gy) (of_nat twice_x)"
  obtain pre zr z where r: "ecmult_odd_multiples_table 2 [ge_set_infinity, ge_set_infinity] [fe_impl_set_int 0, fe_impl_set_int 0] (gej_set_ge ge_const_g) = (pre, zr, z)"
    using prod_cases3 by blast
  have "gej_is (gej_set_ge ge_const_g) ([?G, ?T] ! 0)" using gej_set_ge_is [OF g_is] by simp
  moreover have "point_add ([?G, ?T] ! 0) ([?G, ?T] ! 0) ?D" using g_tangent twice_g by simp
  moreover have "\<forall>j. 1 \<le> j \<and> j < 2 \<longrightarrow> point_add ([?G, ?T] ! (j - 1)) ?D ([?G, ?T] ! j)" using triple_g by (auto simp: less_2_cases_iff)
  moreover have "\<forall>j<2. [?G, ?T] ! j \<noteq> Inf" by (auto simp: less_2_cases_iff third_point_def Let_def)
  ultimately show ?thesis using odd_multiples_table [OF _ _ _ _ _ _ _ _ r refl _ _ refl refl refl, of "[?G, ?T]" ?D "- 3"] r by simp
qed

end
