(* ===== verification/Scalar_Bits.thy ===== *)
theory Scalar_Bits
  imports Scalar_Mul
begin

unbundle bit_operations_syntax

text \<open>
  Access to the bits of scalars in \<open>src/external/secp256k1/src/scalar_4x64_impl.h\<close>: reading a window of bits, adding a power of two, halving, splitting at bit
  128 and the rounded shift of a product. Offsets and counts stay below 513 and are natural numbers; the bit of \<open>scalar_cadd_bit\<close>, which
  the code moves out of range by masking, is a word of 32 bits.
\<close>

section \<open>Operations\<close>

definition limbs :: "secp256k1_scalar \<Rightarrow> u64 list" where
  "limbs a = [d0 a, d1 a, d2 a, d3 a]"

definition scalar_get_bits_limb32 :: "secp256k1_scalar \<Rightarrow> nat \<Rightarrow> nat \<Rightarrow> u32" where
  "scalar_get_bits_limb32 a offset cnt =
     ucast (drop_bit (offset AND 0x3F) (limbs a ! drop_bit 6 offset) AND drop_bit (32 - cnt) 0xFFFFFFFF)"

definition scalar_get_bits_var :: "secp256k1_scalar \<Rightarrow> nat \<Rightarrow> nat \<Rightarrow> u32" where
  "scalar_get_bits_var a offset cnt =
     (if drop_bit 6 (offset + cnt - 1) = drop_bit 6 offset then scalar_get_bits_limb32 a offset cnt
      else ucast ((drop_bit (offset AND 0x3F) (limbs a ! drop_bit 6 offset) OR push_bit (64 - (offset AND 0x3F)) (limbs a ! (drop_bit 6 offset + 1)))
        AND drop_bit (32 - cnt) 0xFFFFFFFF))"

definition scalar_cadd_bit :: "secp256k1_scalar \<Rightarrow> u32 \<Rightarrow> bool \<Rightarrow> secp256k1_scalar" where
  "scalar_cadd_bit r bt flag =
     (let bt = bt + ((of_bool flag - 1) AND 0x100);
          t = u128_from_u64 (d0 r);
          t = u128_accum_u64 t (push_bit (unat (bt AND 0x3F)) (of_bool (drop_bit 6 bt = 0)));
          r0 = u128_to_u64 t; t = u128_rshift64 t;
          t = u128_accum_u64 t (d1 r);
          t = u128_accum_u64 t (push_bit (unat (bt AND 0x3F)) (of_bool (drop_bit 6 bt = 1)));
          r1 = u128_to_u64 t; t = u128_rshift64 t;
          t = u128_accum_u64 t (d2 r);
          t = u128_accum_u64 t (push_bit (unat (bt AND 0x3F)) (of_bool (drop_bit 6 bt = 2)));
          r2 = u128_to_u64 t; t = u128_rshift64 t;
          t = u128_accum_u64 t (d3 r);
          t = u128_accum_u64 t (push_bit (unat (bt AND 0x3F)) (of_bool (drop_bit 6 bt = 3)));
          r3 = u128_to_u64 t
      in \<lparr> d0 = r0, d1 = r1, d2 = r2, d3 = r3 \<rparr>)"

definition scalar_half :: "secp256k1_scalar \<Rightarrow> secp256k1_scalar" where
  "scalar_half a =
     (let mask = - (d0 a AND 1);
          t = u128_from_u64 (drop_bit 1 (d0 a) OR push_bit 63 (d1 a));
          t = u128_accum_u64 t ((N_H_0 + 1) AND mask);
          r0 = u128_to_u64 t; t = u128_rshift64 t;
          t = u128_accum_u64 t (drop_bit 1 (d1 a) OR push_bit 63 (d2 a));
          t = u128_accum_u64 t (N_H_1 AND mask);
          r1 = u128_to_u64 t; t = u128_rshift64 t;
          t = u128_accum_u64 t (drop_bit 1 (d2 a) OR push_bit 63 (d3 a));
          t = u128_accum_u64 t (N_H_2 AND mask);
          r2 = u128_to_u64 t; t = u128_rshift64 t;
          r3 = u128_to_u64 t + drop_bit 1 (d3 a) + (N_H_3 AND mask)
      in \<lparr> d0 = r0, d1 = r1, d2 = r2, d3 = r3 \<rparr>)"

definition scalar_split_128 :: "secp256k1_scalar \<Rightarrow> secp256k1_scalar \<times> secp256k1_scalar" where
  "scalar_split_128 k = (\<lparr> d0 = d0 k, d1 = d1 k, d2 = 0, d3 = 0 \<rparr>, \<lparr> d0 = d2 k, d1 = d3 k, d2 = 0, d3 = 0 \<rparr>)"

definition scalar_mul_shift_var :: "secp256k1_scalar \<Rightarrow> secp256k1_scalar \<Rightarrow> nat \<Rightarrow> secp256k1_scalar" where
  "scalar_mul_shift_var a b shift =
     (let l = scalar_mul_512 a b;
          shiftlimbs = drop_bit 6 shift;
          shiftlow = shift AND 0x3F;
          shifthigh = 64 - shiftlow;
          r0 = (if shift < 512 then drop_bit shiftlow (l ! (0 + shiftlimbs)) OR (if shift < 448 \<and> shiftlow \<noteq> 0 then push_bit shifthigh (l ! (1 + shiftlimbs)) else 0) else 0);
          r1 = (if shift < 448 then drop_bit shiftlow (l ! (1 + shiftlimbs)) OR (if shift < 384 \<and> shiftlow \<noteq> 0 then push_bit shifthigh (l ! (2 + shiftlimbs)) else 0) else 0);
          r2 = (if shift < 384 then drop_bit shiftlow (l ! (2 + shiftlimbs)) OR (if shift < 320 \<and> shiftlow \<noteq> 0 then push_bit shifthigh (l ! (3 + shiftlimbs)) else 0) else 0);
          r3 = (if shift < 320 then drop_bit shiftlow (l ! (3 + shiftlimbs)) else 0)
      in scalar_cadd_bit \<lparr> d0 = r0, d1 = r1, d2 = r2, d3 = r3 \<rparr> 0
           (drop_bit ((shift - 1) AND 0x3F) (l ! drop_bit 6 (shift - 1)) AND 1 \<noteq> 0))"

section \<open>The bits of a list of limbs\<close>

lemma offset_parts: "offset AND 0x3F = offset mod 64" "drop_bit 6 offset = offset div 64" for offset :: nat
  using take_bit_eq_mask [of 6 offset] by (simp_all add: drop_bit_eq_div take_bit_eq_mod mask_eq_exp_minus_1)

lemma lval_Cons: "lval (l # ls) = unat l + 2 ^ 64 * lval ls"
  by (simp add: lval_def)

lemma lval_limbs: "lval (limbs a) = sval a"
  by (simp add: lval_def limbs_def sval_def)

lemma bit_unat: "bit (unat x) n \<longleftrightarrow> bit x n" for x :: "'a::len word"
  by (metis bit_unsigned_iff bit_imp_le_length linorder_not_le possible_bit_nat)

lemma bit_cons_limb: "bit (unat l + 2 ^ 64 * v) n \<longleftrightarrow> (if n < 64 then bit l n else bit v (n - 64))" for l :: u64
proof -
  have "take_bit 64 (unat l + 2 ^ 64 * v) = unat l" "drop_bit 64 (unat l + 2 ^ 64 * v) = v"
    using unat_u64_less [of l] by (simp_all add: take_bit_eq_mod drop_bit_eq_div)
  then have *: "bit (take_bit 64 (unat l + 2 ^ 64 * v)) n \<longleftrightarrow> bit (unat l) n" "bit (drop_bit 64 (unat l + 2 ^ 64 * v)) (n - 64) \<longleftrightarrow> bit v (n - 64)" by (simp_all only:)
  then show ?thesis
  proof (cases "n < 64")
    case True
    then show ?thesis using *(1) unfolding bit_take_bit_iff bit_unat by simp
  next
    case False
    then have "64 + (n - 64) = n" by simp
    then show ?thesis using *(2) False unfolding bit_drop_bit_eq comp_apply by simp
  qed
qed

lemma bit_lval: "bit (lval ls) n \<longleftrightarrow> n div 64 < length ls \<and> bit (ls ! (n div 64)) (n mod 64)"
proof (induction ls arbitrary: n)
  case (Cons l ls)
  show ?case
  proof (cases "n < 64")
    case False
    then obtain m where "n = m + 64" by (metis add.commute le_add_diff_inverse linorder_not_le)
    moreover have "(m + 64) div 64 = Suc (m div 64)" by simp
    ultimately show ?thesis by (simp only: lval_Cons bit_cons_limb Cons.IH) simp
  qed (simp only: lval_Cons bit_cons_limb, simp)
qed (simp add: lval_def)

lemma bit_limb_end: "\<not> bit (x :: u64) (64 + n)"
  using bit_imp_le_length [of x "64 + n"] by auto

text \<open>A window of 64 bits that starts in limb \<open>i\<close>.\<close>

definition limb_window :: "u64 list \<Rightarrow> nat \<Rightarrow> nat \<Rightarrow> u64" where
  "limb_window l i low = (if i < length l then drop_bit low (l ! i) OR (if Suc i < length l \<and> low \<noteq> 0 then push_bit (64 - low) (l ! Suc i) else 0) else 0)"

lemma bit_window: "low < 64 \<Longrightarrow> m < 64 \<Longrightarrow> bit (limb_window l i low) m \<longleftrightarrow> bit (lval l) (64 * i + low + m)"
proof (cases "low + m < 64")
  case True
  assume "low < 64" "m < 64"
  have "(64 * i + low + m) div 64 = i" "(64 * i + low + m) mod 64 = low + m" using True by (simp_all add: add.assoc)
  then show ?thesis using True \<open>m < 64\<close> by (auto simp: limb_window_def bit_lval bit_or_iff bit_drop_bit_eq bit_push_bit_iff)
next
  case False
  assume *: "low < 64" "m < 64"
  define j where "j = low + m - 64"
  have j: "64 * i + low + m = 64 * Suc i + j" "low + m = 64 + j" "j < 64" using False * by (simp_all add: j_def)
  then have "(64 * i + low + m) div 64 = Suc i" "(64 * i + low + m) mod 64 = j" by (simp_all only: j(1) div_mult_self4 div_mult_self2 mod_mult_self4 mod_less div_less)
  moreover have "m - (64 - low) = j" "64 - low \<le> m" using False * by (simp_all add: j_def)
  ultimately show ?thesis using * j(2,3) by (simp add: limb_window_def bit_lval bit_or_iff bit_drop_bit_eq bit_push_bit_iff bit_limb_end)
qed

lemma window_take:
  assumes "low < 64" "n \<le> 64"
  shows "take_bit n (unat (limb_window l i low)) = take_bit n (drop_bit (64 * i + low) (lval l))"
proof (rule bit_eqI)
  fix m
  show "bit (take_bit n (unat (limb_window l i low))) m \<longleftrightarrow> bit (take_bit n (drop_bit (64 * i + low) (lval l))) m"
    using bit_window [of low m l i] assms by (simp add: bit_take_bit_iff bit_unat bit_drop_bit_eq del: unat_eq_zero) auto
qed

section \<open>Windows of bits\<close>

lemma low_mask: "n \<le> 32 \<Longrightarrow> x AND drop_bit (32 - n) 0xFFFFFFFF = take_bit n (x :: u64)"
proof -
  assume "n \<le> 32"
  have "(0xFFFFFFFF :: u64) = mask 32" by (simp add: mask_eq_exp_minus_1)
  moreover have "drop_bit (32 - n) (mask 32 :: u64) = mask n" using \<open>n \<le> 32\<close> by (intro bit_eqI) (auto simp: bit_drop_bit_eq bit_mask_iff)
  ultimately have "drop_bit (32 - n) (0xFFFFFFFF :: u64) = mask n" by (simp only:)
  then show ?thesis by (simp only: take_bit_eq_mask)
qed

lemma unat_low_bits: "n \<le> 32 \<Longrightarrow> unat (ucast (take_bit n (x :: u64)) :: u32) = take_bit n (unat x)"
  by (rule bit_eqI) (auto simp: bit_unat bit_take_bit_iff bit_ucast_iff)

lemma inner_window: "low + n \<le> 64 \<Longrightarrow> i < length l \<Longrightarrow> take_bit n (drop_bit low (l ! i)) = take_bit n (limb_window l i low)"
  by (rule bit_eqI) (auto simp: limb_window_def bit_take_bit_iff bit_or_iff bit_push_bit_iff)

lemma get_bits_spec:
  assumes "0 < n" "n \<le> 32" "k + n \<le> 256"
  shows "unat (scalar_get_bits_var a k n) = sval a div 2 ^ k mod 2 ^ n"
    and "(k + n - 1) div 64 = k div 64 \<Longrightarrow> unat (scalar_get_bits_limb32 a k n) = sval a div 2 ^ k mod 2 ^ n"
proof -
  let ?w = "limb_window (limbs a) (k div 64) (k mod 64)"
  have k: "64 * (k div 64) + k mod 64 = k" by simp
  have len: "length (limbs a) = 4" by (simp add: limbs_def)
  have i: "k div 64 < 4" using assms by simp
  have "take_bit n (unat ?w) = take_bit n (drop_bit k (sval a))" using window_take [of "k mod 64" n "limbs a" "k div 64"] assms(2) unfolding k lval_limbs by simp
  then have w: "unat (ucast (take_bit n ?w) :: u32) = sval a div 2 ^ k mod 2 ^ n"
    unfolding unat_low_bits [OF assms(2)] by (simp only: take_bit_eq_mod drop_bit_eq_div)
  show limb: "unat (scalar_get_bits_limb32 a k n) = sval a div 2 ^ k mod 2 ^ n" if "(k + n - 1) div 64 = k div 64"
  proof -
    have "k + n - 1 = 64 * (k div 64) + (k + n - 1) mod 64" unfolding that [symmetric] by simp
    moreover have "(k + n - 1) mod 64 < 64" by simp
    ultimately have "k mod 64 + n \<le> 64" using k assms(1) by linarith
    then show ?thesis using inner_window [of "k mod 64" n "k div 64" "limbs a"] w i len assms(2)
      by (simp only: scalar_get_bits_limb32_def offset_parts low_mask)
  qed
  show "unat (scalar_get_bits_var a k n) = sval a div 2 ^ k mod 2 ^ n"
  proof (cases "(k + n - 1) div 64 = k div 64")
    case True
    then show ?thesis using limb by (simp add: scalar_get_bits_var_def offset_parts)
  next
    case False
    then have "k div 64 < (k + n - 1) div 64" using div_le_mono [of k "k + n - 1" 64] assms(1) by linarith
    moreover have "(k + n - 1) div 64 < 4" using assms by simp
    moreover have "k mod 64 \<noteq> 0"
    proof
      assume "k mod 64 = 0"
      then have "k + n - 1 = n - 1 + 64 * (k div 64)" using k assms(1) by linarith
      then have "(k + n - 1) div 64 = (n - 1 + 64 * (k div 64)) div 64" by (simp only:)
      then show False using False assms(2) by simp
    qed
    ultimately have "Suc (k div 64) < 4" "k mod 64 \<noteq> 0" by linarith+
    then have "drop_bit (k mod 64) (limbs a ! (k div 64)) OR push_bit (64 - k mod 64) (limbs a ! (k div 64 + 1)) = ?w" using len by (simp add: limb_window_def)
    then show ?thesis using False w assms(2) by (simp only: scalar_get_bits_var_def offset_parts low_mask if_False)
  qed
qed

section \<open>Adding a bit, halving and splitting\<close>

lemma cadd_chain:
  "scalar_cadd_bit r b flag =
     (let b = b + ((of_bool flag - 1) AND 0x100); x = (\<lambda>i. push_bit (unat (b AND 0x3F)) (of_bool (drop_bit 6 b = i)))
      in fst (chain4 (d0 r, x 0) (d1 r, x 1) (d2 r, x 2) (d3 r, x 3)))"
  by (simp add: scalar_cadd_bit_def chain4_def Let_def)

lemma bit_index_parts: "unat (b AND 0x3F) = unat b mod 64" "unat (drop_bit 6 b) = unat b div 64" for b :: u32
proof -
  have "b AND 0x3F = take_bit 6 b" by (simp add: take_bit_eq_mask mask_eq_exp_minus_1)
  then show "unat (b AND 0x3F) = unat b mod 64" by (simp only: unsigned_take_bit_eq) (simp add: take_bit_eq_mod)
  show "unat (drop_bit 6 b) = unat b div 64" unfolding unat_drop_bit_eq by (simp add: drop_bit_eq_div)
qed

lemma cadd_addend:
  fixes b :: u32
  assumes "unat b < 256"
  shows "sval \<lparr> d0 = push_bit (unat b mod 64) (of_bool (unat b div 64 = 0)), d1 = push_bit (unat b mod 64) (of_bool (unat b div 64 = 1)),
      d2 = push_bit (unat b mod 64) (of_bool (unat b div 64 = 2)), d3 = push_bit (unat b mod 64) (of_bool (unat b div 64 = 3)) \<rparr> = 2 ^ unat b"
proof -
  have one: "unat (push_bit (unat b mod 64) (1 :: u64)) = 2 ^ (unat b mod 64)" unfolding unsigned_push_bit_eq by (simp add: push_bit_of_1 take_bit_of_exp)
  have "unat b div 64 < 4" using assms by simp
  then consider "unat b div 64 = 0" | "unat b div 64 = 1" | "unat b div 64 = 2" | "unat b div 64 = 3" by linarith
  moreover have "(2 :: nat) ^ unat b = 2 ^ (64 * (unat b div 64)) * 2 ^ (unat b mod 64)" by (simp only: power_add [symmetric]) simp
  ultimately show ?thesis using one by cases (simp_all add: sval_def)
qed

lemma bit_index_eq: "drop_bit 6 b = i \<longleftrightarrow> unat b div 64 = unat i" for b i :: u32
  by (metis bit_index_parts(2) unat_inject)

lemma cadd_spec:
  assumes b: "unat b < 256" and bound: "sval r + of_bool flag * 2 ^ unat b < 2 ^ 256"
  shows "sval (scalar_cadd_bit r b flag) = sval r + of_bool flag * 2 ^ unat b"
proof (cases flag)
  case True
  have "scalar_cadd_bit r b True = fst (chain4 (d0 r, push_bit (unat b mod 64) (of_bool (unat b div 64 = 0))) (d1 r, push_bit (unat b mod 64) (of_bool (unat b div 64 = 1)))
      (d2 r, push_bit (unat b mod 64) (of_bool (unat b div 64 = 2))) (d3 r, push_bit (unat b mod 64) (of_bool (unat b div 64 = 3))))"
    unfolding cadd_chain Let_def bit_index_eq by (simp add: bit_index_parts(1))
  then have "sval (scalar_cadd_bit r b True) = (sval r + 2 ^ unat b) mod 2 ^ 256" by (simp only: sval_mod_chain sval_eta cadd_addend [OF b])
  then show ?thesis using bound True by (simp only: of_bool_eq mult_1 mod_less)
next
  case False
  have "unat (b + 0x100) = unat b + 256" using b by (intro add_no_wrap [of b "0x100", simplified]) simp
  then have "unat (b + 0x100) div 64 = unat b div 64 + 4" by simp
  then have "scalar_cadd_bit r b False = fst (chain4 (d0 r, 0) (d1 r, 0) (d2 r, 0) (d3 r, 0))"
    unfolding cadd_chain Let_def bit_index_eq by simp
  then have "sval (scalar_cadd_bit r b False) = (sval r + sval \<lparr> d0 = 0, d1 = 0, d2 = 0, d3 = 0 \<rparr>) mod 2 ^ 256" by (simp only: sval_mod_chain sval_eta)
  also have "\<dots> = sval r" using sval_less [of r] by (simp add: sval_def)
  finally show ?thesis using False by simp
qed

lemma shifted_limb: "unat (drop_bit 1 x OR push_bit 63 y) = unat x div 2 + 2 ^ 63 * (unat y mod 2)" for x y :: u64
proof -
  have "drop_bit 1 x OR push_bit 63 y = drop_bit 1 x + push_bit 63 y"
    by (rule disjunctive_add_eq_or [symmetric], rule bit_eqI) (auto simp: bit_and_iff bit_drop_bit_eq bit_push_bit_iff dest: bit_imp_le_length)
  moreover have "unat (drop_bit 1 x) = unat x div 2" unfolding unat_drop_bit_eq by (simp add: drop_bit_eq_div)
  moreover have "unat (push_bit 63 y) = 2 ^ 63 * (unat y mod 2)"
    unfolding unsigned_push_bit_eq using mult_mod_right [of "2 ^ 63" "unat y" 2] by (simp add: push_bit_eq_mult take_bit_eq_mod mult.commute)
  moreover have "unat x div 2 < 2 ^ 63" using unat_u64_less [of x] by simp
  moreover have "2 ^ 63 * (unat y mod 2) \<le> 2 ^ 63" by (simp add: mod_2_eq_odd)
  ultimately show ?thesis by (simp only:) (subst add_no_wrap, simp_all)
qed

lemma last_limb_add: "u128_to_u64 t + x + y = u128_to_u64 (u128_accum_u64 (u128_accum_u64 t x) y)"
proof (rule unat_inject [THEN iffD1])
  have m: "(n mod 2 ^ 128) mod 2 ^ 64 = n mod (2 ^ 64 :: nat)" for n by (rule mod_mod_cancel) simp
  have "unat (ucast z :: u128) = unat z" for z :: u64 using unat_from_u64 [of z] by (simp add: u128_from_u64_def)
  then show "unat (u128_to_u64 t + x + y) = unat (u128_to_u64 (u128_accum_u64 (u128_accum_u64 t x) y))"
    unfolding unat_to_u64 u128_accum_u64_def unat_word_ariths(1) by (simp add: mod_simps m [simplified])
qed

lemma half_chain:
  "scalar_half a = (let m = - (d0 a AND 1) in
     fst (chain4 (drop_bit 1 (d0 a) OR push_bit 63 (d1 a), (N_H_0 + 1) AND m) (drop_bit 1 (d1 a) OR push_bit 63 (d2 a), N_H_1 AND m)
       (drop_bit 1 (d2 a) OR push_bit 63 (d3 a), N_H_2 AND m) (drop_bit 1 (d3 a), N_H_3 AND m)))"
  by (simp add: scalar_half_def chain4_def Let_def last_limb_add)

lemma shifted_limbs:
  "sval \<lparr> d0 = drop_bit 1 (d0 a) OR push_bit 63 (d1 a), d1 = drop_bit 1 (d1 a) OR push_bit 63 (d2 a), d2 = drop_bit 1 (d2 a) OR push_bit 63 (d3 a), d3 = drop_bit 1 (d3 a) \<rparr> = sval a div 2"
proof -
  have h: "(x + 2 ^ 64 * y) div 2 = x div 2 + 2 ^ 63 * (y mod 2) + 2 ^ 64 * (y div 2)" for x y :: nat
  proof -
    have "(x + 2 ^ 64 * y) div 2 = (x + (2 ^ 63 * y) * 2) div 2" by simp
    also have "\<dots> = x div 2 + 2 ^ 63 * (y mod 2 + 2 * (y div 2))" by (simp only: div_mult_self1 mod_mult_div_eq)
    also have "\<dots> = x div 2 + 2 ^ 63 * (y mod 2) + 2 ^ 64 * (y div 2)" by (simp only: distrib_left) simp
    finally show ?thesis .
  qed
  have "unat (drop_bit 1 (d3 a)) = unat (d3 a) div 2" unfolding unat_drop_bit_eq by (simp add: drop_bit_eq_div)
  moreover have "(x + 2 ^ 64 * y) mod 2 = x mod 2" for x y :: nat by (simp add: mod_2_eq_odd)
  ultimately show ?thesis by (simp only: sval_def secp256k1_scalar.simps shifted_limb h)
qed

lemma order_odd: "odd order"
  by (simp add: order_def)

lemma limb_parity: "d0 a AND 1 = of_bool (odd (sval a))"
proof -
  have "bit (unat (d0 a)) 0 = bit (d0 a) 0" by (rule bit_unat)
  then have "even (unat (d0 a)) = even (d0 a)" by (simp only: bit_0) blast
  then show ?thesis by (simp add: sval_def and_one_eq mod_2_eq_odd)
qed

lemma half_spec_scalar:
  assumes "sval a < order"
  shows "sval (scalar_half a) = sval a div 2 + (if odd (sval a) then order div 2 + 1 else 0)" "(2 * sval (scalar_half a)) mod order = sval a" "sval (scalar_half a) < order"
proof -
  define h where "h = sval a div 2 + (if odd (sval a) then order div 2 + 1 else 0)"
  have "order div 2 + 1 + sval a div 2 < order" if o: "odd (sval a)"
  proof -
    obtain s where "sval a = 2 * s + 1" using o by (rule oddE)
    moreover obtain q where "order = 2 * q + 1" using order_odd by (rule oddE)
    moreover have "order div 2 = q" "sval a div 2 = s" using calculation by linarith+
    ultimately show ?thesis using assms by linarith
  qed
  then have "h < order" using assms by (auto simp: h_def add.commute)
  show v: "sval (scalar_half a) = sval a div 2 + (if odd (sval a) then order div 2 + 1 else 0)"
  proof (cases "odd (sval a)")
    case True
    have "sval \<lparr> d0 = N_H_0 + 1, d1 = N_H_1, d2 = N_H_2, d3 = N_H_3 \<rparr> = order div 2 + 1" by (simp add: sval_def constants order_def)
    then have "sval (scalar_half a) = (sval a div 2 + (order div 2 + 1)) mod 2 ^ 256"
      unfolding half_chain Let_def limb_parity using True by (simp only: sval_mod_chain shifted_limbs) simp
    then show ?thesis using True \<open>h < order\<close> order_bounds(2) by (simp add: h_def)
  next
    case False
    have "sval (scalar_half a) = (sval a div 2 + sval \<lparr> d0 = 0, d1 = 0, d2 = 0, d3 = 0 \<rparr>) mod 2 ^ 256"
      unfolding half_chain Let_def limb_parity using False by (simp only: sval_mod_chain shifted_limbs) simp
    then show ?thesis using False sval_less [of a] by (simp add: sval_def [of "\<lparr> d0 = 0, d1 = 0, d2 = 0, d3 = 0 \<rparr>"])
  qed
  show "sval (scalar_half a) < order" using v \<open>h < order\<close> by (simp add: h_def)
  have "2 * sval (scalar_half a) = sval a + of_bool (odd (sval a)) * order" unfolding v using order_odd by (auto elim!: oddE evenE)
  then show "(2 * sval (scalar_half a)) mod order = sval a" using assms by simp
qed

lemma split_128_spec: "scalar_split_128 k = (x, y) \<Longrightarrow> sval k = sval x + 2 ^ 128 * sval y \<and> sval x < 2 ^ 128 \<and> sval y < 2 ^ 128"
  using unat_u64_less [of "d0 k"] unat_u64_less [of "d1 k"] unat_u64_less [of "d2 k"] unat_u64_less [of "d3 k"] by (auto simp: scalar_split_128_def sval_def)

section \<open>The rounded shift of a product\<close>

lemma shifted_windows:
  assumes "length l = 8" "256 \<le> shift"
  shows "lval (map (\<lambda>j. limb_window l (j + shift div 64) (shift mod 64)) [0..<4]) = lval l div 2 ^ shift"
proof -
  let ?w = "\<lambda>j. limb_window l (j + shift div 64) (shift mod 64)"
  have "bit (lval (map ?w [0..<4])) n \<longleftrightarrow> bit (drop_bit shift (lval l)) n" for n
  proof (cases "n div 64 < 4")
    case True
    have "64 * (n div 64 + shift div 64) + shift mod 64 + n mod 64 = n + shift"
      using mult_div_mod_eq [of 64 n] mult_div_mod_eq [of 64 shift] by (simp add: algebra_simps)
    then show ?thesis using bit_window [of "shift mod 64" "n mod 64" l "n div 64 + shift div 64"] True by (simp add: bit_lval [of "map ?w [0..<4]"] bit_drop_bit_eq add.commute)
  next
    case False
    then have "512 \<le> shift + n" using assms(2) by simp
    then have "512 div 64 \<le> (shift + n) div 64" by (rule div_le_mono)
    then show ?thesis using False assms(1) by (simp add: bit_lval bit_drop_bit_eq)
  qed
  then show ?thesis unfolding drop_bit_eq_div [symmetric] by (intro bit_eqI) simp
qed

lemma mul_shift_spec:
  assumes "256 \<le> shift" "shift \<le> 512"
  shows "sval (scalar_mul_shift_var a b shift) = (sval a * sval b) div 2 ^ shift + (sval a * sval b) div 2 ^ (shift - 1) mod 2"
proof -
  define l where "l = scalar_mul_512 a b"
  have l: "length l = 8" "lval l = sval a * sval b" using mul_512_spec by (simp_all add: l_def)
  let ?w = "\<lambda>j. limb_window l (j + shift div 64) (shift mod 64)"
  let ?r = "\<lparr> d0 = ?w 0, d1 = ?w 1, d2 = ?w 2, d3 = ?w 3 \<rparr>"
  have i: "4 \<le> shift div 64" "shift < 512 \<longleftrightarrow> shift div 64 < 8" "shift < 448 \<longleftrightarrow> shift div 64 < 7" "shift < 384 \<longleftrightarrow> shift div 64 < 6" "shift < 320 \<longleftrightarrow> shift div 64 < 5"
    using assms by (auto simp: less_eq_div_iff_mult_less_eq div_less_iff_less_mult)
  have code: "scalar_mul_shift_var a b shift = scalar_cadd_bit ?r 0 (drop_bit ((shift - 1) mod 64) (l ! ((shift - 1) div 64)) AND 1 \<noteq> 0)"
    using i(1) unfolding scalar_mul_shift_var_def Let_def offset_parts l_def [symmetric] i(2-) by (auto simp: limb_window_def l(1) numeral_3_eq_3)
  have "bit (lval l) (shift - 1) \<longleftrightarrow> bit (l ! ((shift - 1) div 64)) ((shift - 1) mod 64)" using assms l(1) by (auto simp: bit_lval div_less_iff_less_mult)
  then have c: "drop_bit ((shift - 1) mod 64) (l ! ((shift - 1) div 64)) AND 1 \<noteq> 0 \<longleftrightarrow> odd (lval l div 2 ^ (shift - 1))"
    by (simp add: bit_iff_odd_drop_bit and_one_eq mod_2_eq_odd drop_bit_eq_div)
  have "[0..<4] = [0, 1, 2, 3 :: nat]" by code_simp
  then have "map ?w [0..<4] = limbs ?r" by (simp only: limbs_def list.map secp256k1_scalar.simps)
  then have v: "sval ?r = lval l div 2 ^ shift" using shifted_windows [OF l(1) assms(1)] by (simp only: lval_limbs)
  have "sval a * sval b \<le> (2 ^ 256 - 1) * (2 ^ 256 - 1)" using sval_less [of a] sval_less [of b] by (intro mult_le_mono) linarith+
  then have "lval l < (2 ^ 256 - 1) * 2 ^ 256" unfolding l(2) by (rule le_less_trans) simp
  also have "((2 :: nat) ^ 256 - 1) * 2 ^ 256 \<le> (2 ^ 256 - 1) * 2 ^ shift" using assms(1) by (intro mult_le_mono power_increasing) simp_all
  finally have "lval l div 2 ^ shift < 2 ^ 256 - 1" by (rule less_mult_imp_div_less)
  then show ?thesis unfolding code c using cadd_spec [of 0 ?r] v by (simp add: l(2) mod_2_eq_odd)
qed

end
