(* ===== verification/Wnaf.thy ===== *)
theory Wnaf
  imports Scalar_Bits
begin

unbundle bit_operations_syntax

text \<open>
  Recoding of a scalar into signed digits with a window of \<open>w\<close> bits: \<open>secp256k1_ecmult_wnaf\<close> of \<open>src/external/secp256k1/src/ecmult_impl.h\<close>. The loop is a
  partial function; that it ends for every window of at least two bits is part of the correctness lemma. C's \<open>int\<close> is a mathematical integer
  after the conversion from \<open>uint32_t\<close>; the bound on the digits keeps every value below \<open>2\<^sup>3\<^sup>1\<close> for windows of at most 30 bits.
\<close>

section \<open>The loop\<close>

partial_function (option) wnafLoop :: "secp256k1_scalar \<Rightarrow> int \<Rightarrow> nat \<Rightarrow> nat \<Rightarrow> nat \<Rightarrow> int \<Rightarrow> int list \<Rightarrow> int \<Rightarrow> (int list \<times> int) option" where
  "wnafLoop s sg w len bt carry wnaf last_set_bit =
     (if bt < len then
        if scalar_get_bits_limb32 s bt 1 = word_of_int carry then wnafLoop s sg w len (bt + 1) carry wnaf last_set_bit
        else
          (let now = (if w > len - bt then len - bt else w);
               wrd = sint (scalar_get_bits_var s bt now + word_of_int carry);
               carry' = drop_bit (w - 1) wrd AND 1;
               wrd' = wrd - push_bit w carry'
           in wnafLoop s sg w len (bt + now) carry' (wnaf[bt := sg * wrd']) (int bt))
      else Some (wnaf, last_set_bit))"

definition ecmult_wnaf :: "nat \<Rightarrow> secp256k1_scalar \<Rightarrow> nat \<Rightarrow> (int list \<times> int) option" where
  "ecmult_wnaf len a w =
     (let (s, sg) = (if scalar_get_bits_limb32 a 255 1 \<noteq> 0 then (scalar_negate a, -1) else (a, 1))
      in map_option (map_prod id (\<lambda>last_set_bit. last_set_bit + 1)) (wnafLoop s sg w len 0 0 (replicate len 0) (- 1)))"

section \<open>One digit\<close>

text \<open>The number a list of digits stands for.\<close>

definition signed_value :: "int list \<Rightarrow> int" where
  "signed_value xs = (\<Sum>i<length xs. xs ! i * 2 ^ i)"

lemma signed_value_update: "i < length xs \<Longrightarrow> xs ! i = 0 \<Longrightarrow> signed_value (xs[i := v]) = signed_value xs + v * 2 ^ i"
  by (simp add: signed_value_def nth_list_update sum.remove [of "{..<length xs}" i] if_distrib cong: if_cong)

lemma signed_value_zero: "signed_value (replicate n 0) = 0"
  by (simp add: signed_value_def)

lemma mod_split: "n mod 2 ^ (i + j) = n mod 2 ^ i + 2 ^ i * (n div 2 ^ i mod 2 ^ j)" for n :: nat
  by (simp add: power_add mod_mult2_eq)

text \<open>An odd number below \<open>2 ^ w\<close> as a signed digit and a carry.\<close>

lemma signed_digit:
  fixes x c :: int
  assumes "odd x" "0 < x" "x < 2 ^ w" "2 \<le> w" "c = drop_bit (w - 1) x AND 1"
  shows "c = of_bool (2 ^ (w - 1) < x)" "odd (x - push_bit w c)" "\<bar>x - push_bit w c\<bar> < 2 ^ (w - 1)"
proof -
  have p: "(2 :: int) ^ w = 2 * 2 ^ (w - 1)" using assms(4) by (simp add: power_eq_if)
  have "even ((2 :: int) ^ (w - 1))" using assms(4) by simp
  then have ne: "x \<noteq> 2 ^ (w - 1)" using assms(1) by metis
  have d: "drop_bit (w - 1) x = of_bool (2 ^ (w - 1) < x)"
  proof (cases "2 ^ (w - 1) < x")
    case True
    then have "x div 2 ^ (w - 1) = (x - 2 ^ (w - 1)) div 2 ^ (w - 1) + 1" by (simp add: div_add_self2 [symmetric])
    moreover have "(x - 2 ^ (w - 1)) div 2 ^ (w - 1) = 0" using True assms(3) p by (intro div_pos_pos_trivial) linarith+
    ultimately show ?thesis using True by (simp add: drop_bit_eq_div)
  next
    case False
    then show ?thesis using assms(2) ne by (simp add: drop_bit_eq_div)
  qed
  then show c: "c = of_bool (2 ^ (w - 1) < x)" unfolding assms(5) by (simp add: and_one_eq)
  have v: "push_bit w c = of_bool (2 ^ (w - 1) < x) * 2 ^ w" unfolding c by (simp add: push_bit_eq_mult)
  have "even (push_bit w c)" using assms(4) by (simp add: v)
  then show "odd (x - push_bit w c)" using assms(1) by simp
  show "\<bar>x - push_bit w c\<bar> < 2 ^ (w - 1)" unfolding v using assms(2,3) p ne by (cases "2 ^ (w - 1) < x") auto
qed

lemma window_digit:
  fixes n k now :: nat and c :: int
  assumes "c = 0 \<or> c = 1" "int (n div 2 ^ k mod 2) \<noteq> c" "0 < now"
  defines "x \<equiv> int (n div 2 ^ k mod 2 ^ now) + c"
  shows "odd x" "0 < x" "x < 2 ^ now"
proof -
  have "even (n div 2 ^ k mod 2 ^ now) \<longleftrightarrow> even (n div 2 ^ k)" using assms(3) by (intro dvd_mod_iff) simp
  then show o: "odd x" using assms(1,2) unfolding x_def by (auto simp: mod_2_eq_odd split: if_splits)
  have "0 \<le> x" unfolding x_def using assms(1) by auto
  then show "0 < x" using o by (cases "x = 0") auto
  have "int (n div 2 ^ k mod 2 ^ now) < int (2 ^ now)" by (simp only: of_nat_less_iff) simp
  moreover have "c \<le> 1" using assms(1) by auto
  ultimately have "x \<le> 2 ^ now" unfolding x_def of_nat_power of_nat_numeral by linarith
  moreover have "x \<noteq> 2 ^ now" using o assms(3) by (metis even_power even_numeral)
  ultimately show "x < 2 ^ now" by linarith
qed

section \<open>The invariant of the loop\<close>

text \<open>Digits are zero or odd and small, and at least \<open>w\<close> places apart.\<close>

definition naf_digits :: "nat \<Rightarrow> int list \<Rightarrow> bool" where
  "naf_digits w xs \<longleftrightarrow> (\<forall>i<length xs. xs ! i = 0 \<or> odd (xs ! i) \<and> \<bar>xs ! i\<bar> < 2 ^ (w - 1)) \<and>
     (\<forall>j<length xs. \<forall>i<j. xs ! i \<noteq> 0 \<and> xs ! j \<noteq> 0 \<longrightarrow> i + w \<le> j)"

definition last_digit :: "int list \<Rightarrow> int \<Rightarrow> bool" where
  "last_digit xs m \<longleftrightarrow> - 1 \<le> m \<and> m < int (length xs) \<and> (0 \<le> m \<longrightarrow> xs ! nat m \<noteq> 0) \<and> (\<forall>i<length xs. m < int i \<longrightarrow> xs ! i = 0)"

definition wnaf_inv :: "nat \<Rightarrow> nat \<Rightarrow> int \<Rightarrow> nat \<Rightarrow> nat \<Rightarrow> nat \<Rightarrow> int \<Rightarrow> int list \<Rightarrow> int \<Rightarrow> bool" where
  "wnaf_inv k n sg w len bt carry xs m \<longleftrightarrow> bt \<le> len \<and> length xs = len \<and> (carry = 0 \<or> carry = 1) \<and> (k < bt \<longrightarrow> carry = 0) \<and>
     sg * signed_value xs + carry * 2 ^ bt = int (n mod 2 ^ bt) \<and> naf_digits w xs \<and> last_digit xs m \<and> m \<le> int k \<and>
     (\<forall>i<len. xs ! i \<noteq> 0 \<longrightarrow> i < bt \<and> (i + w \<le> bt \<or> bt = len))"

lemma inv_start: "sg = 1 \<or> sg = - 1 \<Longrightarrow> wnaf_inv k n sg w len 0 0 (replicate len 0) (- 1)"
  by (simp add: wnaf_inv_def signed_value_zero naf_digits_def last_digit_def)

lemma inv_skip:
  assumes "wnaf_inv k n sg w len bt carry xs m" "bt < len" "int (n div 2 ^ bt mod 2) = carry" "n < 2 ^ k"
  shows "wnaf_inv k n sg w len (bt + 1) carry xs m"
proof -
  have "int (n mod 2 ^ (bt + 1)) = int (n mod 2 ^ bt) + carry * 2 ^ bt" using mod_split [of n bt 1] assms(3) by simp
  moreover have "carry = 0" if "k < bt + 1"
  proof -
    have "(2 :: nat) ^ k \<le> 2 ^ bt" using that by (intro power_increasing) simp_all
    then have "n < 2 ^ bt" using assms(4) by linarith
    then show ?thesis using assms(3) by simp
  qed
  moreover have "i < bt + 1 \<and> (i + w \<le> bt + 1 \<or> bt + 1 = len)" if "i < len" "xs ! i \<noteq> 0" for i using assms(1,2) that unfolding wnaf_inv_def by force
  ultimately show ?thesis using assms(1,2) by (simp add: wnaf_inv_def)
qed

lemma naf_digits_update:
  assumes "naf_digits w xs" "b < length xs" "odd v" "\<bar>v\<bar> < 2 ^ (w - 1)" "\<And>i. i < length xs \<Longrightarrow> xs ! i \<noteq> 0 \<Longrightarrow> i + w \<le> b"
  shows "naf_digits w (xs[b := v])"
  using assms unfolding naf_digits_def by (auto simp: nth_list_update) (metis add_leE nat_less_le order.strict_trans1)

lemma last_digit_update: "b < length xs \<Longrightarrow> v \<noteq> 0 \<Longrightarrow> (\<And>i. i < length xs \<Longrightarrow> b \<le> i \<Longrightarrow> xs ! i = 0) \<Longrightarrow> last_digit (xs[b := v]) (int b)"
  by (auto simp: last_digit_def nth_list_update)

text \<open>No carry leaves the last, shortened window, nor a window that reaches past the top bit.\<close>

lemma top_carry:
  fixes n k b now :: nat
  assumes "n < 2 ^ k" "k < b + now" "now \<le> w" "b \<le> k" "c = 0 \<or> c = (1 :: int)"
  shows "int (n div 2 ^ b mod 2 ^ now) + c \<le> 2 ^ (w - 1)"
proof -
  have "n < 2 ^ (k - b) * 2 ^ b" using assms(1,4) by (simp add: power_add [symmetric])
  then have "n div 2 ^ b < 2 ^ (k - b)" by (rule less_mult_imp_div_less)
  also have "\<dots> \<le> 2 ^ (w - 1)" using assms(2-4) by (intro power_increasing) simp_all
  finally have "n div 2 ^ b mod 2 ^ now < 2 ^ (w - 1)" using mod_less_eq_dividend by (rule le_less_trans [rotated])
  then have "int (n div 2 ^ b mod 2 ^ now) < int (2 ^ (w - 1))" by (simp only: of_nat_less_iff)
  moreover have "c \<le> 1" using assms(5) by auto
  ultimately show ?thesis unfolding of_nat_power of_nat_numeral by linarith
qed

lemma inv_digit:
  assumes inv: "wnaf_inv k n sg w len bt carry xs m" and bt: "bt < len" and ne: "int (n div 2 ^ bt mod 2) \<noteq> carry" and w: "2 \<le> w" and n: "n < 2 ^ k" and sg: "sg = 1 \<or> sg = - 1"
    and now: "now = (if w > len - bt then len - bt else w)" and x: "x = int (n div 2 ^ bt mod 2 ^ now) + carry" and c: "c = drop_bit (w - 1) x AND 1"
  shows "wnaf_inv k n sg w len (bt + now) c (xs[bt := sg * (x - push_bit w c)]) (int bt)"
proof -
  let ?v = "sg * (x - push_bit w c)" and ?xs = "xs[bt := sg * (x - push_bit w c)]"
  have I: "length xs = len" "carry = 0 \<or> carry = 1" "k < bt \<Longrightarrow> carry = 0" "sg * signed_value xs + carry * 2 ^ bt = int (n mod 2 ^ bt)" "naf_digits w xs" "last_digit xs m"
    and Z: "\<And>i. i < len \<Longrightarrow> xs ! i \<noteq> 0 \<Longrightarrow> i + w \<le> bt" "\<And>i. i < len \<Longrightarrow> bt \<le> i \<Longrightarrow> xs ! i = 0"
    using inv bt unfolding wnaf_inv_def by force+
  have now0: "0 < now" "now \<le> w" "bt + now \<le> len" "now = w \<or> bt + now = len" using bt w by (auto simp: now)
  note W = window_digit [OF I(2) ne now0(1), folded x]
  have xw: "x < 2 ^ w" using W(3) power_increasing [of now w "2 :: int"] now0(2) by linarith
  note D = signed_digit [OF W(1,2) xw w c]
  have v: "odd ?v" "\<bar>?v\<bar> < 2 ^ (w - 1)" using D(2,3) sg by auto
  then have v0: "?v \<noteq> 0" by auto
  have "bt \<le> k"
  proof (rule ccontr)
    assume "\<not> bt \<le> k"
    then have "n < 2 ^ bt" using n power_increasing [of k bt "2 :: nat"] by linarith
    then show False using ne I(3) \<open>\<not> bt \<le> k\<close> by simp
  qed
  have c0: "c = 0" if "k < bt + now" using top_carry [OF n that now0(2) \<open>bt \<le> k\<close> I(2)] D(1) by (simp add: x)
  have cw: "c * 2 ^ w = c * 2 ^ now"
  proof (cases "now = w")
    case False
    then have "(2 :: int) ^ now \<le> 2 ^ (w - 1)" using now0(2) by (intro power_increasing) simp_all
    then have "\<not> 2 ^ (w - 1) < x" using W(3) by linarith
    then show ?thesis unfolding D(1) by simp
  qed simp
  have "sg * signed_value ?xs = sg * signed_value xs + (x - c * 2 ^ w) * 2 ^ bt"
    using signed_value_update [of bt xs ?v] bt I(1) Z(2) [of bt] sg by (auto simp: push_bit_eq_mult algebra_simps)
  then have "sg * signed_value ?xs + c * 2 ^ (bt + now) = sg * signed_value xs + x * 2 ^ bt" unfolding cw by (simp add: algebra_simps power_add)
  also have "\<dots> = int (n mod 2 ^ (bt + now))" unfolding mod_split x using I(4) by (simp add: algebra_simps)
  finally have "sg * signed_value ?xs + c * 2 ^ (bt + now) = int (n mod 2 ^ (bt + now))" .
  moreover have "i < bt + now \<and> (i + w \<le> bt + now \<or> bt + now = len)" if "i < len" "?xs ! i \<noteq> 0" for i
    using that Z(1) [of i] now0 w I(1) by (cases "i = bt") auto
  moreover have "naf_digits w ?xs" using bt I(1) v Z(1) by (intro naf_digits_update I(5)) simp_all
  moreover have "last_digit ?xs (int bt)" using bt I(1) v0 Z(2) by (intro last_digit_update) simp_all
  ultimately show ?thesis unfolding wnaf_inv_def using now0(3) c0 D(1) I(1) \<open>bt \<le> k\<close> by simp
qed

section \<open>The loop ends with the digits of the scalar\<close>

lemma bit_test:
  assumes "b < 256" "c = 0 \<or> c = 1"
  shows "scalar_get_bits_limb32 s b 1 = word_of_int c \<longleftrightarrow> int (sval s div 2 ^ b mod 2) = c"
proof -
  have "unat (scalar_get_bits_limb32 s b 1) = sval s div 2 ^ b mod 2" using get_bits_spec(2) [of 1 b s] assms(1) by simp
  then show ?thesis using assms(2) unfolding unat_inject [symmetric] by (elim disjE) simp_all
qed

lemma sint_small: "unat y < 2 ^ 31 \<Longrightarrow> sint y = int (unat y)" for y :: u32
proof -
  assume "unat y < 2 ^ 31"
  then have "int (unat y) < int (2 ^ 31)" by (simp only: of_nat_less_iff)
  then have "uint y < 2 ^ 31" by simp
  then have "signed_take_bit 31 (uint y) = uint y" by (intro signed_take_bit_int_eq_self) (simp_all add: order_trans [OF _ uint_ge_0])
  then show ?thesis by (simp add: sint_uint)
qed

lemma window_word:
  assumes "0 < now" "now \<le> 30" "b + now \<le> 256" "c = 0 \<or> c = 1"
  shows "sint (scalar_get_bits_var s b now + word_of_int c) = int (sval s div 2 ^ b mod 2 ^ now) + c"
proof -
  have v: "unat (scalar_get_bits_var s b now) = sval s div 2 ^ b mod 2 ^ now" using get_bits_spec(1) [of now b s] assms by simp
  have "sval s div 2 ^ b mod 2 ^ now < 2 ^ now" by simp
  also have "\<dots> \<le> 2 ^ 30" using assms(2) by (intro power_increasing) simp_all
  finally have s: "unat (scalar_get_bits_var s b now) < 2 ^ 30" unfolding v .
  have "unat (word_of_int c :: u32) = nat c" using assms(4) by auto
  then have "unat (scalar_get_bits_var s b now + word_of_int c) = unat (scalar_get_bits_var s b now) + nat c" using s assms(4) by (subst add_no_wrap) auto
  moreover from this have "unat (scalar_get_bits_var s b now + word_of_int c) < 2 ^ 31" using s assms(4) by auto
  ultimately have "sint (scalar_get_bits_var s b now + word_of_int c) = int (sval s div 2 ^ b mod 2 ^ now + nat c)" unfolding v by (simp only: sint_small)
  then show ?thesis using assms(4) by auto
qed

lemma loop_ends:
  assumes "wnaf_inv k (sval s) sg w len bt carry xs m" "2 \<le> w" "w \<le> 30" "len \<le> 256" "k < len" "sval s < 2 ^ k" "sg = 1 \<or> sg = - 1"
  shows "\<exists>ys r. wnafLoop s sg w len bt carry xs m = Some (ys, r) \<and> wnaf_inv k (sval s) sg w len len 0 ys r"
  using assms(1)
proof (induction "len - bt" arbitrary: bt carry xs m rule: less_induct)
  case less
  have c: "carry = 0 \<or> carry = 1" "bt \<le> len" using less.prems by (simp_all add: wnaf_inv_def)
  show ?case
  proof (cases "bt < len")
    case False
    then have "bt = len" using c(2) by simp
    moreover from this have "carry = 0" using less.prems assms(5) by (simp add: wnaf_inv_def)
    ultimately show ?thesis using less.prems by (simp add: wnafLoop.simps)
  next
    case True
    note test = bit_test [OF _ c(1), of bt s]
    show ?thesis
    proof (cases "int (sval s div 2 ^ bt mod 2) = carry")
      case skip: True
      have "wnafLoop s sg w len bt carry xs m = wnafLoop s sg w len (bt + 1) carry xs m" using True assms(4) test skip by (subst wnafLoop.simps) simp
      then show ?thesis using less.hyps [of "bt + 1"] inv_skip [OF less.prems True skip assms(6)] True by simp
    next
      case False
      define now where "now = (if w > len - bt then len - bt else w)"
      define x where "x = int (sval s div 2 ^ bt mod 2 ^ now) + carry"
      define c' where "c' = drop_bit (w - 1) x AND 1"
      have n: "0 < now" "now \<le> 30" "bt + now \<le> 256" using True assms(2-4) by (auto simp: now_def)
      have "wnafLoop s sg w len bt carry xs m = wnafLoop s sg w len (bt + now) c' (xs[bt := sg * (x - push_bit w c')]) (int bt)"
        using True assms(4) test False window_word [OF n c(1), of s] by (subst wnafLoop.simps) (simp add: Let_def now_def [symmetric] x_def c'_def)
      then show ?thesis using less.hyps [OF _ inv_digit [OF less.prems True False assms(2,6,7) now_def x_def c'_def]] n(1) True by simp
    qed
  qed
qed

text \<open>
  For a window of 2 to 30 bits and room for one bit more than the absolute value of the scalar the loop ends, the digits stand for the scalar or, when its
  top bit is set, for the scalar minus the order, and the result is one more than the place of the last digit.
\<close>

lemma wnaf_facts:
  assumes "sval a < order" "2 \<le> w" "w \<le> 30" "len \<le> 256" "k < len" "(if sval a < 2 ^ 255 then sval a else order - sval a) < 2 ^ k"
  shows "\<exists>xs r. ecmult_wnaf len a w = Some (xs, r) \<and> length xs = len \<and> signed_value xs = (if sval a < 2 ^ 255 then int (sval a) else int (sval a) - int order) \<and>
    naf_digits w xs \<and> last_digit xs (r - 1) \<and> r \<le> int k + 1"
proof -
  define b where "b = (sval a < 2 ^ 255)"
  define s where "s = (if b then a else scalar_negate a)"
  define sg :: int where "sg = (if b then 1 else - 1)"
  have t: "scalar_get_bits_limb32 a 255 1 \<noteq> 0 \<longleftrightarrow> \<not> b"
  proof -
    have "sval a div 2 ^ 255 < 2" using sval_less [of a] by (simp add: div_less_iff_less_mult)
    moreover have "unat (scalar_get_bits_limb32 a 255 1) = sval a div 2 ^ 255 mod 2" using get_bits_spec(2) [of 1 255 a] by simp
    ultimately have "unat (scalar_get_bits_limb32 a 255 1) = sval a div 2 ^ 255" by (simp only: mod_less)
    then show ?thesis unfolding b_def by (simp add: unat_eq_0 [symmetric] div_eq_0_iff)
  qed
  have s: "sval s = (if b then sval a else order - sval a)" using negate_spec [OF assms(1)] by (auto simp: s_def b_def)
  have sg: "sg = 1 \<or> sg = - 1" by (simp add: sg_def)
  obtain ys r where r: "wnafLoop s sg w len 0 0 (replicate len 0) (- 1) = Some (ys, r)" "wnaf_inv k (sval s) sg w len len 0 ys r"
    using loop_ends [OF inv_start [OF sg] assms(2-5) _ sg, of s] assms(6) s by (auto simp: b_def)
  have "ecmult_wnaf len a w = Some (ys, r + 1)" using r(1) t by (auto simp: ecmult_wnaf_def s_def sg_def)
  moreover have "(2 :: nat) ^ k \<le> 2 ^ len" using assms(5) by (intro power_increasing) simp_all
  then have "sval s < 2 ^ len" using assms(6) unfolding s b_def by (rule less_le_trans [rotated])
  then have "sg * signed_value ys = int (sval s)" using r(2) by (simp add: wnaf_inv_def)
  ultimately show ?thesis using r(2) s assms(1) by (auto simp: wnaf_inv_def sg_def b_def split: if_splits)
qed

end
