(* ===== verification/Split_Lambda.thy ===== *)
theory Split_Lambda
  imports Wnaf
begin

text \<open>
  The decomposition of a scalar for the curve's endomorphism, \<open>secp256k1_scalar_split_lambda\<close> of \<open>src/external/secp256k1/src/scalar_impl.h\<close>, with the bounds that a comment there
  derives, and the digits multiplication makes of the two halves.
\<close>

section \<open>The decomposition\<close>

definition const_lambda :: secp256k1_scalar where
  "const_lambda = \<lparr> d0 = 0xDF02967C1B23BD72, d1 = 0x122E22EA20816678, d2 = 0xA5261C028812645A, d3 = 0x5363AD4CC05C30E0 \<rparr>"

definition minus_b1 :: secp256k1_scalar where
  "minus_b1 = \<lparr> d0 = 0x6F547FA90ABFE4C3, d1 = 0xE4437ED6010E8828, d2 = 0, d3 = 0 \<rparr>"

definition minus_b2 :: secp256k1_scalar where
  "minus_b2 = \<lparr> d0 = 0xD765CDA83DB1562C, d1 = 0x8A280AC50774346D, d2 = 0xFFFFFFFFFFFFFFFE, d3 = 0xFFFFFFFFFFFFFFFF \<rparr>"

definition split_g1 :: secp256k1_scalar where
  "split_g1 = \<lparr> d0 = 0xE893209A45DBB031, d1 = 0x3DAA8A1471E8CA7F, d2 = 0xE86C90E49284EB15, d3 = 0x3086D221A7D46BCD \<rparr>"

definition split_g2 :: secp256k1_scalar where
  "split_g2 = \<lparr> d0 = 0x1571B4AE8AC47F71, d1 = 0x221208AC9DF506C6, d2 = 0x6F547FA90ABFE4C4, d3 = 0xE4437ED6010E8828 \<rparr>"

definition scalar_split_lambda :: "secp256k1_scalar \<Rightarrow> secp256k1_scalar \<times> secp256k1_scalar" where
  "scalar_split_lambda k =
     (let c1 = scalar_mul_shift_var k split_g1 384;
          c2 = scalar_mul_shift_var k split_g2 384;
          c1 = scalar_mul c1 minus_b1;
          c2 = scalar_mul c2 minus_b2;
          r2 = fst (scalar_add c1 c2);
          r1 = scalar_mul r2 const_lambda;
          r1 = scalar_negate r1;
          r1 = fst (scalar_add r1 k)
      in (r1, r2))"

section \<open>The lattice basis\<close>

definition lat_a1 :: int where "lat_a1 = 0x3086D221A7D46BCDE86C90E49284EB15"

definition lat_b1 :: int where "lat_b1 = - 0xE4437ED6010E88286F547FA90ABFE4C3"

definition lat_a2 :: int where "lat_a2 = 0x0114CA50F7A8E2F3F657C1108D9D44CFD8"

definition lat_b2 :: int where "lat_b2 = 0x3086D221A7D46BCDE86C90E49284EB15"

lemmas lattice = lat_a1_def lat_b1_def lat_a2_def lat_b2_def

lemma lattice_det: "lat_a1 * lat_b2 - lat_b1 * lat_a2 = int order"
  by (simp add: lattice order_def)

lemma lattice_lambda:
  "lat_a1 + lat_b1 * int (sval const_lambda) = - int order * 0x4A5AC2BF7B5F37F9F1DB10D7A2A9C981"
  "lat_a2 + lat_b2 * int (sval const_lambda) = int order * 0xFCE9B1DD4EB7DD2718A2906787061B2"
  by (simp_all add: lattice order_def const_lambda_def sval_def)

text \<open>Rounding to the nearest integer.\<close>

lemma rounded_shift:
  fixes P :: nat
  assumes "c = P div 2 ^ 384 + P div 2 ^ 383 mod 2"
  shows "int P - int c * 2 ^ 384 \<le> 2 ^ 383" "- (2 ^ 383) \<le> int P - int c * 2 ^ 384"
proof -
  define h p m where "h = P div 2 ^ 384" and "p = P div 2 ^ 383 mod 2" and "m = P mod 2 ^ 383"
  have "P div 2 ^ 383 div 2 = h" unfolding h_def by (simp only: div_mult2_eq [symmetric]) simp
  then have "P div 2 ^ 383 = 2 * h + p" unfolding p_def by (metis mult_div_mod_eq)
  then have P: "P = 2 ^ 383 * (2 * h + p) + m" unfolding m_def by (metis mult_div_mod_eq)
  have c: "c = h + p" by (simp only: assms h_def p_def)
  have "int P - int c * 2 ^ 384 = int m - 2 ^ 383 * int p" unfolding P c by (simp add: algebra_simps)
  moreover have "p = 0 \<or> p = 1" unfolding p_def by linarith
  moreover have "int m < int (2 ^ 383)" unfolding m_def by (simp only: of_nat_less_iff) simp
  ultimately show "int P - int c * 2 ^ 384 \<le> 2 ^ 383" "- (2 ^ 383) \<le> int P - int c * 2 ^ 384" by auto
qed

lemma short_vectors:
  fixes K c1 c2 :: int
  assumes "0 \<le> K" "K < int order" "\<bar>K * int (sval split_g1) - c1 * 2 ^ 384\<bar> \<le> 2 ^ 383" "\<bar>K * int (sval split_g2) - c2 * 2 ^ 384\<bar> \<le> 2 ^ 383"
  shows "\<bar>K - c1 * lat_a1 - c2 * lat_a2\<bar> < 2 ^ 128" "\<bar>- c1 * lat_b1 - c2 * lat_b2\<bar> < 2 ^ 128"
  using assms unfolding lattice by (simp_all add: order_def sval_def split_g1_def split_g2_def abs_less_iff abs_le_iff)

section \<open>The halves\<close>

lemma int_mod_cases:
  fixes v :: int
  assumes "\<bar>v\<bar> < 2 ^ 128" "int r = v mod int order"
  shows "(if r < 2 ^ 255 then int r else int r - int order) = v" "(if r < 2 ^ 255 then r else order - r) < 2 ^ 128"
proof -
  have r: "int r = (if 0 \<le> v then v else v + int order)"
  proof (cases "0 \<le> v")
    case True
    then show ?thesis using assms by (simp add: order_def)
  next
    case False
    have "v mod int order = (v + int order) mod int order" by simp
    also have "\<dots> = v + int order" using False assms(1) by (intro mod_pos_pos_trivial) (simp_all add: order_def)
    finally show ?thesis using False assms(2) by simp
  qed
  then show "(if r < 2 ^ 255 then int r else int r - int order) = v" "(if r < 2 ^ 255 then r else order - r) < 2 ^ 128"
    using assms(1) by (auto simp: order_def split: if_splits)
qed

lemma add_int_mod: "sval a < order \<Longrightarrow> sval b < order \<Longrightarrow> int (sval (fst (scalar_add a b))) = (int (sval a) + int (sval b)) mod int order"
  using add_spec [of a b] by (simp add: zmod_int)

lemma mul_int_mod: "int (sval (scalar_mul a b)) = int (sval a) * int (sval b) mod int order"
  by (simp add: mul_spec zmod_int)

lemma mul_reduced: "sval (scalar_mul a b) < order"
  using order_bounds(1) by (simp add: mul_spec)

lemma negate_int_mod: "sval a < order \<Longrightarrow> int (sval (scalar_negate a)) = (- int (sval a)) mod int order"
proof -
  assume a: "sval a < order"
  show ?thesis
  proof (cases "sval a = 0")
    case False
    have "(- int (sval a)) mod int order = (int order - int (sval a)) mod int order" by (metis diff_0 mod_diff_left_eq mod_self)
    also have "\<dots> = int order - int (sval a)" using a False by (intro mod_pos_pos_trivial) simp_all
    finally show ?thesis using negate_spec [OF a] False a by simp
  qed (simp add: negate_spec [OF a])
qed

lemma split_constants: "int (sval minus_b1) = - lat_b1" "int (sval minus_b2) = int order - lat_b2"
  by (simp_all add: minus_b1_def minus_b2_def sval_def lattice order_def)

lemma split_lambda_spec:
  assumes "sval k < order" "scalar_split_lambda k = (r1, r2)"
  obtains k1 k2 where "\<bar>k1\<bar> < 2 ^ 128" "\<bar>k2\<bar> < 2 ^ 128" "int (sval r1) = k1 mod int order" "int (sval r2) = k2 mod int order" "(k1 + int (sval const_lambda) * k2) mod int order = int (sval k)"
proof -
  define c1 c2 where "c1 = scalar_mul_shift_var k split_g1 384" and "c2 = scalar_mul_shift_var k split_g2 384"
  define k1 k2 where "k1 = int (sval k) - int (sval c1) * lat_a1 - int (sval c2) * lat_a2" and "k2 = - int (sval c1) * lat_b1 - int (sval c2) * lat_b2"
  have c: "sval c1 = (sval k * sval split_g1) div 2 ^ 384 + (sval k * sval split_g1) div 2 ^ 383 mod 2" "sval c2 = (sval k * sval split_g2) div 2 ^ 384 + (sval k * sval split_g2) div 2 ^ 383 mod 2"
    using mul_shift_spec [of 384 k] by (simp_all add: c1_def c2_def)
  have "\<bar>int (sval k) * int (sval split_g1) - int (sval c1) * 2 ^ 384\<bar> \<le> 2 ^ 383" "\<bar>int (sval k) * int (sval split_g2) - int (sval c2) * 2 ^ 384\<bar> \<le> 2 ^ 383"
    using rounded_shift [OF c(1)] rounded_shift [OF c(2)] by (simp_all add: abs_le_iff)
  then have "\<bar>k1\<bar> < 2 ^ 128" "\<bar>k2\<bar> < 2 ^ 128" unfolding k1_def k2_def using short_vectors [of "int (sval k)" "int (sval c1)" "int (sval c2)"] assms(1) by simp_all
  moreover have "int (sval r2) = k2 mod int order"
  proof -
    have "r2 = fst (scalar_add (scalar_mul c1 minus_b1) (scalar_mul c2 minus_b2))" using assms(2) by (simp add: scalar_split_lambda_def Let_def c1_def c2_def)
    then have "int (sval r2) = (int (sval c1) * - lat_b1 + int (sval c2) * (int order - lat_b2)) mod int order"
      by (simp only: add_int_mod mul_reduced mul_int_mod split_constants mod_add_eq)
    also have "int (sval c1) * - lat_b1 + int (sval c2) * (int order - lat_b2) = k2 + int (sval c2) * int order" by (simp add: k2_def algebra_simps)
    finally show ?thesis by simp
  qed
  moreover have l: "k1 + int (sval const_lambda) * k2 = int (sval k) + int order * (int (sval c1) * 0x4A5AC2BF7B5F37F9F1DB10D7A2A9C981 - int (sval c2) * 0xFCE9B1DD4EB7DD2718A2906787061B2)"
  proof -
    have "k1 + int (sval const_lambda) * k2 = int (sval k) - int (sval c1) * (lat_a1 + lat_b1 * int (sval const_lambda)) - int (sval c2) * (lat_a2 + lat_b2 * int (sval const_lambda))"
      by (simp add: k1_def k2_def algebra_simps)
    then show ?thesis unfolding lattice_lambda by (simp add: algebra_simps)
  qed
  moreover have "int (sval r1) = k1 mod int order"
  proof -
    have "r1 = fst (scalar_add (scalar_negate (scalar_mul r2 const_lambda)) k)" using assms(2) by (auto simp: scalar_split_lambda_def Let_def)
    moreover have "sval (scalar_negate (scalar_mul r2 const_lambda)) < order" using negate_spec [OF mul_reduced [of r2 const_lambda]] order_bounds(1) by simp
    ultimately have "int (sval r1) = (- (int (sval r2) * int (sval const_lambda)) + int (sval k)) mod int order"
      using assms(1) by (simp only: add_int_mod negate_int_mod mul_reduced mul_int_mod mod_add_left_eq mod_minus_eq)
    also have "\<dots> = (int (sval k) - k2 * int (sval const_lambda)) mod int order"
      unfolding \<open>int (sval r2) = k2 mod int order\<close> uminus_add_conv_diff by (metis mod_diff_right_eq mod_mult_left_eq)
    also have "int (sval k) - k2 * int (sval const_lambda) = k1 - int order * (int (sval c1) * 0x4A5AC2BF7B5F37F9F1DB10D7A2A9C981 - int (sval c2) * 0xFCE9B1DD4EB7DD2718A2906787061B2)"
      using l by (simp add: algebra_simps)
    finally show ?thesis by (simp add: mod_diff_right_eq [symmetric])
  qed
  moreover have "(k1 + int (sval const_lambda) * k2) mod int order = int (sval k)" unfolding l using assms(1) by simp
  ultimately show thesis by (intro that)
qed

lemma split_recode_facts:
  assumes "sval k < order" "2 \<le> w" "w \<le> 30" "scalar_split_lambda k = (r1, r2)"
  shows "\<exists>xs ys m n. ecmult_wnaf 129 r1 w = Some (xs, m) \<and> ecmult_wnaf 129 r2 w = Some (ys, n) \<and> length xs = 129 \<and> length ys = 129 \<and> naf_digits w xs \<and> naf_digits w ys \<and> last_digit xs (m - 1) \<and> last_digit ys (n - 1) \<and>
    \<bar>signed_value xs\<bar> < 2 ^ 128 \<and> \<bar>signed_value ys\<bar> < 2 ^ 128 \<and> (signed_value xs + int (sval const_lambda) * signed_value ys) mod int order = int (sval k)"
proof -
  obtain k1 k2 where k: "\<bar>k1\<bar> < 2 ^ 128" "\<bar>k2\<bar> < 2 ^ 128" "int (sval r1) = k1 mod int order" "int (sval r2) = k2 mod int order"
    "(k1 + int (sval const_lambda) * k2) mod int order = int (sval k)" using assms(1,4) by (rule split_lambda_spec)
  have "int (sval r1) < int order" "int (sval r2) < int order" unfolding k(3,4) by (simp_all add: order_def)
  then have r: "sval r1 < order" "sval r2 < order" by simp_all
  note c1 = int_mod_cases [OF k(1,3)] and c2 = int_mod_cases [OF k(2,4)]
  obtain xs m where "ecmult_wnaf 129 r1 w = Some (xs, m)" "signed_value xs = k1" "length xs = 129" "naf_digits w xs" "last_digit xs (m - 1)"
    using wnaf_facts [OF r(1) assms(2,3) _ _ c1(2), of 129] unfolding c1(1) by auto
  moreover obtain ys n where "ecmult_wnaf 129 r2 w = Some (ys, n)" "signed_value ys = k2" "length ys = 129" "naf_digits w ys" "last_digit ys (n - 1)"
    using wnaf_facts [OF r(2) assms(2,3) _ _ c2(2), of 129] unfolding c2(1) by auto
  ultimately show ?thesis using k by blast
qed

text \<open>
  Decomposition for the endomorphism followed by recoding, as multiplication does with both halves: every scalar splits into two numbers of at most 128
  bits and sign, both loops end, 129 digits are room enough, each digit is zero or odd and below half the window, two of them are at least a window apart, the
  results are the places after the last digits, and the digits of the first half plus lambda times those of the second stand for the scalar.
\<close>
theorem split_then_recode:
  assumes "sval k < order" "2 \<le> w" "w \<le> 30" "scalar_split_lambda k = (r1, r2)"
  shows "\<exists>xs ys m n. ecmult_wnaf 129 r1 w = Some (xs, m) \<and> ecmult_wnaf 129 r2 w = Some (ys, n) \<and> length xs = 129 \<and> length ys = 129 \<and> naf_digits w xs \<and> naf_digits w ys \<and> last_digit xs (m - 1) \<and> last_digit ys (n - 1) \<and>
    \<bar>signed_value xs\<bar> < 2 ^ 128 \<and> \<bar>signed_value ys\<bar> < 2 ^ 128 \<and> (signed_value xs + int (sval const_lambda) * signed_value ys) mod int order = int (sval k)"
  by (rule split_recode_facts [OF assms])

theorem split_then_recode_witness:
  "\<exists>r1 r2 xs ys m n. scalar_split_lambda minus_b2 = (r1, r2) \<and> ecmult_wnaf 129 r1 5 = Some (xs, m) \<and> ecmult_wnaf 129 r2 5 = Some (ys, n) \<and>
     (signed_value xs + int (sval const_lambda) * signed_value ys) mod int order = 0xFFFFFFFFFFFFFFFFFFFFFFFFFFFFFFFE8A280AC50774346DD765CDA83DB1562C"
proof -
  obtain r1 r2 where r: "scalar_split_lambda minus_b2 = (r1, r2)" by fastforce
  have v: "sval minus_b2 = 0xFFFFFFFFFFFFFFFFFFFFFFFFFFFFFFFE8A280AC50774346DD765CDA83DB1562C" by (simp add: minus_b2_def sval_def)
  have "sval minus_b2 < order" "2 \<le> (5 :: nat)" "(5 :: nat) \<le> 30" by (simp_all add: v order_def)
  from split_then_recode [OF this r] show ?thesis unfolding v of_nat_numeral using r by blast
qed

end
