(* ===== verification/Ecmult.thy ===== *)
theory Ecmult
  imports Ecmult_Table Split_Lambda
begin

text \<open>
  Multiplication of two points, \<open>secp256k1_ecmult\<close> of \<open>src/external/secp256k1/src/ecmult_impl.h\<close>: \<open>na\<close> times a point plus \<open>ng\<close> times the generator, by
  interleaving the signed digits of both scalars (\<open>secp256k1_ecmult_strauss_wnaf\<close> for the one point \<open>secp256k1_ecmult\<close> passes). The windows are configured at compile time and
  arguments here; the precomputed tables for the generator are generated files, so arguments too; the initial contents of the arrays on the stack are
  arguments. \<open>None\<close> would be a recoding that does not end.
\<close>

section \<open>The algorithm\<close>

record strauss_point_state =
  wnaf_na_1 :: "int list"
  wnaf_na_lam :: "int list"
  bits_na_1 :: int
  bits_na_lam :: int

definition straussPrepare :: "nat \<Rightarrow> secp256k1_ge list \<Rightarrow> secp256k1_fe list \<Rightarrow> secp256k1_gej \<Rightarrow> secp256k1_scalar \<Rightarrow>
    (strauss_point_state \<times> secp256k1_ge list \<times> secp256k1_fe list \<times> secp256k1_fe) option" where
  "straussPrepare window_a pre_a aux a na =
     (let (na_1, na_lam) = scalar_split_lambda na in
      Option.bind (ecmult_wnaf 129 na_1 window_a) (\<lambda>(wnaf1, bits1).
      Option.bind (ecmult_wnaf 129 na_lam window_a) (\<lambda>(wnaf2, bits2).
        let n = 2 ^ (window_a - 2);
            (pre_a, aux, Z) = ecmult_odd_multiples_table n pre_a aux a;
            pre_a = ge_table_set_globalz n pre_a aux;
            aux = map (\<lambda>g. fe_impl_mul (ge_x g) const_beta) pre_a
        in Some (\<lparr> wnaf_na_1 = wnaf1, wnaf_na_lam = wnaf2, bits_na_1 = bits1, bits_na_lam = bits2 \<rparr>, pre_a, aux, Z))))"

definition straussG :: "nat \<Rightarrow> secp256k1_scalar option \<Rightarrow> (int list \<times> int \<times> int list \<times> int) option" where
  "straussG window_g ng =
     (case ng of None \<Rightarrow> Some ([], 0, [], 0) | Some ng \<Rightarrow>
        (let (ng_1, ng_128) = scalar_split_128 ng in
         Option.bind (ecmult_wnaf 129 ng_1 window_g) (\<lambda>(wnaf1, bits1).
         Option.bind (ecmult_wnaf 129 ng_128 window_g) (\<lambda>(wnaf2, bits2). Some (wnaf1, bits1, wnaf2, bits2)))))"

fun straussLoop :: "(strauss_point_state \<times> secp256k1_ge list \<times> secp256k1_fe list) option \<Rightarrow> int list \<times> int \<times> int list \<times> int \<Rightarrow>
    secp256k1_ge_storage list \<Rightarrow> secp256k1_ge_storage list \<Rightarrow> secp256k1_fe \<Rightarrow> nat \<Rightarrow> secp256k1_gej \<Rightarrow> secp256k1_gej" where
  "straussLoop st g pre_g pre_g_128 Z 0 r = r"
| "straussLoop st g pre_g pre_g_128 Z (Suc i) r =
     (let (wnaf_ng_1, bits_ng_1, wnaf_ng_128, bits_ng_128) = g;
          r = fst (gej_double_var r);
          r = (case st of None \<Rightarrow> r | Some (ps, pre_a, aux) \<Rightarrow>
                (let n = wnaf_na_1 ps ! i;
                     r = (if int i < bits_na_1 ps \<and> n \<noteq> 0 then fst (gej_add_ge_var r (ecmult_table_get_ge pre_a n)) else r);
                     n = wnaf_na_lam ps ! i
                 in if int i < bits_na_lam ps \<and> n \<noteq> 0 then fst (gej_add_ge_var r (ecmult_table_get_ge_lambda pre_a aux n)) else r));
          n = wnaf_ng_1 ! i;
          r = (if int i < bits_ng_1 \<and> n \<noteq> 0 then gej_add_zinv_var r (ecmult_table_get_ge_storage pre_g n) Z else r);
          n = wnaf_ng_128 ! i;
          r = (if int i < bits_ng_128 \<and> n \<noteq> 0 then gej_add_zinv_var r (ecmult_table_get_ge_storage pre_g_128 n) Z else r)
      in straussLoop st g pre_g pre_g_128 Z i r)"

definition ecmult :: "nat \<Rightarrow> nat \<Rightarrow> secp256k1_ge_storage list \<Rightarrow> secp256k1_ge_storage list \<Rightarrow> secp256k1_ge list \<Rightarrow> secp256k1_fe list \<Rightarrow>
    secp256k1_gej \<Rightarrow> secp256k1_scalar \<Rightarrow> secp256k1_scalar option \<Rightarrow> secp256k1_gej option" where
  "ecmult window_a window_g pre_g pre_g_128 pre_a aux a na ng =
     Option.bind (if scalar_is_zero na \<or> gj_infinity a then Some None else map_option Some (straussPrepare window_a pre_a aux a na)) (\<lambda>st.
     Option.bind (straussG window_g ng) (\<lambda>g.
       let Z = (case st of None \<Rightarrow> fe_impl_set_int 1 | Some (ps, pre_a, aux, Z) \<Rightarrow> Z);
           bits = (case st of None \<Rightarrow> 0 | Some (ps, pre_a, aux, Z) \<Rightarrow> max (max 0 (bits_na_1 ps)) (bits_na_lam ps));
           (wnaf_ng_1, bits_ng_1, wnaf_ng_128, bits_ng_128) = g;
           bits = max (max bits bits_ng_1) bits_ng_128;
           r = straussLoop (map_option (\<lambda>(ps, pre_a, aux, Z). (ps, pre_a, aux)) st) g pre_g pre_g_128 Z (nat bits) gej_set_infinity
       in Some (if gj_infinity r then r else r \<lparr> gj_z := fe_impl_mul (gj_z r) Z \<rparr>)))"

section \<open>Double and add along digits\<close>

text \<open>The point a digit selects from a table of odd multiples.\<close>

definition digit_point :: "point list \<Rightarrow> int \<Rightarrow> point" where
  "digit_point Ps n = (let P = Ps ! nat ((\<bar>n\<bar> - 1) div 2) in if n > 0 then P else neg_point P)"

definition stored_points :: "secp256k1_ge_storage list \<Rightarrow> point list" where
  "stored_points pre = map (\<lambda>s. Aff (fe_val (ge_x (ge_from_storage s))) (fe_val (ge_y (ge_from_storage s)))) pre"

text \<open>Horner's rule in the group law: double, then for each list of digits add the point its digit selects, from the last place down to the first.\<close>

fun digit_adds :: "nat \<Rightarrow> (int list \<times> (int \<Rightarrow> point)) list \<Rightarrow> point \<Rightarrow> point \<Rightarrow> bool" where
  "digit_adds i [] Q R \<longleftrightarrow> R = Q"
| "digit_adds i ((xs, f) # ss) Q R \<longleftrightarrow> (if xs ! i = 0 then digit_adds i ss Q R else \<exists>T. point_add Q (f (xs ! i)) T \<and> digit_adds i ss T R)"

fun horner :: "nat \<Rightarrow> (int list \<times> (int \<Rightarrow> point)) list \<Rightarrow> point \<Rightarrow> point \<Rightarrow> bool" where
  "horner 0 ss Q R \<longleftrightarrow> R = Q"
| "horner (Suc i) ss Q R \<longleftrightarrow> (\<exists>D T. point_add Q Q D \<and> digit_adds i ss D T \<and> horner i ss T R)"

lemma digit_adds_append: "digit_adds i (ss @ ts) Q R \<longleftrightarrow> (\<exists>M. digit_adds i ss Q M \<and> digit_adds i ts M R)"
  by (induction ss arbitrary: Q) (auto, metis+)

lemma digit_adds_zero: "\<forall>(xs, f) \<in> set ss. xs ! i = 0 \<Longrightarrow> digit_adds i ss Q R \<longleftrightarrow> R = Q"
  by (induction ss) auto

text \<open>Leading zeros change nothing.\<close>

lemma horner_leading_zeros:
  assumes "b \<le> n" "\<And>i. b \<le> i \<Longrightarrow> i < n \<Longrightarrow> \<forall>(xs, f) \<in> set ss. xs ! i = 0" "horner n ss Inf R"
  shows "horner b ss Inf R"
  using assms
proof (induction n)
  case (Suc n)
  show ?case
  proof (cases "b = Suc n")
    case False
    then have "b \<le> n" using Suc.prems(1) by simp
    moreover obtain D T where "point_add Inf Inf D" "digit_adds n ss D T" "horner n ss T R" using Suc.prems(3) by auto
    moreover from this have "T = Inf" using digit_adds_zero [of ss n] Suc.prems(2) [of n] \<open>b \<le> n\<close> point_add_inf(1) by auto
    ultimately show ?thesis using Suc by simp
  qed (use Suc.prems in simp)
qed simp

section \<open>The loop follows Horner's rule\<close>

text \<open>The two halves of a round: the digits of the point and the digits of the generator.\<close>

definition pointStep :: "(strauss_point_state \<times> secp256k1_ge list \<times> secp256k1_fe list) option \<Rightarrow> nat \<Rightarrow> secp256k1_gej \<Rightarrow> secp256k1_gej" where
  "pointStep st i r = (case st of None \<Rightarrow> r | Some (ps, pre_a, aux) \<Rightarrow>
     (let r = (if int i < bits_na_1 ps \<and> wnaf_na_1 ps ! i \<noteq> 0 then fst (gej_add_ge_var r (ecmult_table_get_ge pre_a (wnaf_na_1 ps ! i))) else r)
      in if int i < bits_na_lam ps \<and> wnaf_na_lam ps ! i \<noteq> 0 then fst (gej_add_ge_var r (ecmult_table_get_ge_lambda pre_a aux (wnaf_na_lam ps ! i))) else r))"

definition generatorStep :: "int list \<times> int \<times> int list \<times> int \<Rightarrow> secp256k1_ge_storage list \<Rightarrow> secp256k1_ge_storage list \<Rightarrow> secp256k1_fe \<Rightarrow> nat \<Rightarrow> secp256k1_gej \<Rightarrow> secp256k1_gej" where
  "generatorStep g pre_g pre_g_128 Z i r = (case g of (us, bu, vs, bv) \<Rightarrow>
     (let r = (if int i < bu \<and> us ! i \<noteq> 0 then gej_add_zinv_var r (ecmult_table_get_ge_storage pre_g (us ! i)) Z else r)
      in if int i < bv \<and> vs ! i \<noteq> 0 then gej_add_zinv_var r (ecmult_table_get_ge_storage pre_g_128 (vs ! i)) Z else r))"

lemma straussLoop_Suc: "straussLoop st g pre_g pre_g_128 Z (Suc i) r =
    straussLoop st g pre_g pre_g_128 Z i (generatorStep g pre_g pre_g_128 Z i (pointStep st i (fst (gej_double_var r))))"
  by (cases g) (simp add: pointStep_def generatorStep_def Let_def split: option.split prod.split)

lemma double_scaled:
  assumes "invertible W" "gej_is r (scale_point W Q)" "point_add Q Q D"
  shows "gej_is (fst (gej_double_var r)) (scale_point W D)"
proof (cases Q)
  case Inf
  then have "D = Inf" "gj_infinity r" using assms(2,3) point_add_inf gej_is_inf [OF assms(2)] by auto
  then show ?thesis by (simp add: gej_double_var_def gej_infinity_is)
next
  case (Aff x y)
  note P = point_add_same [OF point_add_scale [OF assms(1,3), unfolded Aff scale_point.simps]]
  then obtain l where "2 * (y * W ^ 3) * l = 3 * (x * W\<^sup>2)\<^sup>2" "scale_point W D = third_point l (x * W\<^sup>2) (y * W ^ 3) (x * W\<^sup>2)" by blast
  then show ?thesis using double_var_is [OF assms(2) [unfolded Aff scale_point.simps]] P by metis
qed

lemma straussLoop_horner:
  assumes "invertible W" "n \<le> 129"
    and A: "\<And>i r Q T. i < 129 \<Longrightarrow> gej_is r (scale_point W Q) \<Longrightarrow> digit_adds i ss Q T \<Longrightarrow> gej_is (pointStep st i r) (scale_point W T)"
    and G: "\<And>i r Q T. i < 129 \<Longrightarrow> gej_is r (scale_point W Q) \<Longrightarrow> digit_adds i ts Q T \<Longrightarrow> gej_is (generatorStep g pre_g pre_g_128 Z i r) (scale_point W T)"
    and "gej_is r (scale_point W Q)" "horner n (ss @ ts) Q R"
  shows "gej_is (straussLoop st g pre_g pre_g_128 Z n r) (scale_point W R)"
  using assms(2,5,6)
proof (induction n arbitrary: r Q)
  case (Suc n)
  then obtain D M T where "point_add Q Q D" "digit_adds n ss D M" "digit_adds n ts M T" "horner n (ss @ ts) T R" by (auto simp: digit_adds_append)
  then show ?case unfolding straussLoop_Suc using Suc.prems(1) by (intro Suc.IH) (auto intro!: G A double_scaled [OF assms(1) Suc.prems(2)])
qed simp

text \<open>A digit's addition, on the isomorphic curve.\<close>

lemma entry_is_ge: "entry_is e W P \<Longrightarrow> ge_is e (scale_point W P)"
  by (auto simp: entry_is_def ge_is_def)

lemma digit_add_ge:
  assumes "entry_is e W P" "gej_is r (scale_point W Q)" "point_add Q P T"
  shows "gej_is (fst (gej_add_ge_var r e)) (scale_point W T)"
proof -
  have "invertible W" using assms(1) by (simp add: entry_is_def)
  then show ?thesis using add_ge_var_is [OF assms(2) entry_is_ge [OF assms(1)] point_add_scale [OF _ assms(3)]] by simp
qed

lemma digit_add_zinv:
  assumes "entry_is e 1 P" "fe_is 1 W Z" "invertible W" "gej_is r (scale_point W Q)" "point_add Q P T"
  shows "gej_is (gej_add_zinv_var r e Z) (scale_point W T)"
proof -
  have "scale_point 1 P = P" by (cases P) simp_all
  then show ?thesis using add_zinv_var_is [OF assms(4) entry_is_ge [OF assms(1)] fe_is_mono [OF assms(2)]] point_add_scale [OF assms(3,5)] by simp
qed

text \<open>Digits in range select entries of the table.\<close>

lemma digit_index:
  assumes "naf_digits w xs" "i < length xs" "xs ! i \<noteq> 0" "2 \<le> w"
  shows "nat ((\<bar>xs ! i\<bar> - 1) div 2) < 2 ^ (w - 2)"
proof -
  have x: "odd (xs ! i)" "\<bar>xs ! i\<bar> < 2 ^ (w - 1)" using assms(1-3) by (auto simp: naf_digits_def)
  have "(2 :: int) ^ (w - 1) = 2 * 2 ^ (w - 2)" using assms(4) by (simp add: power_eq_if numeral_2_eq_2)
  then have "(\<bar>xs ! i\<bar> - 1) div 2 < 2 ^ (w - 2)" using x by linarith
  then show ?thesis by (simp add: nat_less_iff assms(3) x(1) zero_less_abs_iff)
qed

lemma last_digit_bits: "last_digit xs (b - 1) \<Longrightarrow> i < length xs \<Longrightarrow> xs ! i \<noteq> 0 \<Longrightarrow> int i < b"
  by (force simp: last_digit_def)

lemma digit_step:
  assumes "d \<noteq> 0 \<Longrightarrow> int i < b" "\<And>r Q T. d \<noteq> 0 \<Longrightarrow> gej_is r (scale_point W Q) \<Longrightarrow> point_add Q P T \<Longrightarrow> gej_is (F r) (scale_point W T)"
    "gej_is r (scale_point W Q)" "if d = (0 :: int) then T = Q else point_add Q P T"
  shows "gej_is (if int i < b \<and> d \<noteq> 0 then F r else r) (scale_point W T)"
  using assms by (cases "d = 0") auto

lemma digit_adds_two:
  assumes "digit_adds i [(xs, f), (ys, g)] Q T"
  obtains M where "if xs ! i = 0 then M = Q else point_add Q (f (xs ! i)) M" "if ys ! i = 0 then T = M else point_add M (g (ys ! i)) T"
  using assms by (auto split: if_splits)

lemma pointStep_is:
  assumes tab: "\<And>j. j < 2 ^ (w - 2) \<Longrightarrow> entry_is (tab ! j) W (Ps ! j) \<and> magnitude 1 (ge_y (tab ! j))" "length tab = 2 ^ (w - 2)" "2 \<le> w"
    and xs: "naf_digits w xs" "last_digit xs (b1 - 1)" "length xs = 129" and ys: "naf_digits w ys" "last_digit ys (b2 - 1)" "length ys = 129"
    and r: "i < 129" "gej_is r (scale_point W Q)" "digit_adds i [(xs, digit_point Ps), (ys, \<lambda>n. endo (digit_point Ps n))] Q T"
    and aux: "aux = map (\<lambda>g. fe_impl_mul (ge_x g) const_beta) tab"
  shows "gej_is (pointStep (Some (\<lparr> wnaf_na_1 = xs, wnaf_na_lam = ys, bits_na_1 = b1, bits_na_lam = b2 \<rparr>, tab, aux)) i r) (scale_point W T)"
proof -
  have e1: "entry_is (ecmult_table_get_ge tab (xs ! i)) W (digit_point Ps (xs ! i))" if "xs ! i \<noteq> 0"
    unfolding digit_point_def Let_def using tab(1) digit_index [OF xs(1) _ that tab(3)] r(1) xs(3) by (intro table_get_ge_is [OF _ _ refl]) auto
  have e2: "entry_is (ecmult_table_get_ge_lambda tab aux (ys ! i)) W (endo (digit_point Ps (ys ! i)))" if "ys ! i \<noteq> 0"
    unfolding digit_point_def Let_def using tab digit_index [OF ys(1) _ that tab(3)] r(1) ys(3) by (intro table_get_ge_lambda_is [OF _ _ refl]) (auto simp: aux)
  obtain M where M: "if xs ! i = 0 then M = Q else point_add Q (digit_point Ps (xs ! i)) M" "if ys ! i = 0 then T = M else point_add M (endo (digit_point Ps (ys ! i))) T"
    using r(3) by (rule digit_adds_two)
  have b: "xs ! i \<noteq> 0 \<Longrightarrow> int i < b1" "ys ! i \<noteq> 0 \<Longrightarrow> int i < b2" using last_digit_bits [OF xs(2)] last_digit_bits [OF ys(2)] r(1) xs(3) ys(3) by simp_all
  let ?F = "\<lambda>r. fst (gej_add_ge_var r (ecmult_table_get_ge tab (xs ! i)))" and ?G = "\<lambda>r. fst (gej_add_ge_var r (ecmult_table_get_ge_lambda tab aux (ys ! i)))"
  have s1: "gej_is (if int i < b1 \<and> xs ! i \<noteq> 0 then ?F r else r) (scale_point W M)" by (rule digit_step [where F = ?F, OF b(1) _ r(2) M(1)]) (auto intro: digit_add_ge [OF e1])
  have "gej_is (if int i < b2 \<and> ys ! i \<noteq> 0 then ?G (if int i < b1 \<and> xs ! i \<noteq> 0 then ?F r else r) else (if int i < b1 \<and> xs ! i \<noteq> 0 then ?F r else r)) (scale_point W T)"
    by (rule digit_step [where F = ?G, OF b(2) _ s1 M(2)]) (auto intro: digit_add_ge [OF e2])
  then show ?thesis by (simp only: pointStep_def Let_def option.case prod.case strauss_point_state.simps)
qed

lemma generatorStep_is:
  assumes W: "fe_is 1 W Z" "invertible W" and w: "2 \<le> w" and len: "length pre_g = 2 ^ (w - 2)" "length pre_g_128 = 2 ^ (w - 2)"
    and us: "naf_digits w us" "last_digit us (b1 - 1)" "length us = 129" and vs: "naf_digits w vs" "last_digit vs (b2 - 1)" "length vs = 129"
    and r: "i < 129" "gej_is r (scale_point W Q)" "digit_adds i [(us, digit_point (stored_points pre_g)), (vs, digit_point (stored_points pre_g_128))] Q T"
  shows "gej_is (generatorStep (us, b1, vs, b2) pre_g pre_g_128 Z i r) (scale_point W T)"
proof -
  have e: "entry_is (ecmult_table_get_ge_storage pre n) 1 (digit_point (stored_points pre) n)" if "nat ((\<bar>n\<bar> - 1) div 2) < length pre" for pre n
    unfolding digit_point_def Let_def using that by (intro table_get_ge_storage_is [OF refl]) (simp add: stored_points_def)
  have e1: "entry_is (ecmult_table_get_ge_storage pre_g (us ! i)) 1 (digit_point (stored_points pre_g) (us ! i))" if "us ! i \<noteq> 0"
    using digit_index [OF us(1) _ that w] r(1) us(3) len by (intro e) simp
  have e2: "entry_is (ecmult_table_get_ge_storage pre_g_128 (vs ! i)) 1 (digit_point (stored_points pre_g_128) (vs ! i))" if "vs ! i \<noteq> 0"
    using digit_index [OF vs(1) _ that w] r(1) vs(3) len by (intro e) simp
  obtain M where M: "if us ! i = 0 then M = Q else point_add Q (digit_point (stored_points pre_g) (us ! i)) M" "if vs ! i = 0 then T = M else point_add M (digit_point (stored_points pre_g_128) (vs ! i)) T"
    using r(3) by (rule digit_adds_two)
  have b: "us ! i \<noteq> 0 \<Longrightarrow> int i < b1" "vs ! i \<noteq> 0 \<Longrightarrow> int i < b2" using last_digit_bits [OF us(2)] last_digit_bits [OF vs(2)] r(1) us(3) vs(3) by simp_all
  let ?F = "\<lambda>r. gej_add_zinv_var r (ecmult_table_get_ge_storage pre_g (us ! i)) Z" and ?G = "\<lambda>r. gej_add_zinv_var r (ecmult_table_get_ge_storage pre_g_128 (vs ! i)) Z"
  have s1: "gej_is (if int i < b1 \<and> us ! i \<noteq> 0 then ?F r else r) (scale_point W M)" by (rule digit_step [where F = ?F, OF b(1) _ r(2) M(1)]) (auto intro: digit_add_zinv [OF e1 W])
  have "gej_is (if int i < b2 \<and> vs ! i \<noteq> 0 then ?G (if int i < b1 \<and> us ! i \<noteq> 0 then ?F r else r) else (if int i < b1 \<and> us ! i \<noteq> 0 then ?F r else r)) (scale_point W T)"
    by (rule digit_step [where F = ?G, OF b(2) _ s1 M(2)]) (auto intro: digit_add_zinv [OF e2 W])
  then show ?thesis by (simp only: generatorStep_def Let_def prod.case)
qed

lemma unscale:
  assumes "gej_is r (scale_point W R)" "fe_is 1 W Z" "invertible W"
  shows "gej_is (if gj_infinity r then r else r \<lparr> gj_z := fe_impl_mul (gj_z r) Z \<rparr>) R"
proof (cases R)
  case Inf
  then show ?thesis using assms(1) gej_is_inf [OF assms(1)] by simp
next
  case (Aff x y)
  obtain z where "fe_is 4 (x * W ^ 2 * z ^ 2) (gj_x r)" "fe_is 4 (y * W ^ 3 * z ^ 3) (gj_y r)" and z: "fe_is 1 z (gj_z r)" "invertible z" "\<not> gj_infinity r"
    using assms(1) unfolding Aff scale_point.simps by (rule gej_isE)
  moreover have "fe_is 1 (z * W) (fe_impl_mul (gj_z r) Z)" using fe_is_mul [OF z(1) assms(2)] by simp
  ultimately show ?thesis unfolding Aff using invertible_mult [OF z(2) assms(3)]
    by (simp only: if_False) (rule gej_isI [of 4 _ _ 4 _ "z * W"], simp_all add: power_mult_distrib mult_ac)
qed

lemma strauss_run:
  assumes W: "invertible W" "fe_is 1 W Z" and n: "n \<le> 129" "\<And>i. n \<le> i \<Longrightarrow> i < 129 \<Longrightarrow> \<forall>(xs, f) \<in> set (ss @ ts). xs ! i = 0"
    and A: "\<And>i r Q T. i < 129 \<Longrightarrow> gej_is r (scale_point W Q) \<Longrightarrow> digit_adds i ss Q T \<Longrightarrow> gej_is (pointStep st i r) (scale_point W T)"
    and G: "\<And>i r Q T. i < 129 \<Longrightarrow> gej_is r (scale_point W Q) \<Longrightarrow> digit_adds i ts Q T \<Longrightarrow> gej_is (generatorStep g pre_g pre_g_128 Z i r) (scale_point W T)"
    and R: "horner 129 (ss @ ts) Inf R" and r: "r = straussLoop st g pre_g pre_g_128 Z n gej_set_infinity"
  shows "gej_is (if gj_infinity r then r else r \<lparr> gj_z := fe_impl_mul (gj_z r) Z \<rparr>) R"
proof -
  have "gej_is r (scale_point W R)" unfolding r
  proof (rule straussLoop_horner [where ss = ss and ts = ts and Q = Inf, OF W(1) n(1)])
    show "horner n (ss @ ts) Inf R" by (rule horner_leading_zeros [OF n R])
    show "gej_is gej_set_infinity (scale_point W Inf)" by (simp add: gej_infinity_is)
  qed (fact A, fact G)
  then show ?thesis using W by (intro unscale)
qed

section \<open>Skipped points\<close>

lemma horner_skip:
  assumes "\<And>i Q T. i < n \<Longrightarrow> digit_adds i ss Q T \<Longrightarrow> T = Q" "horner n (ss @ ts) Q R"
  shows "horner n ts Q R"
  using assms
proof (induction n arbitrary: Q)
  case (Suc n)
  then obtain D M T where d: "point_add Q Q D" "digit_adds n ss D M" "digit_adds n ts M T" "horner n (ss @ ts) T R" by (auto simp: digit_adds_append)
  moreover have "M = D" using Suc.prems(1) d(2) by blast
  moreover have "T' = Q'" if "i < n" "digit_adds i ss Q' T'" for i Q' T' using Suc.prems(1) that by (meson less_SucI)
  then have "horner n ts T R" using Suc.IH [OF _ d(4)] by blast
  ultimately show ?case by auto
qed simp

text \<open>Digits of zero.\<close>

lemma loop_rest: "sval s < 2 ^ b \<Longrightarrow> b \<le> len \<Longrightarrow> len \<le> 256 \<Longrightarrow> wnafLoop s sg w len b 0 xs m = Some (xs, m)"
proof (induction "len - b" arbitrary: b)
  case 0
  then show ?case by (subst wnafLoop.simps) simp
next
  case (Suc k)
  then have b: "b < len" "sval s < 2 ^ (b + 1)" by simp_all
  have "scalar_get_bits_limb32 s b 1 = word_of_int 0" using bit_test [of b 0 s] b Suc.prems by simp
  then have "wnafLoop s sg w len b 0 xs m = wnafLoop s sg w len (b + 1) 0 xs m" using b(1) by (subst wnafLoop.simps) simp
  then show ?case using Suc.hyps(1) [of "b + 1"] Suc.hyps(2) Suc.prems b by simp
qed

lemma zero_digits: "sval s = 0 \<Longrightarrow> ecmult_wnaf 129 s w = Some (replicate 129 0, 0)"
proof -
  assume s: "sval s = 0"
  have "unat (scalar_get_bits_limb32 s 255 1) = 0" using get_bits_spec(2) [of 1 255 s] by (simp add: s)
  then have "scalar_get_bits_limb32 s 255 1 = 0" by (simp add: unat_eq_0)
  then show ?thesis using loop_rest [of s 0 129] s by (simp add: ecmult_wnaf_def)
qed

lemma zero_split:
  assumes "sval k = 0" "scalar_split_lambda k = (r1, r2)"
  shows "sval r1 = 0" "sval r2 = 0"
proof -
  have z: "sval (scalar_mul_shift_var k g 384) = 0" for g using mul_shift_spec [of 384 k g] assms(1) by simp
  then have r2: "sval r2 = 0" using assms(2) by (auto simp: scalar_split_lambda_def Let_def mul_spec add_spec order_bounds)
  have "r1 = fst (scalar_add (scalar_negate (scalar_mul r2 const_lambda)) k)" using assms(2) by (auto simp: scalar_split_lambda_def Let_def)
  moreover have "sval (scalar_mul r2 const_lambda) = 0" using r2 by (simp add: mul_spec)
  ultimately show "sval r1 = 0" using assms(1) order_bounds by (simp add: add_spec negate_spec)
  show "sval r2 = 0" by (rule r2)
qed

section \<open>Multiplication\<close>

lemma half_digits:
  assumes "sval s < 2 ^ 128" "2 \<le> w" "w \<le> 30"
  obtains xs b where "ecmult_wnaf 129 s w = Some (xs, b)" "length xs = 129" "signed_value xs = int (sval s)" "naf_digits w xs" "last_digit xs (b - 1)"
proof -
  have "sval s < order" "sval s < 2 ^ 255" using assms(1) by (simp_all add: order_def)
  then show thesis using wnaf_facts [of s w 129 128] assms that by auto
qed

lemma prepare_spec:
  assumes "gej_is a (Ps ! 0)" "point_add (Ps ! 0) (Ps ! 0) D" "D \<noteq> Inf" "2 \<le> w" "length pre = 2 ^ (w - 2)" "length zr = 2 ^ (w - 2)"
    "\<And>j. 1 \<le> j \<Longrightarrow> j < 2 ^ (w - 2) \<Longrightarrow> point_add (Ps ! (j - 1)) D (Ps ! j)" "\<And>j. j < 2 ^ (w - 2) \<Longrightarrow> Ps ! j \<noteq> Inf"
    "scalar_split_lambda na = (na_1, na_lam)" "ecmult_wnaf 129 na_1 w = Some (xs, b1)" "ecmult_wnaf 129 na_lam w = Some (ys, b2)"
  obtains tab Z W where "straussPrepare w pre zr a na = Some (\<lparr> wnaf_na_1 = xs, wnaf_na_lam = ys, bits_na_1 = b1, bits_na_lam = b2 \<rparr>, tab, map (\<lambda>g. fe_impl_mul (ge_x g) const_beta) tab, Z)"
    "fe_is 1 W Z" "invertible W" "length tab = 2 ^ (w - 2)" "\<And>j. j < 2 ^ (w - 2) \<Longrightarrow> entry_is (tab ! j) W (Ps ! j) \<and> magnitude 1 (ge_y (tab ! j))"
proof -
  let ?n = "2 ^ (w - 2) :: nat"
  obtain pre' zr' Z where t: "ecmult_odd_multiples_table ?n pre zr a = (pre', zr', Z)" using prod_cases3 by blast
  obtain W where W: "fe_is 1 W Z" "length (ge_table_set_globalz ?n pre' zr') = ?n"
    "\<And>j. j < ?n \<Longrightarrow> entry_is (ge_table_set_globalz ?n pre' zr' ! j) W (Ps ! j) \<and> magnitude 1 (ge_y (ge_table_set_globalz ?n pre' zr' ! j))"
    by (rule table_entries [of a Ps D ?n pre zr pre' zr' Z]) (use assms(1-8) t in auto)
  have "invertible W" using W(3) [of 0] by (simp add: entry_is_def)
  then show thesis using W assms(9-11) t by (intro that [of "ge_table_set_globalz ?n pre' zr'" Z W]) (simp_all add: straussPrepare_def Let_def)
qed

lemma infinite_chain:
  assumes "Ps ! 0 = Inf" "point_add Inf Inf D" "\<And>j. 1 \<le> j \<Longrightarrow> j < n \<Longrightarrow> point_add (Ps ! (j - 1)) D (Ps ! j)" "j < n"
  shows "Ps ! j = Inf"
  using assms(4)
proof (induction j)
  case (Suc j)
  have "D = Inf" using assms(2) point_add_inf by auto
  then show ?case using Suc assms(3) [of "Suc j"] point_add_inf(2) [of Inf "Ps ! Suc j"] by simp
qed (simp add: assms(1))

lemma infinite_adds:
  assumes "\<And>j. j < 2 ^ (w - 2) \<Longrightarrow> Ps ! j = Inf" "naf_digits w xs" "naf_digits w ys" "length xs = 129" "length ys = 129" "2 \<le> w" "i < 129"
    "digit_adds i [(xs, digit_point Ps), (ys, \<lambda>n. endo (digit_point Ps n))] Q T"
  shows "T = Q"
proof -
  have "xs ! i \<noteq> 0 \<Longrightarrow> digit_point Ps (xs ! i) = Inf" "ys ! i \<noteq> 0 \<Longrightarrow> digit_point Ps (ys ! i) = Inf"
    using digit_index [OF assms(2) _ _ assms(6), of i] digit_index [OF assms(3) _ _ assms(6), of i] assms(1,4,5,7) by (simp_all add: digit_point_def Let_def)
  moreover obtain M where "if xs ! i = 0 then M = Q else point_add Q (digit_point Ps (xs ! i)) M" "if ys ! i = 0 then T = M else point_add M (endo (digit_point Ps (ys ! i))) T"
    using assms(8) by (rule digit_adds_two)
  ultimately show ?thesis using point_add_inf(2) by (auto split: if_splits)
qed

lemma last_digit_zero: "last_digit xs (b - 1) \<Longrightarrow> length xs = 129 \<Longrightarrow> b \<le> 129 \<and> 0 \<le> b \<and> (\<forall>i<129. b \<le> int i \<longrightarrow> xs ! i = 0)"
  by (auto simp: last_digit_def)

abbreviation point_digits :: "int list \<Rightarrow> int list \<Rightarrow> point list \<Rightarrow> (int list \<times> (int \<Rightarrow> point)) list" where
  "point_digits xs ys Ps \<equiv> [(xs, digit_point Ps), (ys, \<lambda>n. endo (digit_point Ps n))]"

abbreviation generator_digits :: "int list \<Rightarrow> int list \<Rightarrow> secp256k1_ge_storage list \<Rightarrow> secp256k1_ge_storage list \<Rightarrow> (int list \<times> (int \<Rightarrow> point)) list" where
  "generator_digits us vs pre_g pre_g_128 \<equiv> [(us, digit_point (stored_points pre_g)), (vs, digit_point (stored_points pre_g_128))]"

lemma strauss_skipped:
  assumes w: "2 \<le> w" "length pre_g = 2 ^ (w - 2)" "length pre_g_128 = 2 ^ (w - 2)"
    and us: "naf_digits w us" "last_digit us (b1 - 1)" "length us = 129" and vs: "naf_digits w vs" "last_digit vs (b2 - 1)" "length vs = 129"
    and R: "horner 129 (generator_digits us vs pre_g pre_g_128) Inf R"
    and r: "r = straussLoop None (us, b1, vs, b2) pre_g pre_g_128 (fe_impl_set_int 1) (nat (max (max 0 b1) b2)) gej_set_infinity"
  shows "gej_is (if gj_infinity r then r else r \<lparr> gj_z := fe_impl_mul (gj_z r) (fe_impl_set_int 1) \<rparr>) R"
proof (rule strauss_run [where W = 1 and ss = "[]" and ts = "generator_digits us vs pre_g pre_g_128", OF _ _ _ _ _ _ _ r])
  have one: "fe_is 1 1 (fe_impl_set_int 1)" "invertible 1" using fe_is_set_int [of 1] by (simp_all add: invertible_def)
  then show "invertible 1" "fe_is 1 1 (fe_impl_set_int 1)" by simp_all
  note L = last_digit_zero [OF us(2,3)] last_digit_zero [OF vs(2,3)]
  show "nat (max (max 0 b1) b2) \<le> 129" using L by auto
  show "\<forall>(xs, f) \<in> set ([] @ generator_digits us vs pre_g pre_g_128). xs ! i = 0" if "nat (max (max 0 b1) b2) \<le> i" "i < 129" for i using L that by auto
  show "horner 129 ([] @ generator_digits us vs pre_g pre_g_128) Inf R" using R by simp
  show "gej_is (generatorStep (us, b1, vs, b2) pre_g pre_g_128 (fe_impl_set_int 1) i r) (scale_point 1 T)"
    if "i < 129" "gej_is r (scale_point 1 Q)" "digit_adds i (generator_digits us vs pre_g pre_g_128) Q T" for i r Q T
    by (rule generatorStep_is [OF one w us vs that])
qed (simp add: pointStep_def)

lemma strauss_both:
  assumes w: "2 \<le> w" "length pre_g = 2 ^ (w - 2)" "length pre_g_128 = 2 ^ (w - 2)"
    and us: "naf_digits w us" "last_digit us (b3 - 1)" "length us = 129" and vs: "naf_digits w vs" "last_digit vs (b4 - 1)" "length vs = 129"
    and tab: "\<And>j. j < 2 ^ (wa - 2) \<Longrightarrow> entry_is (tab ! j) W (Ps ! j) \<and> magnitude 1 (ge_y (tab ! j))" "length tab = 2 ^ (wa - 2)" "2 \<le> wa" and W: "fe_is 1 W Z" "invertible W"
    and xs: "naf_digits wa xs" "last_digit xs (b1 - 1)" "length xs = 129" and ys: "naf_digits wa ys" "last_digit ys (b2 - 1)" "length ys = 129"
    and R: "horner 129 (point_digits xs ys Ps @ generator_digits us vs pre_g pre_g_128) Inf R"
    and st: "st = (\<lparr> wnaf_na_1 = xs, wnaf_na_lam = ys, bits_na_1 = b1, bits_na_lam = b2 \<rparr>, tab, map (\<lambda>g. fe_impl_mul (ge_x g) const_beta) tab)"
    and r: "r = straussLoop (Some st) (us, b3, vs, b4) pre_g pre_g_128 Z (nat (max (max (max (max 0 b1) b2) b3) b4)) gej_set_infinity"
  shows "gej_is (if gj_infinity r then r else r \<lparr> gj_z := fe_impl_mul (gj_z r) Z \<rparr>) R"
proof (rule strauss_run [where ss = "point_digits xs ys Ps" and ts = "generator_digits us vs pre_g pre_g_128", OF W(2,1) _ _ _ _ R r])
  note L = last_digit_zero [OF xs(2,3)] last_digit_zero [OF ys(2,3)] last_digit_zero [OF us(2,3)] last_digit_zero [OF vs(2,3)]
  show "nat (max (max (max (max 0 b1) b2) b3) b4) \<le> 129" using L by auto
  show "\<forall>(zs, f) \<in> set (point_digits xs ys Ps @ generator_digits us vs pre_g pre_g_128). zs ! i = 0" if "nat (max (max (max (max 0 b1) b2) b3) b4) \<le> i" "i < 129" for i using L that by auto
  show "gej_is (pointStep (Some st) i r) (scale_point W T)" if "i < 129" "gej_is r (scale_point W Q)" "digit_adds i (point_digits xs ys Ps) Q T" for i r Q T
    unfolding st by (rule pointStep_is [OF tab xs ys that refl])
  show "gej_is (generatorStep (us, b3, vs, b4) pre_g pre_g_128 Z i r) (scale_point W T)"
    if "i < 129" "gej_is r (scale_point W Q)" "digit_adds i (generator_digits us vs pre_g pre_g_128) Q T" for i r Q T
    by (rule generatorStep_is [OF W w us vs that])
qed

lemma skipped_adds:
  assumes na: "scalar_is_zero na \<or> gj_infinity a" "gej_is a (Ps ! 0)" "scalar_split_lambda na = (na_1, na_lam)"
    and d: "ecmult_wnaf 129 na_1 w = Some (xs, b1)" "ecmult_wnaf 129 na_lam w = Some (ys, b2)" "naf_digits w xs" "naf_digits w ys" "length xs = 129" "length ys = 129" "2 \<le> w"
    and c: "point_add (Ps ! 0) (Ps ! 0) D" "\<And>j. 1 \<le> j \<Longrightarrow> j < 2 ^ (w - 2) \<Longrightarrow> point_add (Ps ! (j - 1)) D (Ps ! j)"
    and i: "i < 129" "digit_adds i (point_digits xs ys Ps) Q T"
  shows "T = Q"
proof (cases "scalar_is_zero na")
  case True
  then have "sval na = 0" by (simp add: is_zero_iff)
  note zero_split [OF this na(3)]
  then have "xs = replicate 129 0" "ys = replicate 129 0" using d(1,2) zero_digits by simp_all
  then have "\<forall>(zs, f) \<in> set (point_digits xs ys Ps). zs ! i = 0" using i(1) by (simp only: list.set ball_simps prod.case nth_replicate)
  then show ?thesis using digit_adds_zero i(2) by blast
next
  case False
  then have inf: "Ps ! 0 = Inf" using na(1,2) gej_is_inf by blast
  have "Ps ! j = Inf" if "j < 2 ^ (w - 2)" for j by (rule infinite_chain [OF inf c(1) [unfolded inf] c(2) that])
  then show ?thesis by (rule infinite_adds [OF _ d(3-7) i])
qed

section \<open>An instance: one and one\<close>

lemma one_digits:
  assumes "sval s = 1" "2 \<le> w" "w \<le> 30"
  shows "ecmult_wnaf 129 s w = Some ((replicate 129 0)[0 := 1], 1)"
proof -
  have "unat (scalar_get_bits_limb32 s 255 1) = 0" using get_bits_spec(2) [of 1 255 s] by (simp add: assms(1))
  then have top: "scalar_get_bits_limb32 s 255 1 = 0" by (simp add: unat_eq_0)
  have "scalar_get_bits_limb32 s 0 1 \<noteq> word_of_int 0" using bit_test [of 0 0 s] assms(1) by simp
  moreover have "sint (scalar_get_bits_var s 0 w + word_of_int 0) = 1" using window_word [of w 0 0 s] assms by simp
  moreover have "drop_bit (w - 1) (1 :: int) AND 1 = 0" using assms(2) by (simp add: drop_bit_eq_div)
  ultimately have "wnafLoop s 1 w 129 0 0 (replicate 129 0) (- 1) = wnafLoop s 1 w 129 w 0 ((replicate 129 0)[0 := 1]) 0"
    using assms(2,3) by (subst wnafLoop.simps) (simp add: Let_def)
  also have "\<dots> = Some ((replicate 129 0)[0 := 1], 0)" using assms power_gt1 [of "2 :: nat" "w - 1"] by (intro loop_rest) simp_all
  finally show ?thesis using top by (simp add: ecmult_wnaf_def)
qed

lemma one_split:
  assumes "sval k = 1" "scalar_split_lambda k = (r1, r2)"
  shows "sval r1 = 1" "sval r2 = 0"
proof -
  have z: "sval (scalar_mul_shift_var k g 384) = 0" for g using mul_shift_spec [of 384 k g] assms(1) sval_less [of g] by simp
  then have r2: "sval r2 = 0" using assms(2) by (auto simp: scalar_split_lambda_def Let_def mul_spec add_spec order_bounds)
  have "r1 = fst (scalar_add (scalar_negate (scalar_mul r2 const_lambda)) k)" using assms(2) by (auto simp: scalar_split_lambda_def Let_def)
  moreover have "sval (scalar_mul r2 const_lambda) = 0" using r2 by (simp add: mul_spec)
  ultimately show "sval r1 = 1" using assms(1) by (simp add: add_spec negate_spec order_def)
  show "sval r2 = 0" by (rule r2)
qed

lemma horner_more_zeros: "horner b ss Inf R \<Longrightarrow> b \<le> n \<Longrightarrow> (\<And>i. b \<le> i \<Longrightarrow> i < n \<Longrightarrow> \<forall>(xs, f) \<in> set ss. xs ! i = 0) \<Longrightarrow> horner n ss Inf R"
proof (induction n)
  case (Suc n)
  show ?case
  proof (cases "b = Suc n")
    case False
    then have "horner n ss Inf R" "digit_adds n ss Inf Inf" using Suc digit_adds_zero [of ss n Inf Inf] by simp_all
    then show ?thesis using inf_left [of Inf] by auto
  qed (use Suc.prems in simp)
qed simp

lemma stored_g: "stored_points [ge_to_storage ge_const_g] = [Aff (of_nat gx) (of_nat gy)]"
proof -
  have g: "fe_is 4 (of_nat gx) (ge_x ge_const_g)" "fe_is 3 (of_nat gy) (ge_y ge_const_g)" using ge_isE [OF g_is] by simp_all
  then show ?thesis using fe_is_normalize [OF g(1)] fe_is_normalize [OF g(2)] by (simp add: stored_points_def ge_from_storage_def ge_to_storage_def storage_roundtrip fe_is_def)
qed

section \<open>The property\<close>

text \<open>
  C25. Multiplication of two points: the call returns, and its result is what Horner's rule gives in the group law along the signed digits of both scalars. The digits
  of the first scalar stand for it, together with lambda for those added under the endomorphism; the digits of the second stand for it, together with a power of two. This covers zero
  scalars and the point at infinity, tables on an isomorphic curve and every window of 2 to 30 bits; the stored tables may hold any points.
\<close>
theorem ecmult_is_horner:
  assumes "gej_is a (Ps ! 0)" "sval na < order" "2 \<le> wa" "wa \<le> 30" "2 \<le> wg" "wg \<le> 30"
    "length pre_g = 2 ^ (wg - 2)" "length pre_g_128 = 2 ^ (wg - 2)" "length pre_a = 2 ^ (wa - 2)" "length aux = 2 ^ (wa - 2)"
    "point_add (Ps ! 0) (Ps ! 0) D" "\<forall>j. 1 \<le> j \<and> j < 2 ^ (wa - 2) \<longrightarrow> point_add (Ps ! (j - 1)) D (Ps ! j)"
    "Ps ! 0 \<noteq> Inf \<longrightarrow> D \<noteq> Inf \<and> (\<forall>j<2 ^ (wa - 2). Ps ! j \<noteq> Inf)"
    "scalar_split_lambda na = (na_1, na_lam)" "scalar_split_128 ng = (ng_1, ng_128)"
  shows "\<exists>xs b1 ys b2 us b3 vs b4 r. ecmult_wnaf 129 na_1 wa = Some (xs, b1) \<and> ecmult_wnaf 129 na_lam wa = Some (ys, b2) \<and>
    ecmult_wnaf 129 ng_1 wg = Some (us, b3) \<and> ecmult_wnaf 129 ng_128 wg = Some (vs, b4) \<and>
    (signed_value xs + int (sval const_lambda) * signed_value ys) mod int order = int (sval na) \<and> signed_value us + 2 ^ 128 * signed_value vs = int (sval ng) \<and>
    ecmult wa wg pre_g pre_g_128 pre_a aux a na (Some ng) = Some r \<and>
    (\<forall>R. horner 129 (point_digits xs ys Ps @ generator_digits us vs pre_g pre_g_128) Inf R \<longrightarrow> gej_is r R)"
proof -
  obtain xs ys b1 b2 where x: "ecmult_wnaf 129 na_1 wa = Some (xs, b1)" "naf_digits wa xs" "last_digit xs (b1 - 1)" "length xs = 129"
    and y: "ecmult_wnaf 129 na_lam wa = Some (ys, b2)" "naf_digits wa ys" "last_digit ys (b2 - 1)" "length ys = 129"
    and na: "(signed_value xs + int (sval const_lambda) * signed_value ys) mod int order = int (sval na)"
    using split_recode_facts [OF assms(2-4,14)] by blast
  have s: "sval ng = sval ng_1 + 2 ^ 128 * sval ng_128" "sval ng_1 < 2 ^ 128" "sval ng_128 < 2 ^ 128" using split_128_spec [OF assms(15)] by simp_all
  obtain us b3 where u: "ecmult_wnaf 129 ng_1 wg = Some (us, b3)" "length us = 129" "signed_value us = int (sval ng_1)" "naf_digits wg us" "last_digit us (b3 - 1)"
    using half_digits [OF s(2) assms(5,6)] .
  obtain vs b4 where v: "ecmult_wnaf 129 ng_128 wg = Some (vs, b4)" "length vs = 129" "signed_value vs = int (sval ng_128)" "naf_digits wg vs" "last_digit vs (b4 - 1)"
    using half_digits [OF s(3) assms(5,6)] .
  have ng: "signed_value us + 2 ^ 128 * signed_value vs = int (sval ng)" by (simp add: u(3) v(3) s(1))
  have g: "straussG wg (Some ng) = Some (us, b3, vs, b4)" using assms(15) u(1) v(1) by (simp add: straussG_def)
  let ?ts = "generator_digits us vs pre_g pre_g_128"
  have "\<exists>r. ecmult wa wg pre_g pre_g_128 pre_a aux a na (Some ng) = Some r \<and> (\<forall>R. horner 129 (point_digits xs ys Ps @ ?ts) Inf R \<longrightarrow> gej_is r R)"
  proof (cases "scalar_is_zero na \<or> gj_infinity a")
    case True
    have "T = Q" if "i < 129" "digit_adds i (point_digits xs ys Ps) Q T" for i Q T
      using skipped_adds [OF True assms(1,14) x(1) y(1) x(2) y(2) x(4) y(4) assms(3,11) _ that] assms(12) by blast
    then have "horner 129 ?ts Inf R" if "horner 129 (point_digits xs ys Ps @ ?ts) Inf R" for R using horner_skip [OF _ that] by blast
    moreover define r where "r = straussLoop None (us, b3, vs, b4) pre_g pre_g_128 (fe_impl_set_int 1) (nat (max (max 0 b3) b4)) gej_set_infinity"
    moreover have "ecmult wa wg pre_g pre_g_128 pre_a aux a na (Some ng) = Some (if gj_infinity r then r else r \<lparr> gj_z := fe_impl_mul (gj_z r) (fe_impl_set_int 1) \<rparr>)"
      using True by (simp add: ecmult_def g Let_def r_def)
    ultimately show ?thesis using strauss_skipped [OF assms(5,7,8) u(4,5,2) v(4,5,2) _ r_def] by blast
  next
    case False
    then have fin: "Ps ! 0 \<noteq> Inf" using gej_is_inf [OF assms(1)] by simp
    obtain tab Z W where p: "straussPrepare wa pre_a aux a na = Some (\<lparr> wnaf_na_1 = xs, wnaf_na_lam = ys, bits_na_1 = b1, bits_na_lam = b2 \<rparr>, tab, map (\<lambda>g. fe_impl_mul (ge_x g) const_beta) tab, Z)"
      "fe_is 1 W Z" "invertible W" "length tab = 2 ^ (wa - 2)" "\<And>j. j < 2 ^ (wa - 2) \<Longrightarrow> entry_is (tab ! j) W (Ps ! j) \<and> magnitude 1 (ge_y (tab ! j))"
      by (rule prepare_spec [OF assms(1,11) _ assms(3,9,10) _ _ assms(14) x(1) y(1)]) (use assms(12,13) fin in auto)
    define st where "st = (\<lparr> wnaf_na_1 = xs, wnaf_na_lam = ys, bits_na_1 = b1, bits_na_lam = b2 \<rparr>, tab, map (\<lambda>g. fe_impl_mul (ge_x g) const_beta) tab)"
    define r where "r = straussLoop (Some st) (us, b3, vs, b4) pre_g pre_g_128 Z (nat (max (max (max (max 0 b1) b2) b3) b4)) gej_set_infinity"
    have "ecmult wa wg pre_g pre_g_128 pre_a aux a na (Some ng) = Some (if gj_infinity r then r else r \<lparr> gj_z := fe_impl_mul (gj_z r) Z \<rparr>)"
      by (simp only: ecmult_def g p(1) Let_def False if_False option.map option.case prod.case strauss_point_state.simps Option.bind.bind_lunit r_def st_def)
    then show ?thesis using strauss_both [OF assms(5,7,8) u(4,5,2) v(4,5,2) p(5,4) assms(3) p(2,3) x(2-4) y(2-4) _ st_def r_def] by blast
  qed
  then show ?thesis using x(1) y(1) u(1) v(1) na ng by blast
qed

theorem ecmult_is_horner_witness:
  "\<exists>r. ecmult 3 2 [ge_to_storage ge_const_g] [ge_to_storage ge_const_g] [ge_set_infinity, ge_set_infinity] [fe_impl_set_int 0, fe_impl_set_int 0] (gej_set_ge ge_const_g)
      (scalar_set_int 1) (Some (scalar_set_int 1)) = Some r \<and> gej_is r (Aff (of_nat twice_x) (of_nat twice_y))"
proof -
  let ?G = "Aff (of_nat gx) (of_nat gy)" and ?D = "Aff (of_nat twice_x) (of_nat twice_y)" and ?T = "third_point (of_nat triple_slope) (of_nat gx) (of_nat gy) (of_nat twice_x)"
  let ?one = "(replicate 129 0)[0 := 1] :: int list" and ?zero = "replicate 129 0 :: int list" and ?k = "scalar_set_int 1"
  have k: "sval ?k = 1" using set_int_spec [of 1] by simp
  obtain k1 k2 where s: "scalar_split_lambda ?k = (k1, k2)" by fastforce
  obtain n1 n2 where t: "scalar_split_128 ?k = (n1, n2)" by fastforce
  have e: "sval n1 + 2 ^ 128 * sval n2 = 1" using split_128_spec [OF t] k by simp
  have "sval n2 = 0" using e by (cases "sval n2") simp_all
  then have n: "sval n1 = 1" "sval n2 = 0" using e by simp_all
  have dg: "ecmult_wnaf 129 k1 3 = Some (?one, 1)" "ecmult_wnaf 129 k2 3 = Some (?zero, 0)" "ecmult_wnaf 129 n1 2 = Some (?one, 1)" "ecmult_wnaf 129 n2 2 = Some (?zero, 0)"
    using one_digits [of k1 3] one_digits [of n1 2] zero_digits one_split [OF k s] n by simp_all
  have add: "point_add ?G ?G ?D" using g_tangent twice_g by simp
  let ?ss = "point_digits ?one ?zero [?G, ?T] @ generator_digits ?one ?zero [ge_to_storage ge_const_g] [ge_to_storage ge_const_g]"
  have "horner 1 ?ss Inf ?D" using add inf_left by (force simp: digit_point_def stored_g)
  then have R: "horner 129 ?ss Inf ?D" by (rule horner_more_zeros) (auto simp: nth_list_update)
  have "gej_is (gej_set_ge ge_const_g) ([?G, ?T] ! 0)" using gej_set_ge_is [OF g_is] by simp
  moreover have "\<forall>j. 1 \<le> j \<and> j < 2 \<longrightarrow> point_add ([?G, ?T] ! (j - 1)) ?D ([?G, ?T] ! j)" using triple_g by (auto simp: less_2_cases_iff)
  moreover have "\<forall>j<2. [?G, ?T] ! j \<noteq> Inf" by (auto simp: less_2_cases_iff third_point_def Let_def)
  ultimately show ?thesis
    using ecmult_is_horner [of "gej_set_ge ge_const_g" "[?G, ?T]" ?k 3 2 "[ge_to_storage ge_const_g]" "[ge_to_storage ge_const_g]" "[ge_set_infinity, ge_set_infinity]"
      "[fe_impl_set_int 0, fe_impl_set_int 0]" ?D k1 k2 ?k n1 n2] add s t k dg R by (auto simp: order_def)
qed

end
