(* ===== verification/Ecmult_Gen.thy ===== *)
theory Ecmult_Gen
  imports Ecmult Ecdsa
begin

unbundle bit_operations_syntax

text \<open>
  Multiplication of the generator (\<open>ecmult_gen_impl.h\<close>), which signing and key creation use: a signed-digit comb over precomputed tables, with a blinded scalar. The number
  of blocks and of teeth is configured at compile time; the tables are generated at build time and are arguments here, one list per block.
  Counters of the loops stay below the number of bits of the comb and are numbers.
\<close>

section \<open>The comb\<close>

definition COMB_SPACING :: "nat \<Rightarrow> nat \<Rightarrow> nat" where
  "COMB_SPACING COMB_BLOCKS COMB_TEETH = 1 + (256 - 1) div (COMB_BLOCKS * COMB_TEETH)"

definition COMB_BITS :: "nat \<Rightarrow> nat \<Rightarrow> nat" where
  "COMB_BITS COMB_BLOCKS COMB_TEETH = COMB_BLOCKS * COMB_TEETH * COMB_SPACING COMB_BLOCKS COMB_TEETH"

record ecmult_gen_context =
  gen_built :: bool
  scalar_offset :: secp256k1_scalar
  ge_offset :: secp256k1_ge
  proj_blind :: secp256k1_fe

definition ecmult_gen_scalar_diff :: "nat \<Rightarrow> nat \<Rightarrow> secp256k1_scalar" where
  "ecmult_gen_scalar_diff B T =
     (let neghalf = scalar_negate (scalar_half scalar_one);
          diff = ((\<lambda>diff. fst (scalar_add diff diff)) ^^ (COMB_BITS B T - 1)) scalar_one
      in fst (scalar_add diff neghalf))"

definition rotr32 :: "u32 \<Rightarrow> u32 \<Rightarrow> u32" where
  "rotr32 x amount = drop_bit (unat (amount AND 31)) x OR push_bit (unat (- amount AND 31)) x"

fun toothLoop :: "nat \<Rightarrow> u32 list \<Rightarrow> nat \<Rightarrow> nat \<Rightarrow> nat \<Rightarrow> u32 \<Rightarrow> u32 \<times> nat" where
  "toothLoop S recoded 0 tooth bit_pos bits = (bits, bit_pos)"
| "toothLoop S recoded (Suc n) tooth bit_pos bits =
     (let bitdata = rotr32 (recoded ! drop_bit 5 bit_pos) (of_nat (bit_pos AND 0x1F));
          vmask = NOT (push_bit tooth 1);
          bits = bits AND vmask;
          bits = bits XOR push_bit tooth bitdata
      in toothLoop S recoded n (tooth + 1) (bit_pos + S) bits)"

definition combLookup :: "nat \<Rightarrow> secp256k1_ge_storage list \<Rightarrow> u32 \<Rightarrow> secp256k1_ge_storage \<Rightarrow> secp256k1_ge \<times> secp256k1_ge_storage" where
  "combLookup T tab bits adds =
     (let sign = drop_bit (T - 1) bits AND 1;
          ab = (bits XOR - sign) AND (push_bit (T - 1) 1 - 1);
          adds = foldl (\<lambda>adds index. ge_storage_cmov adds (tab ! index) (of_nat index = ab)) adds [0..<2 ^ (T - 1)];
          add = ge_from_storage adds;
          neg = fe_impl_negate_unchecked (ge_y add) 1
      in (add \<lparr> ge_y := fe_impl_cmov (ge_y add) neg (sign \<noteq> 0) \<rparr>, adds))"

fun blockLoop :: "nat \<Rightarrow> nat \<Rightarrow> u32 list \<Rightarrow> secp256k1_fe \<Rightarrow> secp256k1_ge_storage list list \<Rightarrow> nat \<Rightarrow> secp256k1_ge_storage \<Rightarrow> bool \<Rightarrow> secp256k1_gej \<Rightarrow>
    secp256k1_ge_storage \<times> bool \<times> secp256k1_gej" where
  "blockLoop S T recoded blind [] bit_pos adds first r = (adds, first, r)"
| "blockLoop S T recoded blind (tab # tabs) bit_pos adds first r =
     (let (bits, bit_pos) = toothLoop S recoded T 0 bit_pos 0;
          (add, adds) = combLookup T tab bits adds;
          r = (if first then gej_rescale (gej_set_ge add) blind else gej_add_ge r add)
      in blockLoop S T recoded blind tabs bit_pos adds False r)"

fun combLoop :: "nat \<Rightarrow> nat \<Rightarrow> u32 list \<Rightarrow> secp256k1_fe \<Rightarrow> secp256k1_ge_storage list list \<Rightarrow> nat \<Rightarrow> secp256k1_ge_storage \<Rightarrow> bool \<Rightarrow> secp256k1_gej \<Rightarrow> secp256k1_gej" where
  "combLoop S T recoded blind tabs comb_off adds first r =
     (let (adds, first, r) = blockLoop S T recoded blind tabs comb_off adds first r
      in case comb_off of 0 \<Rightarrow> r | Suc k \<Rightarrow> combLoop S T recoded blind tabs k adds first (gej_double r))"

declare combLoop.simps [simp del]

text \<open>The argument \<open>r\<close> is what the result holds before the call.\<close>

definition ecmult_gen :: "nat \<Rightarrow> nat \<Rightarrow> secp256k1_ge_storage list list \<Rightarrow> ecmult_gen_context \<Rightarrow> secp256k1_gej \<Rightarrow> secp256k1_scalar \<Rightarrow> secp256k1_gej" where
  "ecmult_gen B T prec_table ctx r gn =
     (let d = fst (scalar_add (scalar_offset ctx) gn);
          recoded = map (\<lambda>i. if i < 8 then scalar_get_bits_limb32 d (32 * i) 32 else 0) [0..<drop_bit 5 (COMB_BITS B T + 31)];
          adds = \<lparr> gs_x = \<lparr> st0 = 0, st1 = 0, st2 = 0, st3 = 0 \<rparr>, gs_y = \<lparr> st0 = 0, st1 = 0, st2 = 0, st3 = 0 \<rparr> \<rparr>;
          r = combLoop (COMB_SPACING B T) T recoded (proj_blind ctx) prec_table (COMB_SPACING B T - 1) adds True r
      in gej_add_ge r (ge_offset ctx))"

text \<open>The blinding values; the modular inverse is the parameter \<open>fe_inv\<close>, \<open>junk\<close> what the hash objects hold before, and \<open>gb\<close> what the local point holds.\<close>

definition ecmult_gen_blind :: "nat \<Rightarrow> nat \<Rightarrow> secp256k1_ge_storage list list \<Rightarrow> (secp256k1_fe \<Rightarrow> secp256k1_fe) \<Rightarrow> secp256k1_hmac_sha256 \<times> secp256k1_sha256 \<Rightarrow> secp256k1_gej \<Rightarrow>
    ecmult_gen_context \<Rightarrow> bytes option \<Rightarrow> ecmult_gen_context" where
  "ecmult_gen_blind B T prec_table fe_inv junk gb ctx seed32 =
     (let diff = ecmult_gen_scalar_diff B T in
      case seed32 of
        None \<Rightarrow> ctx \<lparr> ge_offset := ge_neg ge_const_g, scalar_offset := fst (scalar_add scalar_one diff), proj_blind := fe_impl_set_int 1 \<rparr>
      | Some seed32 \<Rightarrow>
          (let keydata = scalar_get_b32 (scalar_offset ctx) @ seed32;
               rng = rfc6979_initialize junk keydata;
               (nonce32, rng) = rfc6979_generate junk 32 rng;
               f = fe_impl_set_b32_mod nonce32;
               f = fe_impl_cmov f (fe_impl_set_int 1) (fe_impl_normalizes_to_zero f);
               ctx = ctx \<lparr> proj_blind := f \<rparr>;
               (nonce32, rng) = rfc6979_generate junk 32 rng;
               b = fst (scalar_set_b32 nonce32);
               b = scalar_cmov b scalar_one (scalar_is_zero b);
               gb = ecmult_gen B T prec_table ctx gb b;
               b = scalar_negate b
           in ctx \<lparr> scalar_offset := fst (scalar_add b diff), ge_offset := fst (ge_set_gej fe_inv gb) \<rparr>))"

definition ecmult_gen_context_build :: "nat \<Rightarrow> nat \<Rightarrow> secp256k1_ge_storage list list \<Rightarrow> (secp256k1_fe \<Rightarrow> secp256k1_fe) \<Rightarrow> secp256k1_hmac_sha256 \<times> secp256k1_sha256 \<Rightarrow> secp256k1_gej \<Rightarrow>
    ecmult_gen_context \<Rightarrow> ecmult_gen_context" where
  "ecmult_gen_context_build B T prec_table fe_inv junk gb ctx = (ecmult_gen_blind B T prec_table fe_inv junk gb ctx None) \<lparr> gen_built := True \<rparr>"

definition ecmult_gen_context_is_built :: "ecmult_gen_context \<Rightarrow> bool" where
  "ecmult_gen_context_is_built ctx = gen_built ctx"

text \<open>Clearing overwrites with zeros, as \<open>secp256k1_memclear\<close> does.\<close>

definition ecmult_gen_context_clear :: "ecmult_gen_context \<Rightarrow> ecmult_gen_context" where
  "ecmult_gen_context_clear ctx =
     \<lparr> gen_built = False, scalar_offset = scalar_zero,
       ge_offset = \<lparr> ge_x = fe_impl_set_int 0, ge_y = fe_impl_set_int 0, ge_infinity = False \<rparr>, proj_blind = fe_impl_set_int 0 \<rparr>"

section \<open>Reading the teeth\<close>

lemma and_31: "(p :: nat) AND 31 = p mod 32" "unat ((x :: u32) AND 31) = unat x mod 32"
  using take_bit_eq_mask [of 5 p] and_mask_mod [of x 5] by (simp_all add: mask_eq_exp_minus_1 take_bit_eq_mod)

lemma negated_amount:
  assumes "q < 32" "unat (- (of_nat q :: u32)) mod 32 = 0"
  shows "q = 0"
proof -
  let ?q = "of_nat q :: u32"
  have "unat ?q = q" using assms(1) by (simp add: unat_of_nat take_bit_eq_mod)
  moreover have "(2 :: nat) ^ 32 dvd unat (- ?q) + unat ?q" using unat_word_ariths(1) [of "- ?q" ?q] by (simp add: dvd_eq_mod_eq_0)
  then have "(32 :: nat) dvd unat (- ?q) + unat ?q" by (rule dvd_trans [rotated]) simp
  moreover have "32 dvd unat (- ?q)" using assms(2) by (simp add: dvd_eq_mod_eq_0)
  ultimately show ?thesis using assms(1) dvd_add_right_iff [of 32 "unat (- ?q)" q] nat_dvd_not_less [of q 32] by auto
qed

lemma rotr32_lowest: "bit (rotr32 x (of_nat (p AND 0x1F))) 0 \<longleftrightarrow> bit x (p mod 32)"
proof -
  have "unat (of_nat (p mod 32) :: u32) = p mod 32" by (simp add: unat_of_nat take_bit_eq_mod)
  then show ?thesis unfolding rotr32_def and_31 bit_or_iff bit_drop_bit_eq bit_push_bit_iff using negated_amount [of "p mod 32"] by (auto simp: comp_def)
qed

text \<open>Each round makes one more bit correct and leaves the ones below.\<close>

definition position_bit :: "u32 list \<Rightarrow> nat \<Rightarrow> bool" where
  "position_bit recoded p \<longleftrightarrow> bit (recoded ! (p div 32)) (p mod 32)"

lemma toothLoop_bits:
  assumes "tooth + n \<le> 32" "\<forall>k<tooth. bit bits k \<longleftrightarrow> f k" "\<forall>k<n. f (tooth + k) \<longleftrightarrow> position_bit recoded (pos + k * S)"
  shows "snd (toothLoop S recoded n tooth pos bits) = pos + n * S \<and> (\<forall>k<tooth + n. bit (fst (toothLoop S recoded n tooth pos bits)) k \<longleftrightarrow> f k)"
  using assms
proof (induction n arbitrary: tooth pos bits)
  case (Suc n)
  let ?bits = "bits AND NOT (push_bit tooth 1) XOR push_bit tooth (rotr32 (recoded ! drop_bit 5 pos) (of_nat (pos AND 0x1F)))"
  have "recoded ! drop_bit 5 pos = recoded ! (pos div 32)" by (simp add: drop_bit_eq_div)
  then have "bit ?bits k \<longleftrightarrow> f k" if "k < Suc tooth" for k
    using that Suc.prems rotr32_lowest [of "recoded ! (pos div 32)" pos]
    by (cases "k = tooth") (auto simp: bit_xor_iff bit_and_iff bit_not_iff bit_push_bit_iff position_bit_def bit_exp_iff)
  moreover have "f (Suc tooth + k) \<longleftrightarrow> position_bit recoded (pos + S + k * S)" if "k < n" for k
    using Suc.prems(3) that by (metis Suc_less_eq add.assoc add_Suc_right add_Suc_shift mult_Suc)
  ultimately show ?case using Suc.prems(1) Suc.IH [of "Suc tooth" ?bits "pos + S"] by (simp add: Let_def algebra_simps)
qed simp


section \<open>Looking up an entry\<close>

text \<open>The table of a block holds the points for digits with the highest tooth down; the others are their reflections.\<close>

definition comb_point :: "nat \<Rightarrow> point list \<Rightarrow> nat \<Rightarrow> point" where
  "comb_point T Ps m = (if m < 2 ^ (T - 1) then Ps ! m else neg_point (Ps ! (2 ^ T - 1 - m)))"

lemma storage_select: "ge_storage_cmov r a flag = (if flag then a else r)"
  by (cases r; cases a) (simp add: ge_storage_cmov_def storage_cmov_spec)

lemma scan_selects:
  assumes "k < n" "n \<le> 2 ^ 31"
  shows "foldl (\<lambda>adds index. ge_storage_cmov adds (tab ! index) (of_nat index = (of_nat k :: u32))) adds [0..<n] = tab ! k"
  using assms
proof (induction n)
  case (Suc n)
  have "(of_nat n = (of_nat k :: u32)) \<longleftrightarrow> n = k" using Suc.prems by (simp add: word_unat_eq_iff unat_of_nat take_bit_eq_mod)
  then show ?case using Suc by (auto simp: storage_select)
qed simp

lemma complement_mod:
  assumes "a < k * m"
  shows "(k * m - 1 - a) mod m = m - 1 - a mod (m :: nat)"
proof -
  have "a div m < k" using assms by (rule less_mult_imp_div_less)
  then obtain t where "k = a div m + 1 + t" using less_iff_Suc_add by auto
  then have "k * m = a div m * m + m + t * m" by (simp add: algebra_simps)
  moreover have "a = a div m * m + a mod m" by (rule div_mult_mod_eq [symmetric])
  moreover have "a mod m < m" using assms by (cases "m = 0") simp_all
  ultimately have "k * m - 1 - a = t * m + (m - 1 - a mod m)" "m - 1 - a mod m < m" by linarith+
  then show ?thesis by simp
qed

lemma unat_flip:
  assumes "w \<le> 32"
  shows "unat (NOT x :: u32) mod 2 ^ w = 2 ^ w - 1 - unat x mod 2 ^ w"
proof -
  have x: "unat x < 2 ^ 32" using unsigned_less [of x] by simp
  then have "x \<le> 0xFFFFFFFF" by (simp add: word_le_nat_alt)
  then have "unat (0xFFFFFFFF - x) = unat (0xFFFFFFFF :: u32) - unat x" by (rule unat_sub)
  moreover have "NOT x = 0xFFFFFFFF - x" by (simp add: not_eq_complement)
  ultimately have n: "unat (NOT x) = 2 ^ 32 - 1 - unat x" by simp
  have e: "(2 :: nat) ^ 32 = 2 ^ (32 - w) * 2 ^ w" using assms by (simp flip: power_add)
  show ?thesis using complement_mod [OF x [unfolded e]] unfolding n e .
qed

lemma of_unat_eq: "unat (x :: u32) = k \<Longrightarrow> x = of_nat k"
  by auto

lemma lookup_index:
  assumes "1 \<le> T" "T \<le> 8" and m: "m = unat bits mod 2 ^ T"
  shows "(bits XOR - (drop_bit (T - 1) bits AND 1)) AND (push_bit (T - 1) 1 - 1) = (of_nat (if m < 2 ^ (T - 1) then m else 2 ^ T - 1 - m) :: u32)"
    and "drop_bit (T - 1) bits AND (1 :: u32) \<noteq> 0 \<longleftrightarrow> \<not> m < 2 ^ (T - 1)"
proof -
  define w where "w = T - 1"
  then have T: "T = Suc w" "w \<le> 31" using assms(1,2) by simp_all
  have s: "drop_bit w bits AND 1 = of_bool (bit bits w)" by (simp add: and_one_eq bit_iff_odd_drop_bit mod_2_eq_odd)
  have m': "m = 2 ^ w * of_bool (bit bits w) + unat bits mod 2 ^ w"
    using take_bit_Suc_from_most [of w "unat bits"] T(2) unfolding m T by (simp add: take_bit_eq_mod bit_unsigned_iff)
  have mask: "push_bit w 1 - 1 = (mask w :: u32)" by (simp add: mask_eq_exp_minus_1 push_bit_eq_mult)
  have r: "unat bits mod 2 ^ w < 2 ^ w" by simp
  show "drop_bit (T - 1) bits AND (1 :: u32) \<noteq> 0 \<longleftrightarrow> \<not> m < 2 ^ (T - 1)"
    unfolding w_def [symmetric] s m' using r by (cases "bit bits w") simp_all
  have "unat ((bits XOR - of_bool (bit bits w)) AND mask w) = (if m < 2 ^ w then m else 2 ^ T - 1 - m)"
    unfolding and_mask_mod using r T unat_flip [of w bits] by (cases "bit bits w") (simp_all add: m')
  then show "(bits XOR - (drop_bit (T - 1) bits AND 1)) AND (push_bit (T - 1) 1 - 1) = (of_nat (if m < 2 ^ (T - 1) then m else 2 ^ T - 1 - m) :: u32)"
    unfolding w_def [symmetric] s mask by (rule of_unat_eq)
qed


lemma comb_entry:
  assumes "1 \<le> T" "T \<le> 8" "length tab = 2 ^ (T - 1)" and m: "m = unat bits mod 2 ^ T"
  shows "ge_is (fst (combLookup T tab bits adds)) (comb_point T (stored_points tab) m)"
proof -
  define k where "k = (if m < 2 ^ (T - 1) then m else 2 ^ T - 1 - m)"
  have T: "(2 :: nat) ^ T = 2 * 2 ^ (T - 1)" using assms(1) by (cases T) simp_all
  have k: "k < 2 ^ (T - 1)" unfolding k_def T using zero_less_power [of "2 :: nat" "T - 1"] by (cases "m < 2 ^ (T - 1)") (simp, simp only: if_False, linarith)
  have le: "(2 :: nat) ^ (T - 1) \<le> 2 ^ 31" using assms(2) by (intro power_increasing) simp_all
  let ?n = "if m < 2 ^ (T - 1) then 2 * int k + 1 else - (2 * int k + 1)"
  note I = lookup_index [OF assms(1,2) m, folded k_def]
  have "nat ((\<bar>?n\<bar> - 1) div 2) = k" by simp
  moreover have "fst (combLookup T tab bits adds) = ecmult_table_get_ge_storage tab ?n"
    unfolding combLookup_def Let_def I scan_selects [OF k le] cmov_spec_fe ecmult_table_get_ge_storage_def fst_conv by auto
  ultimately have "entry_is (fst (combLookup T tab bits adds)) 1 (comb_point T (stored_points tab) m)"
    using table_get_ge_storage_is [OF refl refl, of tab ?n] k assms(3) by (simp add: comb_point_def stored_points_def k_def split: if_splits)
  then show ?thesis using entry_is_ge [of _ 1] by (cases "comb_point T (stored_points tab) m") fastforce+
qed

section \<open>The loops add along the comb\<close>

text \<open>
  The digit of a block at an offset is read from teeth at the distance of the spacing. The constant-time addition asks for points of the curve, a finite second one, and a
  sum of ordinates that is zero or invertible; of a prime field the last always holds.
\<close>

definition comb_digit :: "nat \<Rightarrow> nat \<Rightarrow> nat \<Rightarrow> nat \<Rightarrow> nat \<Rightarrow> nat" where
  "comb_digit S T d b i = (\<Sum>t<T. of_bool (bit d ((b * T + t) * S + i)) * 2 ^ t)"

definition comb_row :: "nat \<Rightarrow> nat \<Rightarrow> nat \<Rightarrow> nat \<Rightarrow> secp256k1_ge_storage list list \<Rightarrow> nat \<Rightarrow> point list" where
  "comb_row S T d b tabs i = map (\<lambda>(b, tab). comb_point T (stored_points tab) (comb_digit S T d b i)) (enumerate b tabs)"

definition complete_add :: "point \<Rightarrow> point \<Rightarrow> point \<Rightarrow> bool" where
  "complete_add P Q R \<longleftrightarrow> point_add P Q R \<and> on_curve P \<and> on_curve Q \<and>
     (case (P, Q) of (_, Inf) \<Rightarrow> False | (Inf, _) \<Rightarrow> True | (Aff x y, Aff x' y') \<Rightarrow> y + y' = 0 \<or> invertible (y + y'))"

fun complete_adds :: "point list \<Rightarrow> point \<Rightarrow> point \<Rightarrow> bool" where
  "complete_adds [] Q R \<longleftrightarrow> R = Q"
| "complete_adds (P # Ps) Q R \<longleftrightarrow> (\<exists>T. complete_add Q P T \<and> complete_adds Ps T R)"

fun comb :: "(nat \<Rightarrow> point list) \<Rightarrow> nat \<Rightarrow> point \<Rightarrow> point \<Rightarrow> bool" where
  "comb rows 0 Q R \<longleftrightarrow> complete_adds (rows 0) Q R"
| "comb rows (Suc i) Q R \<longleftrightarrow> (\<exists>T D. complete_adds (rows (Suc i)) Q T \<and> point_add T T D \<and> comb rows i D R)"

lemma complete_add_is: "gej_is r P \<Longrightarrow> ge_is a Q \<Longrightarrow> complete_add P Q R \<Longrightarrow> gej_is (gej_add_ge r a) R"
  by (cases Q) (auto simp: complete_add_def split: point.splits intro!: add_ge_is)

lemma gathered_digit:
  assumes "T \<le> 32" "\<forall>t<T. position_bit recoded (b * T * S + i + t * S) \<longleftrightarrow> bit d ((b * T + t) * S + i)"
  shows "unat (fst (toothLoop S recoded T 0 (b * T * S + i) 0)) mod 2 ^ T = comb_digit S T d b i"
    and "snd (toothLoop S recoded T 0 (b * T * S + i) 0) = Suc b * T * S + i"
proof -
  let ?r = "toothLoop S recoded T 0 (b * T * S + i) 0"
  have r: "snd ?r = b * T * S + i + T * S \<and> (\<forall>k<0 + T. bit (fst ?r) k \<longleftrightarrow> bit d ((b * T + k) * S + i))"
    using assms by (intro toothLoop_bits) auto
  then show "snd ?r = Suc b * T * S + i" by (simp add: algebra_simps)
  have "unat (fst ?r) mod 2 ^ T = (\<Sum>t<T. of_bool (bit (fst ?r) t) * 2 ^ t)"
    using take_bit_sum [of T "unat (fst ?r)"] by (simp add: take_bit_eq_mod push_bit_eq_mult bit_unat atLeast0LessThan)
  also have "\<dots> = comb_digit S T d b i" unfolding comb_digit_def using r by (intro sum.cong) simp_all
  finally show "unat (fst ?r) mod 2 ^ T = comb_digit S T d b i" .
qed


lemma blockLoop_is:
  assumes T: "1 \<le> T" "T \<le> 8" and c: "fe_is 8 c blind" "invertible c" and i: "i < S"
  shows "\<forall>tab \<in> set tabs. length tab = 2 ^ (T - 1) \<Longrightarrow> \<forall>p<(b + length tabs) * T * S. position_bit recoded p \<longleftrightarrow> bit d p \<Longrightarrow>
    if first then Q = Inf else gej_is r Q \<Longrightarrow> complete_adds (comb_row S T d b tabs i) Q R \<Longrightarrow>
    blockLoop S T recoded blind tabs (b * T * S + i) adds first r = (adds', first', r') \<Longrightarrow>
    (first' \<longleftrightarrow> first \<and> tabs = []) \<and> (if first' then R = Inf else gej_is r' R)"
proof (induction tabs arbitrary: b Q adds first r)
  case (Cons tab tabs)
  have "position_bit recoded (b * T * S + i + t * S) \<longleftrightarrow> bit d ((b * T + t) * S + i)" if "t < T" for t
  proof -
    have "Suc t * S \<le> T * S" using that by (intro mult_le_mono1) simp
    then have "t * S + i < T * S" using i by simp
    then have "b * T * S + i + t * S < (b + length (tab # tabs)) * T * S" by (simp add: algebra_simps)
    moreover have "b * T * S + i + t * S = (b * T + t) * S + i" by (simp add: algebra_simps)
    ultimately show ?thesis using Cons.prems(2) by metis
  qed
  then have g: "unat (fst (toothLoop S recoded T 0 (b * T * S + i) 0)) mod 2 ^ T = comb_digit S T d b i"
    "snd (toothLoop S recoded T 0 (b * T * S + i) 0) = Suc b * T * S + i" using T(2) gathered_digit [of T recoded b S i d] by simp_all
  obtain bits add adds1 where l: "toothLoop S recoded T 0 (b * T * S + i) 0 = (bits, Suc b * T * S + i)" "combLookup T tab bits adds = (add, adds1)"
    using g(2) by (metis prod.collapse)
  let ?P = "comb_point T (stored_points tab) (comb_digit S T d b i)"
  let ?r = "if first then gej_rescale (gej_set_ge add) blind else gej_add_ge r add"
  have a: "ge_is add ?P" using comb_entry [OF T, of tab "comb_digit S T d b i" bits adds] Cons.prems(1) g(1) l by simp
  obtain M where M: "complete_add Q ?P M" "complete_adds (comb_row S T d (Suc b) tabs i) M R" using Cons.prems(4) by (auto simp: comb_row_def)
  have "gej_is ?r M"
  proof (cases first)
    case True
    then have "M = ?P" using M(1) Cons.prems(3) point_add_inf(1) by (simp add: complete_add_def)
    then show ?thesis using True gej_rescale_is [OF gej_set_ge_is [OF a] c] by simp
  qed (use complete_add_is [OF _ a M(1)] Cons.prems(3) in simp)
  moreover have "blockLoop S T recoded blind tabs (Suc b * T * S + i) adds1 False ?r = (adds', first', r')" using Cons.prems(5) l by (simp add: Let_def)
  ultimately show ?case using Cons.IH [where b = "Suc b" and first = False and Q = M and r = ?r and adds = adds1] Cons.prems(1,2) M(2) by (simp add: algebra_simps)
qed (auto simp: comb_row_def)

lemma gej_double_infinity:
  assumes "gej_is a Inf"
  shows "gej_is (gej_double a) Inf"
proof -
  have a: "magnitude 4 (gj_x a)" "magnitude 4 (gj_y a)" "magnitude 1 (gj_z a)" "gj_infinity a" using assms by (simp_all add: gej_is_def gej_ok_def)
  let ?s = "fe_impl_sqr (gj_y a)" and ?m = "fe_impl_mul_int_unchecked (fe_impl_sqr (gj_x a)) 3"
  let ?t = "fe_impl_mul (fe_impl_negate_unchecked ?s 1) (gj_x a)"
  have s: "fe_is 1 (fe_val (gj_y a) * fe_val (gj_y a)) ?s" by (rule fe_is_sqr [OF fe_self [OF a(2)]]) simp
  have t: "fe_is 1 (- (fe_val (gj_y a) * fe_val (gj_y a)) * fe_val (gj_x a)) ?t" by (rule fe_is_mul [OF fe_is_neg [OF s refl] fe_self [OF a(1)]]) simp_all
  have "fe_is 3 (fe_val (gj_x a) * fe_val (gj_x a) * of_nat (unat (3 :: u64))) ?m" by (rule fe_is_mul_int [OF fe_is_sqr [OF fe_self [OF a(1)]]]) simp_all
  then have l: "fe_is 2 (fe_val (fe_impl_half ?m)) (fe_impl_half ?m)" using fe_val_half [of 3 ?m] by (intro fe_is_half [of 3]) (simp_all add: fe_is_def)
  note x3 = fe_is_add [OF fe_is_add [OF fe_is_sqr [OF l] t refl] t refl]
  note y3 = fe_is_neg [OF fe_is_add [OF fe_is_mul [OF fe_is_add [OF t x3 refl] l] fe_is_sqr [OF s] refl] refl, of 2]
  note z3 = fe_is_mul [OF fe_self [OF a(3)] fe_self [OF a(2)]]
  show ?thesis using fe_mag_of [OF x3, of 4] fe_mag_of [OF y3, of 4] fe_mag_of [OF z3, of 1] a(4)
    unfolding gej_is_def gej_ok_def gej_double_def Let_def by simp
qed

lemma gej_double_point:
  assumes "gej_is r P" "point_add P P D"
  shows "gej_is (gej_double r) D"
proof (cases P)
  case Inf
  then show ?thesis using assms gej_double_infinity [of r] point_add_inf(1) [of Inf D] by simp
next
  case (Aff x y)
  then show ?thesis using assms double_is [of r x y] point_add_same [of x y D] by blast
qed

lemma combLoop_is:
  assumes T: "1 \<le> T" "T \<le> 8" and c: "fe_is 8 c blind" "invertible c" and tabs: "tabs \<noteq> []" "\<forall>tab \<in> set tabs. length tab = 2 ^ (T - 1)"
    and d: "\<forall>p<length tabs * T * S. position_bit recoded p \<longleftrightarrow> bit d p"
  shows "i < S \<Longrightarrow> if first then Q = Inf else gej_is r Q \<Longrightarrow> comb (comb_row S T d 0 tabs) i Q R \<Longrightarrow> gej_is (combLoop S T recoded blind tabs i adds first r) R"
proof (induction i arbitrary: Q adds first r)
  case 0
  obtain adds' first' r' where b: "blockLoop S T recoded blind tabs 0 adds first r = (adds', first', r')" by (metis prod_cases3)
  then show ?case using blockLoop_is [OF T c 0(1) tabs(2), of 0 recoded d first Q r R] 0 d tabs(1) by (subst combLoop.simps) (force split: if_splits)
next
  case (Suc i)
  obtain adds' first' r' where b: "blockLoop S T recoded blind tabs (Suc i) adds first r = (adds', first', r')" by (metis prod_cases3)
  obtain M D where M: "complete_adds (comb_row S T d 0 tabs (Suc i)) Q M" "point_add M M D" "comb (comb_row S T d 0 tabs) i D R" using Suc.prems(3) by auto
  have "\<not> first' \<and> gej_is r' M" using blockLoop_is [OF T c Suc.prems(1) tabs(2), of 0 recoded d first Q r M] Suc.prems(2) d tabs(1) b M(1) by (force split: if_splits)
  then show ?case using Suc.IH [where first = False and r = "gej_double r'" and Q = D and adds = adds'] gej_double_point [OF _ M(2)] Suc.prems(1) M(3) by (subst combLoop.simps) (simp add: b)
qed


section \<open>What the digits stand for\<close>

text \<open>An entry of the table stands for the sum of its teeth, each with its sign, as a multiple of half the generator.\<close>

definition comb_weight :: "nat \<Rightarrow> nat \<Rightarrow> nat \<Rightarrow> nat \<Rightarrow> int" where
  "comb_weight S T b m = (\<Sum>t<T. (2 * of_bool (bit m t) - 1) * 2 ^ ((b * T + t) * S))"

lemma comb_digit_bit: "t < T \<Longrightarrow> bit (comb_digit S T d b i) t \<longleftrightarrow> bit d ((b * T + t) * S + i)"
proof -
  let ?bs = "map (\<lambda>t. bit d ((b * T + t) * S + i)) [0..<T]"
  have "comb_digit S T d b i = horner_sum of_bool 2 ?bs" unfolding comb_digit_def horner_sum_eq_sum by (intro sum.cong) (simp_all add: atLeast0LessThan)
  then show "t < T \<Longrightarrow> ?thesis" by (simp add: bit_horner_sum_bit_iff)
qed

lemma sum_in_groups:
  fixes f :: "nat \<Rightarrow> int"
  shows "(\<Sum>m<n. \<Sum>t<k. f (m * k + t)) = sum f {..<n * k}"
proof -
  have "(\<Sum>t<k. f (m * k + t)) = sum f {m * k..<m * k + k}" for m
    using sum.shift_bounds_nat_ivl [of f 0 "m * k" k] by (simp add: atLeast0LessThan add.commute)
  then show ?thesis by (simp add: sum.nat_group)
qed

lemma signed_bits: "(\<Sum>j<n. (2 * of_bool (bit d j) - 1) * 2 ^ j) = 2 * int (take_bit n d) - (2 ^ n - 1)"
  by (induction n) (simp_all add: take_bit_Suc_from_most algebra_simps)

lemma comb_value: "(\<Sum>i<S. 2 ^ i * (\<Sum>b<B. comb_weight S T b (comb_digit S T d b i))) = 2 * int (take_bit (B * T * S) d) - (2 ^ (B * T * S) - 1)"
proof -
  let ?h = "\<lambda>j. (2 * of_bool (bit d j) - 1) * (2 :: int) ^ j"
  have "2 ^ i * comb_weight S T b (comb_digit S T d b i) = (\<Sum>t<T. ?h ((b * T + t) * S + i))" for b i
    unfolding comb_weight_def sum_distrib_left by (intro sum.cong) (simp_all add: comb_digit_bit power_add mult_ac)
  then have "(\<Sum>i<S. 2 ^ i * (\<Sum>b<B. comb_weight S T b (comb_digit S T d b i))) = (\<Sum>i<S. \<Sum>b<B. \<Sum>t<T. ?h ((b * T + t) * S + i))"
    by (simp only: sum_distrib_left)
  also have "\<dots> = (\<Sum>i<S. \<Sum>q<B * T. ?h (q * S + i))" by (simp only: sum_in_groups [where f = "\<lambda>q. ?h (q * S + _)"])
  also have "\<dots> = (\<Sum>q<B * T. \<Sum>i<S. ?h (q * S + i))" by (rule sum.swap)
  also have "\<dots> = (\<Sum>j<B * T * S. ?h j)" by (rule sum_in_groups)
  finally show ?thesis unfolding signed_bits .
qed

lemma comb_covers: "1 \<le> B \<Longrightarrow> 1 \<le> T \<Longrightarrow> 256 \<le> COMB_BITS B T"
proof -
  assume "1 \<le> B" "1 \<le> T"
  then have "0 < B * T" by simp
  then have "255 < B * T * (1 + 255 div (B * T))" using dividend_less_times_div [of "B * T" 255] by (simp add: algebra_simps)
  then show ?thesis by (simp add: COMB_BITS_def COMB_SPACING_def)
qed

lemma half_limb_window: "(32 * k + 32 - 1) div 64 = 32 * k div (64 :: nat)"
proof -
  have "(32 * k + 31) div 32 = k" by simp
  then have "(32 * k + 31) div (32 * 2) = 32 * k div (32 * 2)" by (simp only: div_mult2_eq)
  then show ?thesis by simp
qed

lemma recoded_bit:
  assumes "p < n"
  shows "position_bit (map (\<lambda>i. if i < 8 then scalar_get_bits_limb32 d (32 * i) 32 else 0) [0..<drop_bit 5 (n + 31)]) p \<longleftrightarrow> bit (sval d) p"
proof -
  have l: "p div 32 < drop_bit 5 (n + 31)" using assms by (simp add: drop_bit_eq_div less_eq_div_iff_mult_less_eq Suc_le_eq [symmetric])
  show ?thesis
  proof (cases "p div 32 < 8")
    case True
    then have "unat (scalar_get_bits_limb32 d (32 * (p div 32)) 32) = sval d div 2 ^ (32 * (p div 32)) mod 2 ^ 32" using half_limb_window by (intro get_bits_spec(2)) simp_all
    then have "unat (scalar_get_bits_limb32 d (32 * (p div 32)) 32) = take_bit 32 (drop_bit (32 * (p div 32)) (sval d))" by (simp add: take_bit_eq_mod drop_bit_eq_div)
    then have "bit (scalar_get_bits_limb32 d (32 * (p div 32)) 32) (p mod 32) \<longleftrightarrow> bit (sval d) p"
      unfolding bit_unat [symmetric] by (simp add: bit_take_bit_iff bit_drop_bit_eq)
    then show ?thesis using True l by (simp add: position_bit_def)
  next
    case False
    have "sval d < 2 ^ 256" by (rule sval_less)
    then have "take_bit 256 (sval d) = sval d" by (simp add: take_bit_nat_eq_self_iff)
    moreover have "256 \<le> p" using False by simp
    ultimately have "\<not> bit (sval d) p" by (metis bit_take_bit_iff linorder_not_less)
    then show ?thesis using False l by (simp add: position_bit_def)
  qed
qed


section \<open>Offsets\<close>

lemma scalar_one_val: "sval scalar_one = 1" "1 < order"
  by (simp_all add: scalar_one_def sval_def order_def)

lemma doubled: "sval (((\<lambda>x. fst (scalar_add x x)) ^^ n) scalar_one) = 2 ^ n mod order"
proof (induction n)
  case 0
  show ?case using scalar_one_val by simp
next
  case (Suc n)
  then have "sval (((\<lambda>x. fst (scalar_add x x)) ^^ n) scalar_one) < order" using scalar_one_val(2) by simp
  then show ?case using Suc add_spec by (simp add: mod_mult_right_eq flip: mult_2)
qed

lemma twice_mod: "(2 * (y mod n) + u) mod n = (2 * y + u) mod (n :: int)"
  by (metis mod_add_left_eq mod_mult_right_eq)

lemma scalar_diff_spec:
  assumes "0 < COMB_BITS B T"
  shows "sval (ecmult_gen_scalar_diff B T) < order" "(2 * int (sval (ecmult_gen_scalar_diff B T))) mod int order = (2 ^ COMB_BITS B T - 1) mod int order"
proof -
  define N h where "N = COMB_BITS B T - 1" and "h = sval (scalar_half scalar_one)"
  let ?p = "((\<lambda>x. fst (scalar_add x x)) ^^ N) scalar_one" and ?n = "scalar_negate (scalar_half scalar_one)"
  have h: "(2 * h) mod order = 1" "h < order" using half_spec_scalar [of scalar_one] scalar_one_val by (simp_all add: h_def)
  then have h0: "h \<noteq> 0" using scalar_one_val(2) by (cases "h = 0") simp_all
  then have n: "sval ?n = order - h" using negate_spec [of "scalar_half scalar_one"] h(2) by (simp add: h_def)
  have p: "sval ?p = 2 ^ N mod order" by (rule doubled)
  have N: "(2 :: int) ^ COMB_BITS B T = 2 * 2 ^ N" unfolding N_def using assms by (metis Suc_pred' power_Suc)
  have d: "sval (ecmult_gen_scalar_diff B T) = (2 ^ N mod order + (order - h)) mod order"
    using add_spec [of ?p ?n] p n h0 scalar_one_val(2) by (simp add: ecmult_gen_scalar_diff_def N_def)
  then show "sval (ecmult_gen_scalar_diff B T) < order" using scalar_one_val(2) by simp
  have "(2 * int (sval (ecmult_gen_scalar_diff B T))) mod int order = (2 * (2 ^ N - int h)) mod int order"
  proof -
    have "(2 * int ((2 ^ N mod order + (order - h)) mod order)) mod int order = (2 * (2 ^ N mod int order) + (2 * int order - 2 * int h)) mod int order"
      using h(2) by (simp add: zmod_int of_nat_diff mod_mult_right_eq algebra_simps)
    also have "\<dots> = (2 * (2 ^ N - int h) + int order * 2) mod int order" unfolding twice_mod by (simp add: algebra_simps)
    finally show ?thesis unfolding d mod_mult_self2 .
  qed
  also have "\<dots> = (2 ^ COMB_BITS B T - int (2 * h)) mod int order" unfolding N by (simp add: right_diff_distrib)
  also have "\<dots> = (2 ^ COMB_BITS B T - int (2 * h mod order)) mod int order" by (simp only: zmod_int mod_diff_right_eq)
  finally show "(2 * int (sval (ecmult_gen_scalar_diff B T))) mod int order = (2 ^ COMB_BITS B T - 1) mod int order" unfolding h by simp
qed

lemma comb_scalar:
  assumes "sval gn < order" "sval x < order" "(2 * (int (sval x) + b)) mod int order = M mod int order"
  shows "(2 * int ((sval x + sval gn) mod order) - M + 2 * b) mod int order = (2 * int (sval gn)) mod int order"
proof -
  define y where "y = int (sval x) + int (sval gn)"
  have y: "int ((sval x + sval gn) mod order) = y mod int order" by (simp add: y_def zmod_int)
  have "(2 * (y mod int order) + (2 * b - M)) mod int order = (2 * y + (2 * b - M)) mod int order" by (rule twice_mod)
  then have "(2 * int ((sval x + sval gn) mod order) - M + 2 * b) mod int order = (2 * (int (sval x) + b) - M + 2 * int (sval gn)) mod int order"
    unfolding y y_def by (simp add: algebra_simps)
  also have "\<dots> = (M - M + 2 * int (sval gn)) mod int order" by (rule mod_add_cong [OF mod_diff_cong [OF assms(3) refl] refl])
  finally show ?thesis by simp
qed

text \<open>
  C26. Multiplication of the generator: the digits read from the blinded scalar stand for twice it less all ones, so that with the blinding value of the context they stand for
  twice the scalar asked for, in units of half the generator; and the result is what the comb gives in the group law along these digits, from the tables of the blocks,
  plus the point of the context.
\<close>
theorem ecmult_gen_is_comb:
  assumes "1 \<le> B" "1 \<le> T" "T \<le> 8" "length tabs = B" "\<forall>tab \<in> set tabs. length tab = 2 ^ (T - 1)" "sval gn < order" "sval (scalar_offset ctx) < order"
    "fe_is 8 c (proj_blind ctx)" "invertible c" "ge_is (ge_offset ctx) Q"
    "S = COMB_SPACING B T" "d = (sval (scalar_offset ctx) + sval gn) mod order" "v = (\<Sum>i<S. 2 ^ i * (\<Sum>b<B. comb_weight S T b (comb_digit S T d b i)))"
  shows "v = 2 * int d - (2 ^ COMB_BITS B T - 1) \<and>
    (\<forall>b. (2 * (int (sval (scalar_offset ctx)) + b)) mod int order = (2 ^ COMB_BITS B T - 1) mod int order \<longrightarrow> (v + 2 * b) mod int order = (2 * int (sval gn)) mod int order) \<and>
    (\<forall>C R. comb (comb_row S T d 0 tabs) (S - 1) Inf C \<and> complete_add C Q R \<longrightarrow> gej_is (ecmult_gen B T tabs ctx r gn) R)"
proof -
  let ?d = "fst (scalar_add (scalar_offset ctx) gn)"
  have d: "sval ?d = d" using add_spec [OF assms(7,6)] assms(12) by simp
  have N: "COMB_BITS B T = B * T * S" using assms(11) by (simp add: COMB_BITS_def)
  have "d < 2 ^ 256" using sval_less [of ?d] d by simp
  also have "(2 :: nat) ^ 256 \<le> 2 ^ (B * T * S)" using comb_covers [OF assms(1,2)] N by (intro power_increasing) simp_all
  finally have "take_bit (B * T * S) d = d" by (simp add: take_bit_nat_eq_self_iff)
  then have v: "v = 2 * int d - (2 ^ COMB_BITS B T - 1)" using comb_value [where S = S and B = B and T = T and d = d] assms(13) N by simp
  have S: "S - 1 < S" using assms(11) by (simp add: COMB_SPACING_def)
  have "gej_is (ecmult_gen B T tabs ctx r gn) R" if C: "comb (comb_row S T d 0 tabs) (S - 1) Inf C" "complete_add C Q R" for C R
  proof -
    have "gej_is (combLoop S T (map (\<lambda>i. if i < 8 then scalar_get_bits_limb32 ?d (32 * i) 32 else 0) [0..<drop_bit 5 (COMB_BITS B T + 31)]) (proj_blind ctx) tabs (S - 1)
        \<lparr> gs_x = \<lparr> st0 = 0, st1 = 0, st2 = 0, st3 = 0 \<rparr>, gs_y = \<lparr> st0 = 0, st1 = 0, st2 = 0, st3 = 0 \<rparr> \<rparr> True r) C"
      using assms(1,4) recoded_bit [of _ "COMB_BITS B T" ?d] d N C(1) by (intro combLoop_is [OF assms(2,3,8,9) _ assms(5) _ S, where d = d and Q = Inf]) auto
    then show ?thesis unfolding ecmult_gen_def Let_def assms(11) [symmetric] using complete_add_is [OF _ assms(10) C(2)] by blast
  qed
  then show ?thesis using v comb_scalar [OF assms(6,7), of _ "2 ^ COMB_BITS B T - 1"] assms(12) by blast
qed


text \<open>With two blocks of eight teeth, all entries the generator, and lower half all ones, every row adds the generator and its opposite.\<close>

definition sample_scalar :: secp256k1_scalar where
  "sample_scalar = \<lparr> d0 = 0xFFFFFFFFFFFFFFFF, d1 = 0xFFFFFFFFFFFFFFFF, d2 = 0, d3 = 0 \<rparr>"

definition sample_context :: ecmult_gen_context where
  "sample_context = \<lparr> gen_built = True, scalar_offset = scalar_zero, ge_offset = ge_const_g, proj_blind = fe_impl_set_int 1 \<rparr>"

lemma comb_infinite: "(\<And>i. i \<le> n \<Longrightarrow> complete_adds (rows i) Inf Inf) \<Longrightarrow> comb rows n Inf Inf"
  by (induction n) (auto intro: inf_left)

lemma sample_digits:
  assumes "i < 16"
  shows "comb_digit 16 8 (2 ^ 128 - 1) 0 i = 255" "comb_digit 16 8 (2 ^ 128 - 1) 1 i = 0"
proof -
  have b: "bit (2 ^ 128 - 1 :: nat) j \<longleftrightarrow> j < 128" for j using bit_mask_iff [of 128 j, where 'a = nat] by (simp add: mask_eq_exp_minus_1)
  have "comb_digit 16 8 (2 ^ 128 - 1) 0 i = (\<Sum>t<8. 2 ^ t)" unfolding comb_digit_def b using assms by (intro sum.cong) auto
  then show "comb_digit 16 8 (2 ^ 128 - 1) 0 i = 255" using sum_power2 [of 8] by (simp add: atLeast0LessThan)
  show "comb_digit 16 8 (2 ^ 128 - 1) 1 i = 0" unfolding comb_digit_def b by simp
qed

lemma g_not_opposite: "- of_nat gy \<noteq> (of_nat gy :: fp)"
proof
  assume "- of_nat gy = (of_nat gy :: fp)"
  then have "of_nat (2 * gy) = (of_nat 0 :: fp)" by (simp add: eq_neg_iff_add_eq_0 [symmetric])
  then show False unfolding of_nat_fp_eq by (simp add: gy_def field_p_def)
qed

theorem ecmult_gen_is_comb_witness:
  "gej_is (ecmult_gen 2 8 [replicate 128 (ge_to_storage ge_const_g), replicate 128 (ge_to_storage ge_const_g)] sample_context gej_set_infinity sample_scalar) (Aff (of_nat gx) (of_nat gy))"
proof -
  let ?tabs = "[replicate 128 (ge_to_storage ge_const_g), replicate 128 (ge_to_storage ge_const_g)]" and ?G = "Aff (of_nat gx) (of_nat gy)" and ?d = "2 ^ 128 - 1 :: nat"
  have one: "fe_is 8 1 (fe_impl_set_int 1)" "invertible 1" using fe_is_mono [OF fe_is_set_int [of 1], of 8] by (simp_all add: invertible_def)
  have S: "COMB_SPACING 2 8 = 16" by (simp add: COMB_SPACING_def)
  have d: "sval sample_scalar = ?d" "sval scalar_zero = 0" "?d < order" "(0 + ?d) mod order = ?d" by (simp_all add: sval_def sample_scalar_def scalar_zero_def order_def)
  have sp: "stored_points (replicate 128 (ge_to_storage ge_const_g)) = replicate 128 ?G" using stored_g by (simp add: stored_points_def)
  have row: "comb_row 16 8 ?d 0 ?tabs i = [neg_point ?G, ?G]" if "i < 16" for i
    using sample_digits [OF that] by (simp add: comb_row_def comb_point_def sp)
  have "on_curve (neg_point ?G)" using g_on_curve by (simp add: on_curve_def)
  then have "complete_add Inf (neg_point ?G) (neg_point ?G)" "complete_add (neg_point ?G) ?G Inf"
    using g_on_curve opposite [OF g_not_opposite] by (simp_all add: complete_add_def inf_left on_curve_def)
  then have "complete_adds [neg_point ?G, ?G] Inf Inf" by auto
  then have "comb (comb_row 16 8 ?d 0 ?tabs) (16 - 1) Inf Inf" using row by (intro comb_infinite) simp
  moreover have "complete_add Inf ?G ?G" using g_on_curve by (simp add: complete_add_def inf_left on_curve_def)
  ultimately show ?thesis
    using ecmult_gen_is_comb [of 2 8 ?tabs sample_scalar sample_context 1 ?G 16 ?d _ gej_set_infinity] one S d g_is by (simp add: sample_context_def)
qed


section \<open>Blinding\<close>

text \<open>The offset of the scalar is \<open>(2\<^bsup>COMB_BITS\<^esup> - 1) / 2 - b\<close>, for the \<open>b\<close> whose multiple of the generator is the offset of the point.\<close>

definition blinded_by :: "nat \<Rightarrow> nat \<Rightarrow> ecmult_gen_context \<Rightarrow> int \<Rightarrow> bool" where
  "blinded_by B T ctx b \<longleftrightarrow> sval (scalar_offset ctx) < order \<and> (2 * (int (sval (scalar_offset ctx)) + b)) mod int order = (2 ^ COMB_BITS B T - 1) mod int order"

lemma offset_blinded:
  assumes "1 \<le> B" "1 \<le> T" "sval x < order" "scalar_offset ctx = fst (scalar_add x (ecmult_gen_scalar_diff B T))" "(int (sval x) + b) mod int order = 0"
  shows "blinded_by B T ctx b"
proof -
  let ?D = "ecmult_gen_scalar_diff B T"
  have "0 < COMB_BITS B T" using comb_covers [OF assms(1,2)] by simp
  note D = scalar_diff_spec [OF this]
  have o: "sval (scalar_offset ctx) = (sval x + sval ?D) mod order" using add_spec [OF assms(3) D(1)] assms(4) by simp
  have "(2 * (int (sval (scalar_offset ctx)) + b)) mod int order = (2 * ((int (sval x) + int (sval ?D)) mod int order) + 2 * b) mod int order"
    unfolding o by (simp add: zmod_int)
  also have "\<dots> = (2 * (int (sval x) + b) + 2 * int (sval ?D)) mod int order" unfolding twice_mod by (simp add: algebra_simps)
  also have "\<dots> = (2 * ((int (sval x) + b) mod int order) + 2 * int (sval ?D)) mod int order" unfolding twice_mod ..
  finally show ?thesis unfolding assms(5) blinded_by_def using D(2) o scalar_one_val(2) by simp
qed

text \<open>
  Blinding keeps the equation of the context: a freshly built context is blinded by minus one, with the generator's opposite as offset and no rescaling; blinding with a seed
  draws a non-zero factor for the coordinates and a non-zero scalar, the context is then blinded by it, and the point added in the end is its product with the generator,
  computed with the values the context had before.
\<close>
theorem ecmult_gen_blinding:
  assumes "1 \<le> B" "1 \<le> T" "buffers junk"
    "built = ecmult_gen_context_build B T tabs fe_inv junk gb ctx" "ctx' = ecmult_gen_blind B T tabs fe_inv junk gb ctx (Some seed32)"
  shows "ecmult_gen_context_is_built built \<and> blinded_by B T built (- 1) \<and> ge_is (ge_offset built) (neg_point (Aff (of_nat gx) (of_nat gy))) \<and> fe_is 1 1 (proj_blind built) \<and>
    (\<exists>b. 0 < sval b \<and> sval b < order \<and> blinded_by B T ctx' (int (sval b)) \<and> (ecmult_gen_context_is_built ctx' \<longleftrightarrow> ecmult_gen_context_is_built ctx) \<and>
      magnitude 1 (proj_blind ctx') \<and> fe_val (proj_blind ctx') \<noteq> 0 \<and>
      ge_offset ctx' = fst (ge_set_gej fe_inv (ecmult_gen B T tabs (ctx \<lparr> proj_blind := proj_blind ctx' \<rparr>) gb b)))"
proof -
  have one: "sval scalar_one < order" "(int (sval scalar_one) + - 1) mod int order = 0" using scalar_one_val by simp_all
  have "blinded_by B T built (- 1)" using assms(4) by (intro offset_blinded [OF assms(1,2) one(1) _ one(2)]) (simp add: ecmult_gen_context_build_def ecmult_gen_blind_def)
  moreover have "fe_is 1 1 (fe_impl_set_int 1)" using fe_is_set_int [of 1] by simp
  ultimately have built: "ecmult_gen_context_is_built built \<and> blinded_by B T built (- 1) \<and> ge_is (ge_offset built) (neg_point (Aff (of_nat gx) (of_nat gy))) \<and> fe_is 1 1 (proj_blind built)"
    using ge_neg_is [OF g_is] assms(4) by (simp add: ecmult_gen_context_is_built_def ecmult_gen_context_build_def ecmult_gen_blind_def)
  obtain n1 rng1 where 1: "rfc6979_generate junk 32 (rfc6979_initialize junk (scalar_get_b32 (scalar_offset ctx) @ seed32)) = (n1, rng1)" by fastforce
  obtain n2 rng2 where 2: "rfc6979_generate junk 32 rng1 = (n2, rng2)" by fastforce
  have len: "length n1 = 32" "length n2 = 32" using 1 2 generate_32 [OF assms(3)] by (auto simp: Let_def)
  define f where "f = fe_impl_cmov (fe_impl_set_b32_mod n1) (fe_impl_set_int 1) (fe_impl_normalizes_to_zero (fe_impl_set_b32_mod n1))"
  define b where "b = scalar_cmov (fst (scalar_set_b32 n2)) scalar_one (scalar_is_zero (fst (scalar_set_b32 n2)))"
  have "magnitude 1 (fe_impl_set_b32_mod n1)" using set_b32_mod_spec(2,3) [OF len(1)] by (simp add: fe_tidy_def magnitude_def)
  then have f: "magnitude 1 f" "fe_val f \<noteq> 0"
    using fe_is_set_int [of 1] to_zero_iff [OF magnitude_mono [of 1 "fe_impl_set_b32_mod n1" 32]] by (auto simp: f_def cmov_spec_fe fe_is_def)
  have b: "0 < sval b" "sval b < order" using set_b32_spec(1) [OF len(2)] scalar_one_val by (auto simp: b_def cmov_spec is_zero_iff)
  have c: "ctx' = ctx \<lparr> proj_blind := f, scalar_offset := fst (scalar_add (scalar_negate b) (ecmult_gen_scalar_diff B T)),
      ge_offset := fst (ge_set_gej fe_inv (ecmult_gen B T tabs (ctx \<lparr> proj_blind := f \<rparr>) gb b)) \<rparr>"
    unfolding assms(5) ecmult_gen_blind_def Let_def option.case 1 2 prod.case f_def [symmetric] b_def [symmetric] by simp
  have n: "sval (scalar_negate b) = order - sval b" using negate_spec [OF b(2)] b(1) by simp
  have "blinded_by B T ctx' (int (sval b))" using b n c by (intro offset_blinded [OF assms(1,2), of "scalar_negate b"]) (simp_all add: of_nat_diff)
  with built b f c show ?thesis by (auto simp: ecmult_gen_context_is_built_def)
qed


definition zero_hashes :: "secp256k1_hmac_sha256 \<times> secp256k1_sha256" where
  "zero_hashes = (let h = \<lparr> sh_s = replicate 8 0, sh_buf = replicate 64 0, sh_bytes = 0 \<rparr> in (\<lparr> hm_inner = h, hm_outer = h \<rparr>, h))"

theorem ecmult_gen_blinding_witness:
  "buffers zero_hashes \<and> blinded_by 2 8 (ecmult_gen_context_build 2 8 [] id zero_hashes gej_set_infinity sample_context) (- 1) \<and>
   (\<exists>b. 0 < sval b \<and> blinded_by 2 8 (ecmult_gen_blind 2 8 [] id zero_hashes gej_set_infinity sample_context (Some (replicate 32 7))) (int (sval b)))"
proof -
  have "buffers zero_hashes" by (simp add: zero_hashes_def buffers_def Let_def)
  then show ?thesis using ecmult_gen_blinding [of 2 8 zero_hashes _ "[]" id gej_set_infinity sample_context _ "replicate 32 7"] by auto
qed

end
