(* ===== verification/Spec2Isabelle.thy ===== *)
theory Spec2Isabelle
  imports Keccak_Spec Mining Rpc_Server Node_Main Vm Wallet Ecdsa_Keys Sha256_Digest Ecmult_Gen
begin

text \<open>
  Verification development for Gambit Core, a small Ethereum-style node in C++.

  \<^bold>\<open>Program and theories.\<close> The node keeps an account table, a mempool and a chain of blocks (src/blockchain.cpp); it mines
  with an engine (src/zk_mining_engine.cpp, src/miner.cpp), gossips with peers over TCP (src/p2p_*.cpp), and rests on
  codecs and hashes. One theory models one component, in the order of the calls:

  \<^item> \<open>Gambit_Prelude\<close>: machine integers as words, exceptions as values of \<open>'a result\<close>, byte strings, big-endian and decimal
    numbers, and the interfaces: locale \<open>codec\<close> (an encoder with a throwing decoder), \<open>kv_store\<close> and \<open>canonical_store\<close> (a map
    with insertion whose contents determine it).
  \<^item> \<open>Hex\<close>, \<open>Keccak\<close>: src/hash.cpp and external/tiny-keccak/keccak.cpp; \<open>Keccak_Spec\<close> proves the code equal to the step maps of
    FIPS 202 and to the sponge construction.
  \<^item> \<open>Rlp\<close>: src/rlp.cpp, with the 64-bit sums of the decoder's checks taken modulo \<open>2 ^ 64\<close>; round trip, totality, injectivity.
  \<^item> \<open>Mpt\<close>: src/mpt.cpp, an interpretation of \<open>canonical_store\<close>; its node encoding determines its contents.
  \<^item> \<open>Address\<close>, \<open>Keys\<close>: src/address.cpp, src/keys.cpp. The curve library secp256k1 is the record \<open>secp256k1\<close> of functions, one per library
    call; what its documentation promises are the named predicates \<open>serialize_65\<close>, \<open>pubkey_exists\<close>, \<open>compact_format\<close>,
    \<open>recover_signed\<close>, \<open>pubkey_reparse\<close> and \<open>verify_signed\<close>, which \<open>plain_secp\<close> satisfies.
  \<^item> \<open>Transaction\<close>: src/transaction.cpp. \<open>Ledger\<close>: src/state.cpp, the account table as an association list in iteration order,
    refined to a transfer on a total function from addresses to accounts.
  \<^item> \<open>Zk\<close>, \<open>Bloom\<close>, \<open>Receipt\<close>, \<open>Block\<close>: src/zk.cpp, src/bloom.cpp, src/receipt.cpp, src/block.cpp.
  \<^item> \<open>Blockchain\<close>: src/blockchain.cpp. Every public operation holds the mutex for its body and is one atomic step of the
    relation \<open>chain_step\<close>; \<open>reachable\<close> closes the constructor under it, failing calls included, and \<open>chain_inv\<close> is the
    invariant by rule induction.
  \<^item> \<open>P2p\<close>: the wire format, the receive loop on the byte stream of a connection, the handlers and broadcasts.
  \<^item> \<open>Mining\<close>: the interface of mining_engine.hpp as locale \<open>mining_engine\<close> with the miner's behaviour proved in it, interpreted
    by \<open>ZkMiningEngine\<close>.
  \<^item> \<open>Seeder\<close>: src/zk_seeder.cpp, src/zk_seeder_client.cpp.
  \<^item> \<open>P2p_Node\<close>: src/dns_seed.cpp and the life of peers and node (start, connections, stop), with the closed sockets recorded.
  \<^item> \<open>Cpp_Numbers\<close>, \<open>Cpp_Strings\<close>: the parts of the standard library that turn text into numbers and back and search strings.
  \<^item> \<open>Rpc\<close>, \<open>Rpc_Text\<close>: src/rpc_server.cpp, from the bytes of an HTTP request to the answer and the chain left behind; the JSON library
    is the record \<open>json_lib\<close>. \<open>Rpc_Text\<close> holds the text helpers no request reaches any more.
    \<open>Rpc_Server\<close> is the life of the server: start, stop, accept loop and detached client threads as an interleaving of steps.
  \<^item> \<open>Node_Main\<close>: app/main.cpp, command line, genesis and the mining loop.
  \<^item> \<open>Vm\<close>: the registry of virtual machines, an interpretation of \<open>kv_store\<close>, and the plugin loader.
  \<^item> \<open>Base64\<close>, \<open>Wallet_Crypto\<close>, \<open>Mnemonic\<close>, \<open>Wallet\<close>: src/wallet.cpp in both builds of the preprocessor; OpenSSL is the record \<open>openssl\<close>
    with the predicates \<open>digest_sizes\<close> and \<open>gcm_decrypts\<close>, which \<open>plain_openssl\<close> satisfies, and \<open>std::hash\<close> is a function.
    The wallets a caller can hold are the inductive predicate \<open>wallet_reachable\<close>.
  \<^item> \<open>Sha256\<close>, \<open>Scalar\<close>, \<open>Scalar_Mul\<close>, \<open>Ecdsa\<close>: the parts of external/secp256k1/src behind \<open>keys.cpp\<close>: hash_impl.h (SHA-256, HMAC, the RFC 6979 generator),
    scalar_4x64_impl.h (limb arithmetic modulo the group order), and the signing, verification, recovery and key functions of secp256k1.c,
    ecdsa_impl.h, eckey_impl.h and modules/recovery. \<open>Sha256_Spec\<close> and \<open>Sha256_Digest\<close> compare the hashes with FIPS 180-4, RFC 2104 and RFC 6979.
    \<open>Field\<close>, \<open>Field_Ops\<close>, \<open>Field_Bytes\<close>, \<open>Field_Sqrt\<close>: field_5x52_impl.h, field_5x52_int128_impl.h and field_impl.h, five limbs of 52 bits with the bounds
    the library calls magnitude; the locale \<open>modular_multiplication\<close> carries the addition chain of the square root.
    \<open>Fp\<close> is the residue ring modulo the field prime as a type, with the rules that read a field element of some magnitude as a residue.
    \<open>Group\<close> is group_impl.h (affine and Jacobian points, their conversions and additions), \<open>Group_Law\<close> and \<open>Group_Points\<close> compare it with the
    chord-and-tangent law. The law is the relation \<open>point_add\<close>, which asks for a slope and an invertible denominator, because that the field
    prime is prime is not proved here; of prime fields these hold for all points of the curve.
    \<open>Scalar_Bits\<close>, \<open>Wnaf\<close>, \<open>Split_Lambda\<close>: bit access of scalars, the decomposition for the endomorphism and the recoding into signed digits (scalar_4x64_impl.h, scalar_impl.h,
    ecmult_impl.h); the recoding loop is a partial function shown to end. \<open>Ecmult_Table\<close>: tables of odd multiples with one common denominator, and the endomorphism on points.
    \<open>Ecmult\<close> is \<open>secp256k1_ecmult\<close>, which multiplies one point and the generator. It is compared with \<open>horner\<close>, double-and-add in the group law along the digits:
    that this is the multiple by the scalar needs the associativity of the group law, and so the primality of the field prime, which is not proved.
    The two windows and the precomputed tables of the generator are arguments; several points at once, Pippenger and \<open>ecmult_const\<close> are not modelled.
    \<open>Ecmult_Gen\<close> is ecmult_gen_impl.h, the comb that multiplies the generator for keys and nonces, with its blinding: the digits are shown to stand for the scalar, and the loops
    to follow \<open>comb\<close> in the group law. Blocks, teeth and the precomputed tables are arguments.
    In \<open>Ecdsa\<close> points and the modular inverse are the record \<open>curve\<close> with the laws \<open>curve_laws\<close> and \<open>inverts_on\<close>, kept by \<open>residue_curve\<close>.
    \<open>Ecdsa_Keys\<close> fills the record of \<open>Keys\<close> with these functions and proves of them what \<open>Keys\<close> assumes.
  This theory holds the properties that span the whole path from a sender to another node's chain.

  \<^bold>\<open>Conventions.\<close> An exception is \<open>Inl\<close>; an operation that may throw after it changed its object returns the outcome and the object.
  \<open>Undefined\<close> marks executions without a defined C++ meaning (an out-of-range copy, \<open>back()\<close> of an empty
  vector); in a decoder run by a handler that catches every exception it is treated like one. Clock readings, generator outputs and sockets are arguments. \<open>std::string\<close> is \<open>string\<close>, a byte vector is a list
  of \<open>8 word\<close>, fixed-width integers are words. Sizes of vectors are natural numbers; a bound \<open>2 ^ 64\<close> in a
  hypothesis is the size every vector has. Hash collisions are explicit: a theorem about hashed values names the two strings.

  \<^bold>\<open>Recursion.\<close> All loops are total functions but three partial functions in the option monad, with theorems on when they return: the rejection loop of \<open>KeyPair::random\<close> and
  the signing loop of the curve library, which may run forever, and the recoding loop of \<open>ecmult_wnaf\<close>, which ends.

  \<^bold>\<open>Not modelled.\<close> Console output, sleeping and the Windows variants; the vendored JSON parser and OpenSSL sources (the build links the
  system's OpenSSL); of the curve library the modular inverse, whose result rests on a bound on its division steps that was found by computation, the precomputed
  tables, multiplication of several points, the assembly and 32-bit variants and what the node never calls (DER, key tweaks, other modules).
  The execute methods of the virtual machines have no body in the source.
\<close>

section \<open>Gossip between nodes\<close>

text \<open>
  A node that reads a peer's bytes runs \<open>onMessage\<close> on every message the receive loop cuts out of them.
\<close>

definition receive_bytes :: "secp256k1 \<Rightarrow> bytes \<Rightarrow> Blockchain \<Rightarrow> Blockchain" where
  "receive_bytes S inp bc = fold (onMessage S) (fst (recvLoop inp)) bc"



lemma recvLoop_single:
  "wf_msg m \<Longrightarrow> msg_payload m \<noteq> [] \<Longrightarrow> receive_bytes S (msgEncode m) bc = onMessage S m bc"
  using recvLoop_msgEncode [of m "[]"] by (simp add: receive_bytes_def)



text \<open>
  C31. Block gossip does not work (src/block.cpp, src/zk.cpp, src/p2p_node.cpp, src/blockchain.cpp): when a node broadcasts a block with a
  verifying proof over a non-empty state root, as every mined block is, the receiver's chain is unchanged,
  whatever that chain is, unless two different strings with the same Keccak digest exist at hand. With
  transactions in the block the decoder throws; without, the proof check fails because its roots were not sent.
\<close>

theorem gossiped_block_ignored:
  assumes "newBlockMessage b = Inr msg" and "length (msg_payload msg) < 2 ^ 32"
    and "zkVerify (blk_proof b)" and "zk_stateBefore (blk_proof b) \<noteq> []"
  shows "receive_bytes S (msgEncode msg) bc = bc \<or>
    (zk_proof (blk_proof b) @ ''|||'' \<noteq> zk_preimage (blk_proof b) \<and>
     keccak256_str (zk_proof (blk_proof b) @ ''|||'') = keccak256_str (zk_preimage (blk_proof b)))"
proof -
  from assms(1) obtain enc where enc: "blockEncode b = Inr enc"
    and msg: "msg = \<lparr> msg_type = NEW_BLOCK, msg_payload = bytes_of_string (''0x'' @ toHex enc) \<rparr>"
    by (auto simp: newBlockMessage_def blockToHex_def bindR_Inr_iff)
  have len: "length enc < 2 ^ 64" using assms(2) by (simp add: msg)
  have "receive_bytes S (msgEncode msg) bc = handleNewBlock S msg bc"
    using assms(2) by (subst recvLoop_single) (auto simp: msg wf_msg_def wf_type_def onMessage_def bytes_of_string_def)
  also have "\<dots> = (case wire_result b of Inl e \<Rightarrow> bc | Inr block \<Rightarrow> snd (addBlock block bc))"
    using decode_block_item(2) [OF enc len] by (simp add: handleNewBlock_def msg)
  also have "\<dots> = bc \<or> zkVerify (blk_proof (wire_view b))"
    by (auto simp: wire_result_def addBlock_def)
  finally show ?thesis using wire_proof_collides [OF assms(3,4)] by blast
qed

theorem gossiped_block_ignored_witness:
  "\<exists>msg. newBlockMessage (newBlock 1 1 ''0x00'' ''0xaa'' ''0xbb'' ''0x00'' (zkGenerate ''0xaa'' ''0xbb'' ''0x00'')) = Inr msg \<and>
     (receive_bytes plain_secp (msgEncode msg) \<lparr> bc_chain = [], bc_state = [], bc_mempool = [], bc_chainId = 1 \<rparr> =
       \<lparr> bc_chain = [], bc_state = [], bc_mempool = [], bc_chainId = 1 \<rparr> \<or> (\<exists>x y. x \<noteq> y \<and> keccak256_str x = keccak256_str y))"
proof -
  let ?p = "zkGenerate ''0xaa'' ''0xbb'' ''0x00''"
  let ?b = "newBlock 1 1 ''0x00'' ''0xaa'' ''0xbb'' ''0x00'' ?p"
  obtain enc where enc: "blockEncode ?b = Inr enc" "length enc < 9000" using demo_block_encodes by blast
  let ?msg = "\<lparr> msg_type = NEW_BLOCK, msg_payload = bytes_of_string (''0x'' @ toHex enc) \<rparr>"
  have "newBlockMessage ?b = Inr ?msg" using enc(1) by (simp add: newBlockMessage_def blockToHex_def)
  moreover have "length (msg_payload ?msg) < 2 ^ 32" using enc(2) by simp
  moreover have "zkVerify (blk_proof ?b)" "zk_stateBefore (blk_proof ?b) \<noteq> []"
    by (simp_all add: newBlock_def Let_def zkGenerate_def zkVerify_def)
  ultimately show ?thesis using gossiped_block_ignored [of ?b ?msg plain_secp] by blast
qed

end
